(* ===== verification/Prelude.thy ===== *)
theory Prelude
  imports Main "HOL-Library.List_Lexorder" "HOL-Library.Char_ord" "HOL-Library.AList"
    "HOL-Library.Multiset" "HOL-Library.Sublist"
begin

text \<open>
  Shared vocabulary of the development: Go strings and byte slices as \<open>string\<close> (a
  character is a byte), Go maps as association lists whose order is the iteration order
  the runtime happens to pick, fallible code as \<open>'e + 'a\<close>, the string helpers of the
  standard library that the program calls (strings.HasPrefix, ContainsAny, TrimSpace,
  TrimRight, strconv.Itoa, strconv.ParseInt), and the list and map lemmas the components
  share.
\<close>

named_theorems go_defs \<open>definitions of the small helpers, for unfolding\<close>
named_theorems frame \<open>what an operation leaves unchanged\<close>

section \<open>Results\<close>

text \<open>\<open>Inl e\<close> is an error return, \<open>Inr x\<close> a result. \<open>bindE\<close> is Go's early return.\<close>

definition bindE :: "'e + 'a \<Rightarrow> ('a \<Rightarrow> 'e + 'b) \<Rightarrow> 'e + 'b" where
  "bindE r f = (case r of Inl e \<Rightarrow> Inl e | Inr x \<Rightarrow> f x)"

definition is_ok :: "'e + 'a \<Rightarrow> bool" where
  "is_ok r = (case r of Inl _ \<Rightarrow> False | Inr _ \<Rightarrow> True)"

section \<open>Bytes\<close>

abbreviation code :: "char \<Rightarrow> nat" where
  "code c \<equiv> of_char c"

definition is_digit :: "char \<Rightarrow> bool" where
  "is_digit c = (48 \<le> code c \<and> code c \<le> 57)"

abbreviation bslash :: char where
  "bslash \<equiv> CHR 0x5C"

abbreviation dquote :: char where
  "dquote \<equiv> CHR 0x22"

abbreviation newline :: char where
  "newline \<equiv> CHR 0x0A"

abbreviation cr :: char where
  "cr \<equiv> CHR 0x0D"

section \<open>The strings package\<close>

definition has_prefix :: "string \<Rightarrow> string \<Rightarrow> bool" where
  "has_prefix s p = (take (length p) s = p)"

definition has_suffix :: "string \<Rightarrow> string \<Rightarrow> bool" where
  "has_suffix s p = has_prefix (rev s) (rev p)"

definition contains_any :: "string \<Rightarrow> string \<Rightarrow> bool" where
  "contains_any s cs = list_ex (\<lambda>c. c \<in> set cs) s"

definition trim_left_set :: "(char \<Rightarrow> bool) \<Rightarrow> string \<Rightarrow> string" where
  "trim_left_set p s = dropWhile p s"

definition trim_right_set :: "(char \<Rightarrow> bool) \<Rightarrow> string \<Rightarrow> string" where
  "trim_right_set p s = rev (dropWhile p (rev s))"

definition trim_set :: "(char \<Rightarrow> bool) \<Rightarrow> string \<Rightarrow> string" where
  "trim_set p s = trim_right_set p (trim_left_set p s)"

section \<open>strconv: decimal integers\<close>

definition digit :: "nat \<Rightarrow> char" where
  "digit n = char_of (48 + n)"

definition digit_val :: "char \<Rightarrow> nat" where
  "digit_val c = code c - 48"

fun show_nat :: "nat \<Rightarrow> string" where
  "show_nat n = (if n < 10 then [digit n] else show_nat (n div 10) @ [digit (n mod 10)])"

declare show_nat.simps [simp del]

definition show_int :: "int \<Rightarrow> string" where
  "show_int i = (if i < 0 then CHR ''-'' # show_nat (nat (- i)) else show_nat (nat i))"

definition nat_of_digits :: "string \<Rightarrow> nat" where
  "nat_of_digits s = foldl (\<lambda>n c. 10 * n + digit_val c) 0 s"

text \<open>
  strconv.ParseInt(s, 10, bits): an optional sign, then decimal digits, then the range
  check of the width; \<open>None\<close> is any error.
\<close>

definition split_sign :: "string \<Rightarrow> bool \<times> string" where
  "split_sign s = (case s of [] \<Rightarrow> (False, []) |
     c # r \<Rightarrow> if c = CHR ''-'' then (True, r) else if c = CHR ''+'' then (False, r) else (False, s))"

definition parse_int :: "nat \<Rightarrow> string \<Rightarrow> int option" where
  "parse_int bits s =
     (let (neg, ds) = split_sign s; n = nat_of_digits ds in
      if ds = [] \<or> \<not> list_all is_digit ds then None
      else if neg then (if n \<le> 2 ^ (bits - 1) then Some (- int n) else None)
      else if n < 2 ^ (bits - 1) then Some (int n) else None)"

section \<open>Go maps\<close>

text \<open>
  A Go map with string keys is an association list with distinct keys. The order of the
  list stands for the order in which a \<open>range\<close> loop visits the map, which Go leaves
  unspecified: a statement about every order is a statement about every permutation.
\<close>

type_synonym 'v gomap = "(string \<times> 'v) list"

definition keys :: "'v gomap \<Rightarrow> string list" where
  "keys m = map fst m"

definition gm_ok :: "'v gomap \<Rightarrow> bool" where
  "gm_ok m = distinct (map fst m)"

definition sorted_keys :: "'v gomap \<Rightarrow> string list" where
  "sorted_keys m = sort (map fst m)"

definition sort_map :: "'v gomap \<Rightarrow> 'v gomap" where
  "sort_map m = sort_key fst m"

definition same_map :: "'v gomap \<Rightarrow> 'v gomap \<Rightarrow> bool" where
  "same_map m m' = (mset m = mset m')"

text \<open>Inserting a list of entries one by one, as a decoder fills a map: the last value of a
  repeated key wins.\<close>

definition dedup :: "'v gomap \<Rightarrow> 'v gomap" where
  "dedup kvs = foldl (\<lambda>m (k, v). AList.update k v m) [] kvs"

section \<open>Lemmas\<close>

lemma bindE_simps [simp]: "bindE (Inl e) f = Inl e" "bindE (Inr x) f = f x"
  by (simp_all add: bindE_def)

lemma bindE_eq_Inr: "bindE r f = Inr y \<longleftrightarrow> (\<exists>x. r = Inr x \<and> f x = Inr y)"
  by (cases r) auto

lemma bindE_eq_Inl: "bindE r f = Inl e \<longleftrightarrow> r = Inl e \<or> (\<exists>x. r = Inr x \<and> f x = Inl e)"
  by (cases r) auto

lemma is_ok_simps [simp]: "is_ok (Inl e) = False" "is_ok (Inr x) = True"
  by (simp_all add: is_ok_def)

lemma is_ok_iff: "is_ok r \<longleftrightarrow> (\<exists>x. r = Inr x)"
  by (cases r) auto

lemma code_less [simp]: "code c < 256"
  by (metis mod_less_divisor of_char_mod_256 zero_less_numeral)

lemma code_char_of [simp]: "n < 256 \<Longrightarrow> code (char_of n) = (n :: nat)"
  by (simp add: of_char_of)

lemma code_inj: "code a = code b \<Longrightarrow> a = b"
  by simp

lemma has_prefix_append [simp]: "has_prefix (p @ s) p"
  by (simp add: has_prefix_def)

lemma has_prefix_iff: "has_prefix s p \<longleftrightarrow> (\<exists>t. s = p @ t)"
  by (metis append_eq_conv_conj append_take_drop_id has_prefix_def)

subsection \<open>Decimal printing and reading\<close>

lemma digit_val_digit [simp]: "n < 10 \<Longrightarrow> digit_val (digit n) = n"
  by (simp add: digit_val_def digit_def)

lemma is_digit_digit [simp]: "n < 10 \<Longrightarrow> is_digit (digit n)"
  by (simp add: is_digit_def digit_def)

lemma nat_of_digits_snoc: "nat_of_digits (s @ [c]) = 10 * nat_of_digits s + digit_val c"
  by (simp add: nat_of_digits_def)

lemma nat_of_digits_show [simp]: "nat_of_digits (show_nat n) = n"
proof (induction n rule: show_nat.induct)
  case (1 n)
  then show ?case
    by (cases "n < 10")
       (simp_all add: show_nat.simps [of n] nat_of_digits_snoc, simp add: nat_of_digits_def)
qed

lemma show_nat_digits: "list_all is_digit (show_nat n)"
  by (induction n rule: show_nat.induct) (subst show_nat.simps, simp)

lemma show_nat_nonempty [simp]: "show_nat n \<noteq> []"
  by (subst show_nat.simps) simp

lemma show_nat_inj: "show_nat m = show_nat n \<Longrightarrow> m = n"
  by (metis nat_of_digits_show)

lemma is_digit_not_sign: "is_digit c \<Longrightarrow> c \<noteq> CHR ''-'' \<and> c \<noteq> CHR ''+''"
  by (auto simp: is_digit_def)

lemma show_nat_hd_digit: "is_digit (hd (show_nat n))"
  using show_nat_digits [of n] by (cases "show_nat n") (auto simp: show_nat_nonempty)

lemma split_sign_show_nat [simp]: "split_sign (show_nat n) = (False, show_nat n)"
  using show_nat_hd_digit [of n] show_nat_nonempty [of n]
  by (cases "show_nat n") (auto simp: split_sign_def dest: is_digit_not_sign)

lemma parse_int_show:
  assumes "- (2 ^ (b - 1)) \<le> i" and "i < 2 ^ (b - 1)"
  shows "parse_int b (show_int i) = Some i"
proof (cases "i < 0")
  case True
  then have "nat (- i) \<le> 2 ^ (b - 1)"
    using assms(1) by (simp add: nat_le_iff)
  then show ?thesis
    using True by (simp add: parse_int_def show_int_def split_sign_def show_nat_digits)
next
  case False
  then have "nat i < 2 ^ (b - 1)"
    using assms(2) by (simp add: nat_less_iff)
  then show ?thesis
    using False by (simp add: parse_int_def show_int_def show_nat_digits)
qed

lemma show_int_inj: "show_int i = show_int j \<Longrightarrow> i = j"
proof -
  assume eq: "show_int i = show_int j"
  have hd: "hd (show_nat n) \<noteq> CHR ''-''" for n
    using show_nat_hd_digit [of n] is_digit_not_sign by blast
  show "i = j"
  proof (cases "i < 0 \<longleftrightarrow> j < 0")
    case True
    then show ?thesis
      using eq by (auto simp: show_int_def dest!: show_nat_inj split: if_splits)
  next
    case False
    then have "\<exists>n. hd (show_nat n) = CHR ''-''"
      using eq by (auto simp: show_int_def split: if_splits) (metis list.sel(1))+
    then show ?thesis using hd by blast
  qed
qed

subsection \<open>Maps and their orders\<close>

lemma gm_ok_perm: "mset m = mset m' \<Longrightarrow> gm_ok m \<longleftrightarrow> gm_ok m'"
  by (metis gm_ok_def mset_eq_imp_distinct_iff mset_map)

lemma sorted_keys_perm: "mset m = mset m' \<Longrightarrow> sorted_keys m = sorted_keys m'"
  by (metis mset_map properties_for_sort sorted_keys_def sorted_sort mset_sort)

lemma map_of_perm: "gm_ok m \<Longrightarrow> mset m = mset m' \<Longrightarrow> map_of m = map_of m'"
  by (metis gm_ok_def gm_ok_perm map_of_inject_set mset_eq_setD)

lemma sort_map_perm [simp]: "mset (sort_map m) = mset m"
  by (simp add: sort_map_def)

lemma sort_map_eq_iff:
  assumes "gm_ok m"
  shows "sort_map m = sort_map m' \<longleftrightarrow> mset m = mset m'"
proof
  assume "sort_map m = sort_map m'"
  then show "mset m = mset m'" by (metis sort_map_perm)
next
  assume *: "mset m = mset m'"
  have d: "distinct (map fst (sort_map m))" and d': "distinct (map fst (sort_map m'))"
    using assms * by (metis gm_ok_def gm_ok_perm sort_map_perm)+
  have "sorted (map fst (sort_map m))" and "sorted (map fst (sort_map m'))"
    by (simp_all add: sort_map_def)
  moreover have "set (sort_map m) = set (sort_map m')"
    using * by (metis mset_eq_setD sort_map_perm)
  ultimately show "sort_map m = sort_map m'"
    using d d' by (intro map_sorted_distinct_set_unique [of fst])
      (auto simp: distinct_map inj_on_def, (metis fst_conv)?)
qed

lemma gm_ok_sort_map [simp]: "gm_ok (sort_map m) = gm_ok m"
  by (rule gm_ok_perm) simp

lemma map_fst_sort_map: "map fst (sort_map m) = sorted_keys m"
  unfolding sort_map_def sorted_keys_def
  by (metis mset_map mset_sort properties_for_sort sorted_sort_key)

lemma dedup_ok [simp]: "gm_ok (dedup kvs)"
proof -
  have "distinct (map fst m) \<Longrightarrow>
      distinct (map fst (foldl (\<lambda>m (k, v). AList.update k v m) m kvs))" for m :: "'a gomap"
    by (induction kvs arbitrary: m) (auto simp: distinct_update split: prod.splits)
  from this [of "[]"] show ?thesis by (simp add: gm_ok_def dedup_def)
qed

lemma update_append: "k \<notin> fst ` set m \<Longrightarrow> AList.update k v m = m @ [(k, v)]"
  by (induction m) auto

lemma dedup_id: "gm_ok kvs \<Longrightarrow> dedup kvs = kvs"
proof -
  have "distinct (map fst (m @ kvs)) \<Longrightarrow>
      foldl (\<lambda>m (k, v). AList.update k v m) m kvs = m @ kvs" for m :: "'a gomap"
  proof (induction kvs arbitrary: m)
    case (Cons kv kvs)
    then show ?case
      by (cases kv) (auto simp: update_append)
  qed simp
  from this [of "[]"] show "gm_ok kvs \<Longrightarrow> dedup kvs = kvs"
    by (simp add: gm_ok_def dedup_def)
qed

lemma list_all_perm: "mset xs = mset ys \<Longrightarrow> list_all P xs = list_all P ys"
  by (metis list_all_iff mset_eq_setD)

end
