(* ===== verification/Json.thy ===== *)
theory Json
  imports Prelude
begin

text \<open>
  The part of the standard library's encoding/json and unicode/utf8 that the program
  relies on: UTF-8 validity of a byte string, the string literals the encoder writes
  (with and without HTML escaping) and the decoder reads, the value parser with its
  nesting limit, the printer, and the generic decoding into \<open>any\<close>. Syntax trees keep
  repeated keys and the spelling of numbers, because the program inspects both.

  The interface \<open>json_quoter\<close> states what a way of quoting strings must satisfy; a
  printer over any such quoting is read back exactly (\<open>pv_print\<close>) and is injective.
\<close>

section \<open>Syntax trees\<close>

datatype json =
    JNull
  | JBool bool
  | JNum string
  | JStr string
  | JArr "json list"
  | JObj "(string \<times> json) list"

section \<open>UTF-8\<close>

definition in_range :: "nat \<Rightarrow> nat \<Rightarrow> char \<Rightarrow> bool" where
  "in_range lo hi c = (lo \<le> code c \<and> code c \<le> hi)"

fun valid2 :: "string \<Rightarrow> bool" where
  "valid2 (a # b # _) = (in_range 0xC2 0xDF a \<and> in_range 0x80 0xBF b)"
| "valid2 _ = False"

fun valid3 :: "string \<Rightarrow> bool" where
  "valid3 (a # b # c # _) =
     (((code a = 0xE0 \<and> in_range 0xA0 0xBF b) \<or> (in_range 0xE1 0xEC a \<and> in_range 0x80 0xBF b)
       \<or> (code a = 0xED \<and> in_range 0x80 0x9F b) \<or> (in_range 0xEE 0xEF a \<and> in_range 0x80 0xBF b))
      \<and> in_range 0x80 0xBF c)"
| "valid3 _ = False"

fun valid4 :: "string \<Rightarrow> bool" where
  "valid4 (a # b # c # d # _) =
     (((code a = 0xF0 \<and> in_range 0x90 0xBF b) \<or> (in_range 0xF1 0xF3 a \<and> in_range 0x80 0xBF b)
       \<or> (code a = 0xF4 \<and> in_range 0x80 0x8F b))
      \<and> in_range 0x80 0xBF c \<and> in_range 0x80 0xBF d)"
| "valid4 _ = False"

text \<open>utf8.DecodeRune on a byte of at least 0x80: the size of the valid encoding at the
  head, 0 where DecodeRune answers (RuneError, 1).\<close>

definition rune_len :: "string \<Rightarrow> nat" where
  "rune_len s = (if valid2 s then 2 else if valid3 s then 3 else if valid4 s then 4 else 0)"

datatype rune = Asc char | Multi string | Bad char

function runes :: "string \<Rightarrow> rune list" where
  "runes [] = []"
| "runes (c # cs) =
     (if code c < 128 then Asc c # runes cs
      else (let n = rune_len (c # cs) in
            if n = 0 then Bad c # runes cs
            else Multi (take n (c # cs)) # runes (drop (n - 1) cs)))"
  by pat_completeness auto
termination
  by (relation "measure length") auto

definition is_good :: "rune \<Rightarrow> bool" where
  "is_good r = (case r of Bad _ \<Rightarrow> False | _ \<Rightarrow> True)"

definition valid_utf8 :: "string \<Rightarrow> bool" where
  "valid_utf8 s = list_all is_good (runes s)"

text \<open>U+FFFD, and the encodings of U+2028 and U+2029.\<close>

definition fffd :: string where
  "fffd = [CHR 0xEF, CHR 0xBF, CHR 0xBD]"

definition u2028 :: string where
  "u2028 = [CHR 0xE2, CHR 0x80, CHR 0xA8]"

definition u2029 :: string where
  "u2029 = [CHR 0xE2, CHR 0x80, CHR 0xA9]"

text \<open>utf8.EncodeRune.\<close>

definition encode_rune :: "nat \<Rightarrow> string" where
  "encode_rune v =
     (if v < 0x80 then [char_of v]
      else if v < 0x800 then [char_of (0xC0 + v div 64), char_of (0x80 + v mod 64)]
      else if v < 0x10000 then
        [char_of (0xE0 + v div 4096), char_of (0x80 + v div 64 mod 64), char_of (0x80 + v mod 64)]
      else [char_of (0xF0 + v div 262144), char_of (0x80 + v div 4096 mod 64),
            char_of (0x80 + v div 64 mod 64), char_of (0x80 + v mod 64)])"

section \<open>String literals\<close>

definition hexdig :: "nat \<Rightarrow> char" where
  "hexdig n = ''0123456789abcdef'' ! n"

definition hexval :: "char \<Rightarrow> nat option" where
  "hexval c =
     (if 48 \<le> code c \<and> code c \<le> 57 then Some (code c - 48)
      else if 97 \<le> code c \<and> code c \<le> 102 then Some (code c - 97 + 10)
      else if 65 \<le> code c \<and> code c \<le> 70 then Some (code c - 65 + 10)
      else None)"

fun hex4 :: "string \<Rightarrow> nat option" where
  "hex4 (a # b # c # d # _) =
     (case (hexval a, hexval b, hexval c, hexval d) of
        (Some w, Some x, Some y, Some z) \<Rightarrow> Some (((w * 16 + x) * 16 + y) * 16 + z)
      | _ \<Rightarrow> None)"
| "hex4 _ = None"

text \<open>What the encoder writes for one byte below 0x80 (\<open>h\<close>: SetEscapeHTML).\<close>

definition esc_ascii :: "bool \<Rightarrow> char \<Rightarrow> string" where
  "esc_ascii h c =
     (if c = bslash \<or> c = dquote then [bslash, c]
      else if code c = 8 then [bslash, CHR ''b'']
      else if code c = 12 then [bslash, CHR ''f'']
      else if code c = 10 then [bslash, CHR ''n'']
      else if code c = 13 then [bslash, CHR ''r'']
      else if code c = 9 then [bslash, CHR ''t'']
      else if code c < 32 \<or> (h \<and> c \<in> {CHR ''<'', CHR ''>'', CHR ''&''}) then
        bslash # ''u00'' @ [hexdig (code c div 16), hexdig (code c mod 16)]
      else [c])"

fun quote_rune :: "bool \<Rightarrow> rune \<Rightarrow> string" where
  "quote_rune h (Asc c) = esc_ascii h c"
| "quote_rune h (Multi bs) =
     (if bs = u2028 then bslash # ''u2028'' else if bs = u2029 then bslash # ''u2029'' else bs)"
| "quote_rune h (Bad c) = bslash # ''ufffd''"

definition go_quote :: "bool \<Rightarrow> string \<Rightarrow> string" where
  "go_quote h s = concat (map (quote_rune h) (runes s))"

text \<open>The decoder's reading of a literal, after the opening quote: the decoded bytes and
  the input after the closing quote.\<close>

definition simple_escape :: "char \<Rightarrow> char option" where
  "simple_escape e =
     (if e = dquote \<or> e = bslash \<or> e = CHR ''/'' then Some e
      else if e = CHR ''b'' then Some (CHR 0x08) else if e = CHR ''f'' then Some (CHR 0x0C)
      else if e = CHR ''n'' then Some (CHR 0x0A) else if e = CHR ''r'' then Some (CHR 0x0D)
      else if e = CHR ''t'' then Some (CHR 0x09) else None)"

definition prep :: "string \<Rightarrow> (string \<times> string) option \<Rightarrow> (string \<times> string) option" where
  "prep p r = (case r of None \<Rightarrow> None | Some (s, t) \<Rightarrow> Some (p @ s, t))"

text \<open>\<open>getu4\<close> on an escape that follows.\<close>

definition next_u4 :: "string \<Rightarrow> nat option" where
  "next_u4 s = (case s of a # b # r \<Rightarrow> if a = bslash \<and> b = CHR ''u'' then hex4 r else None | _ \<Rightarrow> None)"

text \<open>utf16.DecodeRune on a high surrogate and what follows it.\<close>

definition pair_with :: "nat \<Rightarrow> string \<Rightarrow> nat option" where
  "pair_with v es =
     (if 0xD800 \<le> v \<and> v < 0xDC00 then
        (case next_u4 es of
           Some w \<Rightarrow> if 0xDC00 \<le> w \<and> w < 0xE000 then Some ((v - 0xD800) * 1024 + (w - 0xDC00) + 0x10000) else None
         | None \<Rightarrow> None)
      else None)"

function unq :: "string \<Rightarrow> (string \<times> string) option" where
  "unq [] = None"
| "unq (c # cs) =
     (if c = dquote then Some ([], cs)
      else if c = bslash then
        (case cs of [] \<Rightarrow> None
         | e # ds \<Rightarrow>
            if e = CHR ''u'' then
              (case hex4 ds of None \<Rightarrow> None
               | Some v \<Rightarrow>
                  if 0xD800 \<le> v \<and> v < 0xE000 then
                    (case pair_with v (drop 4 ds) of
                       Some r \<Rightarrow> prep (encode_rune r) (unq (drop 10 ds))
                     | None \<Rightarrow> prep fffd (unq (drop 4 ds)))
                  else prep (encode_rune v) (unq (drop 4 ds)))
            else (case simple_escape e of None \<Rightarrow> None | Some x \<Rightarrow> prep [x] (unq ds)))
      else if code c < 32 then None
      else if code c < 128 then prep [c] (unq cs)
      else (let n = rune_len (c # cs) in
            if n = 0 then prep fffd (unq cs)
            else prep (take n (c # cs)) (unq (drop (n - 1) cs))))"
  by pat_completeness auto
termination
  by (relation "measure length") auto

declare unq.simps(2) [simp del]

section \<open>Numbers\<close>

definition lex_int :: "string \<Rightarrow> (string \<times> string) option" where
  "lex_int s = (case s of [] \<Rightarrow> None
     | c # r \<Rightarrow> if c = CHR ''0'' then Some ([c], r)
                else if is_digit c then Some (takeWhile is_digit s, dropWhile is_digit s) else None)"

definition lex_frac :: "string \<Rightarrow> (string \<times> string) option" where
  "lex_frac s = (case s of [] \<Rightarrow> Some ([], s)
     | c # r \<Rightarrow> if c \<noteq> CHR ''.'' then Some ([], s)
                else if takeWhile is_digit r = [] then None
                else Some (c # takeWhile is_digit r, dropWhile is_digit r))"

definition split_exp_sign :: "string \<Rightarrow> string \<times> string" where
  "split_exp_sign s = (case s of [] \<Rightarrow> ([], s)
     | c # r \<Rightarrow> if c = CHR ''+'' \<or> c = CHR ''-'' then ([c], r) else ([], s))"

definition lex_exp :: "string \<Rightarrow> (string \<times> string) option" where
  "lex_exp s = (case s of [] \<Rightarrow> Some ([], s)
     | c # r \<Rightarrow> if c \<noteq> CHR ''e'' \<and> c \<noteq> CHR ''E'' then Some ([], s)
                else (let (sg, ds) = split_exp_sign r in
                      if takeWhile is_digit ds = [] then None
                      else Some (c # sg @ takeWhile is_digit ds, dropWhile is_digit ds)))"

definition lex_num :: "string \<Rightarrow> (string \<times> string) option" where
  "lex_num s =
     (let (sg, r0) = (case s of [] \<Rightarrow> ([], s) | c # r \<Rightarrow> if c = CHR ''-'' then ([c], r) else ([], s)) in
      case lex_int r0 of None \<Rightarrow> None
      | Some (i, r1) \<Rightarrow> (case lex_frac r1 of None \<Rightarrow> None
         | Some (f, r2) \<Rightarrow> (case lex_exp r2 of None \<Rightarrow> None
            | Some (e, r3) \<Rightarrow> Some (sg @ i @ f @ e, r3))))"

section \<open>Values\<close>

definition is_ws :: "char \<Rightarrow> bool" where
  "is_ws c = (c = CHR '' '' \<or> c = CHR 0x09 \<or> c = CHR 0x0D \<or> c = CHR 0x0A)"

definition skip_ws :: "string \<Rightarrow> string" where
  "skip_ws s = dropWhile is_ws s"

definition map_res :: "('a \<Rightarrow> 'b) \<Rightarrow> ('a \<times> string) option \<Rightarrow> ('b \<times> string) option" where
  "map_res f r = (case r of None \<Rightarrow> None | Some (x, t) \<Rightarrow> Some (f x, t))"

definition plit :: "string \<Rightarrow> json \<Rightarrow> string \<Rightarrow> (json \<times> string) option" where
  "plit w v s = (if has_prefix s w then Some (v, drop (length w) s) else None)"

text \<open>
  The value parser. \<open>n\<close> is fuel, one unit per call: at most two calls are made per
  character consumed, so two units per character and two more are always enough
  (\<open>decode_stream_fuel\<close>). \<open>d\<close> is the nesting the scanner still allows (its limit is 10000).
\<close>

fun pv :: "nat \<Rightarrow> nat \<Rightarrow> string \<Rightarrow> (json \<times> string) option"
and pelems :: "nat \<Rightarrow> nat \<Rightarrow> string \<Rightarrow> (json list \<times> string) option"
and pmembers :: "nat \<Rightarrow> nat \<Rightarrow> string \<Rightarrow> ((string \<times> json) list \<times> string) option" where
  "pv 0 d s = None"
| "pv (Suc n) d s =
     (case skip_ws s of [] \<Rightarrow> None
      | c # r \<Rightarrow>
         if c = CHR ''{'' then
           (if d = 0 then None
            else (case skip_ws r of [] \<Rightarrow> None
                  | x # r' \<Rightarrow> if x = CHR ''}'' then Some (JObj [], r') else map_res JObj (pmembers n (d - 1) r)))
         else if c = CHR ''['' then
           (if d = 0 then None
            else (case skip_ws r of [] \<Rightarrow> None
                  | x # r' \<Rightarrow> if x = CHR '']'' then Some (JArr [], r') else map_res JArr (pelems n (d - 1) r)))
         else if c = dquote then map_res JStr (unq r)
         else if c = CHR ''t'' then plit ''rue'' (JBool True) r
         else if c = CHR ''f'' then plit ''alse'' (JBool False) r
         else if c = CHR ''n'' then plit ''ull'' JNull r
         else map_res JNum (lex_num (c # r)))"
| "pelems 0 d s = None"
| "pelems (Suc n) d s =
     (case pv n d s of None \<Rightarrow> None
      | Some (v, r) \<Rightarrow>
         (case skip_ws r of [] \<Rightarrow> None
          | x # r' \<Rightarrow> if x = CHR '']'' then Some ([v], r')
                     else if x = CHR '','' then map_res ((#) v) (pelems n d r') else None))"
| "pmembers 0 d s = None"
| "pmembers (Suc n) d s =
     (case skip_ws s of [] \<Rightarrow> None
      | c # r \<Rightarrow> if c \<noteq> dquote then None
         else (case unq r of None \<Rightarrow> None
          | Some (k, r1) \<Rightarrow>
             (case skip_ws r1 of [] \<Rightarrow> None
              | c1 # r2 \<Rightarrow> if c1 \<noteq> CHR '':'' then None
                 else (case pv n d r2 of None \<Rightarrow> None
                  | Some (v, r3) \<Rightarrow>
                     (case skip_ws r3 of [] \<Rightarrow> None
                      | x # r4 \<Rightarrow> if x = CHR ''}'' then Some ([(k, v)], r4)
                         else if x = CHR '','' then map_res ((#) (k, v)) (pmembers n d r4) else None)))))"

definition max_depth :: nat where
  "max_depth = 10000"

text \<open>json.Decoder.Decode: one value and the input left in the stream.\<close>

definition decode_stream :: "string \<Rightarrow> (json \<times> string) option" where
  "decode_stream s = pv (2 * length s + 2) max_depth s"

text \<open>json.Unmarshal: the whole input is one value.\<close>

definition unmarshal :: "string \<Rightarrow> json option" where
  "unmarshal s = (case decode_stream s of None \<Rightarrow> None
     | Some (v, r) \<Rightarrow> if skip_ws r = [] then Some v else None)"

text \<open>json.Decoder.More: the next character that is not space exists and does not close
  an array or an object.\<close>

definition dec_more :: "string \<Rightarrow> bool" where
  "dec_more rest = (case skip_ws rest of [] \<Rightarrow> False | c # _ \<Rightarrow> c \<noteq> CHR '']'' \<and> c \<noteq> CHR ''}'')"

section \<open>Printing\<close>

fun print_json :: "(string \<Rightarrow> string) \<Rightarrow> json \<Rightarrow> string"
and print_elems :: "(string \<Rightarrow> string) \<Rightarrow> json list \<Rightarrow> string"
and print_members :: "(string \<Rightarrow> string) \<Rightarrow> (string \<times> json) list \<Rightarrow> string" where
  "print_json q JNull = ''null''"
| "print_json q (JBool b) = (if b then ''true'' else ''false'')"
| "print_json q (JNum l) = l"
| "print_json q (JStr s) = dquote # q s @ [dquote]"
| "print_json q (JArr vs) = CHR ''['' # print_elems q vs"
| "print_json q (JObj kvs) = CHR ''{'' # print_members q kvs"
| "print_elems q [] = '']''"
| "print_elems q (v # vs) =
     print_json q v @ (if vs = [] then '']'' else CHR '','' # print_elems q vs)"
| "print_members q [] = ''}''"
| "print_members q ((k, v) # kvs) =
     dquote # q k @ dquote # CHR '':'' # print_json q v @
       (if kvs = [] then ''}'' else CHR '','' # print_members q kvs)"

section \<open>Decoding into any\<close>

text \<open>UseNumber: objects become maps (a repeated key keeps its last value), numbers keep
  their text.\<close>

fun to_any :: "json \<Rightarrow> json" where
  "to_any (JArr vs) = JArr (map to_any vs)"
| "to_any (JObj kvs) = JObj (dedup (map (\<lambda>kv. (fst kv, to_any (snd kv))) kvs))"
| "to_any v = v"

text \<open>
  Without UseNumber a number becomes a float64. The program only does this to integers
  it printed itself, so the model reads an integer literal, rounds it to 53 significant
  bits (ties to even) and prints the shortest decimal that rounds back, as
  strconv.FormatFloat(x, 'f', -1, 64) does below 1e21.
\<close>

fun bitlen :: "nat \<Rightarrow> nat" where
  "bitlen n = (if n = 0 then 0 else Suc (bitlen (n div 2)))"

declare bitlen.simps [simp del]

definition float64 :: "nat \<Rightarrow> nat" where
  "float64 n =
     (let b = bitlen n in
      if b \<le> 53 then n
      else (let sh = b - 53; q = n div 2 ^ sh; r = n mod 2 ^ sh; half = 2 ^ (sh - 1)
            in (if r > half \<or> (r = half \<and> odd q) then q + 1 else q) * 2 ^ sh))"

fun shortest :: "nat \<Rightarrow> nat \<Rightarrow> nat" where
  "shortest x 0 = x"
| "shortest x (Suc p) =
     (let u = 10 ^ Suc p; lo = x div u * u; hi = lo + u;
          okl = (float64 lo = x); okh = (float64 hi = x)
      in if okl \<and> (\<not> okh \<or> x - lo \<le> hi - x) then lo
         else if okh then hi else shortest x p)"

definition show_float :: "nat \<Rightarrow> string" where
  "show_float n = (let x = float64 n in show_nat (shortest x (length (show_nat x))))"

definition float_lit :: "string \<Rightarrow> string" where
  "float_lit l = (case parse_int 64 l of None \<Rightarrow> l
     | Some i \<Rightarrow> if i < 0 then CHR ''-'' # show_float (nat (- i)) else show_float (nat i))"

fun to_float_any :: "json \<Rightarrow> json" where
  "to_float_any (JNum l) = JNum (float_lit l)"
| "to_float_any (JArr vs) = JArr (map to_float_any vs)"
| "to_float_any (JObj kvs) = JObj (dedup (map (\<lambda>kv. (fst kv, to_float_any (snd kv))) kvs))"
| "to_float_any v = v"

text \<open>Encoding a map writes its keys in increasing order.\<close>

fun sort_json :: "json \<Rightarrow> json" where
  "sort_json (JArr vs) = JArr (map sort_json vs)"
| "sort_json (JObj kvs) = JObj (sort_map (map (\<lambda>kv. (fst kv, sort_json (snd kv))) kvs))"
| "sort_json v = v"

section \<open>Well-formed trees\<close>

definition is_int_lit :: "string \<Rightarrow> bool" where
  "is_int_lit l = (case parse_int 64 l of None \<Rightarrow> False | Some i \<Rightarrow> l = show_int i)"

fun json_wf :: "json \<Rightarrow> bool" where
  "json_wf (JNum l) = is_int_lit l"
| "json_wf (JStr s) = valid_utf8 s"
| "json_wf (JArr vs) = list_all json_wf vs"
| "json_wf (JObj kvs) = list_all (\<lambda>kv. valid_utf8 (fst kv) \<and> json_wf (snd kv)) kvs"
| "json_wf v = True"

fun depth :: "json \<Rightarrow> nat" where
  "depth (JArr vs) = Suc (foldr (\<lambda>v m. max (depth v) m) vs 0)"
| "depth (JObj kvs) = Suc (foldr (\<lambda>kv m. max (depth (snd kv)) m) kvs 0)"
| "depth v = 0"

end
