(* ===== verification/Json_Lemmas.thy ===== *)
theory Json_Lemmas
  imports Json
begin

text \<open>
  Facts about the JSON layer: the decoder reads back every string literal the encoder
  writes, the parser reads back every printed tree (for any quoting that satisfies the
  interface \<open>json_quoter\<close>), printing is injective, and the parser's result does not
  depend on its fuel once that exceeds the length of the input.
\<close>

section \<open>UTF-8\<close>

fun rune_bytes :: "rune \<Rightarrow> string" where
  "rune_bytes (Asc c) = [c]"
| "rune_bytes (Multi bs) = bs"
| "rune_bytes (Bad c) = [c]"

fun rune_wf :: "rune \<Rightarrow> bool" where
  "rune_wf (Asc c) = (code c < 128)"
| "rune_wf (Multi bs) = (rune_len bs = length bs \<and> bs \<noteq> [] \<and> 128 \<le> code (hd bs))"
| "rune_wf (Bad c) = False"

lemma valid_take:
  "2 \<le> n \<Longrightarrow> valid2 (take n s) = valid2 s"
  "3 \<le> n \<Longrightarrow> valid3 (take n s) = valid3 s"
  "4 \<le> n \<Longrightarrow> valid4 (take n s) = valid4 s"
  subgoal by (cases s rule: valid2.cases) (auto simp: take_Cons' numeral_eq_Suc)
  subgoal by (cases s rule: valid3.cases) (auto simp: take_Cons' numeral_eq_Suc)
  subgoal by (cases s rule: valid4.cases) (auto simp: take_Cons' numeral_eq_Suc)
  done

lemma valid_length: "valid2 s \<Longrightarrow> 2 \<le> length s" "valid3 s \<Longrightarrow> 3 \<le> length s" "valid4 s \<Longrightarrow> 4 \<le> length s"
  by (cases s rule: valid2.cases, auto) (cases s rule: valid3.cases, auto, cases s rule: valid4.cases, auto)

lemma rune_len_take:
  assumes "rune_len s \<noteq> 0"
  shows "rune_len (take (rune_len s) s) = rune_len s" and "rune_len s \<le> length s"
  using assms valid_take [of _ s] valid_length [of s]
  by (auto simp: rune_len_def split: if_splits)

lemma valid2_append: "valid2 bs \<Longrightarrow> valid2 (bs @ r)"
  by (auto elim!: valid2.elims)

lemma valid3_append: "valid3 bs \<Longrightarrow> valid3 (bs @ r)"
  by (auto elim!: valid3.elims)

lemma valid4_append: "valid4 bs \<Longrightarrow> valid4 (bs @ r)"
  by (auto elim!: valid4.elims)

lemma valid_exclusive:
  "valid3 s \<Longrightarrow> \<not> valid2 s" "valid4 s \<Longrightarrow> \<not> valid2 s" "valid4 s \<Longrightarrow> \<not> valid3 s"
  by (auto simp: in_range_def elim!: valid2.elims valid3.elims valid4.elims)

lemma rune_len_append:
  assumes "rune_len bs \<noteq> 0"
  shows "rune_len (bs @ r) = rune_len bs"
  using assms valid_exclusive [of "bs @ r"]
  by (auto simp: rune_len_def valid2_append valid3_append valid4_append split: if_splits)

lemma runes_bytes: "concat (map rune_bytes (runes s)) = s"
proof (induction s rule: runes.induct)
  case (2 c cs)
  show ?case
  proof (cases "128 \<le> code c \<and> rune_len (c # cs) \<noteq> 0")
    case True
    then have "take (rune_len (c # cs)) (c # cs) @ drop (rune_len (c # cs) - 1) cs = c # cs"
      by (cases "rune_len (c # cs)") auto
    then show ?thesis using True 2 by (simp add: Let_def)
  next
    case False
    then show ?thesis using 2 by (auto simp: Let_def)
  qed
qed simp

lemma runes_wf: "r \<in> set (runes s) \<Longrightarrow> is_good r \<Longrightarrow> rune_wf r"
proof (induction s rule: runes.induct)
  case (2 c cs)
  show ?case
  proof (cases "128 \<le> code c \<and> rune_len (c # cs) \<noteq> 0")
    case True
    then have "rune_wf (Multi (take (rune_len (c # cs)) (c # cs)))"
      using rune_len_take [of "c # cs"] by (cases "rune_len (c # cs)") auto
    then show ?thesis using True 2 by (auto simp: Let_def)
  next
    case False
    then show ?thesis using 2 by (cases "code c < 128") (auto simp: Let_def is_good_def)
  qed
qed simp

lemma runes_append_wf: "rune_wf r \<Longrightarrow> runes (rune_bytes r @ s) = r # runes s"
proof (cases r)
  case (Multi bs)
  assume wf: "rune_wf r"
  then obtain c cs where bs: "bs = c # cs" and "128 \<le> code c" and len: "rune_len bs = length bs"
    using Multi by (cases bs) auto
  moreover have "rune_len (bs @ s) = length bs"
    using rune_len_append [of bs s] len bs by simp
  ultimately show ?thesis
    using Multi by (simp add: Let_def)
qed auto

lemma valid_utf8_iff: "valid_utf8 s \<longleftrightarrow> (\<forall>r \<in> set (runes s). rune_wf r)"
  by (auto simp: valid_utf8_def list_all_iff intro: runes_wf)
    (metis is_good_def rune.exhaust rune.simps(10) rune.simps(11) rune_wf.simps(3))

lemma valid_utf8_ascii: "list_all (\<lambda>c. code c < 128) s \<Longrightarrow> valid_utf8 s"
  by (induction s) (auto simp: valid_utf8_def is_good_def)

lemma runes_concat:
  "\<forall>r \<in> set rs. rune_wf r \<Longrightarrow> runes (concat (map rune_bytes rs) @ t) = rs @ runes t"
  by (induction rs) (simp_all add: runes_append_wf)

lemma runes_append: "valid_utf8 s \<Longrightarrow> runes (s @ t) = runes s @ runes t"
  using runes_concat [of "runes s" t] by (simp add: valid_utf8_iff runes_bytes)

lemma valid_utf8_append [simp]: "valid_utf8 s \<Longrightarrow> valid_utf8 t \<Longrightarrow> valid_utf8 (s @ t)"
  by (simp add: valid_utf8_def runes_append)

section \<open>String literals\<close>

lemma hexval_hexdig [simp]: "n < 16 \<Longrightarrow> hexval (hexdig n) = Some n"
proof -
  assume "n < 16"
  then have "n \<in> {0, 1, 2, 3, 4, 5, 6, 7, 8, 9, 10, 11, 12, 13, 14, 15}"
    unfolding insert_iff empty_iff by presburger
  then show ?thesis by (auto simp: hexdig_def hexval_def)
qed

lemma prep_simps [simp]: "prep p None = None" "prep p (Some (s, t)) = Some (p @ s, t)"
  by (simp_all add: prep_def)

lemma prep_prep [simp]: "prep p (prep q r) = prep (p @ q) r"
  by (cases r) auto

lemma prep_Nil [simp]: "prep [] r = r"
  by (cases r) auto

lemma unq_dquote [simp]: "unq (dquote # cs) = Some ([], cs)"
  by (simp add: unq.simps)

lemma unq_ascii:
  "32 \<le> code c \<Longrightarrow> code c < 128 \<Longrightarrow> c \<noteq> dquote \<Longrightarrow> c \<noteq> bslash \<Longrightarrow> unq (c # cs) = prep [c] (unq cs)"
  by (simp add: unq.simps(2))

lemma unq_simple:
  "simple_escape e = Some x \<Longrightarrow> e \<noteq> CHR ''u'' \<Longrightarrow> unq (bslash # e # ds) = prep [x] (unq ds)"
  by (simp add: unq.simps(2))

lemma unq_u:
  assumes "hex4 [a, b, c, d] = Some v" and "\<not> (0xD800 \<le> v \<and> v < 0xE000)"
  shows "unq (bslash # CHR ''u'' # a # b # c # d # ds) = prep (encode_rune v) (unq ds)"
proof -
  have "hex4 (a # b # c # d # ds) = Some v" using assms(1) by simp
  moreover have "(0xD800 \<le> v \<and> v < 0xE000) = False" using assms(2) by simp
  ultimately show ?thesis
    by (subst unq.simps(2)) (simp only: list.case option.case if_False if_True refl drop_Suc_Cons, simp)
qed

lemma unq_multi:
  assumes "rune_wf (Multi bs)"
  shows "unq (bs @ r) = prep bs (unq r)"
proof -
  obtain c cs where bs: "bs = c # cs" and hi: "128 \<le> code c" and len: "rune_len bs = length bs"
    using assms by (cases bs) auto
  moreover have "rune_len (c # cs @ r) = length bs"
    using rune_len_append [of bs r] len bs by simp
  moreover have "c \<noteq> dquote" "c \<noteq> bslash" using hi by auto
  ultimately show ?thesis
    by (simp add: unq.simps(2) Let_def)
qed

lemma encode_rune_ascii [simp]: "encode_rune (code c) = [c]" if "code c < 128"
  using that by (simp add: encode_rune_def)

lemma unq_control:
  assumes "code c < 128"
  shows "unq (bslash # CHR ''u'' # CHR ''0'' # CHR ''0'' # hexdig (code c div 16)
      # hexdig (code c mod 16) # r) = prep [c] (unq r)"
proof -
  have "hexval (hexdig (code c div 16)) = Some (code c div 16)"
    and "hexval (hexdig (code c mod 16)) = Some (code c mod 16)"
    using assms by (simp_all add: less_mult_imp_div_less)
  moreover have "hexval (CHR ''0'') = Some 0" by (simp add: hexval_def)
  ultimately have "hex4 [CHR ''0'', CHR ''0'', hexdig (code c div 16), hexdig (code c mod 16)]
      = Some (code c)"
    by simp
  from unq_u [OF this] show ?thesis using assms by simp
qed

lemma unq_esc_ascii:
  assumes "code c < 128"
  shows "unq (esc_ascii h c @ r) = prep [c] (unq r)"
proof -
  have short: "simple_escape (CHR ''b'') = Some (CHR 0x08)" "simple_escape (CHR ''f'') = Some (CHR 0x0C)"
    "simple_escape (CHR ''n'') = Some (CHR 0x0A)" "simple_escape (CHR ''r'') = Some (CHR 0x0D)"
    "simple_escape (CHR ''t'') = Some (CHR 0x09)" "simple_escape bslash = Some bslash"
    "simple_escape dquote = Some dquote"
    by (simp_all add: simple_escape_def)
  have chr: "code c = 8 \<Longrightarrow> c = CHR 0x08" "code c = 12 \<Longrightarrow> c = CHR 0x0C" "code c = 10 \<Longrightarrow> c = CHR 0x0A"
    "code c = 13 \<Longrightarrow> c = CHR 0x0D" "code c = 9 \<Longrightarrow> c = CHR 0x09"
    by (rule code_inj, simp)+
  show ?thesis
    using assms short chr unq_control [OF assms] unq_ascii [of c]
    by (auto simp: esc_ascii_def unq_simple)
qed

lemma unq_seps: "unq (bslash # ''u2028'' @ r) = prep u2028 (unq r)"
    "unq (bslash # ''u2029'' @ r) = prep u2029 (unq r)"
proof -
  have "hex4 [CHR ''2'', CHR ''0'', CHR ''2'', CHR ''8''] = Some 0x2028"
    and "hex4 [CHR ''2'', CHR ''0'', CHR ''2'', CHR ''9''] = Some 0x2029"
    by (simp_all add: hexval_def)
  from this [THEN unq_u, of r]
  show "unq (bslash # ''u2028'' @ r) = prep u2028 (unq r)"
    "unq (bslash # ''u2029'' @ r) = prep u2029 (unq r)"
    by (simp_all add: encode_rune_def u2028_def u2029_def char_of_def bit_iff_odd)
qed

lemma unq_quote_rune:
  assumes "rune_wf r"
  shows "unq (quote_rune h r @ t) = prep (rune_bytes r) (unq t)"
proof (cases r)
  case (Asc c)
  then show ?thesis using assms unq_esc_ascii by simp
next
  case (Multi bs)
  then show ?thesis using assms unq_multi [of bs t] unq_seps [of t] by simp
qed (use assms in simp)

lemma unq_concat:
  assumes "\<And>r t. r \<in> set rs \<Longrightarrow> unq (f r @ t) = prep (rune_bytes r) (unq t)"
  shows "unq (concat (map f rs) @ t) = prep (concat (map rune_bytes rs)) (unq t)"
  using assms by (induction rs) auto

lemma unq_go_quote:
  assumes "valid_utf8 s"
  shows "unq (go_quote h s @ dquote # t) = Some (s, t)"
proof -
  have "unq (go_quote h s @ dquote # t) = prep (concat (map rune_bytes (runes s))) (unq (dquote # t))"
    unfolding go_quote_def
    by (rule unq_concat) (use assms in \<open>auto simp: valid_utf8_iff intro: unq_quote_rune\<close>)
  then show ?thesis by (simp add: runes_bytes)
qed

section \<open>Numbers\<close>

definition num_stop :: "string \<Rightarrow> bool" where
  "num_stop t = (case t of [] \<Rightarrow> True
     | c # _ \<Rightarrow> \<not> is_digit c \<and> c \<noteq> CHR ''.'' \<and> c \<noteq> CHR ''e'' \<and> c \<noteq> CHR ''E'')"

lemma num_stop_simps [simp]:
  "num_stop []" "num_stop (CHR '','' # t)" "num_stop (CHR '']'' # t)" "num_stop (CHR ''}'' # t)"
  "num_stop (newline # t)"
  by (simp_all add: num_stop_def is_digit_def)

lemma takeWhile_digits:
  "list_all is_digit s \<Longrightarrow> num_stop t \<Longrightarrow>
   takeWhile is_digit (s @ t) = s \<and> dropWhile is_digit (s @ t) = t"
  by (induction s) (auto simp: num_stop_def split: list.splits)

lemma show_nat_hd_zero: "hd (show_nat n) = CHR ''0'' \<Longrightarrow> n = 0"
proof (induction n rule: show_nat.induct)
  case (1 n)
  show ?case
  proof (cases "n < 10")
    case True
    then have "digit_val (digit n) = digit_val (CHR ''0'')"
      using "1.prems" by (simp add: show_nat.simps [of n])
    then show ?thesis using True by (simp add: digit_val_def digit_def)
  next
    case False
    then show ?thesis using 1 by (simp add: show_nat.simps [of n])
  qed
qed

lemma show_nat_0 [simp]: "show_nat 0 = ''0''"
  by (simp add: show_nat.simps digit_def char_of_def bit_iff_odd)

lemma lex_int_show: "num_stop t \<Longrightarrow> lex_int (show_nat n @ t) = Some (show_nat n, t)"
proof -
  assume t: "num_stop t"
  obtain c r where cr: "show_nat n = c # r" by (cases "show_nat n") auto
  show ?thesis
  proof (cases "c = CHR ''0''")
    case True
    then have "n = 0" using show_nat_hd_zero [of n] cr by simp
    then show ?thesis by (simp add: lex_int_def)
  next
    case False
    then show ?thesis
      using t takeWhile_digits [OF show_nat_digits [of n] t] show_nat_hd_digit [of n] cr
      by (simp add: lex_int_def)
  qed
qed

lemma lex_num_show: "num_stop t \<Longrightarrow> lex_num (show_int i @ t) = Some (show_int i, t)"
proof -
  assume t: "num_stop t"
  then have "lex_frac t = Some ([], t)" "lex_exp t = Some ([], t)"
    by (auto simp: lex_frac_def lex_exp_def num_stop_def split: list.splits)
  moreover obtain c r where "show_nat (nat i) = c # r" "c \<noteq> CHR ''-''"
    using show_nat_nonempty [of "nat i"] show_nat_hd_digit [of "nat i"] is_digit_not_sign
    by (cases "show_nat (nat i)") auto
  ultimately show ?thesis
    using lex_int_show [OF t, of "nat (- i)"] lex_int_show [OF t, of "nat i"]
    by (auto simp: lex_num_def show_int_def)
qed

lemma is_int_litE: "is_int_lit l \<Longrightarrow> (\<And>i. l = show_int i \<Longrightarrow> thesis) \<Longrightarrow> thesis"
  by (auto simp: is_int_lit_def split: option.splits)

lemma is_int_lit_show: "- (2 ^ 63) \<le> i \<Longrightarrow> i < 2 ^ 63 \<Longrightarrow> is_int_lit (show_int i)"
  using parse_int_show [of 64 i] by (simp add: is_int_lit_def)

section \<open>Reading what was printed\<close>

lemma depth_JArr: "depth (JArr vs) \<le> d \<longleftrightarrow> 0 < d \<and> (\<forall>v \<in> set vs. depth v \<le> d - 1)"
proof -
  have "foldr (\<lambda>v m. max (depth v) m) vs 0 \<le> e \<longleftrightarrow> (\<forall>v \<in> set vs. depth v \<le> e)" for e
    by (induction vs) auto
  from this [of "d - 1"] show ?thesis by (cases d) auto
qed

lemma depth_JObj: "depth (JObj kvs) \<le> d \<longleftrightarrow> 0 < d \<and> (\<forall>kv \<in> set kvs. depth (snd kv) \<le> d - 1)"
proof -
  have "foldr (\<lambda>kv m. max (depth (snd kv)) m) kvs 0 \<le> e \<longleftrightarrow> (\<forall>kv \<in> set kvs. depth (snd kv) \<le> e)" for e
    by (induction kvs) auto
  from this [of "d - 1"] show ?thesis by (cases d) auto
qed

declare depth.simps(1,2) [simp del]

lemma skip_ws_stop [simp]: "\<not> is_ws c \<Longrightarrow> skip_ws (c # r) = c # r"
  by (simp add: skip_ws_def)

lemma not_ws [simp]: "\<not> is_ws (CHR ''{'')" "\<not> is_ws (CHR ''}'')" "\<not> is_ws (CHR ''['')"
  "\<not> is_ws (CHR '']'')" "\<not> is_ws (CHR '','')" "\<not> is_ws (CHR '':'')" "\<not> is_ws dquote"
  "\<not> is_ws (CHR ''t'')" "\<not> is_ws (CHR ''f'')" "\<not> is_ws (CHR ''n'')"
  by (simp_all add: is_ws_def)

lemma map_res_simps [simp]: "map_res f None = None" "map_res f (Some (x, t)) = Some (f x, t)"
  by (simp_all add: map_res_def)

lemma show_int_hd:
  obtains c r where "show_int i = c # r" and "is_digit c \<or> c = CHR ''-''"
proof (cases "i < 0")
  case True
  then show ?thesis using that by (simp add: show_int_def)
next
  case False
  then show ?thesis
    using that show_nat_hd_digit [of "nat i"] by (cases "show_nat (nat i)") (auto simp: show_int_def)
qed

lemma pv_num:
  assumes "num_stop t"
  shows "pv (Suc n) d (show_int i @ t) = Some (JNum (show_int i), t)"
proof -
  obtain c r where cr: "show_int i = c # r" and c: "is_digit c \<or> c = CHR ''-''"
    by (rule show_int_hd)
  have "\<not> is_ws c" and "c \<notin> {CHR ''{'', CHR ''['', dquote, CHR ''t'', CHR ''f'', CHR ''n''}"
    using c by (auto simp: is_ws_def is_digit_def)
  then show ?thesis
    using lex_num_show [OF assms, of i] cr by (simp add: cr)
qed

locale json_quoter =
  fixes q :: "string \<Rightarrow> string"
  assumes unq_q: "valid_utf8 s \<Longrightarrow> unq (q s @ dquote # t) = Some (s, t)"
begin

lemma print_hd:
  assumes "json_wf v"
  obtains c t where "print_json q v = c # t" "\<not> is_ws c" "c \<noteq> CHR '']''"
proof (cases v)
  case (JNum l)
  then obtain i where i: "l = show_int i" using assms by (auto elim: is_int_litE)
  obtain c r where "show_int i = c # r" and c: "is_digit c \<or> c = CHR ''-''"
    by (rule show_int_hd)
  moreover have "\<not> is_ws c" "c \<noteq> CHR '']''"
    using c by (auto simp: is_ws_def is_digit_def)
  ultimately show ?thesis using i JNum that by simp
next
  case (JBool b)
  then show ?thesis using that by (cases b) auto
qed (use that in auto)

lemma pelems_print:
  assumes "\<And>v n t. v \<in> set vs \<Longrightarrow> num_stop t \<Longrightarrow> length (print_json q v) < n \<Longrightarrow>
      pv n d (print_json q v @ t) = Some (v, t)"
    and "vs \<noteq> []" and "length (print_elems q vs) < n"
  shows "pelems n d (print_elems q vs @ t) = Some (vs, t)"
  using assms
proof (induction vs arbitrary: n)
  case (Cons v vs)
  then show ?case by (cases n; cases "vs = []") auto
qed simp

lemma pmembers_print:
  assumes "\<And>kv n t. kv \<in> set kvs \<Longrightarrow> num_stop t \<Longrightarrow> length (print_json q (snd kv)) < n \<Longrightarrow>
      pv n d (print_json q (snd kv) @ t) = Some (snd kv, t)"
    and "\<And>kv. kv \<in> set kvs \<Longrightarrow> valid_utf8 (fst kv)"
    and "kvs \<noteq> []" and "length (print_members q kvs) < n"
  shows "pmembers n d (print_members q kvs @ t) = Some (kvs, t)"
  using assms
proof (induction kvs arbitrary: n)
  case (Cons kv kvs)
  obtain k v where kv: "kv = (k, v)" by (cases kv)
  then have "valid_utf8 k" and "\<And>t n. num_stop t \<Longrightarrow> length (print_json q v) < n \<Longrightarrow>
      pv n d (print_json q v @ t) = Some (v, t)"
    using Cons.prems(1,2) [of kv] by auto
  moreover have "kvs \<noteq> [] \<Longrightarrow> length (print_members q kvs) < m \<Longrightarrow>
      pmembers m d (print_members q kvs @ t) = Some (kvs, t)" for m
    using Cons.prems(1,2) by (intro Cons.IH) auto
  ultimately show ?case
    using Cons.prems(4) kv by (cases n; cases "kvs = []") (simp_all add: unq_q)
qed simp

lemma print_elems_hd:
  assumes "json_wf (JArr vs)" and "vs \<noteq> []"
  obtains c r where "print_elems q vs = c # r" "\<not> is_ws c" "c \<noteq> CHR '']''"
proof (cases vs)
  case (Cons v ws)
  then have "json_wf v" using assms by simp
  then show ?thesis using that Cons by (auto elim!: print_hd)
qed (use assms in simp)

lemma pv_print:
  assumes "json_wf v" and "depth v \<le> d" and "num_stop t" and "length (print_json q v) < n"
  shows "pv n d (print_json q v @ t) = Some (v, t)"
  using assms
proof (induction v arbitrary: n d t)
  case (JNum l)
  then show ?case by (cases n) (auto elim!: is_int_litE simp: pv_num simp del: pv.simps)
next
  case (JStr s)
  then show ?case by (cases n) (auto simp: unq_q)
next
  case (JBool b)
  then show ?case by (cases n) (auto simp: plit_def has_prefix_def)
next
  case JNull
  then show ?case by (cases n) (auto simp: plit_def has_prefix_def)
next
  case (JArr vs)
  show ?case
  proof (cases "vs = []")
    case True
    then show ?thesis using JArr.prems by (cases n) (auto simp: depth_JArr)
  next
    case False
    obtain c r where "print_elems q vs = c # r" "\<not> is_ws c" "c \<noteq> CHR '']''"
      using print_elems_hd JArr.prems False by blast
    moreover have "pelems (n - 1) (d - 1) (print_elems q vs @ t) = Some (vs, t)"
      using JArr False by (intro pelems_print) (auto simp: depth_JArr list_all_iff)
    ultimately show ?thesis
      using JArr.prems by (cases n) (auto simp: depth_JArr)
  qed
next
  case (JObj kvs)
  show ?case
  proof (cases "kvs = []")
    case True
    then show ?thesis using JObj.prems by (cases n) (auto simp: depth_JObj)
  next
    case False
    then have "\<exists>r. print_members q kvs = dquote # r" by (cases kvs) auto
    moreover have "pmembers (n - 1) (d - 1) (print_members q kvs @ t) = Some (kvs, t)"
    proof (rule pmembers_print)
      fix kv m u
      assume "kv \<in> set kvs" "num_stop u" "length (print_json q (snd kv)) < m"
      then show "pv m (d - 1) (print_json q (snd kv) @ u) = Some (snd kv, u)"
        using JObj.prems by (intro JObj.IH [of kv]) (auto simp: depth_JObj list_all_iff snds.simps)
    qed (use JObj.prems False in \<open>auto simp: list_all_iff\<close>)
    ultimately show ?thesis
      using JObj.prems by (cases n) (auto simp: depth_JObj)
  qed
qed

lemma decode_stream_print:
  assumes "json_wf v" and "depth v \<le> max_depth" and "num_stop t"
  shows "decode_stream (print_json q v @ t) = Some (v, t)"
  unfolding decode_stream_def by (rule pv_print) (use assms in simp_all)

lemma unmarshal_print:
  assumes "json_wf v" and "depth v \<le> max_depth"
  shows "unmarshal (print_json q v) = Some v"
  using decode_stream_print [OF assms, of "[]"] by (simp add: unmarshal_def skip_ws_def)

lemma print_inj:
  assumes "json_wf v" "json_wf w" "depth v \<le> max_depth" "depth w \<le> max_depth"
    and "print_json q v = print_json q w"
  shows "v = w"
  using assms unmarshal_print by (metis option.inject)

end

text \<open>Both ways the encoder quotes (SetEscapeHTML on and off) satisfy the interface.\<close>

interpretation html: json_quoter "go_quote True"
  by unfold_locales (rule unq_go_quote)

interpretation plain: json_quoter "go_quote False"
  by unfold_locales (rule unq_go_quote)

section \<open>The parser consumes input; its fuel does not matter\<close>

lemma skip_ws_length: "length (skip_ws s) \<le> length s"
  by (simp add: skip_ws_def length_dropWhile_le)

lemma skip_ws_Cons_length: "skip_ws s = c # r \<Longrightarrow> length r < length s"
  using skip_ws_length [of s] by simp

lemma prep_Some: "prep p r = Some (x, t) \<longleftrightarrow> (\<exists>y. r = Some (y, t) \<and> x = p @ y)"
  by (cases r) auto

lemma unq_length: "unq s = Some (x, t) \<Longrightarrow> length t < length s"
proof (induction s arbitrary: x t rule: length_induct)
  case (1 s)
  then have IH: "unq u = Some (y, w) \<Longrightarrow> length u < length s \<Longrightarrow> length w < length s" for u y w
    by (meson order_less_trans)
  show ?case
  proof (cases s)
    case (Cons c cs)
    then show ?thesis
      using "1.prems" IH
      by (simp add: unq.simps(2) prep_Some Let_def split: if_splits list.splits option.splits)
         (auto simp: prep_Some)
  qed (use "1.prems" in simp)
qed

lemma lex_num_length: "lex_num s = Some (x, t) \<Longrightarrow> length t < length s"
proof -
  have dw: "length (dropWhile is_digit r) \<le> length r" for r
    by (rule length_dropWhile_le)
  have i: "lex_int s = Some (x, t) \<Longrightarrow> length t < length s" for s x t
    using dw by (auto simp: lex_int_def le_imp_less_Suc split: list.splits if_splits)
  have f: "lex_frac s = Some (x, t) \<Longrightarrow> length t \<le> length s" for s x t
    using dw by (auto simp: lex_frac_def le_SucI split: list.splits if_splits)
  have e: "lex_exp s = Some (x, t) \<Longrightarrow> length t \<le> length s" for s x t
    using dw by (fastforce simp: lex_exp_def split_exp_sign_def Let_def split: list.splits if_splits dest: le_SucI)
  show "lex_num s = Some (x, t) \<Longrightarrow> length t < length s"
    by (auto simp: lex_num_def split: list.splits if_splits option.splits dest!: i f e)
qed

lemma map_res_Some: "map_res f r = Some (x, t) \<longleftrightarrow> (\<exists>y. r = Some (y, t) \<and> x = f y)"
  by (cases r) auto

lemma pv_length_all:
  "(\<forall>s d v t. pv n d s = Some (v, t) \<longrightarrow> length t < length s) \<and>
   (\<forall>s d vs t. pelems n d s = Some (vs, t) \<longrightarrow> length t < length s) \<and>
   (\<forall>s d kvs t. pmembers n d s = Some (kvs, t) \<longrightarrow> length t < length s)"
proof (induction n)
  case (Suc n)
  have v: "pv n d s = Some (v, t) \<Longrightarrow> length t < length s" for d s v t using Suc by blast
  have e: "pelems n d s = Some (vs, t) \<Longrightarrow> length t < length s" for d s vs t using Suc by blast
  have m: "pmembers n d s = Some (kvs, t) \<Longrightarrow> length t < length s" for d s kvs t using Suc by blast
  have "pv (Suc n) d s = Some (v, t) \<Longrightarrow> length t < length s" for d s v t
    by (auto simp: plit_def map_res_Some split: list.split_asm if_split_asm
        dest!: skip_ws_Cons_length unq_length lex_num_length e m)
  moreover have "pelems (Suc n) d s = Some (vs, t) \<Longrightarrow> length t < length s" for d s vs t
    by (auto simp: map_res_Some split: list.split_asm if_split_asm option.split_asm
        dest!: skip_ws_Cons_length v e)
  moreover have "pmembers (Suc n) d s = Some (kvs, t) \<Longrightarrow> length t < length s" for d s kvs t
    by (auto simp: map_res_Some split: list.split_asm if_split_asm option.split_asm
        dest!: skip_ws_Cons_length unq_length v m)
  ultimately show ?case by blast
qed simp

declare pv.simps [simp del] pelems.simps [simp del] pmembers.simps [simp del]

lemma pv_fuel_all:
  "(\<forall>s d. 2 * length s < n \<longrightarrow> pv (Suc n) d s = pv n d s) \<and>
   (\<forall>s d. 2 * length s + 1 < n \<longrightarrow> pelems (Suc n) d s = pelems n d s) \<and>
   (\<forall>s d. 2 * length s + 1 < n \<longrightarrow> pmembers (Suc n) d s = pmembers n d s)"
proof (induction n)
  case 0
  then show ?case by simp
next
  case (Suc n)
  have v: "2 * length s < n \<Longrightarrow> pv (Suc n) d s = pv n d s" for d s using Suc by blast
  have e: "2 * length s + 1 < n \<Longrightarrow> pelems (Suc n) d s = pelems n d s" for d s using Suc by blast
  have m: "2 * length s + 1 < n \<Longrightarrow> pmembers (Suc n) d s = pmembers n d s" for d s using Suc by blast
  note len = skip_ws_Cons_length unq_length pv_length_all [of n, THEN conjunct1, rule_format]
  have "2 * length s < Suc n \<Longrightarrow> pv (Suc (Suc n)) d s = pv (Suc n) d s" for d s
    using e m by (subst (1 2) pv.simps(2)) (auto split: list.split dest!: skip_ws_Cons_length)
  moreover have "2 * length s + 1 < Suc n \<Longrightarrow> pelems (Suc (Suc n)) d s = pelems (Suc n) d s" for d s
  proof -
    assume n: "2 * length s + 1 < Suc n"
    then have "pv (Suc n) d s = pv n d s" by (intro v) simp
    then show ?thesis
      using n by (subst (1 2) pelems.simps(2))
        (auto split: list.split option.split intro!: arg_cong [where f = "map_res _"] e dest!: len)
  qed
  moreover have "2 * length s + 1 < Suc n \<Longrightarrow> pmembers (Suc (Suc n)) d s = pmembers (Suc n) d s" for d s
  proof -
    assume n: "2 * length s + 1 < Suc n"
    have "skip_ws s = c # r \<Longrightarrow> unq r = Some (k, r1) \<Longrightarrow> skip_ws r1 = c1 # r2 \<Longrightarrow>
        pv (Suc n) d r2 = pv n d r2" for c r k r1 c1 r2
      using n by (intro v) (auto dest!: skip_ws_Cons_length unq_length)
    then show ?thesis
      using n by (subst (1 2) pmembers.simps(2))
        (auto split: list.split option.split intro!: arg_cong [where f = "map_res _"] m dest!: len)
  qed
  ultimately show ?case by blast
qed

lemma decode_stream_fuel:
  assumes "2 * length s + 2 \<le> n"
  shows "pv n max_depth s = decode_stream s"
  using assms
proof (induction n rule: dec_induct)
  case (step n)
  then show ?case using pv_fuel_all [of n] by auto
qed (simp add: decode_stream_def)

lemma decode_stream_length: "decode_stream s = Some (v, t) \<Longrightarrow> length t < length s"
  using pv_length_all unfolding decode_stream_def by blast

end
