(* ===== verification/Decode.thy ===== *)
theory Decode
  imports Json_Lemmas
begin

text \<open>
  encoding/json decoding into Go values, as json.Decoder does it with
  DisallowUnknownFields: every decoder takes the value being decoded into, because a
  repeated key decodes into what the first occurrence left there (maps and structs are
  merged, pointers reused, slices overwritten element by element), and \<open>null\<close> leaves a
  string, number or struct alone and clears a pointer, map or slice.

  A decoder keeps the first error in document order and goes on; as the program drops
  the value of a failed decode, the model stops at that error. The spare capacity of a
  slice is not modelled (it could only matter for a key repeated three times in one object).
\<close>

datatype derr = DUnknown string | DType

type_synonym 'a decoder = "json \<Rightarrow> 'a \<Rightarrow> derr + 'a"

section \<open>Scalars, pointers, slices, maps\<close>

fun dec_string :: "string decoder" where
  "dec_string JNull s = Inr s"
| "dec_string (JStr t) s = Inr t"
| "dec_string v s = Inl DType"

fun dec_bool :: "bool decoder" where
  "dec_bool JNull b = Inr b"
| "dec_bool (JBool c) b = Inr c"
| "dec_bool v b = Inl DType"

text \<open>An \<open>int\<close> of the platform, or an int64: \<open>w\<close> is the width.\<close>

fun dec_int :: "nat \<Rightarrow> int decoder" where
  "dec_int w JNull i = Inr i"
| "dec_int w (JNum l) i = (case parse_int w l of None \<Rightarrow> Inl DType | Some j \<Rightarrow> Inr j)"
| "dec_int w v i = Inl DType"

definition dec_ptr :: "'a decoder \<Rightarrow> 'a \<Rightarrow> 'a option decoder" where
  "dec_ptr dec zero v old =
     (if v = JNull then Inr None
      else bindE (dec v (case old of None \<Rightarrow> zero | Some x \<Rightarrow> x)) (\<lambda>x. Inr (Some x)))"

fun dec_elems :: "'a decoder \<Rightarrow> 'a \<Rightarrow> 'a list \<Rightarrow> json list \<Rightarrow> derr + 'a list" where
  "dec_elems dec zero olds [] = Inr []"
| "dec_elems dec zero olds (v # vs) =
     bindE (dec v (case olds of [] \<Rightarrow> zero | x # _ \<Rightarrow> x))
       (\<lambda>x. bindE (dec_elems dec zero (tl olds) vs) (\<lambda>xs. Inr (x # xs)))"

fun dec_slice :: "'a decoder \<Rightarrow> 'a \<Rightarrow> 'a list option decoder" where
  "dec_slice dec zero JNull old = Inr None"
| "dec_slice dec zero (JArr vs) old =
     bindE (dec_elems dec zero (case old of None \<Rightarrow> [] | Some xs \<Rightarrow> xs) vs) (\<lambda>xs. Inr (Some xs))"
| "dec_slice dec zero v old = Inl DType"

fun dec_entries :: "'a decoder \<Rightarrow> 'a \<Rightarrow> (string \<times> json) list \<Rightarrow> 'a gomap \<Rightarrow> derr + 'a gomap" where
  "dec_entries dec zero [] m = Inr m"
| "dec_entries dec zero ((k, v) # kvs) m =
     bindE (dec v zero) (\<lambda>x. dec_entries dec zero kvs (AList.update k x m))"

fun dec_map :: "'a decoder \<Rightarrow> 'a \<Rightarrow> 'a gomap option decoder" where
  "dec_map dec zero JNull old = Inr None"
| "dec_map dec zero (JObj kvs) old =
     bindE (dec_entries dec zero kvs (case old of None \<Rightarrow> [] | Some m \<Rightarrow> m)) (\<lambda>m. Inr (Some m))"
| "dec_map dec zero v old = Inl DType"

section \<open>Structs\<close>

text \<open>
  A key names a field when it is equal to the field's name, or else when both fold to the
  same text: ASCII letters in upper case, U+017F (long s) to S and U+212A (Kelvin) to K.
  No other rune folds to ASCII, and every field name is ASCII.
\<close>

definition upper :: "char \<Rightarrow> char" where
  "upper c = (if 97 \<le> code c \<and> code c \<le> 122 then char_of (code c - 32) else c)"

fun fold_name :: "string \<Rightarrow> string" where
  "fold_name [] = []"
| "fold_name (a # r) =
     (if take 2 r = [CHR 0x84, CHR 0xAA] \<and> a = CHR 0xE2 then CHR ''K'' # fold_name (drop 2 r)
      else if take 1 r = [CHR 0xBF] \<and> a = CHR 0xC5 then CHR ''S'' # fold_name (drop 1 r)
      else upper a # fold_name r)"

definition find_field :: "string list \<Rightarrow> string \<Rightarrow> string option" where
  "find_field names key =
     (if key \<in> set names then Some key else find (\<lambda>n. fold_name n = fold_name key) names)"

fun dec_members :: "string list \<Rightarrow> (string \<Rightarrow> 'r decoder) \<Rightarrow> (string \<times> json) list \<Rightarrow> 'r \<Rightarrow> derr + 'r" where
  "dec_members names set_field [] r = Inr r"
| "dec_members names set_field ((k, v) # kvs) r =
     (case find_field names k of None \<Rightarrow> Inl (DUnknown k)
      | Some f \<Rightarrow> bindE (set_field f v r) (dec_members names set_field kvs))"

fun dec_struct :: "string list \<Rightarrow> (string \<Rightarrow> 'r decoder) \<Rightarrow> 'r decoder" where
  "dec_struct names set_field JNull r = Inr r"
| "dec_struct names set_field (JObj kvs) r = dec_members names set_field kvs r"
| "dec_struct names set_field v r = Inl DType"

section \<open>Encoding helpers\<close>

definition opt_member :: "string \<Rightarrow> ('a \<Rightarrow> json) \<Rightarrow> 'a option \<Rightarrow> (string \<times> json) list" where
  "opt_member k f x = (case x of None \<Rightarrow> [] | Some v \<Rightarrow> [(k, f v)])"

definition json_int :: "int \<Rightarrow> json" where
  "json_int i = JNum (show_int i)"

definition json_strs :: "string list option \<Rightarrow> json" where
  "json_strs xs = (case xs of None \<Rightarrow> JNull | Some ss \<Rightarrow> JArr (map JStr ss))"

text \<open>A map is written with its keys in increasing order.\<close>

definition json_map :: "('a \<Rightarrow> json) \<Rightarrow> 'a gomap \<Rightarrow> json" where
  "json_map f m = JObj (map (\<lambda>kv. (fst kv, f (snd kv))) (sort_map m))"

text \<open>A \<open>map[string]any\<close> built by the program, written the same way.\<close>

definition json_obj :: "(string \<times> json) list \<Rightarrow> json" where
  "json_obj kvs = JObj (sort_map kvs)"

end
