(* ===== verification/Bundle.thy ===== *)
theory Bundle
  imports Decode
begin

text \<open>
  internal/bundle: the inner bundle a node receives. The types, Parse with its raw checks
  (null, number spelling, unpaired surrogates), MarshalJSON, Validate, Canonical with the
  escape normalisation, and Equal. \<open>None\<close> is a nil pointer, map or slice.
\<close>

section \<open>Types\<close>

record Route =
  rt_CIDR :: string
  rt_Gateway :: "string option"
  rt_Metric :: "int option"

record RoutingTable =
  rtab_IPv4 :: "string option"
  rtab_IPv6 :: "string option"

record Peer =
  peer_PublicKey :: string
  peer_PresharedKey :: "string option"
  peer_AllowedIPs :: "string list option"
  peer_Endpoint :: "string option"
  peer_PersistentKeepalive :: "int option"
  peer_Options :: "string gomap option"

record Interface =
  if_PrivateKey :: string
  if_ListenPort :: "int option"
  if_Addresses :: "string list option"
  if_MTU :: "int option"
  if_RouteAllowedIPs :: "bool option"
  if_Fwmark :: "int option"
  if_RoutingTable :: "RoutingTable option"
  if_Routes :: "Route list option"
  if_Options :: "string gomap option"
  if_Peers :: "Peer gomap option"

record Bundle =
  b_Version :: int
  b_Namespace :: string
  b_NodeID :: string
  b_Timestamp :: int
  b_WG :: "Interface gomap option"
  b_Stunmesh :: "string option"

text \<open>Go's zero values.\<close>

definition zero_route :: Route where
  "zero_route = \<lparr>rt_CIDR = [], rt_Gateway = None, rt_Metric = None\<rparr>"

definition zero_rtab :: RoutingTable where
  "zero_rtab = \<lparr>rtab_IPv4 = None, rtab_IPv6 = None\<rparr>"

definition zero_peer :: Peer where
  "zero_peer = \<lparr>peer_PublicKey = [], peer_PresharedKey = None, peer_AllowedIPs = None,
     peer_Endpoint = None, peer_PersistentKeepalive = None, peer_Options = None\<rparr>"

definition zero_iface :: Interface where
  "zero_iface = \<lparr>if_PrivateKey = [], if_ListenPort = None, if_Addresses = None, if_MTU = None,
     if_RouteAllowedIPs = None, if_Fwmark = None, if_RoutingTable = None, if_Routes = None,
     if_Options = None, if_Peers = None\<rparr>"

definition zero_bundle :: Bundle where
  "zero_bundle = \<lparr>b_Version = 0, b_Namespace = [], b_NodeID = [], b_Timestamp = 0,
     b_WG = None, b_Stunmesh = None\<rparr>"

definition RouteAllowedIPsOrDefault :: "Interface \<Rightarrow> bool" where
  "RouteAllowedIPsOrDefault i = (case if_RouteAllowedIPs i of None \<Rightarrow> True | Some b \<Rightarrow> b)"

section \<open>MarshalJSON\<close>

definition route_json :: "Route \<Rightarrow> json" where
  "route_json r = JObj ([(''cidr'', JStr (rt_CIDR r))] @ opt_member ''gateway'' JStr (rt_Gateway r)
     @ opt_member ''metric'' json_int (rt_Metric r))"

definition rtab_json :: "RoutingTable \<Rightarrow> json" where
  "rtab_json t = JObj (opt_member ''ipv4'' JStr (rtab_IPv4 t) @ opt_member ''ipv6'' JStr (rtab_IPv6 t))"

definition peer_json :: "Peer \<Rightarrow> json" where
  "peer_json p = json_obj (
     [(''public_key'', JStr (peer_PublicKey p)), (''allowed_ips'', json_strs (peer_AllowedIPs p))]
     @ opt_member ''preshared_key'' JStr (peer_PresharedKey p)
     @ opt_member ''endpoint'' JStr (peer_Endpoint p)
     @ opt_member ''persistent_keepalive'' json_int (peer_PersistentKeepalive p)
     @ opt_member ''options'' (json_map JStr) (peer_Options p))"

definition iface_json :: "Interface \<Rightarrow> json" where
  "iface_json i = json_obj (
     [(''private_key'', JStr (if_PrivateKey i)), (''addresses'', json_strs (if_Addresses i))]
     @ opt_member ''listen_port'' json_int (if_ListenPort i)
     @ opt_member ''mtu'' json_int (if_MTU i)
     @ opt_member ''route_allowed_ips'' JBool (if_RouteAllowedIPs i)
     @ opt_member ''fwmark'' json_int (if_Fwmark i)
     @ opt_member ''routing_table'' rtab_json (if_RoutingTable i)
     @ opt_member ''routes'' (\<lambda>rs. JArr (map route_json rs)) (if_Routes i)
     @ opt_member ''options'' (json_map JStr) (if_Options i)
     @ opt_member ''peers'' (json_map peer_json) (if_Peers i))"

definition bundle_json :: "Bundle \<Rightarrow> json" where
  "bundle_json b = json_obj (
     [(''version'', json_int (b_Version b)), (''namespace'', JStr (b_Namespace b)),
      (''node_id'', JStr (b_NodeID b)), (''timestamp'', json_int (b_Timestamp b))]
     @ opt_member ''wg'' (json_map iface_json) (b_WG b)
     @ opt_member ''stunmesh'' JStr (b_Stunmesh b))"

definition marshal_bundle :: "Bundle \<Rightarrow> string" where
  "marshal_bundle b = print_json (go_quote True) (bundle_json b)"

section \<open>Parse\<close>

datatype perr = ErrParse | ErrUnknownField string | ErrTrailing | ErrNull | ErrNumber | ErrSurrogate

definition checkNumber :: "string \<Rightarrow> perr option" where
  "checkNumber s =
     (if contains_any s ''.eE'' then Some ErrNumber
      else if has_prefix s ''-0'' then Some ErrNumber
      else if parse_int 64 s = None then Some ErrNumber
      else None)"

fun first_some :: "'e option list \<Rightarrow> 'e option" where
  "first_some [] = None"
| "first_some (None # r) = first_some r"
| "first_some (Some e # r) = Some e"

fun checkRaw :: "json \<Rightarrow> perr option" where
  "checkRaw JNull = Some ErrNull"
| "checkRaw (JObj kvs) = first_some (map (\<lambda>kv. checkRaw (snd kv)) kvs)"
| "checkRaw (JArr vs) = first_some (map checkRaw vs)"
| "checkRaw (JNum l) = checkNumber l"
| "checkRaw v = None"

definition isRealEscape :: "string \<Rightarrow> nat \<Rightarrow> bool" where
  "isRealEscape data i = even (length (takeWhile (\<lambda>c. c = bslash) (rev (take i data))))"

definition parseHex4 :: "string \<Rightarrow> nat option" where
  "parseHex4 b = (if length b \<noteq> 4 then None
     else foldl (\<lambda>v c. case (v, hexval c) of (Some n, Some d) \<Rightarrow> Some (n * 16 + d) | _ \<Rightarrow> None) (Some 0) b)"

text \<open>data[i:j].\<close>

definition slice :: "nat \<Rightarrow> nat \<Rightarrow> string \<Rightarrow> string" where
  "slice i j s = drop i (take j s)"

definition followedByLowSurrogate :: "string \<Rightarrow> nat \<Rightarrow> bool" where
  "followedByLowSurrogate data i =
     (if length data < i + 6 \<or> data ! i \<noteq> bslash \<or> data ! (i + 1) \<noteq> CHR ''u'' then False
      else (case parseHex4 (slice (i + 2) (i + 6) data) of None \<Rightarrow> False
            | Some v \<Rightarrow> 0xDC00 \<le> v \<and> v \<le> 0xDFFF))"

definition unpaired_at :: "string \<Rightarrow> nat \<Rightarrow> bool" where
  "unpaired_at data i =
     (data ! i = bslash \<and> data ! (i + 1) = CHR ''u'' \<and> isRealEscape data i \<and>
      (case parseHex4 (slice (i + 2) (i + 6) data) of None \<Rightarrow> False
       | Some v \<Rightarrow> 0xD800 \<le> v \<and> v \<le> 0xDBFF \<and> \<not> followedByLowSurrogate data (i + 6)))"

definition checkSurrogates :: "string \<Rightarrow> perr option" where
  "checkSurrogates data =
     (if list_ex (unpaired_at data) [0..<length data - 5] then Some ErrSurrogate else None)"

text \<open>The struct decoders; \<open>w\<close> is the width of Go's \<open>int\<close> on the platform.\<close>

definition dec_route :: "Route decoder" where
  "dec_route = dec_struct [''cidr'', ''gateway'', ''metric''] (\<lambda>f v r.
     if f = ''cidr'' then bindE (dec_string v (rt_CIDR r)) (\<lambda>x. Inr (r\<lparr>rt_CIDR := x\<rparr>))
     else if f = ''gateway'' then
       bindE (dec_ptr dec_string [] v (rt_Gateway r)) (\<lambda>x. Inr (r\<lparr>rt_Gateway := x\<rparr>))
     else bindE (dec_ptr (dec_int 64) 0 v (rt_Metric r)) (\<lambda>x. Inr (r\<lparr>rt_Metric := x\<rparr>)))"

definition dec_rtab :: "RoutingTable decoder" where
  "dec_rtab = dec_struct [''ipv4'', ''ipv6''] (\<lambda>f v r.
     if f = ''ipv4'' then bindE (dec_ptr dec_string [] v (rtab_IPv4 r)) (\<lambda>x. Inr (r\<lparr>rtab_IPv4 := x\<rparr>))
     else bindE (dec_ptr dec_string [] v (rtab_IPv6 r)) (\<lambda>x. Inr (r\<lparr>rtab_IPv6 := x\<rparr>)))"

definition dec_peer :: "nat \<Rightarrow> Peer decoder" where
  "dec_peer w = dec_struct
     [''public_key'', ''preshared_key'', ''allowed_ips'', ''endpoint'', ''persistent_keepalive'', ''options'']
     (\<lambda>f v r.
     if f = ''public_key'' then
       bindE (dec_string v (peer_PublicKey r)) (\<lambda>x. Inr (r\<lparr>peer_PublicKey := x\<rparr>))
     else if f = ''preshared_key'' then
       bindE (dec_ptr dec_string [] v (peer_PresharedKey r)) (\<lambda>x. Inr (r\<lparr>peer_PresharedKey := x\<rparr>))
     else if f = ''allowed_ips'' then
       bindE (dec_slice dec_string [] v (peer_AllowedIPs r)) (\<lambda>x. Inr (r\<lparr>peer_AllowedIPs := x\<rparr>))
     else if f = ''endpoint'' then
       bindE (dec_ptr dec_string [] v (peer_Endpoint r)) (\<lambda>x. Inr (r\<lparr>peer_Endpoint := x\<rparr>))
     else if f = ''persistent_keepalive'' then
       bindE (dec_ptr (dec_int w) 0 v (peer_PersistentKeepalive r))
         (\<lambda>x. Inr (r\<lparr>peer_PersistentKeepalive := x\<rparr>))
     else bindE (dec_map dec_string [] v (peer_Options r)) (\<lambda>x. Inr (r\<lparr>peer_Options := x\<rparr>)))"

definition dec_iface :: "nat \<Rightarrow> Interface decoder" where
  "dec_iface w = dec_struct
     [''private_key'', ''listen_port'', ''addresses'', ''mtu'', ''route_allowed_ips'', ''fwmark'',
      ''routing_table'', ''routes'', ''options'', ''peers''] (\<lambda>f v r.
     if f = ''private_key'' then
       bindE (dec_string v (if_PrivateKey r)) (\<lambda>x. Inr (r\<lparr>if_PrivateKey := x\<rparr>))
     else if f = ''listen_port'' then
       bindE (dec_ptr (dec_int w) 0 v (if_ListenPort r)) (\<lambda>x. Inr (r\<lparr>if_ListenPort := x\<rparr>))
     else if f = ''addresses'' then
       bindE (dec_slice dec_string [] v (if_Addresses r)) (\<lambda>x. Inr (r\<lparr>if_Addresses := x\<rparr>))
     else if f = ''mtu'' then
       bindE (dec_ptr (dec_int w) 0 v (if_MTU r)) (\<lambda>x. Inr (r\<lparr>if_MTU := x\<rparr>))
     else if f = ''route_allowed_ips'' then
       bindE (dec_ptr dec_bool False v (if_RouteAllowedIPs r)) (\<lambda>x. Inr (r\<lparr>if_RouteAllowedIPs := x\<rparr>))
     else if f = ''fwmark'' then
       bindE (dec_ptr (dec_int 64) 0 v (if_Fwmark r)) (\<lambda>x. Inr (r\<lparr>if_Fwmark := x\<rparr>))
     else if f = ''routing_table'' then
       bindE (dec_ptr dec_rtab zero_rtab v (if_RoutingTable r)) (\<lambda>x. Inr (r\<lparr>if_RoutingTable := x\<rparr>))
     else if f = ''routes'' then
       bindE (dec_slice dec_route zero_route v (if_Routes r)) (\<lambda>x. Inr (r\<lparr>if_Routes := x\<rparr>))
     else if f = ''options'' then
       bindE (dec_map dec_string [] v (if_Options r)) (\<lambda>x. Inr (r\<lparr>if_Options := x\<rparr>))
     else bindE (dec_map (dec_peer w) zero_peer v (if_Peers r)) (\<lambda>x. Inr (r\<lparr>if_Peers := x\<rparr>)))"

definition dec_bundle :: "nat \<Rightarrow> Bundle decoder" where
  "dec_bundle w = dec_struct
     [''version'', ''namespace'', ''node_id'', ''timestamp'', ''wg'', ''stunmesh''] (\<lambda>f v r.
     if f = ''version'' then bindE (dec_int w v (b_Version r)) (\<lambda>x. Inr (r\<lparr>b_Version := x\<rparr>))
     else if f = ''namespace'' then bindE (dec_string v (b_Namespace r)) (\<lambda>x. Inr (r\<lparr>b_Namespace := x\<rparr>))
     else if f = ''node_id'' then bindE (dec_string v (b_NodeID r)) (\<lambda>x. Inr (r\<lparr>b_NodeID := x\<rparr>))
     else if f = ''timestamp'' then bindE (dec_int 64 v (b_Timestamp r)) (\<lambda>x. Inr (r\<lparr>b_Timestamp := x\<rparr>))
     else if f = ''wg'' then
       bindE (dec_map (dec_iface w) zero_iface v (b_WG r)) (\<lambda>x. Inr (r\<lparr>b_WG := x\<rparr>))
     else bindE (dec_ptr dec_string [] v (b_Stunmesh r)) (\<lambda>x. Inr (r\<lparr>b_Stunmesh := x\<rparr>)))"

definition Parse :: "nat \<Rightarrow> string \<Rightarrow> perr + Bundle" where
  "Parse w data =
     (case decode_stream data of None \<Rightarrow> Inl ErrParse
      | Some (raw, rest) \<Rightarrow>
         (case checkRaw (to_any raw) of Some e \<Rightarrow> Inl e
          | None \<Rightarrow>
             (case checkSurrogates data of Some e \<Rightarrow> Inl e
              | None \<Rightarrow>
                 (case dec_bundle w raw zero_bundle of
                    Inl (DUnknown k) \<Rightarrow> Inl (ErrUnknownField k)
                  | Inl DType \<Rightarrow> Inl ErrParse
                  | Inr b \<Rightarrow> if dec_more rest then Inl ErrTrailing else Inr b))))"

section \<open>Validate\<close>

text \<open>Each error carries the key and the field its message names.\<close>

datatype verr = ErrVersion | ErrNamespace | ErrNodeID | ErrTimestamp | ErrStunmesh | ErrWG
  | ErrRange string string | ErrInterface string string | ErrPeer string string | ErrRoute string string

fun first_fail :: "(bool \<times> 'e) list \<Rightarrow> 'e option" where
  "first_fail [] = None"
| "first_fail ((c, e) # r) = (if c then Some e else first_fail r)"

text \<open>A present value for which \<open>p\<close> holds.\<close>

definition present :: "('a \<Rightarrow> bool) \<Rightarrow> 'a option \<Rightarrow> bool" where
  "present p x = (case x of None \<Rightarrow> False | Some v \<Rightarrow> p v)"

definition isASCIIDigits :: "string \<Rightarrow> bool" where
  "isASCIIDigits s = (s \<noteq> [] \<and> list_all is_digit s)"

definition ws_chars :: string where
  "ws_chars = [CHR '' '', CHR 0x09, CHR 0x0A, CHR 0x0D, CHR 0x0C, CHR 0x0B]"

definition validateRoutingTableValue :: "string \<Rightarrow> string \<Rightarrow> string \<Rightarrow> verr option" where
  "validateRoutingTableValue v field name =
     (let e = ErrInterface name (''routing_table.'' @ field) in
      if v = [] then Some e
      else if contains_any v ws_chars then Some e
      else if isASCIIDigits v \<and> hd v = CHR ''0'' then Some e
      else None)"

definition validate_rtab :: "string \<Rightarrow> RoutingTable \<Rightarrow> verr option" where
  "validate_rtab name rt =
     (if rtab_IPv4 rt = None \<and> rtab_IPv6 rt = None then Some (ErrInterface name ''routing_table'')
      else first_some
        [case rtab_IPv4 rt of None \<Rightarrow> None | Some v \<Rightarrow> validateRoutingTableValue v ''ipv4'' name,
         case rtab_IPv6 rt of None \<Rightarrow> None | Some v \<Rightarrow> validateRoutingTableValue v ''ipv6'' name])"

definition validate_peer :: "string \<Rightarrow> Peer \<Rightarrow> verr option" where
  "validate_peer pname p = first_fail
     [(peer_PublicKey p = [], ErrPeer pname ''public_key''),
      (present (\<lambda>xs. xs \<noteq> []) (peer_AllowedIPs p) = False, ErrPeer pname ''allowed_ips''),
      (present (\<lambda>s. s = []) (peer_PresharedKey p), ErrPeer pname ''preshared_key''),
      (present (\<lambda>s. s = []) (peer_Endpoint p), ErrPeer pname ''endpoint''),
      (present (\<lambda>k. k < 0 \<or> k > 65535) (peer_PersistentKeepalive p), ErrRange pname ''persistent_keepalive'')]"

definition validate_route :: "string \<Rightarrow> Route \<Rightarrow> verr option" where
  "validate_route name r = first_fail
     [(rt_CIDR r = [], ErrRoute name ''cidr''),
      (present (\<lambda>s. s = []) (rt_Gateway r), ErrRoute name ''gateway''),
      (present (\<lambda>m. m < 0 \<or> m > 4294967295) (rt_Metric r), ErrRange name ''metric'')]"

definition validate_iface :: "string \<Rightarrow> Interface \<Rightarrow> verr option" where
  "validate_iface name i = first_some (
     [first_fail
       [(if_PrivateKey i = [], ErrInterface name ''private_key''),
        (present (\<lambda>xs. xs \<noteq> []) (if_Addresses i) = False, ErrInterface name ''addresses''),
        (if_Peers i = None, ErrInterface name ''peers''),
        (present (\<lambda>p. p < 1 \<or> p > 65535) (if_ListenPort i), ErrRange name ''listen_port''),
        (present (\<lambda>m. m < 576 \<or> m > 65535) (if_MTU i), ErrRange name ''mtu''),
        (present (\<lambda>m. m < 1 \<or> m > 4294967295) (if_Fwmark i), ErrRange name ''fwmark'')],
      (case if_RoutingTable i of None \<Rightarrow> None | Some rt \<Rightarrow> validate_rtab name rt)]
     @ map (\<lambda>(pname, p). validate_peer pname p) (case if_Peers i of None \<Rightarrow> [] | Some ps \<Rightarrow> ps)
     @ map (validate_route name) (case if_Routes i of None \<Rightarrow> [] | Some rs \<Rightarrow> rs))"

definition maxSafeInteger :: int where
  "maxSafeInteger = 9007199254740991"

definition Validate :: "string \<Rightarrow> string \<Rightarrow> Bundle \<Rightarrow> verr option" where
  "Validate namespace nodeID b = first_some (
     [first_fail
       [(b_Version b \<noteq> 1, ErrVersion),
        (b_Namespace b \<noteq> namespace, ErrNamespace),
        (b_NodeID b \<noteq> nodeID, ErrNodeID),
        (b_Timestamp b \<le> 0, ErrTimestamp),
        (b_Timestamp b > maxSafeInteger, ErrRange [] ''timestamp''),
        (b_Stunmesh b = None, ErrStunmesh),
        (b_WG b = None, ErrWG)]]
     @ map (\<lambda>(name, i). validate_iface name i) (case b_WG b of None \<Rightarrow> [] | Some m \<Rightarrow> m))"

section \<open>Canonical and Equal\<close>

definition escapeRawDEL :: "string \<Rightarrow> string" where
  "escapeRawDEL data =
     (if CHR 0x7F \<notin> set data then data
      else concat (map (\<lambda>b. if b = CHR 0x7F then bslash # ''u007f'' else [b]) data))"

text \<open>
  The loop of unescapeLineSeparators: \<open>pre\<close> is data[:i] reversed, so the backward count of
  backslashes is a prefix of it, and the other argument is data[i:].
\<close>

function ules_loop :: "string \<Rightarrow> string \<Rightarrow> string" where
  "ules_loop pre [] = []"
| "ules_loop pre (c # cs) =
     (let sq = take 5 cs in
      if c = bslash \<and> 5 \<le> length cs \<and> (sq = ''u2028'' \<or> sq = ''u2029'')
         \<and> even (length (takeWhile (\<lambda>x. x = bslash) pre))
      then (if sq ! 4 = CHR ''8'' then u2028 else u2029) @ ules_loop (rev sq @ c # pre) (drop 5 cs)
      else c # ules_loop (c # pre) cs)"
  by pat_completeness auto
termination
  by (relation "measure (\<lambda>(pre, s). length s)") auto

definition unescapeLineSeparators :: "string \<Rightarrow> string" where
  "unescapeLineSeparators data = ules_loop [] data"

definition normalizeEscapes :: "string \<Rightarrow> string" where
  "normalizeEscapes data = escapeRawDEL (unescapeLineSeparators data)"

datatype cerr = ErrUnmarshal

definition Canonical :: "Bundle \<Rightarrow> cerr + string" where
  "Canonical b =
     (case map_option to_float_any (unmarshal (marshal_bundle b)) of
        Some (JObj m) \<Rightarrow>
          (let m' = AList.delete ''timestamp'' m;
               buf = print_json (go_quote False) (sort_json (JObj m')) @ [newline]
           in Inr (trim_right_set (\<lambda>c. c = newline) (normalizeEscapes buf)))
      | _ \<Rightarrow> Inl ErrUnmarshal)"

definition Equal :: "Bundle \<Rightarrow> Bundle \<Rightarrow> cerr + bool" where
  "Equal b other = bindE (Canonical b) (\<lambda>a. bindE (Canonical other) (\<lambda>c. Inr (a = c)))"

end
