(* ===== verification/Bundle_Valid.thy ===== *)
theory Bundle_Valid
  imports Bundle
begin

text \<open>
  What Validate accepts: \<open>valid_bundle\<close> states the field table of docs/format.md 6 and 7
  field by field, and Validate, which walks the maps in the order the runtime picks and
  stops at the first bad field, accepts exactly those bundles in every order.
\<close>

section \<open>The field table\<close>

definition in_opt :: "int \<Rightarrow> int \<Rightarrow> int option \<Rightarrow> bool" where
  "in_opt lo hi x = (case x of None \<Rightarrow> True | Some v \<Rightarrow> lo \<le> v \<and> v \<le> hi)"

definition nonempty_opt :: "'a list option \<Rightarrow> bool" where
  "nonempty_opt x = (x \<noteq> Some [])"

definition valid_table_value :: "string \<Rightarrow> bool" where
  "valid_table_value v = (v \<noteq> [] \<and> set v \<inter> set ws_chars = {} \<and> \<not> (list_all is_digit v \<and> hd v = CHR ''0''))"

definition valid_rtab :: "RoutingTable \<Rightarrow> bool" where
  "valid_rtab t = ((rtab_IPv4 t \<noteq> None \<or> rtab_IPv6 t \<noteq> None)
     \<and> (case rtab_IPv4 t of None \<Rightarrow> True | Some v \<Rightarrow> valid_table_value v)
     \<and> (case rtab_IPv6 t of None \<Rightarrow> True | Some v \<Rightarrow> valid_table_value v))"

definition valid_peer :: "Peer \<Rightarrow> bool" where
  "valid_peer p = (peer_PublicKey p \<noteq> [] \<and> (\<exists>ips. peer_AllowedIPs p = Some ips \<and> ips \<noteq> [])
     \<and> nonempty_opt (peer_PresharedKey p) \<and> nonempty_opt (peer_Endpoint p)
     \<and> in_opt 0 65535 (peer_PersistentKeepalive p))"

definition valid_route :: "Route \<Rightarrow> bool" where
  "valid_route r = (rt_CIDR r \<noteq> [] \<and> nonempty_opt (rt_Gateway r) \<and> in_opt 0 4294967295 (rt_Metric r))"

definition valid_iface :: "Interface \<Rightarrow> bool" where
  "valid_iface i = (if_PrivateKey i \<noteq> [] \<and> (\<exists>as. if_Addresses i = Some as \<and> as \<noteq> [])
     \<and> in_opt 1 65535 (if_ListenPort i) \<and> in_opt 576 65535 (if_MTU i)
     \<and> in_opt 1 4294967295 (if_Fwmark i)
     \<and> (case if_RoutingTable i of None \<Rightarrow> True | Some t \<Rightarrow> valid_rtab t)
     \<and> (\<exists>ps. if_Peers i = Some ps \<and> (\<forall>p \<in> snd ` set ps. valid_peer p))
     \<and> (case if_Routes i of None \<Rightarrow> True | Some rs \<Rightarrow> \<forall>r \<in> set rs. valid_route r))"

definition valid_bundle :: "string \<Rightarrow> string \<Rightarrow> Bundle \<Rightarrow> bool" where
  "valid_bundle ns nid b = (b_Version b = 1 \<and> b_Namespace b = ns \<and> b_NodeID b = nid
     \<and> 0 < b_Timestamp b \<and> b_Timestamp b \<le> 2 ^ 53 - 1 \<and> b_Stunmesh b \<noteq> None
     \<and> (\<exists>m. b_WG b = Some m \<and> (\<forall>i \<in> snd ` set m. valid_iface i)))"

section \<open>Every check of the code is one condition of the table\<close>

lemma first_some_None [simp]: "first_some xs = None \<longleftrightarrow> (\<forall>x \<in> set xs. x = None)"
  by (induction xs rule: first_some.induct) auto

lemma first_some_append: "first_some (xs @ ys) = (case first_some xs of None \<Rightarrow> first_some ys | Some e \<Rightarrow> Some e)"
  by (induction xs rule: first_some.induct) auto

lemma first_fail_None [simp]: "first_fail cs = None \<longleftrightarrow> (\<forall>c \<in> set cs. \<not> fst c)"
  by (induction cs rule: first_fail.induct) auto

lemma present_simps [simp]: "present p None = False" "present p (Some v) = p v"
  by (simp_all add: present_def)

lemma validateRoutingTableValue_None: "validateRoutingTableValue v f n = None \<longleftrightarrow> valid_table_value v"
  by (auto simp: validateRoutingTableValue_def valid_table_value_def contains_any_def list_ex_iff
      isASCIIDigits_def Let_def)

lemma validate_rtab_None: "validate_rtab n t = None \<longleftrightarrow> valid_rtab t"
  by (auto simp: validate_rtab_def valid_rtab_def validateRoutingTableValue_None split: option.splits)

lemma validate_peer_None: "validate_peer n p = None \<longleftrightarrow> valid_peer p"
  by (cases "peer_AllowedIPs p"; cases "peer_PresharedKey p"; cases "peer_Endpoint p";
      cases "peer_PersistentKeepalive p")
    (auto simp: validate_peer_def valid_peer_def nonempty_opt_def in_opt_def)

lemma validate_route_None: "validate_route n r = None \<longleftrightarrow> valid_route r"
  by (cases "rt_Gateway r"; cases "rt_Metric r")
    (auto simp: validate_route_def valid_route_def nonempty_opt_def in_opt_def)

lemma present_not_in_opt: "present (\<lambda>x. x < lo \<or> x > hi) x \<longleftrightarrow> \<not> in_opt lo hi x"
  by (auto simp: in_opt_def split: option.splits)

lemma present_nonempty: "present (\<lambda>xs. xs \<noteq> []) x \<longleftrightarrow> (\<exists>xs. x = Some xs \<and> xs \<noteq> [])"
  by (cases x) auto

lemma all_entries:
  "(\<forall>x \<in> set (map (\<lambda>(k, v). f k v) m). x = None) \<longleftrightarrow> (\<forall>kv \<in> set m. f (fst kv) (snd kv) = None)"
  by (auto simp: split_beta)

lemma validate_iface_None: "validate_iface n i = None \<longleftrightarrow> valid_iface i"
  unfolding validate_iface_def valid_iface_def first_some_None set_append ball_Un all_entries
  by (cases "if_Peers i"; cases "if_Routes i"; cases "if_RoutingTable i")
    (auto simp add: present_not_in_opt present_nonempty validate_rtab_None validate_peer_None
      validate_route_None)

lemma Validate_None: "Validate ns nid b = None \<longleftrightarrow> valid_bundle ns nid b"
  unfolding Validate_def valid_bundle_def first_some_None set_append ball_Un all_entries
  by (cases "b_WG b") (auto simp: maxSafeInteger_def validate_iface_None)

end
