(* ===== verification/Bundle_Codec.thy ===== *)
theory Bundle_Codec
  imports Bundle_Valid
begin

text \<open>
  MarshalJSON and the struct decoder are inverse: decoding the tree a bundle is written as
  gives the bundle back, with every map in key order (\<open>norm_bundle\<close>). The lemmas go
  through the members of each object in key order, one setter at a time.
\<close>

section \<open>A bundle with its maps in key order\<close>

definition norm_map :: "('a \<Rightarrow> 'b) \<Rightarrow> 'a gomap \<Rightarrow> 'b gomap" where
  "norm_map g m = map (\<lambda>kv. (fst kv, g (snd kv))) (sort_map m)"

definition norm_peer :: "Peer \<Rightarrow> Peer" where
  "norm_peer p = p\<lparr>peer_Options := map_option (norm_map id) (peer_Options p)\<rparr>"

definition norm_iface :: "Interface \<Rightarrow> Interface" where
  "norm_iface i = i\<lparr>if_Options := map_option (norm_map id) (if_Options i),
     if_Peers := map_option (norm_map norm_peer) (if_Peers i)\<rparr>"

definition norm_bundle :: "Bundle \<Rightarrow> Bundle" where
  "norm_bundle b = b\<lparr>b_WG := map_option (norm_map norm_iface) (b_WG b)\<rparr>"

section \<open>What the Go types and a decoded text guarantee\<close>

text \<open>Integers fit the type of their field (\<open>w\<close> bits for \<open>int\<close>), every string is valid UTF-8,
  keys are distinct, and the slices that are always encoded are present.\<close>

definition fits :: "nat \<Rightarrow> int \<Rightarrow> bool" where
  "fits w i = (- (2 ^ (w - 1)) \<le> i \<and> i < 2 ^ (w - 1))"

definition opt_all :: "('a \<Rightarrow> bool) \<Rightarrow> 'a option \<Rightarrow> bool" where
  "opt_all p x = (case x of None \<Rightarrow> True | Some v \<Rightarrow> p v)"

definition map_wf :: "('a \<Rightarrow> bool) \<Rightarrow> 'a gomap \<Rightarrow> bool" where
  "map_wf p m = (gm_ok m \<and> list_all (\<lambda>kv. valid_utf8 (fst kv) \<and> p (snd kv)) m)"

definition route_wf :: "Route \<Rightarrow> bool" where
  "route_wf r = (valid_utf8 (rt_CIDR r) \<and> opt_all valid_utf8 (rt_Gateway r) \<and> opt_all (fits 64) (rt_Metric r))"

definition rtab_wf :: "RoutingTable \<Rightarrow> bool" where
  "rtab_wf t = (opt_all valid_utf8 (rtab_IPv4 t) \<and> opt_all valid_utf8 (rtab_IPv6 t))"

definition strs_wf :: "string list option \<Rightarrow> bool" where
  "strs_wf x = (case x of None \<Rightarrow> False | Some ss \<Rightarrow> list_all valid_utf8 ss)"

definition peer_wf :: "nat \<Rightarrow> Peer \<Rightarrow> bool" where
  "peer_wf w p = (valid_utf8 (peer_PublicKey p) \<and> opt_all valid_utf8 (peer_PresharedKey p)
     \<and> strs_wf (peer_AllowedIPs p) \<and> opt_all valid_utf8 (peer_Endpoint p)
     \<and> opt_all (fits w) (peer_PersistentKeepalive p) \<and> opt_all (map_wf valid_utf8) (peer_Options p))"

definition iface_wf :: "nat \<Rightarrow> Interface \<Rightarrow> bool" where
  "iface_wf w i = (valid_utf8 (if_PrivateKey i) \<and> opt_all (fits w) (if_ListenPort i)
     \<and> strs_wf (if_Addresses i) \<and> opt_all (fits w) (if_MTU i) \<and> opt_all (fits 64) (if_Fwmark i)
     \<and> opt_all rtab_wf (if_RoutingTable i) \<and> opt_all (list_all route_wf) (if_Routes i)
     \<and> opt_all (map_wf valid_utf8) (if_Options i) \<and> opt_all (map_wf (peer_wf w)) (if_Peers i))"

definition bundle_wf :: "nat \<Rightarrow> Bundle \<Rightarrow> bool" where
  "bundle_wf w b = (w \<in> {32, 64} \<and> fits w (b_Version b) \<and> valid_utf8 (b_Namespace b)
     \<and> valid_utf8 (b_NodeID b) \<and> fits 64 (b_Timestamp b)
     \<and> opt_all (map_wf (iface_wf w)) (b_WG b) \<and> opt_all valid_utf8 (b_Stunmesh b))"

lemma opt_all_simps [simp]: "opt_all p None" "opt_all p (Some v) = p v"
  by (simp_all add: opt_all_def)

section \<open>Objects in key order\<close>

definition key_ordered :: "(string \<times> 'v) list \<Rightarrow> bool" where
  "key_ordered kvs = sorted_wrt (<) (map fst kvs)"

lemma key_ordered_gm_ok: "key_ordered kvs \<Longrightarrow> gm_ok kvs"
  unfolding key_ordered_def gm_ok_def by (simp add: strict_sorted_iff)

lemma sort_map_ordered:
  assumes "key_ordered kvs" and "mset kvs = mset kvs'"
  shows "sort_map kvs' = kvs"
proof -
  have "sort_map kvs = kvs"
    using assms(1) by (simp add: sort_map_def key_ordered_def strict_sorted_iff sorted_sort_id sort_key_id_if_sorted)
  moreover have "sort_map kvs = sort_map kvs'"
    using key_ordered_gm_ok [OF assms(1)] sort_map_eq_iff assms(2) by blast
  ultimately show ?thesis by simp
qed

lemma key_ordered_append:
  "key_ordered (xs @ ys) \<longleftrightarrow> key_ordered xs \<and> key_ordered ys \<and> (\<forall>x \<in> fst ` set xs. \<forall>y \<in> fst ` set ys. x < y)"
  by (auto simp: key_ordered_def sorted_wrt_append)

lemma key_ordered_single [simp]: "key_ordered [kv]"
  by (simp add: key_ordered_def)

lemma key_ordered_opt [simp]: "key_ordered (opt_member k f x)"
  by (cases x) (simp_all add: key_ordered_def opt_member_def)

lemma opt_member_keys: "y \<in> fst ` set (opt_member k f x) \<Longrightarrow> y = k"
  by (cases x) (auto simp: opt_member_def)

lemma key_ordered_sort_map: "gm_ok m \<Longrightarrow> key_ordered (sort_map m)"
  unfolding key_ordered_def by (metis gm_ok_def gm_ok_sort_map map_fst_sort_map sorted_keys_def
      sorted_sort strict_sorted_iff)

lemma key_ordered_map [simp]: "key_ordered (map (\<lambda>kv. (fst kv, f (snd kv))) m) = key_ordered m"
  by (simp add: key_ordered_def comp_def)

text \<open>The members each MarshalJSON writes, in the order in which they appear.\<close>

definition peer_members :: "Peer \<Rightarrow> (string \<times> json) list" where
  "peer_members p = [(''allowed_ips'', json_strs (peer_AllowedIPs p))]
     @ opt_member ''endpoint'' JStr (peer_Endpoint p)
     @ opt_member ''options'' (json_map JStr) (peer_Options p)
     @ opt_member ''persistent_keepalive'' json_int (peer_PersistentKeepalive p)
     @ opt_member ''preshared_key'' JStr (peer_PresharedKey p)
     @ [(''public_key'', JStr (peer_PublicKey p))]"

definition iface_members :: "Interface \<Rightarrow> (string \<times> json) list" where
  "iface_members i = [(''addresses'', json_strs (if_Addresses i))]
     @ opt_member ''fwmark'' json_int (if_Fwmark i)
     @ opt_member ''listen_port'' json_int (if_ListenPort i)
     @ opt_member ''mtu'' json_int (if_MTU i)
     @ opt_member ''options'' (json_map JStr) (if_Options i)
     @ opt_member ''peers'' (json_map peer_json) (if_Peers i)
     @ [(''private_key'', JStr (if_PrivateKey i))]
     @ opt_member ''route_allowed_ips'' JBool (if_RouteAllowedIPs i)
     @ opt_member ''routes'' (\<lambda>rs. JArr (map route_json rs)) (if_Routes i)
     @ opt_member ''routing_table'' rtab_json (if_RoutingTable i)"

definition bundle_members :: "Bundle \<Rightarrow> (string \<times> json) list" where
  "bundle_members b = [(''namespace'', JStr (b_Namespace b)), (''node_id'', JStr (b_NodeID b))]
     @ opt_member ''stunmesh'' JStr (b_Stunmesh b)
     @ [(''timestamp'', json_int (b_Timestamp b)), (''version'', json_int (b_Version b))]
     @ opt_member ''wg'' (json_map iface_json) (b_WG b)"

lemma key_ordered_Cons2: "key_ordered ((k, v) # xs) \<longleftrightarrow> key_ordered xs \<and> (\<forall>y \<in> fst ` set xs. k < y)"
  by (auto simp: key_ordered_def)

lemma ball_opt_member: "(\<forall>y \<in> set (opt_member k f x). P y) \<longleftrightarrow> (\<forall>v. x = Some v \<longrightarrow> P (k, f v))"
  by (cases x) (auto simp: opt_member_def)

lemmas order_simps = key_ordered_append key_ordered_Cons2 ball_opt_member ball_Un image_Un set_append
  less_char_def

lemma peer_members_ordered: "key_ordered (peer_members p)"
  unfolding peer_members_def by (simp add: order_simps)

lemma iface_members_ordered: "key_ordered (iface_members i)"
  unfolding iface_members_def by (simp add: order_simps)

lemma bundle_members_ordered: "key_ordered (bundle_members b)"
  unfolding bundle_members_def by (simp add: order_simps)

lemma peer_json_members: "peer_json p = JObj (peer_members p)"
  unfolding peer_json_def json_obj_def
  by (simp only: json.inject, rule sort_map_ordered [OF peer_members_ordered])
    (simp add: peer_members_def ac_simps)

lemma iface_json_members: "iface_json i = JObj (iface_members i)"
  unfolding iface_json_def json_obj_def
  by (simp only: json.inject, rule sort_map_ordered [OF iface_members_ordered])
    (simp add: iface_members_def ac_simps)

lemma bundle_json_members: "bundle_json b = JObj (bundle_members b)"
  unfolding bundle_json_def json_obj_def
  by (simp only: json.inject, rule sort_map_ordered [OF bundle_members_ordered])
    (simp add: bundle_members_def ac_simps)

section \<open>Decoding what was encoded\<close>

lemma dec_members_append:
  "dec_members ns s (xs @ ys) r = bindE (dec_members ns s xs r) (dec_members ns s ys)"
proof (induction xs arbitrary: r)
  case (Cons kv xs)
  then show ?case by (cases kv) (auto simp: bindE_def split: sum.splits option.splits)
qed simp

text \<open>One member after another: \<open>u\<close> is the setter of the member's field.\<close>

lemma dec_opt:
  assumes "dec_members ns s kvs (u x r) = res" and "k \<in> set ns" and "u None r = r"
    and "\<And>v. x = Some v \<Longrightarrow> s k (f v) r = Inr (u (Some v) r)"
  shows "dec_members ns s (opt_member k f x @ kvs) r = res"
  using assms by (cases x) (simp_all add: opt_member_def find_field_def)

lemma dec_last_opt:
  assumes "Inr (u x r) = res" and "k \<in> set ns" and "u None r = r"
    and "\<And>v. x = Some v \<Longrightarrow> s k (f v) r = Inr (u (Some v) r)"
  shows "dec_members ns s (opt_member k f x) r = res"
  using assms by (cases x) (auto simp add: opt_member_def find_field_def)

lemma dec_req:
  assumes "dec_members ns s kvs r' = res" and "k \<in> set ns" and "s k v r = Inr r'"
  shows "dec_members ns s ((k, v) # kvs) r = res"
  using assms by (simp add: find_field_def)

lemma dec_int_show [simp]: "fits w i \<Longrightarrow> dec_int w (json_int i) j = Inr i"
  by (simp add: json_int_def fits_def parse_int_show)

lemma json_int_not_null [simp]: "json_int i \<noteq> JNull" "json_map f m \<noteq> JNull" "rtab_json t \<noteq> JNull"
  by (simp_all add: json_int_def json_map_def rtab_json_def)

lemma dec_ptr_None [simp]: "v \<noteq> JNull \<Longrightarrow> dec_ptr dec z v None = bindE (dec v z) (\<lambda>x. Inr (Some x))"
  by (simp add: dec_ptr_def)

lemma dec_elems_map:
  "(\<And>x. x \<in> set xs \<Longrightarrow> dec (f x) z = Inr x) \<Longrightarrow> dec_elems dec z [] (map f xs) = Inr xs"
  by (induction xs) auto

lemma dec_strs [simp]: "strs_wf x \<Longrightarrow> dec_slice dec_string [] (json_strs x) None = Inr x"
  by (cases x) (simp_all add: strs_wf_def json_strs_def dec_elems_map)

lemma dec_entries_map:
  assumes "\<And>kv. kv \<in> set kvs \<Longrightarrow> dec (f (snd kv)) z = Inr (g (snd kv))" and "distinct (map fst m @ map fst kvs)"
  shows "dec_entries dec z (map (\<lambda>kv. (fst kv, f (snd kv))) kvs) m
     = Inr (m @ map (\<lambda>kv. (fst kv, g (snd kv))) kvs)"
  using assms
proof (induction kvs arbitrary: m)
  case (Cons kv kvs)
  have "fst kv \<notin> fst ` set m" using Cons.prems by auto
  then show ?case using Cons by (simp add: update_append)
qed simp

lemma set_sort_map [simp]: "set (sort_map m) = set m"
  by (simp add: sort_map_def)

lemma dec_json_map:
  assumes "gm_ok m" and "\<And>kv. kv \<in> set m \<Longrightarrow> dec (f (snd kv)) z = Inr (g (snd kv))"
  shows "dec_map dec z (json_map f m) None = Inr (Some (norm_map g m))"
  using dec_entries_map [of "sort_map m" dec f z g "[]"] assms gm_ok_sort_map [of m]
  by (simp add: json_map_def norm_map_def gm_ok_def)

lemma dec_string_map [simp]: "map_wf p m \<Longrightarrow> dec_map dec_string [] (json_map JStr m) None = Inr (Some (norm_map id m))"
  by (rule dec_json_map) (simp_all add: map_wf_def)

lemma dec_route_json:
  assumes "route_wf r"
  shows "dec_route (route_json r) zero_route = Inr r"
proof -
  note w = assms [unfolded route_wf_def]
  show ?thesis
    unfolding dec_route_def route_json_def dec_struct.simps append_Cons append_Nil
    by (rule dec_req, rule dec_opt [where u = "\<lambda>x. rt_Gateway_update (\<lambda>_. x)"],
        rule dec_last_opt [where u = "\<lambda>x. rt_Metric_update (\<lambda>_. x)"])
      (use w in \<open>auto simp: zero_route_def\<close>)
qed

lemma dec_rtab_json:
  assumes "rtab_wf t"
  shows "dec_rtab (rtab_json t) zero_rtab = Inr t"
proof -
  note w = assms [unfolded rtab_wf_def]
  show ?thesis
    unfolding dec_rtab_def rtab_json_def dec_struct.simps
    by (rule dec_opt [where u = "\<lambda>x. rtab_IPv4_update (\<lambda>_. x)"],
        rule dec_last_opt [where u = "\<lambda>x. rtab_IPv6_update (\<lambda>_. x)"])
      (use w in \<open>auto simp: zero_rtab_def\<close>)
qed

lemma dec_peer_json:
  assumes "peer_wf w p"
  shows "dec_peer w (peer_json p) zero_peer = Inr (norm_peer p)"
proof -
  note w = assms [unfolded peer_wf_def]
  show ?thesis
    unfolding dec_peer_def peer_json_members peer_members_def dec_struct.simps append_Cons append_Nil
    by (rule dec_req, rule dec_opt [where u = "\<lambda>x. peer_Endpoint_update (\<lambda>_. x)"],
        rule dec_opt [where u = "\<lambda>x. peer_Options_update (\<lambda>_. map_option (norm_map id) x)"],
        rule dec_opt [where u = "\<lambda>x. peer_PersistentKeepalive_update (\<lambda>_. x)"],
        rule dec_opt [where u = "\<lambda>x. peer_PresharedKey_update (\<lambda>_. x)"], rule dec_req)
      (use w in \<open>auto simp: zero_peer_def norm_peer_def\<close>)
qed

lemma dec_routes:
  "list_all route_wf rs \<Longrightarrow> dec_elems dec_route zero_route [] (map route_json rs) = Inr rs"
  by (rule dec_elems_map) (simp add: dec_route_json list_all_iff)

lemma dec_peers:
  assumes "map_wf (peer_wf w) m"
  shows "dec_map (dec_peer w) zero_peer (json_map peer_json m) None = Inr (Some (norm_map norm_peer m))"
  by (rule dec_json_map) (use assms in \<open>auto simp: map_wf_def list_all_iff dec_peer_json\<close>)

lemma dec_iface_json:
  assumes "iface_wf w i"
  shows "dec_iface w (iface_json i) zero_iface = Inr (norm_iface i)"
proof -
  note w = assms [unfolded iface_wf_def]
  show ?thesis
    unfolding dec_iface_def iface_json_members iface_members_def dec_struct.simps append_Cons append_Nil
    by (rule dec_req, rule dec_opt [where u = "\<lambda>x. if_Fwmark_update (\<lambda>_. x)"],
        rule dec_opt [where u = "\<lambda>x. if_ListenPort_update (\<lambda>_. x)"],
        rule dec_opt [where u = "\<lambda>x. if_MTU_update (\<lambda>_. x)"],
        rule dec_opt [where u = "\<lambda>x. if_Options_update (\<lambda>_. map_option (norm_map id) x)"],
        rule dec_opt [where u = "\<lambda>x. if_Peers_update (\<lambda>_. map_option (norm_map norm_peer) x)"],
        rule dec_req,
        rule dec_opt [where u = "\<lambda>x. if_RouteAllowedIPs_update (\<lambda>_. x)"],
        rule dec_opt [where u = "\<lambda>x. if_Routes_update (\<lambda>_. x)"],
        rule dec_last_opt [where u = "\<lambda>x. if_RoutingTable_update (\<lambda>_. x)"])
      (use w in \<open>auto simp: zero_iface_def norm_iface_def dec_routes dec_peers dec_rtab_json\<close>)
qed

lemma dec_bundle_json:
  assumes "bundle_wf w b"
  shows "dec_bundle w (bundle_json b) zero_bundle = Inr (norm_bundle b)"
proof -
  note w = assms [unfolded bundle_wf_def]
  have wg: "dec_map (dec_iface w) zero_iface (json_map iface_json m) None = Inr (Some (norm_map norm_iface m))"
    if "map_wf (iface_wf w) m" for m
    by (rule dec_json_map) (use that in \<open>auto simp: map_wf_def list_all_iff dec_iface_json\<close>)
  show ?thesis
    unfolding dec_bundle_def bundle_json_members bundle_members_def dec_struct.simps append_Cons append_Nil
    by (rule dec_req, rule dec_req, rule dec_opt [where u = "\<lambda>x. b_Stunmesh_update (\<lambda>_. x)"],
        rule dec_req, rule dec_req,
        rule dec_last_opt [where u = "\<lambda>x. b_WG_update (\<lambda>_. map_option (norm_map norm_iface) x)"])
      (use w in \<open>auto simp: zero_bundle_def norm_bundle_def wg\<close>)
qed

section \<open>Written trees are well formed\<close>

text \<open>
  A tree a decoder, a map of \<open>any\<close> and the printer all agree on: distinct keys in order,
  valid strings, integers below 2^53 in size (which float64 holds exactly), no null.
\<close>

fun canon_tree :: "json \<Rightarrow> bool" where
  "canon_tree JNull = False"
| "canon_tree (JBool b) = True"
| "canon_tree (JNum l) = (\<exists>i. l = show_int i \<and> \<bar>i\<bar> < 2 ^ 53)"
| "canon_tree (JStr s) = valid_utf8 s"
| "canon_tree (JArr vs) = list_all canon_tree vs"
| "canon_tree (JObj kvs) = (key_ordered kvs \<and> list_all (\<lambda>kv. valid_utf8 (fst kv) \<and> canon_tree (snd kv)) kvs)"

lemma canon_tree_wf: "canon_tree j \<Longrightarrow> json_wf j"
  by (induction j rule: canon_tree.induct) (auto simp: list_all_iff intro!: is_int_lit_show)

lemma canon_tree_int: "\<bar>i\<bar> < 2 ^ 53 \<Longrightarrow> canon_tree (json_int i)"
  by (auto simp: json_int_def)

lemma canon_opt_member:
  "list_all (\<lambda>kv. valid_utf8 (fst kv) \<and> canon_tree (snd kv)) (opt_member k f x)
   \<longleftrightarrow> (\<forall>v. x = Some v \<longrightarrow> valid_utf8 k \<and> canon_tree (f v))"
  by (cases x) (simp_all add: opt_member_def)

lemma ascii_key [simp]: "list_all (\<lambda>c. code c < 128) k \<Longrightarrow> valid_utf8 k"
  by (rule valid_utf8_ascii)

lemma canon_JObj:
  "key_ordered kvs \<Longrightarrow> list_all (\<lambda>kv. valid_utf8 (fst kv) \<and> canon_tree (snd kv)) kvs \<Longrightarrow> canon_tree (JObj kvs)"
  by simp

lemma canon_json_map:
  "map_wf p m \<Longrightarrow> (\<And>kv. kv \<in> set m \<Longrightarrow> p (snd kv) \<Longrightarrow> canon_tree (f (snd kv))) \<Longrightarrow> canon_tree (json_map f m)"
  by (simp add: json_map_def key_ordered_sort_map map_wf_def list_all_iff)

lemma canon_str_map: "map_wf valid_utf8 m \<Longrightarrow> canon_tree (json_map JStr m)"
  by (erule canon_json_map) simp

lemma canon_strs: "strs_wf x \<Longrightarrow> canon_tree (json_strs x)"
  by (cases x) (simp_all add: strs_wf_def json_strs_def list_all_iff)

text \<open>One rule per kind of optional member.\<close>

lemma canon_opts:
  "in_opt lo hi x \<Longrightarrow> - (2 ^ 53) < lo \<Longrightarrow> hi < 2 ^ 53 \<Longrightarrow> x = Some v \<Longrightarrow> canon_tree (json_int v)"
  "opt_all valid_utf8 y \<Longrightarrow> y = Some s \<Longrightarrow> valid_utf8 s"
  "opt_all (map_wf valid_utf8) z \<Longrightarrow> z = Some m \<Longrightarrow> canon_tree (json_map JStr m)"
  by (auto simp: in_opt_def canon_str_map intro!: canon_tree_int)

lemma canon_route: "valid_route r \<Longrightarrow> route_wf r \<Longrightarrow> canon_tree (route_json r)"
  unfolding route_json_def valid_route_def route_wf_def
  by (rule canon_JObj) (auto simp: order_simps canon_opt_member intro: canon_opts)

lemma canon_rtab: "rtab_wf t \<Longrightarrow> canon_tree (rtab_json t)"
  unfolding rtab_json_def rtab_wf_def
  by (rule canon_JObj) (auto simp: order_simps canon_opt_member intro: canon_opts)

lemma canon_peer: "valid_peer p \<Longrightarrow> peer_wf w p \<Longrightarrow> canon_tree (peer_json p)"
  unfolding peer_json_members
  by (rule canon_JObj [OF peer_members_ordered])
    (auto simp: valid_peer_def peer_wf_def peer_members_def canon_opt_member canon_strs intro: canon_opts)

lemma canon_peers:
  assumes "\<forall>p \<in> snd ` set ps. valid_peer p" and "map_wf (peer_wf w) ps"
  shows "canon_tree (json_map peer_json ps)"
  by (rule canon_json_map [OF assms(2)]) (use assms(1) in \<open>auto intro: canon_peer\<close>)

lemma canon_routes: "\<forall>r \<in> set rs. valid_route r \<Longrightarrow> list_all route_wf rs \<Longrightarrow> canon_tree (JArr (map route_json rs))"
  by (auto simp: list_all_iff intro: canon_route)

lemma canon_iface: "valid_iface i \<Longrightarrow> iface_wf w i \<Longrightarrow> canon_tree (iface_json i)"
proof -
  assume v: "valid_iface i" and wf: "iface_wf w i"
  have "canon_tree (json_map peer_json ps)" if "if_Peers i = Some ps" for ps
    using v wf that unfolding valid_iface_def iface_wf_def by (auto intro: canon_peers)
  moreover have "canon_tree (JArr (map route_json rs))" if "if_Routes i = Some rs" for rs
    using v wf that unfolding valid_iface_def iface_wf_def by (intro canon_routes) auto
  moreover have "canon_tree (rtab_json t)" if "if_RoutingTable i = Some t" for t
    using wf that unfolding iface_wf_def by (auto intro: canon_rtab)
  moreover have "canon_tree (json_int x)" if "Some x \<in> {if_ListenPort i, if_MTU i, if_Fwmark i}" for x
    using v that unfolding valid_iface_def by (auto intro: canon_opts)
  ultimately show ?thesis
    using wf unfolding iface_json_members iface_wf_def
    by (intro canon_JObj [OF iface_members_ordered])
      (simp add: iface_members_def canon_opt_member canon_strs, blast intro: canon_opts(3))
qed

lemma canon_bundle: "valid_bundle ns nid b \<Longrightarrow> bundle_wf w b \<Longrightarrow> canon_tree (bundle_json b)"
proof -
  assume v: "valid_bundle ns nid b" and wf: "bundle_wf w b"
  have "canon_tree (json_map iface_json m)" if "b_WG b = Some m" for m
    by (rule canon_json_map [of "iface_wf w"])
      (use v wf that in \<open>auto simp: valid_bundle_def bundle_wf_def intro: canon_iface\<close>)
  moreover have "canon_tree (json_int (b_Timestamp b))" "canon_tree (json_int (b_Version b))"
    using v unfolding valid_bundle_def by (auto intro!: canon_tree_int)
  ultimately show ?thesis
    using wf unfolding bundle_json_members bundle_wf_def
    by (intro canon_JObj [OF bundle_members_ordered])
      (auto simp add: bundle_members_def canon_opt_member intro: canon_opts)
qed

end
