(* ===== verification/Bundle_Scan.thy ===== *)
theory Bundle_Scan
  imports Bundle_Codec
begin

text \<open>
  The two byte scanners of internal/bundle, which look back over the run of backslashes
  before a position to tell an escape from an escaped backslash: checkSurrogates on the
  input of Parse and unescapeLineSeparators on the output of Canonical. A printed document
  is cut into chunks (one raw character, or one quoted rune), and both scanners are shown
  to go through it chunk by chunk.
\<close>

section \<open>Parity of the backslashes before a position\<close>

definition ev :: "string \<Rightarrow> bool" where
  "ev pre = even (length (takeWhile (\<lambda>c. c = bslash) pre))"

lemma ev_simps [simp]: "ev []" "c \<noteq> bslash \<Longrightarrow> ev (c # pre)" "ev (bslash # pre) = (\<not> ev pre)"
  by (simp_all add: ev_def)

lemma ev_append: "s \<noteq> [] \<Longrightarrow> bslash \<notin> set s \<Longrightarrow> ev (s @ pre)"
  by (cases s) (auto simp: ev_def)

section \<open>checkSurrogates, from left to right\<close>

text \<open>A high-surrogate escape at the head of \<open>s\<close> that no low one follows.\<close>

definition unpaired_head :: "string \<Rightarrow> bool" where
  "unpaired_head s = (6 \<le> length s \<and> s ! 0 = bslash \<and> s ! 1 = CHR ''u'' \<and>
     (case parseHex4 (take 4 (drop 2 s)) of None \<Rightarrow> False
      | Some v \<Rightarrow> 0xD800 \<le> v \<and> v \<le> 0xDBFF \<and> \<not> followedByLowSurrogate s 6))"

fun scan_back :: "string \<Rightarrow> string \<Rightarrow> bool" where
  "scan_back pre [] = False"
| "scan_back pre (c # cs) = ((ev pre \<and> unpaired_head (c # cs)) \<or> scan_back (c # pre) cs)"

lemma slice_take_drop: "slice (i + 2) (i + 6) s = take 4 (drop (i + 2) s)"
  by (simp add: slice_def drop_take)

lemma followedByLowSurrogate_drop:
  assumes "i \<le> length data"
  shows "followedByLowSurrogate data (i + k) = followedByLowSurrogate (drop i data) k"
proof -
  have "drop (i + k + 2) data = drop (k + 2) (drop i data)"
    by (simp add: ac_simps)
  moreover have "length data < i + k + 6 \<longleftrightarrow> length (drop i data) < k + 6"
    using assms by auto
  moreover have "data ! (i + k + 1) = drop i data ! (k + 1)" "data ! (i + k) = drop i data ! k"
    using assms by (simp_all add: add.assoc)
  ultimately show ?thesis
    unfolding followedByLowSurrogate_def slice_take_drop by simp
qed

lemma unpaired_at_head:
  assumes "i < length data - 5"
  shows "unpaired_at data i \<longleftrightarrow> ev (rev (take i data)) \<and> unpaired_head (drop i data)"
proof -
  have "slice (i + 2) (i + 6) data = take 4 (drop 2 (drop i data))"
    unfolding slice_take_drop by (simp add: add.commute)
  moreover have "followedByLowSurrogate data (i + 6) = followedByLowSurrogate (drop i data) 6"
    using assms by (intro followedByLowSurrogate_drop) simp
  ultimately show ?thesis
    using assms by (auto simp: unpaired_at_def unpaired_head_def isRealEscape_def ev_def split: option.splits)
qed

lemma scan_back_at:
  "scan_back pre s \<longleftrightarrow> (\<exists>i < length s. ev (rev (take i s) @ pre) \<and> unpaired_head (drop i s))"
proof (induction s arbitrary: pre)
  case (Cons c s)
  show ?case unfolding scan_back.simps Cons.IH by (auto simp: less_Suc_eq_0_disj)
qed simp

lemma checkSurrogates_scan: "checkSurrogates data = None \<longleftrightarrow> \<not> scan_back [] data"
proof -
  have "\<not> unpaired_head (drop i data)" if "\<not> i < length data - 5" for i
    using that by (auto simp: unpaired_head_def)
  then have "scan_back [] data \<longleftrightarrow> (\<exists>i < length data - 5. unpaired_at data i)"
    unfolding scan_back_at
    by (auto simp: unpaired_at_head) (metis append.right_neutral not_less_iff_gr_or_eq diff_le_self order.strict_trans1 unpaired_at_head)+
  then show ?thesis by (auto simp: checkSurrogates_def list_ex_iff)
qed

text \<open>The same question asked by a scanner that reads each escape once, from the left.\<close>

fun unpaired_surrogate :: "string \<Rightarrow> bool" where
  "unpaired_surrogate [] = False"
| "unpaired_surrogate [c] = False"
| "unpaired_surrogate (c # e # ds) =
     (if c \<noteq> bslash then unpaired_surrogate (e # ds)
      else unpaired_head (c # e # ds) \<or> unpaired_surrogate ds)"

lemma unpaired_head_Cons: "unpaired_head (c # s) \<Longrightarrow> c = bslash"
  by (simp add: unpaired_head_def)

lemma scan_back_forward: "ev pre \<Longrightarrow> scan_back pre s = unpaired_surrogate s"
proof (induction s arbitrary: pre rule: unpaired_surrogate.induct)
  case (2 c)
  then show ?case by (simp add: unpaired_head_def)
next
  case (3 c e ds)
  show ?case
  proof (cases "c = bslash")
    case True
    moreover have "ev (e # c # pre)" using True 3(3) by (cases "e = bslash") simp_all
    ultimately show ?thesis using 3 by simp
  next
    case False
    then show ?thesis using 3 unpaired_head_Cons [of c "e # ds"] by auto
  qed
qed simp

section \<open>A printed document as a list of chunks\<close>

datatype chunk = Raw char | Esc rune

primrec put :: "(rune \<Rightarrow> string) \<Rightarrow> chunk \<Rightarrow> string" where
  "put f (Raw c) = [c]"
| "put f (Esc r) = f r"

abbreviation "raws s \<equiv> map Raw s"
abbreviation "quoted s \<equiv> Raw dquote # map Esc (runes s) @ [Raw dquote]"

fun chunks :: "json \<Rightarrow> chunk list"
and chunks_elems :: "json list \<Rightarrow> chunk list"
and chunks_members :: "(string \<times> json) list \<Rightarrow> chunk list" where
  "chunks JNull = raws ''null''"
| "chunks (JBool b) = raws (if b then ''true'' else ''false'')"
| "chunks (JNum l) = raws l"
| "chunks (JStr s) = quoted s"
| "chunks (JArr vs) = Raw (CHR ''['') # chunks_elems vs"
| "chunks (JObj kvs) = Raw (CHR ''{'') # chunks_members kvs"
| "chunks_elems [] = raws '']''"
| "chunks_elems (v # vs) = chunks v @ (if vs = [] then raws '']'' else Raw (CHR '','') # chunks_elems vs)"
| "chunks_members [] = raws ''}''"
| "chunks_members ((k, v) # kvs) = quoted k @ Raw (CHR '':'') # chunks v @
     (if kvs = [] then raws ''}'' else Raw (CHR '','') # chunks_members kvs)"

lemma concat_raws [simp]: "concat (map (put f \<circ> Raw) s) = s"
  by (induction s) auto

lemma concat_escs [simp]: "concat (map (put f \<circ> Esc) rs) = concat (map f rs)"
  by (induction rs) auto

lemma print_chunks:
  "print_json (\<lambda>s. concat (map f (runes s))) v = concat (map (put f) (chunks v))"
  "print_elems (\<lambda>s. concat (map f (runes s))) vs = concat (map (put f) (chunks_elems vs))"
  "print_members (\<lambda>s. concat (map f (runes s))) kvs = concat (map (put f) (chunks_members kvs))"
  by (induction v and vs and kvs rule: chunks_chunks_elems_chunks_members.induct) auto

text \<open>What a chunk of a canonical tree can be.\<close>

abbreviation del :: char where
  "del \<equiv> CHR 0x7F"

primrec chunk_ok :: "chunk \<Rightarrow> bool" where
  "chunk_ok (Raw c) = (c \<noteq> bslash \<and> c \<noteq> del)"
| "chunk_ok (Esc r) = rune_wf r"

lemma show_int_chars: "c \<in> set (show_int i) \<Longrightarrow> is_digit c \<or> c = CHR ''-''"
  using show_nat_digits by (auto simp: show_int_def list_all_iff split: if_splits)

lemma chunks_ok:
  "canon_tree v \<Longrightarrow> list_all chunk_ok (chunks v)"
  "list_all canon_tree vs \<Longrightarrow> list_all chunk_ok (chunks_elems vs)"
  "list_all (\<lambda>kv. valid_utf8 (fst kv) \<and> canon_tree (snd kv)) kvs \<Longrightarrow> list_all chunk_ok (chunks_members kvs)"
proof (induction v and vs and kvs rule: chunks_chunks_elems_chunks_members.induct)
  case (3 l)
  then show ?case by (auto simp: list_all_iff is_digit_def dest: show_int_chars)
qed (auto simp: valid_utf8_iff list_all_iff)

section \<open>The scanners on a printed document\<close>

text \<open>A chunk without a backslash, or an escape of two or six characters.\<close>

lemma scan_back_plain: "bslash \<notin> set s \<Longrightarrow> scan_back pre (s @ t) = scan_back (rev s @ pre) t"
  by (induction s arbitrary: pre) (auto dest: unpaired_head_Cons)

lemma ules_plain: "bslash \<notin> set s \<Longrightarrow> ules_loop pre (s @ t) = s @ ules_loop (rev s @ pre) t"
  by (induction s arbitrary: pre) auto

lemma multi_no_bslash: "rune_wf (Multi bs) \<Longrightarrow> bslash \<notin> set bs \<and> del \<notin> set bs \<and> bs \<noteq> []"
proof -
  assume wf: "rune_wf (Multi bs)"
  have "\<forall>c \<in> set (take (rune_len bs) bs). 128 \<le> code c"
    by (auto simp: rune_len_def in_range_def split: if_splits
        elim!: valid2.elims valid3.elims valid4.elims)
  then show ?thesis using wf by auto
qed

declare scan_back.simps(2) [simp del]

text \<open>The escapes the encoder writes: which ones look like \<open>\\u2028\<close> or a surrogate.\<close>

lemma hexdig_lt: "n < 16 \<Longrightarrow> hexdig n \<noteq> bslash \<and> hexdig n \<noteq> del"
proof -
  assume "n < 16"
  then have "n \<in> {0, 1, 2, 3, 4, 5, 6, 7, 8, 9, 10, 11, 12, 13, 14, 15}"
    unfolding insert_iff empty_iff by presburger
  then show ?thesis by (auto simp: hexdig_def)
qed

lemma parseHex4_control:
  "code c < 128 \<Longrightarrow> parseHex4 [CHR ''0'', CHR ''0'', hexdig (code c div 16), hexdig (code c mod 16)] = Some (code c)"
  by (simp add: parseHex4_def less_mult_imp_div_less hexval_def [of "CHR ''0''"])

text \<open>\<open>esc_ascii\<close> writes the character itself, a two-character escape, or \<open>\\u00xx\<close>.\<close>

lemma esc_ascii_cases:
  assumes "code c < 128"
  obtains "esc_ascii h c = [c]" "c \<noteq> bslash"
  | e where "esc_ascii h c = [bslash, e]" "e \<noteq> CHR ''u''" "e \<noteq> del"
  | "esc_ascii h c = bslash # ''u00'' @ [hexdig (code c div 16), hexdig (code c mod 16)]" "c \<noteq> del"
proof (cases "c = bslash \<or> c = dquote \<or> code c \<in> {8, 9, 10, 12, 13}")
  case True
  then have "\<exists>e. esc_ascii h c = [bslash, e] \<and> e \<noteq> CHR ''u'' \<and> e \<noteq> del"
    by (auto simp: esc_ascii_def)
  then show ?thesis using that(2) by blast
next
  case False
  then have "esc_ascii h c = [c] \<or> (c \<noteq> del \<and>
      esc_ascii h c = bslash # ''u00'' @ [hexdig (code c div 16), hexdig (code c mod 16)])"
    by (auto simp: esc_ascii_def)
  then show ?thesis using that(1, 3) False by blast
qed

lemma scan_back_two:
  "e \<noteq> CHR ''u'' \<Longrightarrow> ev pre \<Longrightarrow> scan_back pre (bslash # e # t) = scan_back (e # bslash # pre) t"
  by (simp add: unpaired_head_def scan_back.simps)

lemma scan_back_u:
  assumes "ev pre" and "parseHex4 [a, b, c, d] = Some v" and "v < 0xD800" and "bslash \<notin> {a, b, c, d}"
  shows "scan_back pre (bslash # CHR ''u'' # a # b # c # d # t)
     = scan_back (rev (bslash # CHR ''u'' # [a, b, c, d]) @ pre) t"
proof -
  have "\<not> unpaired_head (bslash # CHR ''u'' # a # b # c # d # t)"
    using assms by (simp add: unpaired_head_def)
  then show ?thesis
    using assms scan_back_plain [of "[CHR ''u'', a, b, c, d]" "bslash # pre" t]
    by (simp add: scan_back.simps(2) [of pre bslash])
qed

lemma scan_back_esc_ascii:
  assumes "code c < 128" and "ev pre"
  shows "scan_back pre (esc_ascii h c @ t) = scan_back (rev (esc_ascii h c) @ pre) t
     \<and> ev (rev (esc_ascii h c) @ pre)"
  using assms(1)
proof (cases rule: esc_ascii_cases [where h = h])
  case 1
  then show ?thesis using scan_back_plain [of "[c]" pre t] by auto
next
  case (2 e)
  then show ?thesis using scan_back_two [of e pre t] assms by (cases "e = bslash") simp_all
next
  case 3
  have "code c div 16 < 16" "code c mod 16 < 16" using assms by (simp_all add: less_mult_imp_div_less)
  from hexdig_lt [OF this(1)] hexdig_lt [OF this(2)] show ?thesis
    using 3 scan_back_u [OF assms(2) parseHex4_control [OF assms(1)], of t] assms(1) by auto
qed

lemma parseHex4_seps: "parseHex4 ''2028'' = Some 0x2028" "parseHex4 ''2029'' = Some 0x2029"
  by (simp_all add: parseHex4_def hexval_def)

lemma scan_back_chunk:
  assumes "chunk_ok ck" and "ev pre"
  shows "scan_back pre (put (quote_rune h) ck @ t) = scan_back (rev (put (quote_rune h) ck) @ pre) t
     \<and> ev (rev (put (quote_rune h) ck) @ pre)"
proof (cases ck)
  case (Raw c)
  then show ?thesis using assms scan_back_plain [of "[c]" pre t] by auto
next
  case (Esc r)
  show ?thesis
  proof (cases r)
    case (Asc c)
    then show ?thesis using Esc assms scan_back_esc_ascii [of c pre h t] by simp
  next
    case (Multi bs)
    then have nb: "bslash \<notin> set bs" "bs \<noteq> []" using assms Esc multi_no_bslash by auto
    show ?thesis
      using Esc Multi nb assms(2) scan_back_plain [of bs pre t] ev_append [of "rev bs" pre]
        scan_back_u [OF assms(2) parseHex4_seps(1), of t] scan_back_u [OF assms(2) parseHex4_seps(2), of t]
      by simp
  next
    case (Bad c)
    then show ?thesis using assms Esc by simp
  qed
qed

lemma scan_back_chunks:
  "list_all chunk_ok cks \<Longrightarrow> ev pre \<Longrightarrow> \<not> scan_back pre (concat (map (put (quote_rune h)) cks))"
proof (induction cks arbitrary: pre)
  case (Cons ck cks)
  then show ?case
    using scan_back_chunk [of ck pre h "concat (map (put (quote_rune h)) cks)"] by simp
qed simp

lemma checkSurrogates_printed:
  "canon_tree v \<Longrightarrow> checkSurrogates (print_json (go_quote h) v) = None"
  using print_chunks(1) [of "quote_rune h" v] scan_back_chunks [OF chunks_ok(1), of v "[]" h]
  by (simp add: checkSurrogates_scan go_quote_def [abs_def])

section \<open>normalizeEscapes on a printed document\<close>

text \<open>What unescapeLineSeparators leaves of a chunk the encoder wrote without HTML escapes.\<close>

fun plain_rune :: "rune \<Rightarrow> string" where
  "plain_rune (Asc c) = esc_ascii False c"
| "plain_rune (Multi bs) = bs"
| "plain_rune (Bad c) = bslash # ''ufffd''"

text \<open>jq's choice of escapes: as the encoder without HTML escapes, but U+007F is escaped and
  U+2028 and U+2029 are not.\<close>

fun jq_rune :: "rune \<Rightarrow> string" where
  "jq_rune (Asc c) = (if c = del then bslash # ''u007f'' else esc_ascii False c)"
| "jq_rune (Multi bs) = bs"
| "jq_rune (Bad c) = fffd"

definition jq_quote :: "string \<Rightarrow> string" where
  "jq_quote s = concat (map jq_rune (runes s))"

lemma ules_step: "take 5 t \<noteq> ''u2028'' \<Longrightarrow> take 5 t \<noteq> ''u2029'' \<Longrightarrow> ules_loop pre (c # t) = c # ules_loop (c # pre) t"
  by simp

lemma ules_odd: "\<not> ev pre \<Longrightarrow> ules_loop pre (c # t) = c # ules_loop (c # pre) t"
  by (simp add: ev_def)

lemma ules_sep:
  "ev pre \<Longrightarrow> ules_loop pre (bslash # ''u2028'' @ t) = u2028 @ ules_loop (rev (bslash # ''u2028'') @ pre) t"
  "ev pre \<Longrightarrow> ules_loop pre (bslash # ''u2029'' @ t) = u2029 @ ules_loop (rev (bslash # ''u2029'') @ pre) t"
  by (simp_all add: ev_def)

lemma ules_esc_ascii:
  assumes "code c < 128" and "ev pre"
  shows "ules_loop pre (esc_ascii h c @ t) = esc_ascii h c @ ules_loop (rev (esc_ascii h c) @ pre) t"
  using assms(1)
proof (cases rule: esc_ascii_cases [where h = h])
  case 1
  then show ?thesis using ules_plain [of "[c]" pre t] by auto
next
  case (2 e)
  have "ules_loop pre (bslash # e # t) = bslash # ules_loop (bslash # pre) (e # t)"
    using 2 by (intro ules_step) (auto simp: take_Cons')
  then show ?thesis using 2 ules_odd [of "bslash # pre" e t] assms(2) by simp
next
  case 3
  let ?u = "''u00'' @ [hexdig (code c div 16), hexdig (code c mod 16)]"
  have lt: "code c div 16 < 16" "code c mod 16 < 16" using assms by (simp_all add: less_mult_imp_div_less)
  have "ules_loop pre (bslash # ?u @ t) = bslash # ules_loop (bslash # pre) (?u @ t)"
    by (rule ules_step) simp_all
  then show ?thesis
    using 3 ules_plain [of ?u "bslash # pre" t] hexdig_lt [OF lt(1)] hexdig_lt [OF lt(2)] by auto
qed

declare ules_loop.simps(2) [simp del]

lemma ules_chunk:
  assumes "chunk_ok ck" and "ev pre"
  shows "ules_loop pre (put (quote_rune False) ck @ t) =
     put plain_rune ck @ ules_loop (rev (put (quote_rune False) ck) @ pre) t"
proof (cases ck)
  case (Raw c)
  then show ?thesis using assms ules_plain [of "[c]" pre t] by auto
next
  case (Esc r)
  show ?thesis
  proof (cases r)
    case (Asc c)
    then show ?thesis using Esc assms ules_esc_ascii [of c pre False t] by simp
  next
    case (Multi bs)
    then have "bslash \<notin> set bs" using assms Esc multi_no_bslash by auto
    then show ?thesis
      using Esc Multi assms(2) ules_plain [of bs pre t] ules_sep [of pre t] by auto
  next
    case (Bad c)
    then show ?thesis using assms Esc by simp
  qed
qed

lemma ules_chunks:
  "list_all chunk_ok cks \<Longrightarrow> ev pre \<Longrightarrow>
   ules_loop pre (concat (map (put (quote_rune False)) cks) @ [newline]) = concat (map (put plain_rune) cks) @ [newline]"
proof (induction cks arbitrary: pre)
  case Nil
  then show ?case using ules_plain [of "[newline]" pre "[]"] by simp
next
  case (Cons ck cks)
  then show ?case
    using ules_chunk [of ck pre] scan_back_chunk [of ck pre False] by auto
qed

lemma escapeRawDEL_concat:
  "escapeRawDEL data = concat (map (\<lambda>b. if b = del then bslash # ''u007f'' else [b]) data)"
proof -
  have "del \<notin> set data \<Longrightarrow> concat (map (\<lambda>b. if b = del then bslash # ''u007f'' else [b]) data) = data"
    by (induction data) auto
  then show ?thesis by (simp add: escapeRawDEL_def)
qed

lemma escapeRawDEL_append: "escapeRawDEL (a @ b) = escapeRawDEL a @ escapeRawDEL b"
  by (simp add: escapeRawDEL_concat)

lemma escapeRawDEL_id: "del \<notin> set a \<Longrightarrow> escapeRawDEL a = a"
  by (simp add: escapeRawDEL_def)

lemma escapeRawDEL_chunk:
  assumes "chunk_ok ck"
  shows "escapeRawDEL (put plain_rune ck) = put jq_rune ck"
proof (cases ck)
  case (Raw c)
  then show ?thesis using assms escapeRawDEL_id [of "[c]"] by auto
next
  case (Esc r)
  show ?thesis
  proof (cases r)
    case (Asc c)
    then have lt: "code c < 128" using assms Esc by simp
    show ?thesis
    proof (cases "c = del")
      case True
      then show ?thesis using Esc Asc by (simp add: esc_ascii_def escapeRawDEL_def)
    next
      case False
      have "del \<notin> set (esc_ascii False c)"
      proof (rule esc_ascii_cases [OF lt, where h = False], goal_cases)
        case 3
        have "code c div 16 < 16" "code c mod 16 < 16" using lt by (simp_all add: less_mult_imp_div_less)
        from hexdig_lt [OF this(1)] hexdig_lt [OF this(2)] show ?case using 3 by auto
      qed (use False in auto)
      then show ?thesis using False Esc Asc by (simp add: escapeRawDEL_id)
    qed
  next
    case (Multi bs)
    then show ?thesis using Esc assms multi_no_bslash by (simp add: escapeRawDEL_id)
  next
    case (Bad c)
    then show ?thesis using assms Esc by simp
  qed
qed

lemma escapeRawDEL_chunks:
  "list_all chunk_ok cks \<Longrightarrow> escapeRawDEL (concat (map (put plain_rune) cks)) = concat (map (put jq_rune) cks)"
  by (induction cks) (simp_all add: escapeRawDEL_append escapeRawDEL_chunk, simp add: escapeRawDEL_def)

lemma normalizeEscapes_printed:
  assumes "canon_tree v"
  shows "normalizeEscapes (print_json (go_quote False) v @ [newline]) = print_json jq_quote v @ [newline]"
proof -
  note ok = chunks_ok(1) [OF assms]
  have "print_json jq_quote v = concat (map (put jq_rune) (chunks v))"
    "print_json (go_quote False) v = concat (map (put (quote_rune False)) (chunks v))"
    using print_chunks(1) [of jq_rune v] print_chunks(1) [of "quote_rune False" v]
    by (simp_all add: jq_quote_def [abs_def] go_quote_def [abs_def])
  then show ?thesis
    using ules_chunks [OF ok, of "[]"] escapeRawDEL_chunks [OF ok]
    by (simp add: normalizeEscapes_def unescapeLineSeparators_def escapeRawDEL_append escapeRawDEL_id)
qed

text \<open>jq's quoting is read back as any other: the interface again.\<close>

lemma unq_jq_rune: "rune_wf r \<Longrightarrow> unq (jq_rune r @ t) = prep (rune_bytes r) (unq t)"
proof (cases r)
  case (Asc c)
  assume "rune_wf r"
  then show ?thesis
    using Asc unq_esc_ascii [of c False t] unq_control [of c t] by (auto simp: hexdig_def)
next
  case (Multi bs)
  assume "rune_wf r"
  then show ?thesis using Multi unq_multi by simp
qed simp

interpretation jq: json_quoter jq_quote
  by unfold_locales (auto simp: jq_quote_def valid_utf8_iff runes_bytes unq_concat unq_jq_rune)

end
