(* ===== verification/Bundle_Canonical.thy ===== *)
theory Bundle_Canonical
  imports Bundle_Scan
begin

text \<open>
  Canonical and Equal: on a bundle that Validate accepts, Canonical prints the bundle's
  tree without its timestamp the way \<open>jq -S -c 'del(.timestamp)'\<close> does, so Equal decides
  equality of content; Parse reads back what MarshalJSON writes.
\<close>

section \<open>float64 keeps integers below 2^53\<close>

lemma bitlen_le: "bitlen n \<le> b \<longleftrightarrow> n < 2 ^ b"
proof (induction n arbitrary: b rule: bitlen.induct)
  case (1 n)
  show ?case
  proof (cases "n = 0")
    case True
    then show ?thesis by (simp add: bitlen.simps)
  next
    case False
    show ?thesis
    proof (cases b)
      case 0
      then show ?thesis using False by (simp add: bitlen.simps [of n])
    next
      case (Suc k)
      have "bitlen n \<le> b \<longleftrightarrow> bitlen (n div 2) \<le> k" using False Suc by (simp add: bitlen.simps [of n])
      also have "\<dots> \<longleftrightarrow> n div 2 < 2 ^ k" using 1 False by simp
      also have "\<dots> \<longleftrightarrow> n < 2 ^ b" using Suc by (simp add: div_less_iff_less_mult mult.commute)
      finally show ?thesis .
    qed
  qed
qed

lemma float64_small: "n < 2 ^ 53 \<Longrightarrow> float64 n = n"
  by (simp add: float64_def bitlen_le)

lemma float64_large:
  assumes "2 ^ 53 \<le> n"
  shows "2 ^ 53 \<le> float64 n"
proof -
  let ?b = "bitlen n" and ?sh = "bitlen n - 53"
  have b: "53 < ?b" using assms bitlen_le [of n 53] by linarith
  have "2 ^ (?b - 1) \<le> n" using bitlen_le [of n "?b - 1"] b by linarith
  moreover have "?b - 1 = 52 + ?sh" using b by simp
  ultimately have "2 ^ 52 * 2 ^ ?sh \<le> n" by (simp only: power_add)
  then have q: "2 ^ 52 \<le> n div 2 ^ ?sh" by (simp add: less_eq_div_iff_mult_less_eq)
  have "(2::nat) ^ 53 \<le> 2 ^ 52 * 2 ^ ?sh"
    using b power_increasing [of 1 ?sh "2::nat"] by simp
  also have "\<dots> \<le> n div 2 ^ ?sh * 2 ^ ?sh" using q by simp
  also have "\<dots> \<le> float64 n" using b by (auto simp: float64_def Let_def)
  finally show ?thesis .
qed

lemma shortest_small: "x < 2 ^ 53 \<Longrightarrow> shortest x p = x"
proof (induction p)
  case (Suc p)
  have eq: "float64 m = x \<longleftrightarrow> m = x" for m
    using Suc.prems float64_small [of m] float64_large [of m] by fastforce
  have "x div 10 ^ Suc p * 10 ^ Suc p + 10 ^ Suc p \<noteq> x"
    using dividend_less_div_times [of "10 ^ Suc p" x] by simp
  then show ?case using Suc eq by (simp add: Let_def)
qed simp

lemma show_float_small: "n < 2 ^ 53 \<Longrightarrow> show_float n = show_nat n"
  by (simp add: show_float_def float64_small shortest_small)

lemma float_lit_show: "\<bar>i\<bar> < 2 ^ 53 \<Longrightarrow> float_lit (show_int i) = show_int i"
proof -
  assume i: "\<bar>i\<bar> < 2 ^ 53"
  have "nat k < 2 ^ 53" if "k < 2 ^ 53" for k :: int
    using that by (cases "0 \<le> k") (simp_all add: nat_less_iff)
  then have "nat (- i) < 2 ^ 53" "nat i < 2 ^ 53" using i by simp_all
  moreover have "parse_int 64 (show_int i) = Some i"
    using i by (intro parse_int_show) auto
  ultimately show ?thesis by (simp add: float_lit_def show_float_small) (simp add: show_int_def)
qed

section \<open>Canonical trees are fixed points of the decoders and of sorting\<close>

lemma map_id_on: "(\<And>x. x \<in> set xs \<Longrightarrow> f x = x) \<Longrightarrow> map f xs = xs"
  by (simp add: map_idI)

lemma to_float_any_canon: "canon_tree v \<Longrightarrow> to_float_any v = v"
proof (induction v rule: to_float_any.induct)
  case (1 l)
  then show ?case by (auto simp: float_lit_show)
next
  case (3 kvs)
  have "map (\<lambda>kv. (fst kv, to_float_any (snd kv))) kvs = kvs"
    using 3 by (intro map_id_on) (auto simp: list_all_iff)
  then show ?case using 3 by (simp add: dedup_id key_ordered_gm_ok)
qed (auto simp: list_all_iff map_idI)

lemma to_any_canon: "canon_tree v \<Longrightarrow> to_any v = v"
proof (induction v rule: to_any.induct)
  case (2 kvs)
  have "map (\<lambda>kv. (fst kv, to_any (snd kv))) kvs = kvs"
    using 2 by (intro map_id_on) (auto simp: list_all_iff)
  then show ?case using 2 by (simp add: dedup_id key_ordered_gm_ok)
qed (auto simp: list_all_iff map_idI)

lemma sort_map_id: "key_ordered kvs \<Longrightarrow> sort_map kvs = kvs"
  by (rule sort_map_ordered) simp_all

lemma sort_json_canon: "canon_tree v \<Longrightarrow> sort_json v = v"
proof (induction v rule: sort_json.induct)
  case (2 kvs)
  have "map (\<lambda>kv. (fst kv, sort_json (snd kv))) kvs = kvs"
    using 2 by (intro map_id_on) (auto simp: list_all_iff)
  then show ?case using 2 by (simp add: sort_map_id)
qed (auto simp: list_all_iff map_idI)

lemma checkNumber_show: "- (2 ^ 63) \<le> i \<Longrightarrow> i < 2 ^ 63 \<Longrightarrow> checkNumber (show_int i) = None"
proof -
  assume i: "- (2 ^ 63) \<le> i" "i < 2 ^ 63"
  have "\<not> contains_any (show_int i) ''.eE''"
    by (auto simp: contains_any_def list_ex_iff is_digit_def dest!: show_int_chars)
  moreover have "\<not> has_prefix (show_int i) ''-0''"
  proof
    assume *: "has_prefix (show_int i) ''-0''"
    then have "i < 0"
      using show_nat_hd_digit [of "nat i"] is_digit_not_sign
      by (auto simp: has_prefix_iff show_int_def split: if_splits) (metis list.sel(1))
    then have "hd (show_nat (nat (- i))) = CHR ''0''"
      using * by (auto simp: has_prefix_iff show_int_def)
    then have "nat (- i) = 0" by (rule show_nat_hd_zero)
    with \<open>i < 0\<close> show False by simp
  qed
  moreover have "parse_int 64 (show_int i) = Some i" using i by (intro parse_int_show) simp_all
  ultimately show ?thesis by (simp add: checkNumber_def)
qed

lemma checkRaw_canon: "canon_tree v \<Longrightarrow> checkRaw v = None"
proof (induction v rule: checkRaw.induct)
  case (4 l)
  then show ?case using checkNumber_show by auto
qed (auto simp: list_all_iff)

section \<open>A bundle's tree\<close>

text \<open>The tree without its timestamp.\<close>

definition content_members :: "Bundle \<Rightarrow> (string \<times> json) list" where
  "content_members b = [(''namespace'', JStr (b_Namespace b)), (''node_id'', JStr (b_NodeID b))]
     @ opt_member ''stunmesh'' JStr (b_Stunmesh b)
     @ [(''version'', json_int (b_Version b))]
     @ opt_member ''wg'' (json_map iface_json) (b_WG b)"

definition content_json :: "Bundle \<Rightarrow> json" where
  "content_json b = JObj (content_members b)"

lemma delete_opt_member: "k \<noteq> j \<Longrightarrow> AList.delete j (opt_member k f x @ kvs) = opt_member k f x @ AList.delete j kvs"
  by (cases x) (simp_all add: opt_member_def AList.delete_eq)

lemma delete_timestamp: "AList.delete ''timestamp'' (bundle_members b) = content_members b"
  using delete_opt_member [of "''wg''" "''timestamp''" _ _ "[]"]
  by (simp add: bundle_members_def content_members_def delete_opt_member)

lemma canon_content:
  assumes "canon_tree (bundle_json b)"
  shows "canon_tree (content_json b)"
proof (unfold content_json_def, rule canon_JObj)
  show "key_ordered (content_members b)"
    unfolding content_members_def by (simp add: order_simps)
  show "list_all (\<lambda>kv. valid_utf8 (fst kv) \<and> canon_tree (snd kv)) (content_members b)"
    using assms
    by (simp add: bundle_json_members bundle_members_def content_members_def canon_opt_member)
qed

text \<open>The tree is at most seven levels deep.\<close>

lemma depth_leaves [simp]: "depth (JStr s) = 0" "depth (json_int i) = 0" "depth (JBool b) = 0"
  by (simp_all add: json_int_def)

lemma depth_json_map: "(\<And>v. depth (f v) \<le> d) \<Longrightarrow> depth (json_map f m) \<le> Suc d"
  by (simp add: json_map_def depth_JObj)

lemma depth_json_strs: "depth (json_strs x) \<le> Suc d"
  by (cases x) (simp_all add: json_strs_def depth_JArr)

lemmas depth_simps = depth_JObj depth_JArr ball_opt_member depth_json_map depth_json_strs ball_Un

lemma depth_route: "depth (route_json r) \<le> 1"
  by (simp add: route_json_def depth_simps)

lemma depth_rtab: "depth (rtab_json t) \<le> 1"
  by (simp add: rtab_json_def depth_simps)

lemma depth_peer: "depth (peer_json p) \<le> 2"
  using depth_json_map [of JStr 0] depth_json_strs [of _ 0]
  by (simp add: peer_json_members peer_members_def depth_simps)

lemma depth_iface: "depth (iface_json i) \<le> 4"
proof -
  have "depth (json_map JStr m) \<le> 3" "depth (json_strs x) \<le> 3" for m x
    using depth_json_map [of JStr 2] depth_json_strs [of _ 2] by (simp_all add: numeral_eq_Suc)
  moreover have "depth (json_map peer_json m) \<le> 3" for m
    using depth_json_map [of peer_json 2] depth_peer by (simp add: numeral_eq_Suc)
  moreover have "depth (rtab_json t) \<le> 3" "depth (route_json r) \<le> 2" for t r
    using depth_rtab [of t] depth_route [of r] by simp_all
  ultimately show ?thesis
    by (simp add: iface_json_members iface_members_def depth_JObj depth_JArr ball_opt_member ball_Un)
qed

lemma depth_bundle: "depth (bundle_json b) \<le> 6"
  using depth_json_map [of iface_json 4] depth_iface
  by (simp add: bundle_json_members bundle_members_def depth_simps)

lemma depth_content: "depth (content_json b) \<le> 6"
  using depth_json_map [of iface_json 4] depth_iface
  by (simp add: content_json_def content_members_def depth_simps)

lemma depth_max: "depth (bundle_json b) \<le> max_depth" "depth (content_json b) \<le> max_depth"
  using depth_bundle [of b] depth_content [of b] by (simp_all add: max_depth_def)

section \<open>Canonical\<close>

lemma newline_stop [simp]: "num_stop [newline]"
  by simp

lemma print_members_last: "print_members q kvs \<noteq> [] \<and> last (print_members q kvs) = CHR ''}''"
  by (induction kvs) auto

lemma Canonical_eq:
  assumes "canon_tree (bundle_json b)"
  shows "Canonical b = Inr (print_json jq_quote (content_json b))"
proof -
  have "unmarshal (marshal_bundle b) = Some (bundle_json b)"
    unfolding marshal_bundle_def
    by (rule html.unmarshal_print [OF canon_tree_wf [OF assms] depth_max(1)])
  moreover have "to_float_any (bundle_json b) = JObj (bundle_members b)"
    using to_float_any_canon [OF assms] by (simp add: bundle_json_members)
  moreover have "sort_json (JObj (content_members b)) = content_json b"
    using sort_json_canon [OF canon_content [OF assms]] by (simp only: content_json_def)
  moreover have "print_json jq_quote (content_json b) =
      CHR ''{'' # butlast (print_members jq_quote (content_members b)) @ ''}''"
    using print_members_last [of jq_quote "content_members b"]
      append_butlast_last_id [of "print_members jq_quote (content_members b)"]
    by (simp add: content_json_def)
  ultimately show ?thesis
    using normalizeEscapes_printed [OF canon_content [OF assms]]
    by (simp add: Canonical_def delete_timestamp trim_right_set_def del: sort_json.simps)
qed

text \<open>Equality of content: the same bundle once maps are in key order and the timestamp is
  dropped.\<close>

definition same_content :: "Bundle \<Rightarrow> Bundle \<Rightarrow> bool" where
  "same_content b b' = (norm_bundle (b\<lparr>b_Timestamp := 0\<rparr>) = norm_bundle (b'\<lparr>b_Timestamp := 0\<rparr>))"

lemma dec_content_json:
  assumes "bundle_wf w b"
  shows "dec_bundle w (content_json b) zero_bundle = Inr (norm_bundle (b\<lparr>b_Timestamp := 0\<rparr>))"
proof -
  note w = assms [unfolded bundle_wf_def]
  have wg: "dec_map (dec_iface w) zero_iface (json_map iface_json m) None = Inr (Some (norm_map norm_iface m))"
    if "map_wf (iface_wf w) m" for m
    by (rule dec_json_map) (use that in \<open>auto simp: map_wf_def list_all_iff dec_iface_json\<close>)
  show ?thesis
    unfolding dec_bundle_def content_json_def content_members_def dec_struct.simps append_Cons append_Nil
    by (rule dec_req, rule dec_req, rule dec_opt [where u = "\<lambda>x. b_Stunmesh_update (\<lambda>_. x)"], rule dec_req,
        rule dec_last_opt [where u = "\<lambda>x. b_WG_update (\<lambda>_. map_option (norm_map norm_iface) x)"])
      (use w in \<open>auto simp: zero_bundle_def norm_bundle_def wg\<close>)
qed

lemma key_ordered_norm_map: "gm_ok m \<Longrightarrow> key_ordered (norm_map g m)"
  by (simp add: norm_map_def key_ordered_sort_map)

lemma json_map_norm:
  assumes "map_wf p m" and "\<And>v. p v \<Longrightarrow> f (g v) = f v"
  shows "json_map f (norm_map g m) = json_map f m"
proof -
  have "sort_map (norm_map g m) = norm_map g m"
    using assms(1) by (simp add: map_wf_def key_ordered_norm_map sort_map_id)
  moreover have "map (\<lambda>kv. (fst kv, f (g (snd kv)))) (sort_map m) = map (\<lambda>kv. (fst kv, f (snd kv))) (sort_map m)"
    using assms by (auto simp: map_wf_def list_all_iff)
  ultimately show ?thesis by (simp add: json_map_def norm_map_def comp_def)
qed

lemma opt_member_norm:
  "opt_all p x \<Longrightarrow> (\<And>v. p v \<Longrightarrow> f (g v) = f v) \<Longrightarrow> opt_member k f (map_option g x) = opt_member k f x"
  by (cases x) (simp_all add: opt_member_def)

lemma opt_member_norm_map:
  "opt_all (map_wf p) x \<Longrightarrow> (\<And>v. p v \<Longrightarrow> f (g v) = f v) \<Longrightarrow>
   opt_member k (json_map f) (map_option (norm_map g) x) = opt_member k (json_map f) x"
  by (erule opt_member_norm) (rule json_map_norm)

lemma peer_json_norm: "peer_wf w p \<Longrightarrow> peer_json (norm_peer p) = peer_json p"
  by (simp add: peer_json_members peer_members_def norm_peer_def peer_wf_def
      opt_member_norm_map [of valid_utf8 "peer_Options p"])

lemma iface_json_norm: "iface_wf w i \<Longrightarrow> iface_json (norm_iface i) = iface_json i"
  by (simp add: iface_json_members iface_members_def norm_iface_def iface_wf_def
      opt_member_norm_map [of valid_utf8 "if_Options i"]
      opt_member_norm_map [where p = "peer_wf w" and f = peer_json and g = norm_peer] peer_json_norm)

lemma content_json_norm:
  "bundle_wf w b \<Longrightarrow> content_json (norm_bundle (b\<lparr>b_Timestamp := t\<rparr>)) = content_json b"
  by (simp add: content_json_def content_members_def norm_bundle_def bundle_wf_def
      opt_member_norm_map [where p = "iface_wf w" and f = iface_json and g = norm_iface] iface_json_norm)

lemma content_json_eq_iff:
  assumes "bundle_wf w b" and "bundle_wf w b'"
  shows "content_json b = content_json b' \<longleftrightarrow> same_content b b'"
  using dec_content_json [OF assms(1)] dec_content_json [OF assms(2)]
    content_json_norm [OF assms(1), of 0] content_json_norm [OF assms(2), of 0]
  unfolding same_content_def by (metis sum.inject(2))

lemma Equal_iff:
  assumes "canon_tree (bundle_json b)" and "canon_tree (bundle_json b')" and "bundle_wf w b" and "bundle_wf w b'"
  shows "Equal b b' = Inr (same_content b b')"
proof -
  note c = assms(1, 2) [THEN canon_content]
  have "print_json jq_quote (content_json b) = print_json jq_quote (content_json b')
      \<longleftrightarrow> content_json b = content_json b'"
    using jq.print_inj [OF canon_tree_wf [OF c(1)] canon_tree_wf [OF c(2)] depth_max(2) depth_max(2)] by auto
  then show ?thesis
    by (simp add: Equal_def Canonical_eq [OF assms(1)] Canonical_eq [OF assms(2)]
        content_json_eq_iff [OF assms(3, 4)])
qed

section \<open>Parse reads what MarshalJSON writes\<close>

lemma decode_printed:
  assumes "canon_tree (bundle_json b)" and "num_stop t"
  shows "decode_stream (marshal_bundle b @ t) = Some (bundle_json b, t)"
  unfolding marshal_bundle_def
  by (rule html.decode_stream_print [OF canon_tree_wf [OF assms(1)] depth_max(1) assms(2)])

lemma Parse_marshal_then:
  assumes "canon_tree (bundle_json b)" and "bundle_wf w b" and "num_stop t"
    and "checkSurrogates (marshal_bundle b @ t) = None" and "\<not> dec_more t"
  shows "Parse w (marshal_bundle b @ t) = Inr (norm_bundle b)"
  using assms by (simp add: Parse_def decode_printed to_any_canon checkRaw_canon dec_bundle_json)

lemma marshal_chunks:
  "marshal_bundle b = concat (map (put (quote_rune True)) (chunks (bundle_json b)))"
  using print_chunks(1) [of "quote_rune True" "bundle_json b"]
  by (simp add: marshal_bundle_def go_quote_def [abs_def])

text \<open>A rest without a backslash adds no escape.\<close>

lemma scan_back_chunks_then:
  "list_all chunk_ok cks \<Longrightarrow> ev pre \<Longrightarrow> bslash \<notin> set t \<Longrightarrow>
   \<not> scan_back pre (concat (map (put (quote_rune h)) cks) @ t)"
proof (induction cks arbitrary: pre)
  case Nil
  then show ?case using scan_back_plain [of t pre "[]"] by simp
next
  case (Cons ck cks)
  then show ?case
    using scan_back_chunk [of ck pre h "concat (map (put (quote_rune h)) cks) @ t"] by simp
qed

lemma checkSurrogates_marshal:
  "canon_tree (bundle_json b) \<Longrightarrow> bslash \<notin> set t \<Longrightarrow> checkSurrogates (marshal_bundle b @ t) = None"
  using scan_back_chunks_then [OF chunks_ok(1), of "bundle_json b" "[]" t True]
  by (simp add: checkSurrogates_scan marshal_chunks)

end
