(* ===== verification/Decode_Type.thy ===== *)
theory Decode_Type
  imports Bundle_Codec
begin

text \<open>
  The types of what Parse returns: every string the JSON decoder produces is valid UTF-8
  (invalid input becomes U+FFFD), every integer fits its field and every map has distinct
  keys. With Validate this gives the well-formed bundles that Canonical, Equal and the diff
  are proved to work on.
\<close>

section \<open>Strings the decoder produces\<close>

lemma runes_single2: "valid2 [a, b] \<Longrightarrow> 128 \<le> code a \<Longrightarrow> valid_utf8 [a, b]"
  by (simp add: valid_utf8_def rune_len_def Let_def is_good_def)

lemma runes_single3: "valid3 [a, b, c] \<Longrightarrow> 128 \<le> code a \<Longrightarrow> valid_utf8 [a, b, c]"
  by (auto simp: valid_utf8_def rune_len_def Let_def is_good_def in_range_def numeral_3_eq_3)

lemma runes_single4: "valid4 [a, b, c, d] \<Longrightarrow> 128 \<le> code a \<Longrightarrow> valid_utf8 [a, b, c, d]"
  by (auto simp: valid_utf8_def rune_len_def Let_def is_good_def in_range_def)

lemma valid_encode_rune:
  assumes "v < 0x110000" and "\<not> (0xD800 \<le> v \<and> v < 0xE000)"
  shows "valid_utf8 (encode_rune v)"
proof -
  consider "v < 0x80" | "0x80 \<le> v" "v < 0x800" | "0x800 \<le> v" "v < 0x10000" | "0x10000 \<le> v" by linarith
  then show ?thesis
  proof cases
    case 1
    then show ?thesis by (simp add: encode_rune_def valid_utf8_ascii code_char_of)
  next
    case 2
    then have "v div 64 < 32" "2 \<le> v div 64" "v mod 64 < 64" by auto
    then show ?thesis using 2
      by (simp add: encode_rune_def, intro runes_single2) (simp_all add: in_range_def code_char_of)
  next
    case 3
    then have "v div 4096 < 16" "v div 64 mod 64 < 64" "v mod 64 < 64" by auto
    moreover have "v div 4096 = 0 \<Longrightarrow> 32 \<le> v div 64 mod 64" using 3 by auto
    moreover have sur: "v div 64 mod 64 < 32" if "v div 4096 = 13"
    proof -
      have "v div 64 div 64 = 13" using that by (simp add: div_mult2_eq [symmetric])
      moreover have "v div 64 < 864" using 3 assms(2) calculation by auto
      ultimately show ?thesis using div_mult_mod_eq [of "v div 64" 64] by linarith
    qed
    moreover have "v div 4096 \<le> 12 \<or> v div 4096 = 13 \<or> 14 \<le> v div 4096" by linarith
    ultimately show ?thesis using 3
      by (simp add: encode_rune_def, intro runes_single3) (auto simp: in_range_def code_char_of)
  next
    case 4
    then have "v div 262144 \<le> 4" "v div 4096 mod 64 < 64" "v div 64 mod 64 < 64" "v mod 64 < 64" using assms(1) by auto
    moreover have "v div 4096 mod 64 < 16" if "v div 262144 = 4"
    proof -
      have "v div 4096 div 64 = 4" using that by (simp add: div_mult2_eq [symmetric])
      moreover have "v div 4096 < 272" using assms(1) by auto
      ultimately show ?thesis using div_mult_mod_eq [of "v div 4096" 64] by linarith
    qed
    moreover have "16 \<le> v div 4096 mod 64" if "v div 262144 = 0"
    proof -
      have "v div 4096 div 64 = 0" using that by (simp add: div_mult2_eq [symmetric])
      moreover have "16 \<le> v div 4096" using 4 by auto
      ultimately show ?thesis using div_mult_mod_eq [of "v div 4096" 64] by linarith
    qed
    moreover have "v div 262144 \<le> 3 \<or> v div 262144 = 4" using calculation(1) by linarith
    ultimately show ?thesis using 4
      by (simp add: encode_rune_def, intro runes_single4) (auto simp: in_range_def code_char_of)
  qed
qed

lemma hexval_lt: "hexval c = Some n \<Longrightarrow> n < 16"
  by (auto simp: hexval_def split: if_splits)

lemma hex4_lt: "hex4 s = Some v \<Longrightarrow> v < 65536"
  by (cases s rule: hex4.cases) (auto split: option.splits dest!: hexval_lt)

lemma pair_with_range: "pair_with v es = Some r \<Longrightarrow> 0x10000 \<le> r \<and> r < 0x110000"
  by (auto simp: pair_with_def split: if_splits option.splits)

lemma valid_fffd: "valid_utf8 fffd"
  by (simp add: fffd_def runes_single3 in_range_def)

lemma valid_head: "rune_len (c # cs) = n \<Longrightarrow> n \<noteq> 0 \<Longrightarrow> 128 \<le> code c \<Longrightarrow> valid_utf8 (take n (c # cs))"
proof -
  assume n: "rune_len (c # cs) = n" "n \<noteq> 0" "128 \<le> code c"
  then have "rune_wf (Multi (take n (c # cs)))"
    using rune_len_take [of "c # cs"] by (cases n) auto
  from runes_append_wf [OF this, of "[]"] show ?thesis
    by (simp add: valid_utf8_def is_good_def)
qed

lemma prep_SomeE:
  assumes "prep p r = Some (x, t)"
  obtains y where "r = Some (y, t)" "x = p @ y"
  using assms by (auto simp: prep_def split: option.splits)

lemma valid_single: "code c < 128 \<Longrightarrow> valid_utf8 [c]"
  by (simp add: valid_utf8_ascii)

lemma simple_escape_ascii: "simple_escape e = Some c \<Longrightarrow> code c < 128"
  by (auto simp: simple_escape_def split: if_splits)

lemma unq_valid: "unq s = Some (x, t) \<Longrightarrow> valid_utf8 x"
proof (induction "length s" arbitrary: s x rule: less_induct)
  case less
  then obtain c cs where s: "s = c # cs" by (cases s) auto
  note eq = less.prems [unfolded s unq.simps(2)]
  have rest: "valid_utf8 x" if "prep p (unq r) = Some (x, t)" "valid_utf8 p" "length r \<le> length cs" for p r
    using that less.hyps [of r] s by (auto elim!: prep_SomeE)
  consider "c = dquote" | "c \<noteq> dquote" "c = bslash" | "c \<noteq> dquote" "c \<noteq> bslash" "code c < 128" "32 \<le> code c"
    | "c \<noteq> dquote" "c \<noteq> bslash" "128 \<le> code c" | "c \<noteq> dquote" "c \<noteq> bslash" "code c < 32" by linarith
  then show ?case
  proof cases
    case 1
    then show ?thesis using eq by (auto simp: valid_utf8_def)
  next
    case 2
    then obtain e ds where cs: "cs = e # ds" using eq by (cases cs) auto
    show ?thesis
    proof (cases "e = CHR ''u''")
      case True
      then obtain v where v: "hex4 ds = Some v" using eq 2 cs by (cases "hex4 ds") auto
      consider r where "0xD800 \<le> v \<and> v < 0xE000" "pair_with v (drop 4 ds) = Some r"
        | "0xD800 \<le> v \<and> v < 0xE000" "pair_with v (drop 4 ds) = None" | "\<not> (0xD800 \<le> v \<and> v < 0xE000)"
        by (cases "pair_with v (drop 4 ds)") auto
      then show ?thesis
      proof cases
        case (1 r)
        then have "prep (encode_rune r) (unq (drop 10 ds)) = Some (x, t)" using eq 2 cs True v by simp
        then show ?thesis
          by (rule rest) (use pair_with_range [OF 1(2)] cs in \<open>auto intro: valid_encode_rune\<close>)
      next
        case 2
        then have "prep fffd (unq (drop 4 ds)) = Some (x, t)" using eq \<open>c = bslash\<close> \<open>c \<noteq> dquote\<close> cs True v by simp
        then show ?thesis by (rule rest) (use cs in \<open>auto intro: valid_fffd\<close>)
      next
        case 3
        then have "prep (encode_rune v) (unq (drop 4 ds)) = Some (x, t)" using eq 2 cs True v by auto
        then show ?thesis by (rule rest) (use 3 hex4_lt [OF v] cs in \<open>auto intro: valid_encode_rune\<close>)
      qed
    next
      case False
      then obtain y where y: "simple_escape e = Some y" using eq 2 cs by (cases "simple_escape e") auto
      then have "prep [y] (unq ds) = Some (x, t)" using eq 2 cs False by simp
      then show ?thesis by (rule rest) (use valid_single simple_escape_ascii [OF y] cs in auto)
    qed
  next
    case 3
    then have "prep [c] (unq cs) = Some (x, t)" using eq by simp
    then show ?thesis by (rule rest) (use valid_single 3 in auto)
  next
    case 4
    show ?thesis
    proof (cases "rune_len (c # cs) = 0")
      case True
      then have "prep fffd (unq cs) = Some (x, t)" using eq 4 by simp
      then show ?thesis by (rule rest) (auto intro: valid_fffd)
    next
      case False
      then have "prep (take (rune_len (c # cs)) (c # cs)) (unq (drop (rune_len (c # cs) - 1) cs)) = Some (x, t)"
        using eq 4 by (simp add: Let_def)
      then show ?thesis by (rule rest) (use valid_head [OF refl False 4(3)] in auto)
    qed
  next
    case 5
    then show ?thesis using eq by simp
  qed
qed

section \<open>Trees the decoder produces\<close>

fun utf8_json :: "json \<Rightarrow> bool" where
  "utf8_json (JStr s) = valid_utf8 s"
| "utf8_json (JArr vs) = list_all utf8_json vs"
| "utf8_json (JObj kvs) = list_all (\<lambda>kv. valid_utf8 (fst kv) \<and> utf8_json (snd kv)) kvs"
| "utf8_json v = True"

lemma pv_utf8_all:
  "(\<forall>d s v t. pv n d s = Some (v, t) \<longrightarrow> utf8_json v)
   \<and> (\<forall>d s vs t. pelems n d s = Some (vs, t) \<longrightarrow> list_all utf8_json vs)
   \<and> (\<forall>d s kvs t. pmembers n d s = Some (kvs, t) \<longrightarrow> list_all (\<lambda>kv. valid_utf8 (fst kv) \<and> utf8_json (snd kv)) kvs)"
proof (induction n)
  case 0
  then show ?case by (simp add: pv.simps pelems.simps pmembers.simps)
next
  case (Suc n)
  have ihs: "pelems n d s = Some (vs, t) \<Longrightarrow> list_all utf8_json vs"
    "pmembers n d s = Some (kvs, t) \<Longrightarrow> list_all (\<lambda>kv. valid_utf8 (fst kv) \<and> utf8_json (snd kv)) kvs"
    "pv n d s = Some (v, t) \<Longrightarrow> utf8_json v" for d s t vs kvs v
    using Suc by blast+
  have "utf8_json v" if "pv (Suc n) d s = Some (v, t)" for d s v t
    using that unfolding pv.simps
    by (auto simp: map_res_def plit_def dest: unq_valid ihs split: list.splits option.splits if_splits)
  moreover have "list_all utf8_json vs" if "pelems (Suc n) d s = Some (vs, t)" for d s vs t
    using that unfolding pelems.simps
    by (auto simp: map_res_def split: list.splits option.splits if_splits) (rule ihs, assumption)+
  moreover have "list_all (\<lambda>kv. valid_utf8 (fst kv) \<and> utf8_json (snd kv)) kvs" if "pmembers (Suc n) d s = Some (kvs, t)" for d s kvs t
    using that unfolding pmembers.simps
    by (auto simp: map_res_def split: list.splits option.splits if_splits) (rule ihs unq_valid, assumption)+
  ultimately show ?case by blast
qed

lemma decode_stream_utf8: "decode_stream s = Some (v, t) \<Longrightarrow> utf8_json v"
  using pv_utf8_all unfolding decode_stream_def by blast

section \<open>What a decoder keeps\<close>

text \<open>A decoder keeps \<open>q\<close> when a value that satisfies it is decoded into one that does.\<close>

definition keeps :: "('a \<Rightarrow> bool) \<Rightarrow> 'a decoder \<Rightarrow> bool" where
  "keeps q dec = (\<forall>v x y. utf8_json v \<longrightarrow> q x \<longrightarrow> dec v x = Inr y \<longrightarrow> q y)"

lemma keepsI: "(\<And>v x y. utf8_json v \<Longrightarrow> q x \<Longrightarrow> dec v x = Inr y \<Longrightarrow> q y) \<Longrightarrow> keeps q dec"
  unfolding keeps_def by blast

lemma keepsD: "keeps q dec \<Longrightarrow> dec v x = Inr y \<Longrightarrow> utf8_json v \<Longrightarrow> q x \<Longrightarrow> q y"
  unfolding keeps_def by blast

lemma bindE_Inr: "bindE x f = Inr y \<longleftrightarrow> (\<exists>z. x = Inr z \<and> f z = Inr y)"
  by (cases x) simp_all

lemma keeps_string: "keeps valid_utf8 dec_string"
  by (rule keepsI) (auto elim!: dec_string.elims)

lemma keeps_bool: "keeps (\<lambda>_. True) dec_bool"
  by (simp add: keeps_def)

lemma parse_int_fits: "parse_int w l = Some i \<Longrightarrow> fits w i"
proof -
  assume p: "parse_int w l = Some i"
  have pos: "(0 :: int) < 2 ^ (w - 1)" by simp
  from p consider n where "n \<le> 2 ^ (w - 1)" "i = - int n" | n where "n < 2 ^ (w - 1)" "i = int n"
    by (auto simp: parse_int_def Let_def split: prod.splits if_splits)
  then show ?thesis
  proof cases
    case (1 n)
    then have "int n \<le> 2 ^ (w - 1)" by (metis of_nat_le_iff of_nat_numeral of_nat_power)
    then show ?thesis unfolding fits_def using 1(2) pos by linarith
  next
    case (2 n)
    then have "int n < 2 ^ (w - 1)" by (metis of_nat_less_iff of_nat_numeral of_nat_power)
    then show ?thesis unfolding fits_def using 2(2) pos by linarith
  qed
qed

lemma keeps_int: "keeps (fits w) (dec_int w)"
  by (rule keepsI) (auto elim!: dec_int.elims dest: parse_int_fits split: option.splits)

lemma keeps_ptr: "keeps q dec \<Longrightarrow> q zero \<Longrightarrow> keeps (opt_all q) (dec_ptr dec zero)"
  by (rule keepsI) (auto simp: dec_ptr_def bindE_Inr opt_all_def split: if_splits option.splits dest: keepsD)

lemma dec_elems_keeps:
  assumes "keeps q dec" and "q zero"
  shows "dec_elems dec zero olds vs = Inr xs \<Longrightarrow> list_all q olds \<Longrightarrow> list_all utf8_json vs \<Longrightarrow> list_all q xs"
proof (induction vs arbitrary: olds xs)
  case (Cons v vs)
  then obtain y ys where y: "dec v (case olds of [] \<Rightarrow> zero | x # _ \<Rightarrow> x) = Inr y"
    and ys: "dec_elems dec zero (tl olds) vs = Inr ys" "xs = y # ys" by (auto simp: bindE_Inr)
  have "q (case olds of [] \<Rightarrow> zero | x # _ \<Rightarrow> x)" "list_all q (tl olds)"
    using Cons.prems(2) assms(2) by (cases olds; simp)+
  then show ?case using keepsD [OF assms(1) y] Cons.IH [OF ys(1)] Cons.prems(3) ys(2) by simp
qed simp

lemma keeps_slice:
  assumes "keeps q dec" and "q zero"
  shows "keeps (opt_all (list_all q)) (dec_slice dec zero)"
proof (rule keepsI)
  fix v x y assume "utf8_json v" "opt_all (list_all q) x" "dec_slice dec zero v x = Inr y"
  then show "opt_all (list_all q) y"
    by (cases v) (auto simp: bindE_Inr opt_all_def split: option.splits dest!: dec_elems_keeps [OF assms])
qed

lemma map_wf_update: "map_wf q m \<Longrightarrow> valid_utf8 k \<Longrightarrow> q x \<Longrightarrow> map_wf q (AList.update k x m)"
proof -
  assume m: "map_wf q m" and k: "valid_utf8 k" "q x"
  have "list_all p m \<Longrightarrow> p (k, x) \<Longrightarrow> list_all p (AList.update k x m)" for p :: "string \<times> 'a \<Rightarrow> bool"
    by (induction m) auto
  then show ?thesis using m k by (simp add: map_wf_def gm_ok_def distinct_update)
qed

lemma dec_entries_keeps:
  assumes "keeps q dec" and "q zero"
  shows "dec_entries dec zero kvs m = Inr m' \<Longrightarrow> map_wf q m
    \<Longrightarrow> list_all (\<lambda>kv. valid_utf8 (fst kv) \<and> utf8_json (snd kv)) kvs \<Longrightarrow> map_wf q m'"
proof (induction kvs arbitrary: m)
  case (Cons kv kvs)
  obtain k v where kv: "kv = (k, v)" by fastforce
  with Cons.prems obtain x where x: "dec v zero = Inr x" "dec_entries dec zero kvs (AList.update k x m) = Inr m'"
    by (auto simp: bindE_Inr)
  have "q x" using keepsD [OF assms(1) x(1)] Cons.prems(3) kv assms(2) by simp
  then show ?case using Cons.IH [OF x(2)] map_wf_update Cons.prems(2, 3) kv by fastforce
qed simp

lemma keeps_map:
  assumes "keeps q dec" and "q zero"
  shows "keeps (opt_all (map_wf q)) (dec_map dec zero)"
proof (rule keepsI)
  fix v x y assume "utf8_json v" "opt_all (map_wf q) x" "dec_map dec zero v x = Inr y"
  moreover have "map_wf q []" by (simp add: map_wf_def gm_ok_def)
  ultimately show "opt_all (map_wf q) y"
    by (cases v) (auto simp: bindE_Inr opt_all_def split: option.splits dest!: dec_entries_keeps [OF assms])
qed

lemma dec_members_keeps:
  assumes "\<And>f. f \<in> set names \<Longrightarrow> keeps q (set_field f)"
  shows "dec_members names set_field kvs r = Inr r' \<Longrightarrow> q r
    \<Longrightarrow> list_all (\<lambda>kv. valid_utf8 (fst kv) \<and> utf8_json (snd kv)) kvs \<Longrightarrow> q r'"
proof (induction kvs arbitrary: r)
  case (Cons kv kvs)
  obtain k v where kv: "kv = (k, v)" by fastforce
  with Cons.prems obtain f where f: "find_field names k = Some f" by (cases "find_field names k") auto
  then obtain r1 where r1: "set_field f v r = Inr r1" "dec_members names set_field kvs r1 = Inr r'"
    using Cons.prems kv by (auto simp: bindE_Inr)
  have "f \<in> set names" using f by (auto simp: find_field_def find_Some_iff split: if_splits)
  then have "q r1" using keepsD [OF assms r1(1)] Cons.prems(2, 3) kv by simp
  then show ?case using Cons.IH [OF r1(2)] Cons.prems(3) by simp
qed simp

lemma keeps_struct:
  assumes "\<And>f. f \<in> set names \<Longrightarrow> keeps q (set_field f)"
  shows "keeps q (dec_struct names set_field)"
proof (rule keepsI)
  fix v x y assume "utf8_json v" "q x" "dec_struct names set_field v x = Inr y"
  then show "q y" using dec_members_keeps [of names q set_field, OF assms] by (cases v) auto
qed

text \<open>Setting one field.\<close>

lemma keeps_field:
  assumes "keeps p dec" and "\<And>r. q r \<Longrightarrow> p (get r)" and "\<And>r x. q r \<Longrightarrow> p x \<Longrightarrow> q (upd x r)"
  shows "keeps q (\<lambda>v r. bindE (dec v (get r)) (\<lambda>x. Inr (upd x r)))"
proof (rule keepsI)
  fix v r y assume v: "utf8_json v" "q r" "bindE (dec v (get r)) (\<lambda>x. Inr (upd x r)) = Inr y"
  then obtain x where x: "dec v (get r) = Inr x" "y = upd x r" by (auto simp: bindE_Inr)
  show "q y" unfolding x(2) by (rule assms(3) [OF v(2) keepsD [OF assms(1) x(1) v(1) assms(2) [OF v(2)]]])
qed

section \<open>The types of a bundle\<close>

text \<open>As \<open>iface_wf\<close> and \<open>peer_wf\<close>, without asking that the slices are present: that is Validate's part.\<close>

definition peer_type :: "nat \<Rightarrow> Peer \<Rightarrow> bool" where
  "peer_type w p = (valid_utf8 (peer_PublicKey p) \<and> opt_all valid_utf8 (peer_PresharedKey p)
     \<and> opt_all (list_all valid_utf8) (peer_AllowedIPs p) \<and> opt_all valid_utf8 (peer_Endpoint p)
     \<and> opt_all (fits w) (peer_PersistentKeepalive p) \<and> opt_all (map_wf valid_utf8) (peer_Options p))"

definition iface_type :: "nat \<Rightarrow> Interface \<Rightarrow> bool" where
  "iface_type w i = (valid_utf8 (if_PrivateKey i) \<and> opt_all (fits w) (if_ListenPort i)
     \<and> opt_all (list_all valid_utf8) (if_Addresses i) \<and> opt_all (fits w) (if_MTU i) \<and> opt_all (fits 64) (if_Fwmark i)
     \<and> opt_all rtab_wf (if_RoutingTable i) \<and> opt_all (list_all route_wf) (if_Routes i)
     \<and> opt_all (map_wf valid_utf8) (if_Options i) \<and> opt_all (map_wf (peer_type w)) (if_Peers i))"

definition bundle_type :: "nat \<Rightarrow> Bundle \<Rightarrow> bool" where
  "bundle_type w b = (fits w (b_Version b) \<and> valid_utf8 (b_Namespace b) \<and> valid_utf8 (b_NodeID b)
     \<and> fits 64 (b_Timestamp b) \<and> opt_all (map_wf (iface_type w)) (b_WG b) \<and> opt_all valid_utf8 (b_Stunmesh b))"

lemma zero_types: "valid_utf8 []" "fits w 0" "route_wf zero_route" "rtab_wf zero_rtab" "peer_type w zero_peer"
  "iface_type w zero_iface" "bundle_type w zero_bundle"
  by (simp_all add: valid_utf8_def fits_def route_wf_def zero_route_def rtab_wf_def zero_rtab_def peer_type_def
      zero_peer_def iface_type_def zero_iface_def bundle_type_def zero_bundle_def)

lemmas keeps_values = keeps_string keeps_int keeps_ptr keeps_slice keeps_map zero_types

lemma keeps_route: "keeps route_wf dec_route"
  unfolding dec_route_def by (rule keeps_struct) (auto intro!: keeps_field keeps_values simp: route_wf_def)

lemma keeps_rtab: "keeps rtab_wf dec_rtab"
  unfolding dec_rtab_def by (rule keeps_struct) (auto intro!: keeps_field keeps_values simp: rtab_wf_def)

lemma keeps_peer: "keeps (peer_type w) (dec_peer w)"
  unfolding dec_peer_def by (rule keeps_struct) (auto intro!: keeps_field keeps_values simp: peer_type_def)

lemma keeps_ptr_bool: "keeps (\<lambda>_. True) (dec_ptr dec_bool False)"
  by (simp add: keeps_def)

lemma keeps_iface: "keeps (iface_type w) (dec_iface w)"
  unfolding dec_iface_def
  by (rule keeps_struct)
    (auto intro!: keeps_field keeps_values keeps_rtab keeps_route keeps_peer
      keeps_field [where p = "\<lambda>_. True", OF keeps_ptr_bool] simp: iface_type_def)

lemma keeps_bundle: "keeps (bundle_type w) (dec_bundle w)"
  unfolding dec_bundle_def
  by (rule keeps_struct) (auto intro!: keeps_field keeps_values keeps_iface simp: bundle_type_def)

lemma Parse_type: "Parse w data = Inr b \<Longrightarrow> bundle_type w b"
  using keepsD [OF keeps_bundle, of w] decode_stream_utf8 zero_types
  by (fastforce simp: Parse_def split: option.splits prod.splits sum.splits derr.splits if_splits)

section \<open>With Validate\<close>

lemma map_wf_mono: "map_wf p m \<Longrightarrow> (\<And>v. v \<in> snd ` set m \<Longrightarrow> p v \<Longrightarrow> q v) \<Longrightarrow> map_wf q m"
  by (auto simp: map_wf_def list_all_iff)

lemma peer_wf_typed: "peer_type w p \<Longrightarrow> valid_peer p \<Longrightarrow> peer_wf w p"
  by (auto simp: peer_type_def peer_wf_def valid_peer_def strs_wf_def opt_all_def split: option.splits)

lemma iface_wf_typed:
  assumes "iface_type w i" and "valid_iface i"
  shows "iface_wf w i"
proof -
  obtain ps where ps: "if_Peers i = Some ps" "\<forall>p \<in> snd ` set ps. valid_peer p"
    using assms(2) by (auto simp: valid_iface_def)
  obtain as where as: "if_Addresses i = Some as" using assms(2) by (auto simp: valid_iface_def)
  have "map_wf (peer_type w) ps" using assms(1) ps(1) by (simp add: iface_type_def)
  then have "map_wf (peer_wf w) ps" by (rule map_wf_mono) (use ps(2) peer_wf_typed in blast)
  then show ?thesis using assms(1) ps(1) as by (simp add: iface_type_def iface_wf_def strs_wf_def)
qed

lemma bundle_wf_typed:
  assumes "bundle_type w b" and "valid_bundle ns nid b" and "w \<in> {32, 64}"
  shows "bundle_wf w b"
proof -
  obtain m where m: "b_WG b = Some m" "\<forall>i \<in> snd ` set m. valid_iface i"
    using assms(2) by (auto simp: valid_bundle_def)
  have "map_wf (iface_type w) m" using assms(1) m(1) by (simp add: bundle_type_def)
  then have "map_wf (iface_wf w) m" by (rule map_wf_mono) (use m(2) iface_wf_typed in blast)
  then show ?thesis using assms(1, 3) m(1) by (simp add: bundle_type_def bundle_wf_def)
qed

lemma Parse_Validate_ok:
  assumes "Parse w data = Inr b" and "Validate ns nid b = None" and "w \<in> {32, 64}"
  shows "bundle_wf w b \<and> valid_bundle ns nid b"
  using bundle_wf_typed [OF Parse_type [OF assms(1)]] assms(2, 3) by (simp add: Validate_None)

end
