(* ===== verification/Bundle_Props.thy ===== *)
theory Bundle_Props
  imports Bundle_Canonical Decode_Type
begin

text \<open>
  The properties of internal/bundle: what Parse accepts, the wire round trip, Validate,
  Canonical against jq, Equal, and two inputs Parse accepts against its documentation.
\<close>

section \<open>Accepted documents\<close>

text \<open>Numbers come from the scanner's grammar.\<close>

fun all_nums :: "(string \<Rightarrow> bool) \<Rightarrow> json \<Rightarrow> bool" where
  "all_nums p (JNum l) = p l"
| "all_nums p (JArr vs) = list_all (all_nums p) vs"
| "all_nums p (JObj kvs) = list_all (\<lambda>kv. all_nums p (snd kv)) kvs"
| "all_nums p v = True"

definition lexed :: "string \<Rightarrow> bool" where
  "lexed l = (\<exists>s t. lex_num s = Some (l, t))"

lemma lexedI: "lex_num s = Some (l, t) \<Longrightarrow> lexed l"
  by (auto simp: lexed_def)

lemma map_res_SomeD: "map_res f r = Some (x, t) \<Longrightarrow> \<exists>y. r = Some (y, t) \<and> x = f y"
  by (simp add: map_res_Some)

lemma pv_lexed:
  "(\<forall>s d v t. pv n d s = Some (v, t) \<longrightarrow> all_nums lexed v) \<and>
   (\<forall>s d vs t. pelems n d s = Some (vs, t) \<longrightarrow> list_all (all_nums lexed) vs) \<and>
   (\<forall>s d kvs t. pmembers n d s = Some (kvs, t) \<longrightarrow> list_all (\<lambda>kv. all_nums lexed (snd kv)) kvs)"
proof (induction n)
  case 0
  show ?case by (simp add: pv.simps pelems.simps pmembers.simps)
next
  case (Suc n)
  note IH = Suc.IH [THEN conjunct1, rule_format] Suc.IH [THEN conjunct2, THEN conjunct1, rule_format]
    Suc.IH [THEN conjunct2, THEN conjunct2, rule_format]
  have "all_nums lexed v" if "pv (Suc n) d s = Some (v, t)" for s d v t
    using that unfolding pv.simps
    by (auto simp: plit_def split: list.splits if_splits dest!: map_res_SomeD dest: IH intro: lexedI)
  moreover have "list_all (all_nums lexed) vs" if "pelems (Suc n) d s = Some (vs, t)" for s d vs t
    using that unfolding pelems.simps
    by (auto split: list.splits if_splits option.splits dest!: map_res_SomeD) (blast intro: IH)+
  moreover have "list_all (\<lambda>kv. all_nums lexed (snd kv)) kvs" if "pmembers (Suc n) d s = Some (kvs, t)" for s d kvs t
    using that unfolding pmembers.simps
    by (auto split: list.splits if_splits option.splits dest!: map_res_SomeD) (blast intro: IH)+
  ultimately show ?case by blast
qed

lemma digit_digit_val: "is_digit c \<Longrightarrow> digit (digit_val c) = c"
  by (simp add: digit_def digit_val_def is_digit_def)

lemma digit_val_less: "is_digit c \<Longrightarrow> digit_val c < 10"
  unfolding digit_val_def is_digit_def by linarith

lemma digit_0: "digit 0 = CHR ''0''"
  by (rule code_inj) (simp add: digit_def)

lemma is_digit_0 [simp]: "is_digit (CHR ''0'')"
  by (simp add: is_digit_def)

lemma nat_of_digits_pos:
  "list_all is_digit s \<Longrightarrow> s \<noteq> [] \<Longrightarrow> hd s \<noteq> CHR ''0'' \<Longrightarrow> 0 < nat_of_digits s"
proof (induction s rule: rev_induct)
  case (snoc c s)
  show ?case
  proof (cases "s = []")
    case True
    then have "digit (digit_val c) \<noteq> CHR ''0''" using snoc.prems by (simp add: digit_digit_val)
    then have "digit_val c \<noteq> 0" using digit_0 by metis
    then show ?thesis using True by (simp add: nat_of_digits_def)
  next
    case False
    then show ?thesis using snoc by (simp add: nat_of_digits_snoc)
  qed
qed simp

lemma show_nat_of_digits:
  "list_all is_digit s \<Longrightarrow> s \<noteq> [] \<Longrightarrow> s = ''0'' \<or> hd s \<noteq> CHR ''0'' \<Longrightarrow> show_nat (nat_of_digits s) = s"
proof (induction s rule: rev_induct)
  case (snoc c s)
  show ?case
  proof (cases "s = []")
    case True
    then have "nat_of_digits (s @ [c]) = digit_val c" by (simp add: nat_of_digits_def)
    then show ?thesis
      using True snoc.prems by (simp add: show_nat.simps digit_val_less digit_digit_val)
  next
    case False
    then have s: "hd s \<noteq> CHR ''0''" "list_all is_digit s" using snoc.prems by (auto simp: append_eq_Cons_conv)
    then have "0 < nat_of_digits s" using False nat_of_digits_pos by blast
    moreover have "show_nat (nat_of_digits s) = s" using snoc.IH s False by blast
    ultimately show ?thesis
      using snoc.prems digit_val_less [of c]
      by (simp add: nat_of_digits_snoc show_nat.simps [of "10 * _ + _"] digit_digit_val)
  qed
qed simp

lemma lex_int_cases:
  assumes "lex_int s = Some (i, t)"
  shows "list_all is_digit i" and "i \<noteq> []" and "i = ''0'' \<or> hd i \<noteq> CHR ''0''"
  using assms by (auto simp: lex_int_def list_all_iff dest: set_takeWhileD
      split: list.splits if_splits)

lemma contains_any_append: "contains_any (s @ t) cs \<longleftrightarrow> contains_any s cs \<or> contains_any t cs"
  by (simp add: contains_any_def)

lemma no_float_chars:
  "\<not> contains_any s ''.eE'' \<Longrightarrow> c \<in> set s \<Longrightarrow> c \<noteq> CHR ''.'' \<and> c \<noteq> CHR ''e'' \<and> c \<noteq> CHR ''E''"
  by (auto simp: contains_any_def list_ex_iff)

lemma lex_frac_hd: "lex_frac r = Some (f, t) \<Longrightarrow> f = [] \<or> hd f = CHR ''.''"
  by (auto simp: lex_frac_def split: list.splits if_splits)

lemma lex_exp_hd: "lex_exp r = Some (f, t) \<Longrightarrow> f = [] \<or> hd f = CHR ''e'' \<or> hd f = CHR ''E''"
  by (auto simp: lex_exp_def Let_def split: list.splits if_splits prod.splits)

lemma lexed_shape:
  assumes "lexed l" and "\<not> contains_any l ''.eE''"
  obtains sg i where "l = sg @ i" "sg = [] \<or> sg = ''-''" "list_all is_digit i" "i \<noteq> []"
    "i = ''0'' \<or> hd i \<noteq> CHR ''0''"
proof -
  obtain s t where "lex_num s = Some (l, t)" using assms by (auto simp: lexed_def)
  moreover obtain sg r0 where sgr:
    "(case s of [] \<Rightarrow> ([], s) | c # r \<Rightarrow> if c = CHR ''-'' then ([c], r) else ([], s)) = (sg, r0)"
    by force
  moreover have sg: "sg = [] \<or> sg = ''-''" using sgr by (auto split: list.splits if_splits)
  ultimately have "(case lex_int r0 of None \<Rightarrow> None
      | Some (i, r1) \<Rightarrow> (case lex_frac r1 of None \<Rightarrow> None
         | Some (f, r2) \<Rightarrow> (case lex_exp r2 of None \<Rightarrow> None
            | Some (e, r3) \<Rightarrow> Some (sg @ i @ f @ e, r3)))) = Some (l, t)"
    by (simp only: lex_num_def sgr Let_def prod.case)
  then have "\<exists>i r1 f r2 e. l = sg @ i @ f @ e \<and> lex_int r0 = Some (i, r1) \<and>
      lex_frac r1 = Some (f, r2) \<and> lex_exp r2 = Some (e, t)"
    by (simp split: option.splits prod.splits)
  then obtain i r1 f r2 e where l: "l = sg @ i @ f @ e"
    and i: "lex_int r0 = Some (i, r1)" and f: "lex_frac r1 = Some (f, r2)" and e: "lex_exp r2 = Some (e, t)"
    by blast
  have nf: "\<forall>c \<in> set f \<union> set e. c \<noteq> CHR ''.'' \<and> c \<noteq> CHR ''e'' \<and> c \<noteq> CHR ''E''"
    using assms(2) [unfolded l] no_float_chars by (auto simp: contains_any_append)
  have "f = []" using lex_frac_hd [OF f] nf by (metis UnI1 list.set_sel(1))
  moreover have "e = []" using lex_exp_hd [OF e] nf by (metis UnI2 list.set_sel(1))
  ultimately show ?thesis using that [of sg i] l sg lex_int_cases [OF i] by simp
qed

lemma digits_no_sign: "list_all is_digit i \<Longrightarrow> i \<noteq> [] \<Longrightarrow> split_sign i = (False, i)"
  by (cases i) (auto simp: split_sign_def dest: is_digit_not_sign)

text \<open>An accepted number is spelled the way the encoder spells that integer.\<close>

lemma checkNumber_int_lit:
  assumes "lexed l"
  shows "checkNumber l = None \<longleftrightarrow> is_int_lit l"
proof
  assume ok: "checkNumber l = None"
  then have ndot: "\<not> contains_any l ''.eE''" and nz: "\<not> has_prefix l ''-0''"
    by (auto simp: checkNumber_def split: if_splits)
  obtain k where k: "parse_int 64 l = Some k" using ok by (auto simp: checkNumber_def split: if_splits)
  from lexed_shape [OF assms ndot] obtain sg i where
    l: "l = sg @ i" and sg: "sg = [] \<or> sg = ''-''" and i: "list_all is_digit i" "i \<noteq> []"
    and z: "i = ''0'' \<or> hd i \<noteq> CHR ''0''" .
  note sh = show_nat_of_digits [OF i z]
  have "show_int k = l"
  proof (cases "sg = []")
    case True
    then have "k = int (nat_of_digits i)"
      using k l i digits_no_sign by (auto simp: parse_int_def Let_def split: if_splits)
    then show ?thesis using sh l True by (simp add: show_int_def)
  next
    case False
    then have l': "l = CHR ''-'' # i" using l sg by simp
    then have "hd i \<noteq> CHR ''0''" using nz i(2) by (cases i) (auto simp: has_prefix_def)
    then have "0 < nat_of_digits i" using nat_of_digits_pos i by blast
    moreover have "k = - int (nat_of_digits i)"
      using k l' i by (auto simp: parse_int_def split_sign_def Let_def split: if_splits)
    ultimately show ?thesis using sh l' by (simp add: show_int_def)
  qed
  then show "is_int_lit l" using k by (simp add: is_int_lit_def)
next
  assume "is_int_lit l"
  then obtain k where k: "parse_int 64 l = Some k" "l = show_int k"
    by (auto simp: is_int_lit_def split: option.splits)
  then have "fits 64 k"
    by (auto simp: parse_int_def fits_def Let_def split: if_splits prod.splits)
  then show "checkNumber l = None" using k checkNumber_show by (simp add: fits_def)
qed

text \<open>No null and only plain integers, at any depth.\<close>

fun clean :: "json \<Rightarrow> bool" where
  "clean JNull = False"
| "clean (JNum l) = is_int_lit l"
| "clean (JArr vs) = list_all clean vs"
| "clean (JObj kvs) = list_all (\<lambda>kv. clean (snd kv)) kvs"
| "clean v = True"

lemma checkRaw_clean: "all_nums lexed v \<Longrightarrow> checkRaw v = None \<longleftrightarrow> clean v"
  by (induction v rule: checkRaw.induct) (auto simp: list_all_iff checkNumber_int_lit)

lemma dedup_subset: "set (dedup kvs) \<subseteq> set kvs"
proof -
  have "set (foldl (\<lambda>m (k, v). AList.update k v m) m kvs) \<subseteq> set m \<union> set kvs" for m :: "'a gomap"
  proof (induction kvs arbitrary: m)
    case (Cons kv kvs)
    obtain k v where kv: "kv = (k, v)" by fastforce
    have "set (AList.update k v m) \<subseteq> insert (k, v) (set m)" by (induction m) auto
    then show ?case using Cons [of "AList.update k v m"] kv by auto
  qed simp
  from this [of "[]"] show ?thesis by (simp add: dedup_def)
qed

lemma all_nums_to_any: "all_nums p v \<Longrightarrow> all_nums p (to_any v)"
proof (induction v rule: to_any.induct)
  case (2 kvs)
  then show ?case using dedup_subset [of "map (\<lambda>kv. (fst kv, to_any (snd kv))) kvs"]
    by (fastforce simp: list_all_iff)
qed (auto simp: list_all_iff)

text \<open>Without a repeated key the map of \<open>any\<close> keeps every value.\<close>

fun distinct_keys :: "json \<Rightarrow> bool" where
  "distinct_keys (JArr vs) = list_all distinct_keys vs"
| "distinct_keys (JObj kvs) = (gm_ok kvs \<and> list_all (\<lambda>kv. distinct_keys (snd kv)) kvs)"
| "distinct_keys v = True"

lemma to_any_distinct: "distinct_keys v \<Longrightarrow> to_any v = v"
proof (induction v rule: to_any.induct)
  case (2 kvs)
  have "map (\<lambda>kv. (fst kv, to_any (snd kv))) kvs = kvs"
    using 2 by (intro map_idI) (auto simp: list_all_iff)
  then show ?case using 2 by (simp add: dedup_id)
qed (auto simp: list_all_iff map_idI)

lemma decode_stream_lexed: "decode_stream s = Some (v, t) \<Longrightarrow> all_nums lexed v"
  using pv_lexed unfolding decode_stream_def by blast

lemma Parse_Inr:
  "Parse w data = Inr b \<longleftrightarrow> (\<exists>v rest. decode_stream data = Some (v, rest) \<and> checkRaw (to_any v) = None
     \<and> checkSurrogates data = None \<and> dec_bundle w v zero_bundle = Inr b \<and> \<not> dec_more rest)"
  by (auto simp: Parse_def split: option.splits sum.splits derr.splits if_splits)

section \<open>Properties\<close>

text \<open>A bundle to apply them to.\<close>

definition ex_peer :: Peer where
  "ex_peer = \<lparr>peer_PublicKey = ''pub'', peer_PresharedKey = None, peer_AllowedIPs = Some [''10.1.0.0/16''],
     peer_Endpoint = Some ''a.example:51820'', peer_PersistentKeepalive = Some 25, peer_Options = None\<rparr>"

definition ex_iface :: Interface where
  "ex_iface = \<lparr>if_PrivateKey = ''key<&>'', if_ListenPort = Some 51820, if_Addresses = Some [''10.1.0.1/24''],
     if_MTU = Some 1420, if_RouteAllowedIPs = Some False, if_Fwmark = None, if_RoutingTable = None,
     if_Routes = Some [\<lparr>rt_CIDR = ''10.2.0.0/16'', rt_Gateway = None, rt_Metric = Some 4294967295\<rparr>],
     if_Options = Some [(''zone'', ''b''), (''nohostroute'', ''1'')], if_Peers = Some [(''p'', ex_peer)]\<rparr>"

definition ex_bundle :: Bundle where
  "ex_bundle = \<lparr>b_Version = 1, b_Namespace = ''ns'', b_NodeID = ''alpha'', b_Timestamp = 1700000000,
     b_WG = Some [(''wg0'', ex_iface)], b_Stunmesh = Some ''refresh_interval: 10m''\<rparr>"

lemma ex_valid: "valid_bundle ''ns'' ''alpha'' ex_bundle"
  by (simp add: valid_bundle_def ex_bundle_def valid_iface_def ex_iface_def valid_peer_def ex_peer_def
      valid_route_def nonempty_opt_def in_opt_def)

lemma ex_wf: "w \<in> {32, 64} \<Longrightarrow> bundle_wf w ex_bundle"
  by (auto simp: bundle_wf_def ex_bundle_def iface_wf_def ex_iface_def peer_wf_def ex_peer_def route_wf_def
      fits_def map_wf_def gm_ok_def strs_wf_def)

text \<open>C17: Validate accepts exactly the bundles that satisfy the field table of docs/format.md 6 and 7
  (required fields present, ranges, routing tables, for every interface, peer and route), whatever
  order the runtime walks the maps in.\<close>

theorem Validate_accepts:
  "Validate ns nid b = None \<longleftrightarrow> valid_bundle ns nid b"
  by (rule Validate_None)


text \<open>A document without a repeated key that Parse accepts has no null and no number but plain
  integers at any depth.\<close>

theorem Parse_no_null:
  assumes "Parse w data = Inr b" and "decode_stream data = Some (v, rest)" and "distinct_keys v"
  shows "clean v"
  using assms checkRaw_clean [OF decode_stream_lexed [OF assms(2)]]
  by (auto simp: Parse_Inr to_any_distinct)

theorem Parse_no_null_witness:
  "clean (JObj [(''stunmesh'', JStr ''x''), (''wg'', JObj [])])"
proof -
  have "Parse 64 ''{\"stunmesh\":\"x\",\"wg\":{}}'' = Inr (zero_bundle\<lparr>b_Stunmesh := Some ''x'', b_WG := Some []\<rparr>)"
    by code_simp
  moreover have "decode_stream ''{\"stunmesh\":\"x\",\"wg\":{}}''
      = Some (JObj [(''stunmesh'', JStr ''x''), (''wg'', JObj [])], [])" by code_simp
  moreover have "distinct_keys (JObj [(''stunmesh'', JStr ''x''), (''wg'', JObj [])])"
    by (simp add: gm_ok_def)
  ultimately show ?thesis by (rule Parse_no_null)
qed

lemma Parse_marshal_eq:
  "Validate ns nid b = None \<Longrightarrow> bundle_wf w b \<Longrightarrow> Parse w (marshal_bundle b) = Inr (norm_bundle b)"
  using Parse_marshal_then [of b w "[]"] checkSurrogates_marshal [of b "[]"] canon_bundle [of ns nid b w]
  by (simp add: Validate_None dec_more_def skip_ws_def)

text \<open>What MarshalJSON writes of a valid bundle, Parse reads back as the same bundle (its maps in key
  order), on 32- and 64-bit platforms.\<close>

theorem Parse_marshal:
  assumes "Validate ns nid b = None" and "bundle_wf w b"
  shows "Parse w (marshal_bundle b) = Inr (norm_bundle b)"
  using assms by (rule Parse_marshal_eq)

theorem Parse_marshal_witness:
  "Parse 64 (marshal_bundle ex_bundle) = Inr (norm_bundle ex_bundle)"
  using Parse_marshal [of "''ns''" "''alpha''" ex_bundle 64] ex_valid ex_wf by (simp add: Validate_None)

text \<open>A bundle that Parse returns and Validate accepts is well formed whatever bytes were parsed: every
  string is valid UTF-8, every integer fits its field on the platform, no map has a key twice, no slice
  that is always written is missing. So it survives another trip over the wire, and Canonical, Equal
  and the diff are defined on it.\<close>

theorem Parse_well_formed:
  assumes "Parse w data = Inr b" and "Validate ns nid b = None" and "w \<in> {32, 64}"
  shows "bundle_wf w b \<and> Parse w (marshal_bundle b) = Inr (norm_bundle b) \<and> Equal b b = Inr True"
proof -
  have wf: "bundle_wf w b" and valid: "valid_bundle ns nid b"
    using Parse_Validate_ok [OF assms] by auto
  have canon: "canon_tree (bundle_json b)" using canon_bundle [OF valid wf] .
  show ?thesis using wf Parse_marshal_eq [OF assms(2) wf] Equal_iff [OF canon canon wf wf] by (simp add: same_content_def)
qed

definition ex_empty :: Bundle where
  "ex_empty = \<lparr>b_Version = 1, b_Namespace = ''ns'', b_NodeID = ''alpha'', b_Timestamp = 5, b_WG = Some [], b_Stunmesh = Some ''x''\<rparr>"

theorem Parse_well_formed_witness:
  "Parse 32 (marshal_bundle ex_empty) = Inr ex_empty \<and> bundle_wf 32 ex_empty"
proof -
  have v: "Validate ''ns'' ''alpha'' ex_empty = None" by (simp add: Validate_None valid_bundle_def ex_empty_def)
  have wf: "bundle_wf 32 ex_empty" by (simp add: bundle_wf_def ex_empty_def map_wf_def gm_ok_def fits_def)
  have "norm_bundle ex_empty = ex_empty" by (simp add: norm_bundle_def ex_empty_def norm_map_def sort_map_def)
  then have p: "Parse 32 (marshal_bundle ex_empty) = Inr ex_empty" using Parse_marshal_eq [OF v wf] by simp
  then show ?thesis using Parse_well_formed [OF p v] by simp
qed

text \<open>C16: Canonical of a valid bundle is its tree without the timestamp, with sorted keys and jq's choice
  of escapes (U+007F escaped; U+2028, U+2029 and HTML characters not): the output of
  jq -S -c 'del(.timestamp)'. It never fails.\<close>

theorem Canonical_is_jq:
  assumes "Validate ns nid b = None" and "bundle_wf w b"
  shows "Canonical b = Inr (print_json jq_quote (content_json b))"
  using Canonical_eq canon_bundle assms by (simp add: Validate_None)

theorem Canonical_is_jq_witness:
  "Canonical ex_bundle = Inr (print_json jq_quote (content_json ex_bundle))"
  using Canonical_is_jq [of "''ns''" "''alpha''" ex_bundle 64] ex_valid ex_wf by (simp add: Validate_None)

text \<open>Equal on two valid bundles answers whether they have the same content: every field but the
  timestamp equal, whatever the order of the maps; an absent and an empty optional map differ.\<close>

theorem Equal_same_content:
  assumes "Validate ns nid b = None" and "Validate ns' nid' b' = None" and "bundle_wf w b" and "bundle_wf w b'"
  shows "Equal b b' = Inr (same_content b b')"
  using Equal_iff canon_bundle assms by (simp add: Validate_None)

theorem Equal_same_content_witness:
  "Equal ex_bundle (ex_bundle\<lparr>b_Timestamp := 1700000001\<rparr>) = Inr True"
proof -
  have "valid_bundle ''ns'' ''alpha'' (ex_bundle\<lparr>b_Timestamp := 1700000001\<rparr>)"
    "bundle_wf 64 (ex_bundle\<lparr>b_Timestamp := 1700000001\<rparr>)"
    using ex_valid ex_wf [of 64] by (simp_all add: valid_bundle_def bundle_wf_def fits_def)
  then show ?thesis
    using Equal_same_content [of "''ns''" "''alpha''" ex_bundle "''ns''" "''alpha''"
        "ex_bundle\<lparr>b_Timestamp := 1700000001\<rparr>" 64] ex_valid ex_wf [of 64]
    by (simp add: Validate_None same_content_def)
qed

section \<open>Where Parse is laxer than its documentation\<close>

text \<open>The check for trailing data misses a text that begins with a closing bracket: after any valid
  document Parse accepts a brace and whatever follows it (without a backslash).\<close>

theorem Parse_accepts_trailing:
  assumes "Validate ns nid b = None" and "bundle_wf w b" and "bslash \<notin> set t"
  shows "Parse w (marshal_bundle b @ CHR ''}'' # t) = Inr (norm_bundle b)"
  using Parse_marshal_then [of b w "CHR ''}'' # t"] checkSurrogates_marshal [of b "CHR ''}'' # t"]
    canon_bundle [of ns nid b w] assms
  by (simp add: Validate_None dec_more_def)

theorem Parse_accepts_trailing_witness:
  "Parse 64 (marshal_bundle ex_bundle @ ''}garbage'') = Inr (norm_bundle ex_bundle)"
  using Parse_accepts_trailing [of "''ns''" "''alpha''" ex_bundle 64 "''garbage''"] ex_valid ex_wf
  by (simp add: Validate_None)

lemma Parse_repeated_null:
  "Parse 64 ''{\"wg\":null,\"wg\":{}}'' = Inr (zero_bundle\<lparr>b_WG := Some []\<rparr>)"
  by code_simp

lemma Parse_key_case:
  "Parse 64 ''{\"WG\":{}}'' = Inr (zero_bundle\<lparr>b_WG := Some []\<rparr>)"
  by code_simp

end
