(* ===== verification/Crypto.thy ===== *)
theory Crypto
  imports Json_Lemmas
begin

text \<open>
  internal/crypto: keys with their base64 text form, and the sealed value of a bundle.
  encoding/base64 and strings.TrimSpace are modelled; nacl/box and curve25519 are
  parameters. \<open>codec\<close> is the interface of a text form that is read back.
\<close>

section \<open>strings.TrimSpace\<close>

definition ascii_space :: "char \<Rightarrow> bool" where
  "ascii_space c = (code c \<in> {9, 10, 11, 12, 13, 32})"

text \<open>U+0085, U+00A0, U+1680, U+2000 to U+200A, U+2028, U+2029, U+202F, U+205F, U+3000.\<close>

fun is_space :: "rune \<Rightarrow> bool" where
  "is_space (Asc c) = ascii_space c"
| "is_space (Multi bs) =
     (map code bs \<in> {[0xC2, 0x85], [0xC2, 0xA0], [0xE1, 0x9A, 0x80], [0xE2, 0x80, 0xA8], [0xE2, 0x80, 0xA9],
        [0xE2, 0x80, 0xAF], [0xE2, 0x81, 0x9F], [0xE3, 0x80, 0x80]}
      \<or> (length bs = 3 \<and> code (bs ! 0) = 0xE2 \<and> code (bs ! 1) = 0x80 \<and> 0x80 \<le> code (bs ! 2) \<and> code (bs ! 2) \<le> 0x8A))"
| "is_space (Bad c) = False"

definition TrimSpace :: "string \<Rightarrow> string" where
  "TrimSpace s = concat (map rune_bytes (rev (dropWhile is_space (rev (dropWhile is_space (runes s))))))"

section \<open>encoding/base64, StdEncoding\<close>

definition b64_alphabet :: string where
  "b64_alphabet = ''ABCDEFGHIJKLMNOPQRSTUVWXYZabcdefghijklmnopqrstuvwxyz0123456789+/''"

definition b64_char :: "nat \<Rightarrow> char" where
  "b64_char n = b64_alphabet ! n"

definition b64_val :: "char \<Rightarrow> nat option" where
  "b64_val c =
     (let k = code c in
      if 65 \<le> k \<and> k \<le> 90 then Some (k - 65)
      else if 97 \<le> k \<and> k \<le> 122 then Some (k - 71)
      else if 48 \<le> k \<and> k \<le> 57 then Some (k + 4)
      else if k = 43 then Some 62 else if k = 47 then Some 63 else None)"

abbreviation pad :: char where
  "pad \<equiv> CHR ''=''"

fun b64_encode :: "string \<Rightarrow> string" where
  "b64_encode [] = []"
| "b64_encode [a] = (let v = code a * 16 in [b64_char (v div 64), b64_char (v mod 64), pad, pad])"
| "b64_encode [a, b] =
     (let v = (code a * 256 + code b) * 4 in
      [b64_char (v div 4096), b64_char (v div 64 mod 64), b64_char (v mod 64), pad])"
| "b64_encode (a # b # c # r) =
     (let v = (code a * 256 + code b) * 256 + code c in
      [b64_char (v div 262144), b64_char (v div 4096 mod 64), b64_char (v div 64 mod 64), b64_char (v mod 64)]
      @ b64_encode r)"

text \<open>One quantum after another; the trailing bits of a padded quantum are not checked.\<close>

fun b64_quanta :: "string \<Rightarrow> string option" where
  "b64_quanta [] = Some []"
| "b64_quanta (a # b # c # d # r) =
     (case (b64_val a, b64_val b) of
        (Some w, Some x) \<Rightarrow>
          (case b64_val c of
             None \<Rightarrow>
               if c = pad \<and> d = pad \<and> r = [] then Some [char_of ((w * 64 + x) div 16)] else None
           | Some y \<Rightarrow>
               (case b64_val d of
                  None \<Rightarrow>
                    if d = pad \<and> r = [] then
                      (let v = ((w * 64 + x) * 64 + y) div 4 in Some [char_of (v div 256), char_of (v mod 256)])
                    else None
                | Some z \<Rightarrow>
                    let v = ((w * 64 + x) * 64 + y) * 64 + z in
                    map_option (\<lambda>t. [char_of (v div 65536), char_of (v div 256 mod 256), char_of (v mod 256)] @ t)
                      (b64_quanta r)))
      | _ \<Rightarrow> None)"
| "b64_quanta s = None"

text \<open>DecodeString skips carriage returns and newlines.\<close>

definition b64_decode :: "string \<Rightarrow> string option" where
  "b64_decode s = b64_quanta (filter (\<lambda>c. c \<noteq> newline \<and> c \<noteq> cr) s)"

section \<open>Keys\<close>

type_synonym Key = string

datatype kerr = KEmpty | KBase64 | KLength

definition ParseKey :: "string \<Rightarrow> kerr + Key" where
  "ParseKey s =
     (let trimmed = TrimSpace s in
      if trimmed = [] then Inl KEmpty
      else (case b64_decode trimmed of None \<Rightarrow> Inl KBase64
        | Some k \<Rightarrow> if length k \<noteq> 32 then Inl KLength else Inr k))"

definition Key_String :: "Key \<Rightarrow> string" where
  "Key_String k = b64_encode k"

section \<open>Sealed values\<close>

definition nonceSize :: nat where
  "nonceSize = 24"

text \<open>\<open>box_seal nonce plain pub priv\<close> and \<open>box_open box nonce pub priv\<close> stand for nacl/box.\<close>

definition sealWithNonce :: "(string \<Rightarrow> string \<Rightarrow> Key \<Rightarrow> Key \<Rightarrow> string) \<Rightarrow> string \<Rightarrow> string \<Rightarrow> Key \<Rightarrow> Key \<Rightarrow> string" where
  "sealWithNonce box_seal plain nonce recipientPub senderPriv = nonce @ box_seal nonce plain recipientPub senderPriv"

text \<open>Seal with what the system's random source answers (\<open>None\<close>: it failed).\<close>

definition Seal :: "(string \<Rightarrow> string \<Rightarrow> Key \<Rightarrow> Key \<Rightarrow> string) \<Rightarrow> string option \<Rightarrow> string \<Rightarrow> Key \<Rightarrow> Key \<Rightarrow> string option" where
  "Seal box_seal rand plain recipientPub senderPriv =
     (case rand of None \<Rightarrow> None | Some nonce \<Rightarrow> Some (sealWithNonce box_seal plain nonce recipientPub senderPriv))"

definition Open :: "(string \<Rightarrow> string \<Rightarrow> Key \<Rightarrow> Key \<Rightarrow> string option) \<Rightarrow> string \<Rightarrow> Key \<Rightarrow> Key \<Rightarrow> string option" where
  "Open box_open sealed senderPub recipientPriv =
     (if length sealed < nonceSize then None
      else box_open (drop nonceSize sealed) (take nonceSize sealed) senderPub recipientPriv)"

text \<open>Keygen and Public over the parameters \<open>generate\<close> (box.GenerateKey with the random source) and
  \<open>x25519_base\<close>; \<open>None\<close> is an error, on which Public panics.\<close>

definition Keygen :: "('r \<Rightarrow> (Key \<times> Key) option) \<Rightarrow> 'r \<Rightarrow> (Key \<times> Key) option" where
  "Keygen generate r = (case generate r of None \<Rightarrow> None | Some (pub, priv) \<Rightarrow> Some (priv, pub))"

definition Public :: "(Key \<Rightarrow> Key option) \<Rightarrow> Key \<Rightarrow> Key option" where
  "Public x25519_base priv = x25519_base priv"

section \<open>Text forms\<close>

locale codec =
  fixes enc :: "'a \<Rightarrow> string" and dec :: "string \<Rightarrow> 'a option" and dom :: "'a \<Rightarrow> bool"
  assumes dec_enc: "dom x \<Longrightarrow> dec (enc x) = Some x"
begin

lemma enc_inj: "dom x \<Longrightarrow> dom y \<Longrightarrow> enc x = enc y \<Longrightarrow> x = y"
  by (metis dec_enc option.inject)

end

lemma b64_val_char: "n < 64 \<Longrightarrow> b64_val (b64_char n) = Some n"
proof -
  assume n: "n < 64"
  have len: "length b64_alphabet = 64" by (simp add: b64_alphabet_def)
  have "map b64_val b64_alphabet = map Some [0..<64]"
    by (simp add: b64_alphabet_def b64_val_def upt_rec)
  then have "map b64_val b64_alphabet ! n = map Some [0..<64] ! n" by (rule arg_cong)
  then show "b64_val (b64_char n) = Some n" using n len by (simp add: b64_char_def)
qed

lemma b64_val_pad: "b64_val pad = None"
  by (simp add: b64_val_def)

lemma join_sextets:
  fixes v :: nat
  shows "((v div 262144 * 64 + v div 4096 mod 64) * 64 + v div 64 mod 64) * 64 + v mod 64 = v"
    and "(v div 4096 * 64 + v div 64 mod 64) * 64 + v mod 64 = v"
    and "v div 64 * 64 + v mod 64 = v"
proof -
  have d: "v div 4096 = v div 64 div 64" "v div 262144 = v div 4096 div 64" by (simp_all add: div_mult2_eq [symmetric])
  show "((v div 262144 * 64 + v div 4096 mod 64) * 64 + v div 64 mod 64) * 64 + v mod 64 = v"
    "(v div 4096 * 64 + v div 64 mod 64) * 64 + v mod 64 = v" "v div 64 * 64 + v mod 64 = v"
    by (simp_all only: d div_mult_mod_eq)
qed

lemma split_bytes:
  assumes "a < 256" and "b < 256" and "c < 256"
  shows "((a * 256 + b) * 256 + c) div 65536 = a" and "((a * 256 + b) * 256 + c) div 256 mod 256 = b"
    and "((a * 256 + b) * 256 + c) mod 256 = (c :: nat)"
proof -
  have "((a * 256 + b) * 256 + c) div 256 = a * 256 + b" using assms by simp
  moreover have "((a * 256 + b) * 256 + c) div 65536 = ((a * 256 + b) * 256 + c) div 256 div 256"
    by (simp add: div_mult2_eq [symmetric])
  ultimately show "((a * 256 + b) * 256 + c) div 65536 = a" "((a * 256 + b) * 256 + c) div 256 mod 256 = b"
    using assms by simp_all
  show "((a * 256 + b) * 256 + c) mod 256 = c" using assms(3) by (simp only: mod_mult_self3 mod_less)
qed

lemma code_le [simp]: "code c \<le> 255"
  using code_less [of c] by linarith

lemma two_bytes_sextet: "(code a * 256 + code b) * 4 div 4096 < 64"
proof -
  have "(code a * 256 + code b) * 4 < 64 * 4096"
    using code_le [of a] code_le [of b] by arith
  then show ?thesis by (rule less_mult_imp_div_less)
qed

lemma three_bytes_sextet: "((code a * 256 + code b) * 256 + code c) div 262144 < 64"
proof -
  have le: "p \<le> 65535 \<Longrightarrow> q \<le> 255 \<Longrightarrow> p * 256 + q < 64 * 262144" for p q :: nat by arith
  have "code a * 256 + code b \<le> 65535" using code_le [of a] code_le [of b] by arith
  then have "(code a * 256 + code b) * 256 + code c < 64 * 262144" by (rule le) (rule code_le)
  then show ?thesis by (rule less_mult_imp_div_less)
qed

text \<open>One quantum of four, three or two characters.\<close>

lemma quantum:
  assumes "w < 64" and "x < 64" and "y < 64" and "z < 64"
  shows "b64_quanta [b64_char w, b64_char x, pad, pad] = Some [char_of ((w * 64 + x) div 16)]"
    and "b64_quanta [b64_char w, b64_char x, b64_char y, pad] =
      Some [char_of (((w * 64 + x) * 64 + y) div 4 div 256), char_of (((w * 64 + x) * 64 + y) div 4 mod 256)]"
    and "b64_quanta (b64_char w # b64_char x # b64_char y # b64_char z # r) =
      map_option (\<lambda>t. [char_of ((((w * 64 + x) * 64 + y) * 64 + z) div 65536),
         char_of ((((w * 64 + x) * 64 + y) * 64 + z) div 256 mod 256),
         char_of ((((w * 64 + x) * 64 + y) * 64 + z) mod 256)] @ t) (b64_quanta r)"
  by (simp_all only: b64_quanta.simps b64_val_char [OF assms(1)] b64_val_char [OF assms(2)]
      b64_val_char [OF assms(3)] b64_val_char [OF assms(4)] b64_val_pad option.case prod.case Let_def
      simp_thms if_True)

lemma b64_quanta_encode: "b64_quanta (b64_encode s) = Some s"
proof (induction s rule: b64_encode.induct)
  case (2 a)
  let ?v = "code a * 16"
  have "?v div 64 < 64" "?v mod 64 < 64"
    using code_less [of a] by (simp_all add: less_mult_imp_div_less)
  from quantum(1) [OF this, of 0 0] show ?case
    unfolding b64_encode.simps Let_def join_sextets(3) by simp
next
  case (3 a b)
  let ?v = "(code a * 256 + code b) * 4"
  have "?v div 4096 < 64" "?v div 64 mod 64 < 64" "?v mod 64 < 64"
    using two_bytes_sextet [of a b] by simp_all
  from quantum(2) [OF this, of 0]
  have "b64_quanta (b64_encode [a, b]) = Some [char_of (?v div 4 div 256), char_of (?v div 4 mod 256)]"
    unfolding b64_encode.simps Let_def join_sextets(2) by simp
  moreover have "?v div 4 = code a * 256 + code b" by simp
  moreover have "(code a * 256 + code b) div 256 = code a" "(code a * 256 + code b) mod 256 = code b"
    using code_less [of b] by simp_all
  ultimately show ?case by simp
next
  case (4 a b c r)
  let ?v = "(code a * 256 + code b) * 256 + code c"
  have "?v div 262144 < 64" "?v div 4096 mod 64 < 64" "?v div 64 mod 64 < 64" "?v mod 64 < 64"
    using three_bytes_sextet [of a b c] by simp_all
  from quantum(3) [OF this, of "b64_encode r"]
  have "b64_quanta (b64_encode (a # b # c # r)) =
      Some ([char_of (?v div 65536), char_of (?v div 256 mod 256), char_of (?v mod 256)] @ r)"
    unfolding b64_encode.simps Let_def join_sextets(1) using 4 by simp
  moreover have "?v div 65536 = code a" "?v div 256 mod 256 = code b" "?v mod 256 = code c"
    by (rule split_bytes; simp)+
  ultimately show ?case by (simp only: char_of_char append.simps)
qed simp

lemma b64_encode_chars: "c \<in> set (b64_encode s) \<Longrightarrow> c = pad \<or> b64_val c \<noteq> None"
proof (induction s rule: b64_encode.induct)
  case (2 a)
  then show ?case using code_less [of a] by (auto simp: Let_def b64_val_char less_mult_imp_div_less)
next
  case (3 a b)
  then show ?case using two_bytes_sextet [of a b]
    by (auto simp: Let_def b64_val_char simp del: distrib_right distrib_left)
next
  case (4 a b c r)
  then show ?case using three_bytes_sextet [of a b c]
    by (auto simp: Let_def b64_val_char simp del: distrib_right distrib_left)
qed simp

lemma b64_encode_printable: "c \<in> set (b64_encode s) \<Longrightarrow> 33 \<le> code c \<and> code c < 128"
  using b64_encode_chars [of c s] by (auto simp: b64_val_def Let_def split: if_splits)

lemma b64_decode_encode: "b64_decode (b64_encode s) = Some s"
proof -
  have "c \<noteq> newline \<and> c \<noteq> cr" if "c \<in> set (b64_encode s)" for c
    using b64_encode_printable [OF that] by auto
  then have "filter (\<lambda>c. c \<noteq> newline \<and> c \<noteq> cr) (b64_encode s) = b64_encode s" by simp
  then show ?thesis by (simp only: b64_decode_def b64_quanta_encode)
qed

interpretation base64: codec b64_encode b64_decode "\<lambda>_. True"
  by unfold_locales (rule b64_decode_encode)

lemma runes_ascii: "list_all (\<lambda>c. code c < 128) s \<Longrightarrow> runes s = map Asc s"
  by (induction s) simp_all

text \<open>Space around a text without space is dropped.\<close>

lemma TrimSpace_around:
  assumes "list_all (\<lambda>c. 33 \<le> code c \<and> code c < 128) s" and "list_all ascii_space a" and "list_all ascii_space b"
  shows "TrimSpace (a @ s @ b) = s"
proof -
  have asc: "list_all (\<lambda>c. code c < 128) x" if "list_all ascii_space x" for x
    using that by (auto simp: list_all_iff ascii_space_def)
  have r: "runes (a @ s @ b) = map Asc a @ map Asc s @ map Asc b"
    using runes_ascii [of "a @ s @ b"] asc [OF assms(2)] asc [OF assms(3)] assms(1) by (auto simp: list_all_iff)
  have sp: "\<And>r. r \<in> set (map Asc x) \<Longrightarrow> is_space r" if "list_all ascii_space x" for x
    using that by (auto simp: list_all_iff)
  have ns: "\<And>r. r \<in> set (map Asc s) \<Longrightarrow> \<not> is_space r"
    using assms(1) by (auto simp: list_all_iff ascii_space_def)
  show ?thesis
  proof (cases "s = []")
    case True
    then have "dropWhile is_space (map Asc a @ map Asc s @ map Asc b) = []"
      using sp [OF assms(2)] sp [OF assms(3)] by (auto simp: dropWhile_eq_Nil_conv)
    then show ?thesis unfolding TrimSpace_def r by (simp only: True) simp
  next
    case False
    have "dropWhile is_space (map Asc a @ map Asc s @ map Asc b) = map Asc s @ map Asc b"
      using ns [of "Asc (hd s)"] False
      by (subst dropWhile_append2, blast intro: sp [OF assms(2)]) (cases s; simp)
    moreover have "dropWhile is_space (rev (map Asc s @ map Asc b)) = rev (map Asc s)"
    proof -
      have "dropWhile is_space (rev (map Asc s)) = rev (map Asc s)"
        using ns [of "Asc (last s)"] False by (cases s rule: rev_cases) simp_all
      moreover have "\<And>r. r \<in> set (rev (map Asc b)) \<Longrightarrow> is_space r" using sp [OF assms(3)] by auto
      ultimately show ?thesis by (simp only: rev_append dropWhile_append2)
    qed
    ultimately show ?thesis unfolding TrimSpace_def r by (simp add: comp_def)
  qed
qed

lemma b64_encode_nonempty: "s \<noteq> [] \<Longrightarrow> b64_encode s \<noteq> []"
  by (cases s rule: b64_encode.cases) (simp_all add: Let_def)

lemma ParseKey_encoded:
  assumes "length k = 32" and "list_all ascii_space a" and "list_all ascii_space b"
  shows "ParseKey (a @ Key_String k @ b) = Inr k"
proof -
  have "list_all (\<lambda>c. 33 \<le> code c \<and> code c < 128) (b64_encode k)"
    using b64_encode_printable by (auto simp: list_all_iff)
  from TrimSpace_around [OF this assms(2, 3)] have "TrimSpace (a @ Key_String k @ b) = b64_encode k"
    by (simp add: Key_String_def)
  moreover have "b64_encode k \<noteq> []" using assms(1) by (intro b64_encode_nonempty) auto
  ultimately show ?thesis using assms(1) by (simp add: ParseKey_def base64.dec_enc)
qed

definition key_of_text :: "string \<Rightarrow> Key option" where
  "key_of_text s = (case ParseKey s of Inl _ \<Rightarrow> None | Inr k \<Rightarrow> Some k)"

interpretation key: codec Key_String key_of_text "\<lambda>k. length k = 32"
  using ParseKey_encoded [of _ "[]" "[]"] by unfold_locales (simp add: key_of_text_def)

lemma ParseKey_length: "ParseKey s = Inr k \<Longrightarrow> length k = 32"
  by (auto simp: ParseKey_def Let_def split: if_splits option.splits)

section \<open>Properties\<close>

text \<open>A key's text form is read back as the key, also with ASCII space around it, whatever ParseKey
  accepts is 32 bytes long, and two keys have the same text form only if they are equal.\<close>

theorem ParseKey_String:
  assumes "length k = 32" and "length k' = 32" and "list_all ascii_space a" and "list_all ascii_space b"
  shows "ParseKey (a @ Key_String k @ b) = Inr k \<and> (Key_String k = Key_String k') = (k = k')
    \<and> (\<forall>s j. ParseKey s = Inr j \<longrightarrow> length j = 32)"
  using ParseKey_encoded [OF assms(1, 3, 4)] key.enc_inj [OF assms(1, 2)] ParseKey_length by auto

theorem ParseKey_String_witness:
  "ParseKey ('' '' @ Key_String (replicate 32 (CHR ''A'')) @ [newline]) = Inr (replicate 32 (CHR ''A''))"
  using ParseKey_String [of "replicate 32 (CHR ''A'')" "replicate 32 (CHR ''A'')" "'' ''" "[newline]"]
  by (simp add: ascii_space_def)

text \<open>nacl/box: a box sealed for a recipient by a sender is opened by that recipient from that sender, and
  \<open>pub\<close> is the public key of a private key.\<close>

definition box_law :: "(string \<Rightarrow> string \<Rightarrow> Key \<Rightarrow> Key \<Rightarrow> string) \<Rightarrow>
    (string \<Rightarrow> string \<Rightarrow> Key \<Rightarrow> Key \<Rightarrow> string option) \<Rightarrow> (Key \<Rightarrow> Key) \<Rightarrow> bool" where
  "box_law box_seal box_open pub =
     (\<forall>m n r s. length n = 24 \<longrightarrow> box_open (box_seal n m (pub r) s) n (pub s) r = Some m)"

text \<open>What Seal produces, whatever 24-byte nonce the random source gives, Open returns to the recipient,
  provided nacl/box opens what it sealed; a value shorter than a nonce is never opened.\<close>

theorem Open_Seal:
  assumes "box_law box_seal box_open pub" and "length nonce = 24"
    and "Seal box_seal (Some nonce) plain (pub recipientPriv) senderPriv = Some sealed"
  shows "Open box_open sealed (pub senderPriv) recipientPriv = Some plain"
  using assms by (auto simp: Open_def Seal_def sealWithNonce_def nonceSize_def box_law_def)

lemma drop_append_left: "drop (length a) (a @ b) = b"
  by simp

definition toy_seal :: "string \<Rightarrow> string \<Rightarrow> Key \<Rightarrow> Key \<Rightarrow> string" where
  "toy_seal n m r s = show_nat (length r) @ CHR '':'' # r @ show_nat (length s) @ CHR '':'' # s @ m"

definition toy_open :: "string \<Rightarrow> string \<Rightarrow> Key \<Rightarrow> Key \<Rightarrow> string option" where
  "toy_open c n s r =
     (let h = show_nat (length r) @ CHR '':'' # r @ show_nat (length s) @ CHR '':'' # s in
      if has_prefix c h then Some (drop (length h) c) else None)"

lemma toy_box_law: "box_law toy_seal toy_open id"
proof -
  have "toy_open (toy_seal n m r s) n s r = Some m" for n m r s
  proof -
    let ?h = "show_nat (length r) @ CHR '':'' # r @ show_nat (length s) @ CHR '':'' # s"
    have "toy_seal n m r s = ?h @ m" by (simp add: toy_seal_def)
    then show ?thesis by (simp only: toy_open_def Let_def has_prefix_append if_True drop_append_left)
  qed
  then show ?thesis by (simp add: box_law_def)
qed

theorem Open_Seal_witness:
  "Open toy_open (replicate 24 (CHR ''n'') @ toy_seal (replicate 24 (CHR ''n'')) ''hi'' ''bob'' ''alice'') ''alice'' ''bob''
     = Some ''hi''"
  using Open_Seal [OF toy_box_law, of "replicate 24 (CHR ''n'')" "''hi''" "''bob''" "''alice''"]
  by (simp add: Seal_def sealWithNonce_def)

end
