(* ===== verification/Effects.thy ===== *)
theory Effects
  imports Prelude
begin

text \<open>
  Effects: steps that may fail and change a state, running external commands
  (internal/execx, with its scripted Fake), and the file system calls of package os.

  A step is a function from a state to a result and the next state. Code that runs
  commands takes the runner as a parameter; \<open>command_log\<close> is the interface of a runner
  that records its calls, which Fake implements, and the facts about the order of
  commands are proved in it once.
\<close>

section \<open>Steps\<close>

type_synonym ('s, 'e, 'a) step = "'s \<Rightarrow> ('e + 'a) \<times> 's"

definition ret :: "'a \<Rightarrow> ('s, 'e, 'a) step" where
  "ret x s = (Inr x, s)"

definition fail_with :: "'e \<Rightarrow> ('s, 'e, 'a) step" where
  "fail_with e s = (Inl e, s)"

definition andThen :: "('s, 'e, 'a) step \<Rightarrow> ('a \<Rightarrow> ('s, 'e, 'b) step) \<Rightarrow> ('s, 'e, 'b) step" where
  "andThen m f s = (case m s of (Inl e, s') \<Rightarrow> (Inl e, s') | (Inr x, s') \<Rightarrow> f x s')"

text \<open>Wrapping the error of a step (fmt.Errorf with %w), and dropping it.\<close>

definition wrap :: "('e \<Rightarrow> 'f) \<Rightarrow> ('s, 'e, 'a) step \<Rightarrow> ('s, 'f, 'a) step" where
  "wrap g m s = (case m s of (Inl e, s') \<Rightarrow> (Inl (g e), s') | (Inr x, s') \<Rightarrow> (Inr x, s'))"

text \<open>A for loop that stops at the first error.\<close>

fun each :: "('x \<Rightarrow> ('s, 'e, unit) step) \<Rightarrow> 'x list \<Rightarrow> ('s, 'e, unit) step" where
  "each f [] = ret ()"
| "each f (x # xs) = andThen (f x) (\<lambda>_. each f xs)"

section \<open>internal/execx\<close>

record Call =
  call_Name :: string
  call_Args :: "string list"

text \<open>A runner: the command's name and arguments, to its output, or to an error with the output that came with it.\<close>

datatype rerr = RunFailed string

type_synonym 'r runner = "string \<Rightarrow> string list \<Rightarrow> ('r, rerr, string) step"

text \<open>Exec.Run keeps only whether the command succeeded, and its output if it did; what the
  command does is the parameter \<open>command\<close> (exit status and standard output).\<close>

definition Exec_Run :: "(string \<Rightarrow> string list \<Rightarrow> 'w \<Rightarrow> (int option \<times> string) \<times> 'w) \<Rightarrow> 'w runner" where
  "Exec_Run command name args w =
     (case command name args w of ((status, out), w') \<Rightarrow>
        (if status = Some 0 then Inr out else Inl (RunFailed []), w'))"

record Result =
  res_Stdout :: string
  res_Err :: bool

record Fake =
  fk_results :: "Result list"
  fk_calls :: "Call list"

definition NewFake :: "Result list \<Rightarrow> Fake" where
  "NewFake results = \<lparr>fk_results = results, fk_calls = []\<rparr>"

definition Fake_Run :: "Fake runner" where
  "Fake_Run name args f =
     (let calls = fk_calls f @ [\<lparr>call_Name = name, call_Args = args\<rparr>]; f' = f\<lparr>fk_calls := calls\<rparr>;
          i = length calls - 1 in
      if i < length (fk_results f) then
        (let r = fk_results f ! i in (if res_Err r then Inl (RunFailed (res_Stdout r)) else Inr (res_Stdout r), f'))
      else (Inr [], f'))"

definition Calls :: "Fake \<Rightarrow> Call list" where
  "Calls f = fk_calls f"

section \<open>Files\<close>

record File =
  f_data :: string
  f_mode :: nat

text \<open>
  The file system: the files by path, a script of faults (each call takes the next one;
  \<open>Some n\<close> makes it fail, a write after \<open>n\<close> bytes; past the end every call succeeds), the
  seed of CreateTemp's random names, and the states of the files after each call, oldest
  first (a crash leaves one of them).
\<close>

record fs =
  fs_files :: "string \<Rightarrow> File option"
  fs_faults :: "nat option list"
  fs_seed :: nat
  fs_hist :: "(string \<Rightarrow> File option) list"

datatype oserr = NotExist | Exist | OSErr

text \<open>One call: the next fault, the files it leaves when it succeeds and when it fails.\<close>

definition syscall :: "oserr \<Rightarrow> (nat \<Rightarrow> (string \<Rightarrow> File option)) \<Rightarrow> (string \<Rightarrow> File option) \<Rightarrow> 'a \<Rightarrow> (fs, oserr, 'a) step" where
  "syscall e bad good x w =
     (let (fault, rest) = (case fs_faults w of [] \<Rightarrow> (None, []) | f # r \<Rightarrow> (f, r));
          files = (case fault of None \<Rightarrow> good | Some n \<Rightarrow> bad n)
      in (if fault = None then Inr x else Inl e,
          w\<lparr>fs_files := files, fs_faults := rest, fs_hist := fs_hist w @ [files]\<rparr>))"

definition os_ReadFile :: "string \<Rightarrow> (fs, oserr, string) step" where
  "os_ReadFile path w =
     (case fs_files w path of None \<Rightarrow> (Inl NotExist, w)
      | Some f \<Rightarrow> syscall OSErr (\<lambda>_. fs_files w) (fs_files w) (f_data f) w)"

definition os_Remove :: "string \<Rightarrow> (fs, oserr, unit) step" where
  "os_Remove path w =
     (if fs_files w path = None then (Inl NotExist, w)
      else syscall OSErr (\<lambda>_. fs_files w) ((fs_files w)(path := None)) () w)"

definition os_Rename :: "string \<Rightarrow> string \<Rightarrow> (fs, oserr, unit) step" where
  "os_Rename from to w =
     (if fs_files w from = None then (Inl NotExist, w)
      else syscall OSErr (\<lambda>_. fs_files w)
        (if from = to then fs_files w else (fs_files w)(to := fs_files w from, from := None)) () w)"

definition os_Link :: "string \<Rightarrow> string \<Rightarrow> (fs, oserr, unit) step" where
  "os_Link from to w =
     (if fs_files w from = None then (Inl NotExist, w)
      else if fs_files w to \<noteq> None then (Inl Exist, w)
      else syscall OSErr (\<lambda>_. fs_files w) ((fs_files w)(to := fs_files w from)) () w)"

definition os_Chmod :: "string \<Rightarrow> nat \<Rightarrow> (fs, oserr, unit) step" where
  "os_Chmod path mode w =
     syscall OSErr (\<lambda>_. fs_files w)
       ((fs_files w)(path := map_option (f_mode_update (\<lambda>_. mode)) (fs_files w path))) () w"

text \<open>Appending to an open file; a fault leaves part of the data written.\<close>

definition os_Write :: "string \<Rightarrow> string \<Rightarrow> (fs, oserr, unit) step" where
  "os_Write path data w =
     (let put = (\<lambda>d. (fs_files w)(path := map_option (f_data_update (\<lambda>old. old @ d)) (fs_files w path)))
      in syscall OSErr (\<lambda>n. put (take n data)) (put data) () w)"

definition os_Sync :: "string \<Rightarrow> (fs, oserr, unit) step" where
  "os_Sync path w = syscall OSErr (\<lambda>_. fs_files w) (fs_files w) () w"

definition os_Close :: "string \<Rightarrow> (fs, oserr, unit) step" where
  "os_Close path w = syscall OSErr (\<lambda>_. fs_files w) (fs_files w) () w"

text \<open>os.CreateTemp: a new file of mode 0600 whose name no file has, at most 10000 tries.\<close>

fun temp_name :: "nat \<Rightarrow> (string \<Rightarrow> File option) \<Rightarrow> string \<Rightarrow> nat \<Rightarrow> (string \<times> nat) option" where
  "temp_name 0 files base seed = None"
| "temp_name (Suc n) files base seed =
     (if files (base @ show_nat seed) = None then Some (base @ show_nat seed, Suc seed)
      else temp_name n files base (Suc seed))"

definition temp_base :: "string \<Rightarrow> string \<Rightarrow> string" where
  "temp_base dir pat = (if has_suffix dir ''/'' then dir @ pat else dir @ ''/'' @ pat)"

definition os_CreateTemp :: "string \<Rightarrow> string \<Rightarrow> (fs, oserr, string) step" where
  "os_CreateTemp dir pat w =
     (case temp_name 10000 (fs_files w) (temp_base dir pat) (fs_seed w) of
        None \<Rightarrow> (Inl Exist, w)
      | Some (tmp, seed) \<Rightarrow>
          syscall OSErr (\<lambda>_. fs_files w) ((fs_files w)(tmp \<mapsto> \<lparr>f_data = [], f_mode = 384\<rparr>)) tmp
            (w\<lparr>fs_seed := seed\<rparr>))"

section \<open>path/filepath\<close>

fun split_on :: "char \<Rightarrow> string \<Rightarrow> string list" where
  "split_on c [] = [[]]"
| "split_on c (x # xs) =
     (if x = c then [] # split_on c xs
      else (case split_on c xs of [] \<Rightarrow> [[x]] | y # ys \<Rightarrow> (x # y) # ys))"

fun join_with :: "string \<Rightarrow> string list \<Rightarrow> string" where
  "join_with sep [] = []"
| "join_with sep [x] = x"
| "join_with sep (x # y # r) = x @ sep @ join_with sep (y # r)"

text \<open>The components of a cleaned path, last first.\<close>

fun clean_comps :: "bool \<Rightarrow> string list \<Rightarrow> string list \<Rightarrow> string list" where
  "clean_comps rooted st [] = st"
| "clean_comps rooted st (c # cs) =
     (if c = [] \<or> c = ''.'' then clean_comps rooted st cs
      else if c = ''..'' then
        (if st \<noteq> [] \<and> hd st \<noteq> ''..'' then clean_comps rooted (tl st) cs
         else if rooted then clean_comps rooted st cs else clean_comps rooted (c # st) cs)
      else clean_comps rooted (c # st) cs)"

definition filepath_Clean :: "string \<Rightarrow> string" where
  "filepath_Clean p =
     (let rooted = has_prefix p ''/''; q = join_with ''/'' (rev (clean_comps rooted [] (split_on (CHR ''/'') p))) in
      if rooted then CHR ''/'' # q else if q = [] then ''.'' else q)"

definition filepath_Dir :: "string \<Rightarrow> string" where
  "filepath_Dir p = filepath_Clean (rev (dropWhile (\<lambda>c. c \<noteq> CHR ''/'') (rev p)))"

section \<open>Lemmas on steps\<close>

lemma step_simps [simp]:
  "ret x s = (Inr x, s)" "fail_with e s = (Inl e, s)"
  by (simp_all add: ret_def fail_with_def)

lemma andThen_Inr: "andThen m f s = (Inr y, t) \<longleftrightarrow> (\<exists>x u. m s = (Inr x, u) \<and> f x u = (Inr y, t))"
  by (auto simp: andThen_def split: prod.splits sum.splits)

lemma andThen_Inl:
  "andThen m f s = (Inl e, t) \<longleftrightarrow> m s = (Inl e, t) \<or> (\<exists>x u. m s = (Inr x, u) \<and> f x u = (Inl e, t))"
  by (auto simp: andThen_def split: prod.splits sum.splits)

lemma wrap_Inr [simp]: "wrap g m s = (Inr x, t) \<longleftrightarrow> m s = (Inr x, t)"
  by (auto simp: wrap_def split: prod.splits sum.splits)

lemma wrap_Inl [simp]: "wrap g m s = (Inl f, t) \<longleftrightarrow> (\<exists>e. m s = (Inl e, t) \<and> f = g e)"
  by (auto simp: wrap_def split: prod.splits sum.splits)

lemma snd_wrap [simp]: "snd (wrap g m s) = snd (m s)"
  by (auto simp: wrap_def split: prod.splits sum.splits)

section \<open>Lemmas on the file system\<close>

lemma syscall_cases:
  assumes "syscall e bad good x s = (r, s')"
  obtains "r = Inr x" "fs_files s' = good" "fs_hist s' = fs_hist s @ [good]"
  | n where "r = Inl e" "fs_files s' = bad n" "fs_hist s' = fs_hist s @ [bad n]"
  using assms that by (auto simp: syscall_def Let_def split: list.splits option.splits)

lemma syscall_no_faults [simp]:
  "fs_faults s = [] \<Longrightarrow> syscall e bad good x s = (Inr x, s\<lparr>fs_files := good, fs_faults := [], fs_hist := fs_hist s @ [good]\<rparr>)"
  by (simp add: syscall_def)

lemma temp_name_Some: "temp_name n files base seed = Some (t, k) \<Longrightarrow> files t = None \<and> (\<exists>i. t = base @ show_nat i)"
  by (induction n files base seed rule: temp_name.induct) (auto split: if_splits)

lemma temp_name_first:
  "0 < n \<Longrightarrow> files (base @ show_nat seed) = None \<Longrightarrow> temp_name n files base seed = Some (base @ show_nat seed, Suc seed)"
  by (cases n) simp_all

section \<open>The log of commands\<close>

definition mkcall :: "string \<Rightarrow> string list \<Rightarrow> Call" where
  "mkcall name args = \<lparr>call_Name = name, call_Args = args\<rparr>"

text \<open>A runner that records every call at the end of a log.\<close>

locale command_log =
  fixes run :: "'r runner" and log :: "'r \<Rightarrow> Call list"
  assumes log_run: "log (snd (run name args r)) = log r @ [mkcall name args]"
begin

text \<open>\<open>runs_all m cs\<close>: on success the step \<open>m\<close> ran exactly the commands \<open>cs\<close>, on failure a
  prefix of them.\<close>

definition appends :: "('r, 'e, 'a) step \<Rightarrow> bool" where
  "appends m = (\<forall>r. \<exists>cs. log (snd (m r)) = log r @ cs)"

definition runs_all :: "('r, 'e, 'a) step \<Rightarrow> Call list \<Rightarrow> bool" where
  "runs_all m cs = (\<forall>r. \<exists>ds. prefix ds cs \<and> log (snd (m r)) = log r @ ds
     \<and> (\<forall>x. fst (m r) = Inr x \<longrightarrow> ds = cs))"

lemma log_run' [simp]: "run name args r = (x, r') \<Longrightarrow> log r' = log r @ [mkcall name args]"
  using log_run [of name args r] by simp

lemma runs_all_success: "runs_all m cs \<Longrightarrow> m r = (Inr x, r') \<Longrightarrow> log r' = log r @ cs"
  unfolding runs_all_def by (metis fst_conv snd_conv)

lemma runs_all_prefix: "runs_all m cs \<Longrightarrow> m r = (x, r') \<Longrightarrow> \<exists>ds. prefix ds cs \<and> log r' = log r @ ds"
  unfolding runs_all_def by (metis snd_conv)

lemma runs_all_appends: "runs_all m cs \<Longrightarrow> appends m"
  unfolding runs_all_def appends_def by blast

lemma runs_all_ret [intro]: "runs_all (ret x) []"
  by (simp add: runs_all_def)

lemma runs_all_run [intro]: "runs_all (run name args) [mkcall name args]"
  unfolding runs_all_def by (metis log_run prefix_order.order_refl)

lemma runs_all_wrap [intro]: "runs_all m cs \<Longrightarrow> runs_all (wrap g m) cs"
  unfolding runs_all_def by (auto simp: wrap_def split: prod.splits sum.splits)
    (metis fst_conv snd_conv)+

lemma runs_all_then:
  assumes "runs_all m cs" and "\<And>x. runs_all (f x) ds"
  shows "runs_all (andThen m f) (cs @ ds)"
  unfolding runs_all_def
proof
  fix r
  obtain y r' where m: "m r = (y, r')" by fastforce
  show "\<exists>es. prefix es (cs @ ds) \<and> log (snd (andThen m f r)) = log r @ es
      \<and> (\<forall>x. fst (andThen m f r) = Inr x \<longrightarrow> es = cs @ ds)"
  proof (cases y)
    case (Inl e)
    then show ?thesis using m runs_all_prefix [OF assms(1) m] by (auto simp: andThen_def)
  next
    case (Inr x)
    then have "log r' = log r @ cs" using runs_all_success [OF assms(1), of r x r'] m by simp
    moreover obtain es where "prefix es ds" "log (snd (f x r')) = log r' @ es"
      "\<forall>z. fst (f x r') = Inr z \<longrightarrow> es = ds" using assms(2) [of x, unfolded runs_all_def] by blast
    ultimately show ?thesis using m Inr by (auto simp: andThen_def intro!: exI [of _ "cs @ es"])
  qed
qed

lemma runs_all_each:
  assumes "\<And>x. x \<in> set xs \<Longrightarrow> runs_all (f x) (g x)"
  shows "runs_all (each f xs) (concat (map g xs))"
  using assms
proof (induction xs)
  case Nil
  then show ?case by (simp add: runs_all_def)
next
  case (Cons x xs)
  then show ?case using runs_all_then [of "f x" "g x" "\<lambda>_. each f xs"] by simp
qed

text \<open>\<open>calls_in P m\<close>: whatever happens, every command the step \<open>m\<close> runs satisfies \<open>P\<close>.\<close>

definition calls_in :: "(Call \<Rightarrow> bool) \<Rightarrow> ('r, 'e, 'a) step \<Rightarrow> bool" where
  "calls_in P m = (\<forall>r. \<exists>cs. log (snd (m r)) = log r @ cs \<and> list_all P cs)"

lemma calls_inD: "calls_in P m \<Longrightarrow> m r = (x, r') \<Longrightarrow> \<exists>cs. log r' = log r @ cs \<and> list_all P cs"
  unfolding calls_in_def by (metis snd_conv)

lemma calls_inI: "(\<And>r. \<exists>cs. log (snd (m r)) = log r @ cs \<and> list_all P cs) \<Longrightarrow> calls_in P m"
  unfolding calls_in_def by blast

lemma calls_in_ret [intro]: "calls_in P (ret x)" and calls_in_fail [intro]: "calls_in P (fail_with e)"
  unfolding calls_in_def by simp_all

lemma calls_in_run [intro]: "P (mkcall name args) \<Longrightarrow> calls_in P (run name args)"
  by (rule calls_inI, rule exI [of _ "[mkcall name args]"]) (simp add: log_run)

lemma calls_in_wrap [intro]: "calls_in P m \<Longrightarrow> calls_in P (wrap g m)"
  unfolding calls_in_def by simp

lemma calls_in_then [intro]:
  assumes "calls_in P m" and "\<And>x. calls_in P (f x)"
  shows "calls_in P (andThen m f)"
proof (rule calls_inI)
  fix r
  obtain y r' where m: "m r = (y, r')" by fastforce
  obtain cs where cs: "log r' = log r @ cs" "list_all P cs" using calls_inD [OF assms(1) m] by blast
  show "\<exists>cs. log (snd (andThen m f r)) = log r @ cs \<and> list_all P cs"
  proof (cases y)
    case (Inl e)
    then show ?thesis using cs m by (auto simp: andThen_def)
  next
    case (Inr x)
    obtain z r'' where f: "f x r' = (z, r'')" by fastforce
    obtain ds where "log r'' = log r' @ ds" "list_all P ds" using calls_inD [OF assms(2) f] by blast
    then show ?thesis using cs m f Inr by (auto simp: andThen_def intro!: exI [of _ "cs @ ds"])
  qed
qed

lemma calls_in_each [intro]: "(\<And>x. x \<in> set xs \<Longrightarrow> calls_in P (f x)) \<Longrightarrow> calls_in P (each f xs)"
proof (induction xs)
  case Nil
  then show ?case by (simp add: calls_in_def)
next
  case (Cons x xs)
  then show ?case using calls_in_then [of P "f x" "\<lambda>_. each f xs"] by simp
qed

lemma calls_in_mono: "calls_in P m \<Longrightarrow> (\<And>c. P c \<Longrightarrow> Q c) \<Longrightarrow> calls_in Q m"
  unfolding calls_in_def list_all_iff by meson

end

interpretation fake: command_log Fake_Run Calls
  by unfold_locales (auto simp: Fake_Run_def Calls_def mkcall_def Let_def)

end
