(* ===== verification/Select.thy ===== *)
theory Select
  imports Bundle_Canonical Crypto Effects
begin

text \<open>
  cmd/stunmesh-agent/fetch_select.go: opening every value found under the node's key and
  picking the newest valid bundle. Proved: the result is the first of the acceptable
  values with the largest timestamp, and the statistics account for every value.
\<close>

record selectStats =
  Undecrypted :: nat
  Unparsed :: nat
  Rejected :: nat

definition no_stats :: selectStats where
  "no_stats = \<lparr>Undecrypted = 0, Unparsed = 0, Rejected = 0\<rparr>"

type_synonym opener = "string \<Rightarrow> string \<Rightarrow> Key \<Rightarrow> Key \<Rightarrow> string option"

text \<open>The loop: the best bundle so far, the counts, the values left.\<close>

fun select_loop :: "nat \<Rightarrow> opener \<Rightarrow> Key \<Rightarrow> Key \<Rightarrow> string \<Rightarrow> string \<Rightarrow> Bundle option \<Rightarrow> selectStats \<Rightarrow> string list
    \<Rightarrow> Bundle option \<times> selectStats" where
  "select_loop w op spub rpriv ns nid best stats [] = (best, stats)"
| "select_loop w op spub rpriv ns nid best stats (v # vs) =
     (case Open op v spub rpriv of
        None \<Rightarrow> select_loop w op spub rpriv ns nid best (stats\<lparr>Undecrypted := Undecrypted stats + 1\<rparr>) vs
      | Some plain \<Rightarrow>
         (case Parse w plain of
            Inl _ \<Rightarrow> select_loop w op spub rpriv ns nid best (stats\<lparr>Unparsed := Unparsed stats + 1\<rparr>) vs
          | Inr b \<Rightarrow>
             (case Validate ns nid b of
                Some _ \<Rightarrow> select_loop w op spub rpriv ns nid best (stats\<lparr>Rejected := Rejected stats + 1\<rparr>) vs
              | None \<Rightarrow>
                 select_loop w op spub rpriv ns nid
                   (case best of None \<Rightarrow> Some b
                    | Some c \<Rightarrow> if b_Timestamp b > b_Timestamp c then Some b else best) stats vs)))"

definition decryptAndSelect :: "nat \<Rightarrow> opener \<Rightarrow> string list \<Rightarrow> Key \<Rightarrow> Key \<Rightarrow> string \<Rightarrow> string
    \<Rightarrow> Bundle option \<times> selectStats" where
  "decryptAndSelect w op values senderPub recipientPriv namespace nodeID =
     select_loop w op senderPub recipientPriv namespace nodeID None no_stats values"

datatype ikerr = IKRead | IKInvalid

definition loadIdentityKey :: "string \<Rightarrow> (fs, ikerr, Key) step" where
  "loadIdentityKey path s =
     (case os_ReadFile path s of (Inl _, s') \<Rightarrow> (Inl IKRead, s')
      | (Inr data, s') \<Rightarrow> (case ParseKey data of Inl _ \<Rightarrow> (Inl IKInvalid, s') | Inr k \<Rightarrow> (Inr k, s')))"

section \<open>The acceptable values\<close>

text \<open>The bundle in a value, if it opens, parses and validates.\<close>

definition acceptable :: "nat \<Rightarrow> opener \<Rightarrow> Key \<Rightarrow> Key \<Rightarrow> string \<Rightarrow> string \<Rightarrow> string \<Rightarrow> Bundle option" where
  "acceptable w op spub rpriv ns nid v =
     (case Open op v spub rpriv of None \<Rightarrow> None
      | Some plain \<Rightarrow> (case Parse w plain of Inl _ \<Rightarrow> None
         | Inr b \<Rightarrow> if Validate ns nid b = None then Some b else None))"

definition accepted :: "nat \<Rightarrow> opener \<Rightarrow> Key \<Rightarrow> Key \<Rightarrow> string \<Rightarrow> string \<Rightarrow> string list \<Rightarrow> Bundle list" where
  "accepted w op spub rpriv ns nid values = List.map_filter (acceptable w op spub rpriv ns nid) values"

text \<open>The first of a list of bundles with the largest timestamp.\<close>

definition newest :: "Bundle list \<Rightarrow> Bundle \<Rightarrow> bool" where
  "newest bs b = (\<exists>xs ys. bs = xs @ b # ys \<and> (\<forall>x \<in> set xs. b_Timestamp x < b_Timestamp b)
     \<and> (\<forall>y \<in> set ys. b_Timestamp y \<le> b_Timestamp b))"

fun pick :: "Bundle option \<Rightarrow> Bundle list \<Rightarrow> Bundle option" where
  "pick best [] = best"
| "pick best (b # bs) =
     pick (case best of None \<Rightarrow> Some b | Some c \<Rightarrow> if b_Timestamp b > b_Timestamp c then Some b else best) bs"

lemma map_filter_Cons: "List.map_filter f (x # xs) = (case f x of None \<Rightarrow> List.map_filter f xs | Some y \<Rightarrow> y # List.map_filter f xs)"
  by (simp add: List.map_filter_def split: option.splits)

lemma select_loop_pick:
  "fst (select_loop w op spub rpriv ns nid best stats vs) = pick best (accepted w op spub rpriv ns nid vs)"
proof (induction vs arbitrary: best stats)
  case Nil
  then show ?case by (simp add: accepted_def List.map_filter_def)
next
  case (Cons v vs)
  then show ?case
    by (auto simp: accepted_def map_filter_Cons acceptable_def split: option.splits sum.splits)
qed

definition total :: "selectStats \<Rightarrow> nat" where
  "total s = Undecrypted s + Unparsed s + Rejected s"

lemma select_loop_total:
  "total (snd (select_loop w op spub rpriv ns nid best stats vs)) + length (accepted w op spub rpriv ns nid vs)
     = total stats + length vs"
proof (induction vs arbitrary: best stats)
  case Nil
  then show ?case by (simp add: accepted_def List.map_filter_def)
next
  case (Cons v vs)
  show ?case
    using Cons.IH by (auto simp: accepted_def map_filter_Cons acceptable_def total_def split: option.splits sum.splits)
qed

lemma pick_Some:
  "\<exists>b. pick (Some c) bs = Some b \<and> newest (c # bs) b"
proof (induction bs arbitrary: c)
  case Nil
  show ?case by (auto simp: newest_def intro!: exI [of _ "[]"])
next
  case (Cons d bs)
  show ?case
  proof (cases "b_Timestamp d > b_Timestamp c")
    case True
    obtain b where b: "pick (Some d) bs = Some b" "newest (d # bs) b" using Cons by blast
    then obtain xs ys where "d # bs = xs @ b # ys" "\<forall>x \<in> set xs. b_Timestamp x < b_Timestamp b"
      "\<forall>y \<in> set ys. b_Timestamp y \<le> b_Timestamp b" unfolding newest_def by blast
    moreover have "b_Timestamp c < b_Timestamp b"
      using True calculation by (cases xs) auto
    ultimately have "newest (c # d # bs) b"
      unfolding newest_def by (intro exI [of _ "c # xs"] exI [of _ ys]) auto
    then show ?thesis using b True by simp
  next
    case False
    obtain b where b: "pick (Some c) bs = Some b" "newest (c # bs) b" using Cons by blast
    then obtain xs ys where xy: "c # bs = xs @ b # ys" "\<forall>x \<in> set xs. b_Timestamp x < b_Timestamp b"
      "\<forall>y \<in> set ys. b_Timestamp y \<le> b_Timestamp b" unfolding newest_def by blast
    have "newest (c # d # bs) b"
    proof (cases xs)
      case Nil
      then show ?thesis using xy False unfolding newest_def
        by (intro exI [of _ "[]"] exI [of _ "d # ys"]) auto
    next
      case (Cons c' xs')
      then show ?thesis using xy False unfolding newest_def
        by (intro exI [of _ "c # d # xs'"] exI [of _ ys]) auto
    qed
    then show ?thesis using b False by simp
  qed
qed

lemma pick_cases: "case pick None bs of None \<Rightarrow> bs = [] | Some b \<Rightarrow> newest bs b"
proof (cases bs)
  case (Cons b bs')
  then show ?thesis using pick_Some [of b bs'] by auto
qed simp

text \<open>C32: decryptAndSelect returns the first of the values that open, parse and validate for this node whose
  timestamp is the largest, and nothing exactly when there is no such value: a value that is rejected
  never displaces a good one, and of equal timestamps the first in response order wins.\<close>

theorem decryptAndSelect_newest:
  "case fst (decryptAndSelect w op values spub rpriv ns nid) of
     None \<Rightarrow> accepted w op spub rpriv ns nid values = []
   | Some b \<Rightarrow> newest (accepted w op spub rpriv ns nid values) b"
  unfolding decryptAndSelect_def select_loop_pick by (rule pick_cases)

text \<open>The counts of decryptAndSelect account for every value: those skipped and those acceptable add up
  to the values it was given.\<close>

theorem decryptAndSelect_counts:
  "total (snd (decryptAndSelect w op values spub rpriv ns nid)) + length (accepted w op spub rpriv ns nid values)
     = length values"
  unfolding decryptAndSelect_def select_loop_total by (simp add: total_def no_stats_def)

lemma pick_in: "pick best bs = Some b \<Longrightarrow> b \<in> set bs \<or> best = Some b"
  by (induction bs arbitrary: best) (fastforce split: option.splits if_splits)+

text \<open>The selected bundle passed every check.\<close>

lemma decryptAndSelect_ok:
  assumes "fst (decryptAndSelect w op values spub rpriv ns nid) = Some b"
  shows "\<exists>v \<in> set values. \<exists>plain. Open op v spub rpriv = Some plain \<and> Parse w plain = Inr b \<and> Validate ns nid b = None"
proof -
  have "b \<in> set (accepted w op spub rpriv ns nid values)"
    using pick_in assms by (fastforce simp: decryptAndSelect_def select_loop_pick)
  then show ?thesis
    by (fastforce simp: accepted_def List.map_filter_def acceptable_def split: option.splits sum.splits if_splits)
qed

end
