(* ===== verification/Last.thy ===== *)
theory Last
  imports Bundle_Canonical Effects
begin

text \<open>
  internal/last: the agent's record of what it applied (last.json), its JSON form, Read, and
  Write with the create-temporary, chmod, write, sync, close, rename sequence that
  cmd/stunmesh-agent/fetch_apply.go repeats for the stunmesh config. Proved: Read gives back
  what Write stored, and at every moment of a Write the file is the old or the new one.
\<close>

section \<open>Types\<close>

record Sections =
  sec_Interface :: string
  sec_Routes :: "string list option"
  sec_Peers :: "string list option"

record FirewallState =
  fw_ZoneOwned :: bool
  fw_Members :: "string list option"

record LInterface =
  li_Content :: Interface
  li_Sections :: Sections

record State =
  st_Version :: int
  st_WG :: "LInterface gomap option"
  st_Stunmesh :: string
  st_Firewall :: FirewallState

definition zero_sections :: Sections where
  "zero_sections = \<lparr>sec_Interface = [], sec_Routes = None, sec_Peers = None\<rparr>"

definition zero_firewall :: FirewallState where
  "zero_firewall = \<lparr>fw_ZoneOwned = False, fw_Members = None\<rparr>"

definition zero_linterface :: LInterface where
  "zero_linterface = \<lparr>li_Content = zero_iface, li_Sections = zero_sections\<rparr>"

definition zero_state :: State where
  "zero_state = \<lparr>st_Version = 0, st_WG = None, st_Stunmesh = [], st_Firewall = zero_firewall\<rparr>"

definition CurrentVersion :: int where
  "CurrentVersion = 1"

section \<open>JSON\<close>

text \<open>omitempty on a slice: written when it has an element.\<close>

definition nonempty :: "'a list option \<Rightarrow> 'a list option" where
  "nonempty x = (if x = Some [] then None else x)"

definition sections_json :: "Sections \<Rightarrow> json" where
  "sections_json s = JObj ([(''interface'', JStr (sec_Interface s))]
     @ opt_member ''routes'' (\<lambda>xs. JArr (map JStr xs)) (nonempty (sec_Routes s))
     @ opt_member ''peers'' (\<lambda>xs. JArr (map JStr xs)) (nonempty (sec_Peers s)))"

definition firewall_json :: "FirewallState \<Rightarrow> json" where
  "firewall_json f = JObj (opt_member ''zone_owned'' JBool (if fw_ZoneOwned f then Some True else None)
     @ opt_member ''members'' (\<lambda>xs. JArr (map JStr xs)) (nonempty (fw_Members f)))"

definition linterface_json :: "LInterface \<Rightarrow> json" where
  "linterface_json i = JObj [(''content'', iface_json (li_Content i)), (''sections'', sections_json (li_Sections i))]"

definition state_json :: "State \<Rightarrow> json" where
  "state_json s = JObj [(''version'', json_int (st_Version s)),
     (''wg'', case st_WG s of None \<Rightarrow> JNull | Some m \<Rightarrow> json_map linterface_json m),
     (''stunmesh'', JStr (st_Stunmesh s)), (''firewall'', firewall_json (st_Firewall s))]"

definition dec_sections :: "Sections decoder" where
  "dec_sections = dec_struct [''interface'', ''routes'', ''peers''] (\<lambda>f v r.
     if f = ''interface'' then bindE (dec_string v (sec_Interface r)) (\<lambda>x. Inr (r\<lparr>sec_Interface := x\<rparr>))
     else if f = ''routes'' then bindE (dec_slice dec_string [] v (sec_Routes r)) (\<lambda>x. Inr (r\<lparr>sec_Routes := x\<rparr>))
     else bindE (dec_slice dec_string [] v (sec_Peers r)) (\<lambda>x. Inr (r\<lparr>sec_Peers := x\<rparr>)))"

definition dec_firewall :: "FirewallState decoder" where
  "dec_firewall = dec_struct [''zone_owned'', ''members''] (\<lambda>f v r.
     if f = ''zone_owned'' then bindE (dec_bool v (fw_ZoneOwned r)) (\<lambda>x. Inr (r\<lparr>fw_ZoneOwned := x\<rparr>))
     else bindE (dec_slice dec_string [] v (fw_Members r)) (\<lambda>x. Inr (r\<lparr>fw_Members := x\<rparr>)))"

definition dec_linterface :: "nat \<Rightarrow> LInterface decoder" where
  "dec_linterface w = dec_struct [''content'', ''sections''] (\<lambda>f v r.
     if f = ''content'' then bindE (dec_iface w v (li_Content r)) (\<lambda>x. Inr (r\<lparr>li_Content := x\<rparr>))
     else bindE (dec_sections v (li_Sections r)) (\<lambda>x. Inr (r\<lparr>li_Sections := x\<rparr>)))"

definition dec_state :: "nat \<Rightarrow> State decoder" where
  "dec_state w = dec_struct [''version'', ''wg'', ''stunmesh'', ''firewall''] (\<lambda>f v r.
     if f = ''version'' then bindE (dec_int w v (st_Version r)) (\<lambda>x. Inr (r\<lparr>st_Version := x\<rparr>))
     else if f = ''wg'' then
       bindE (dec_map (dec_linterface w) zero_linterface v (st_WG r)) (\<lambda>x. Inr (r\<lparr>st_WG := x\<rparr>))
     else if f = ''stunmesh'' then bindE (dec_string v (st_Stunmesh r)) (\<lambda>x. Inr (r\<lparr>st_Stunmesh := x\<rparr>))
     else bindE (dec_firewall v (st_Firewall r)) (\<lambda>x. Inr (r\<lparr>st_Firewall := x\<rparr>)))"

section \<open>Read\<close>

datatype lerr = LCorrupt | LWrite

definition emptyState :: State where
  "emptyState = zero_state\<lparr>st_Version := CurrentVersion, st_WG := Some []\<rparr>"

text \<open>What Read does with the bytes of the file.\<close>

definition read_state :: "nat \<Rightarrow> string \<Rightarrow> lerr + State" where
  "read_state w data =
     (case decode_stream data of None \<Rightarrow> Inl LCorrupt
      | Some (v, rest) \<Rightarrow>
         (case dec_state w v zero_state of Inl _ \<Rightarrow> Inl LCorrupt
          | Inr st \<Rightarrow>
              if dec_more rest then Inl LCorrupt
              else if st_Version st \<noteq> CurrentVersion then Inl LCorrupt
              else if st_WG st = None then Inr (st\<lparr>st_WG := Some []\<rparr>) else Inr st))"

definition Read :: "nat \<Rightarrow> string \<Rightarrow> (fs, lerr, State) step" where
  "Read w path s =
     (case os_ReadFile path s of
        (Inl NotExist, s') \<Rightarrow> (Inr emptyState, s')
      | (Inl _, s') \<Rightarrow> (Inl LCorrupt, s')
      | (Inr data, s') \<Rightarrow> (read_state w data, s'))"

section \<open>Write\<close>

datatype werr = WCreate | WChmod | WWrite | WSync | WClose | WRename

text \<open>From the chmod to the close; a failure before the close closes the file.\<close>

definition fill :: "string \<Rightarrow> string \<Rightarrow> (fs, werr, unit) step" where
  "fill tmp data s =
     (case os_Chmod tmp 384 s of (Inl _, s1) \<Rightarrow> (Inl WChmod, snd (os_Close tmp s1))
      | (Inr _, s1) \<Rightarrow> (case os_Write tmp data s1 of (Inl _, s2) \<Rightarrow> (Inl WWrite, snd (os_Close tmp s2))
      | (Inr _, s2) \<Rightarrow> (case os_Sync tmp s2 of (Inl _, s3) \<Rightarrow> (Inl WSync, snd (os_Close tmp s3))
      | (Inr _, s3) \<Rightarrow> (case os_Close tmp s3 of (Inl _, s4) \<Rightarrow> (Inl WClose, s4)
      | (Inr _, s4) \<Rightarrow> (Inr (), s4)))))"

definition replace_body :: "string \<Rightarrow> string \<Rightarrow> string \<Rightarrow> (fs, werr, unit) step" where
  "replace_body tmp path data = andThen (fill tmp data) (\<lambda>_. wrap (\<lambda>_. WRename) (os_Rename tmp path))"

definition replace_file :: "string \<Rightarrow> string \<Rightarrow> string \<Rightarrow> (fs, werr, unit) step" where
  "replace_file pat path data s =
     (case os_CreateTemp (filepath_Dir path) pat s of (Inl _, s1) \<Rightarrow> (Inl WCreate, s1)
      | (Inr tmp, s1) \<Rightarrow> (let (r, s2) = replace_body tmp path data s1 in (r, snd (os_Remove tmp s2))))"

definition Write :: "string \<Rightarrow> State \<Rightarrow> (fs, werr, unit) step" where
  "Write path state = replace_file ''.last.json.tmp-'' path (print_json (go_quote True) (state_json state))"

section \<open>Reading what was written\<close>

definition norm_sections :: "Sections \<Rightarrow> Sections" where
  "norm_sections s = s\<lparr>sec_Routes := nonempty (sec_Routes s), sec_Peers := nonempty (sec_Peers s)\<rparr>"

definition norm_linterface :: "LInterface \<Rightarrow> LInterface" where
  "norm_linterface i = \<lparr>li_Content = norm_iface (li_Content i), li_Sections = norm_sections (li_Sections i)\<rparr>"

definition norm_state :: "State \<Rightarrow> State" where
  "norm_state s = s\<lparr>st_WG := map_option (norm_map norm_linterface) (st_WG s),
     st_Firewall := (st_Firewall s)\<lparr>fw_Members := nonempty (fw_Members (st_Firewall s))\<rparr>\<rparr>"

definition sections_wf :: "Sections \<Rightarrow> bool" where
  "sections_wf s = (valid_utf8 (sec_Interface s) \<and> opt_all (list_all valid_utf8) (sec_Routes s)
     \<and> opt_all (list_all valid_utf8) (sec_Peers s))"

definition linterface_wf :: "nat \<Rightarrow> LInterface \<Rightarrow> bool" where
  "linterface_wf w i = (valid_iface (li_Content i) \<and> iface_wf w (li_Content i) \<and> sections_wf (li_Sections i))"

definition state_wf :: "nat \<Rightarrow> State \<Rightarrow> bool" where
  "state_wf w s = (w \<in> {32, 64} \<and> st_Version s = CurrentVersion \<and> valid_utf8 (st_Stunmesh s)
     \<and> (\<exists>m. st_WG s = Some m \<and> map_wf (linterface_wf w) m)
     \<and> opt_all (list_all valid_utf8) (fw_Members (st_Firewall s)))"

lemma dec_strings: "dec_slice dec_string [] (JArr (map JStr xs)) None = Inr (Some xs)"
  by (simp add: dec_elems_map)

lemma nonempty_None [simp]: "nonempty None = None"
  by (simp add: nonempty_def)

lemma dec_sections_json: "dec_sections (sections_json s) zero_sections = Inr (norm_sections s)"
  unfolding dec_sections_def sections_json_def dec_struct.simps append_Cons append_Nil
  by (rule dec_req, rule dec_opt [where u = "\<lambda>x. sec_Routes_update (\<lambda>_. x)"],
      rule dec_last_opt [where u = "\<lambda>x. sec_Peers_update (\<lambda>_. x)"])
    (auto simp: zero_sections_def norm_sections_def dec_elems_map)

lemma dec_firewall_json:
  "dec_firewall (firewall_json f) zero_firewall = Inr (f\<lparr>fw_Members := nonempty (fw_Members f)\<rparr>)"
  unfolding dec_firewall_def firewall_json_def dec_struct.simps
  by (rule dec_opt [where u = "\<lambda>x. fw_ZoneOwned_update (\<lambda>_. x = Some True)"],
      rule dec_last_opt [where u = "\<lambda>x. fw_Members_update (\<lambda>_. x)"])
    (auto simp: zero_firewall_def dec_elems_map split: if_splits)

lemma dec_linterface_json:
  assumes "linterface_wf w i"
  shows "dec_linterface w (linterface_json i) zero_linterface = Inr (norm_linterface i)"
  using assms unfolding dec_linterface_def linterface_json_def dec_struct.simps
  by (intro dec_req) (auto simp: zero_linterface_def norm_linterface_def linterface_wf_def
      dec_iface_json dec_sections_json)

lemma dec_state_json:
  assumes "state_wf w s"
  shows "dec_state w (state_json s) zero_state = Inr (norm_state s)"
proof -
  obtain m where m: "st_WG s = Some m" "map_wf (linterface_wf w) m"
    using assms by (auto simp: state_wf_def)
  have "dec_map (dec_linterface w) zero_linterface (json_map linterface_json m) None
      = Inr (Some (norm_map norm_linterface m))"
    by (rule dec_json_map) (use m in \<open>auto simp: map_wf_def list_all_iff dec_linterface_json\<close>)
  moreover have "fits w (st_Version s)" using assms by (auto simp: state_wf_def fits_def CurrentVersion_def)
  ultimately show ?thesis
    using m unfolding dec_state_def state_json_def dec_struct.simps
    by (intro dec_req) (auto simp: zero_state_def norm_state_def dec_firewall_json)
qed

lemma json_wf_opt_member:
  "list_all (\<lambda>kv. valid_utf8 (fst kv) \<and> json_wf (snd kv)) (opt_member k f x)
   \<longleftrightarrow> (\<forall>v. x = Some v \<longrightarrow> valid_utf8 k \<and> json_wf (f v))"
  by (cases x) (simp_all add: opt_member_def)

lemma json_wf_strings: "opt_all (list_all valid_utf8) x \<Longrightarrow> nonempty x = Some xs \<Longrightarrow> json_wf (JArr (map JStr xs))"
  by (auto simp: nonempty_def list_all_iff split: if_splits)

lemma state_json_wf:
  assumes "state_wf w s"
  shows "json_wf (state_json s)" and "depth (state_json s) \<le> max_depth"
proof -
  obtain m where m: "st_WG s = Some m" "map_wf (linterface_wf w) m"
    using assms by (auto simp: state_wf_def)
  have sec: "json_wf (sections_json x)" if "sections_wf x" for x
    using that json_wf_strings by (auto simp: sections_json_def sections_wf_def json_wf_opt_member)
  have "json_wf (linterface_json i)" if "linterface_wf w i" for i
    using that sec canon_tree_wf [OF canon_iface] by (auto simp: linterface_json_def linterface_wf_def)
  then have "json_wf (json_map linterface_json m)"
    using m(2) by (simp add: json_map_def map_wf_def list_all_iff)
  moreover have "json_wf (firewall_json (st_Firewall s))"
    using assms json_wf_strings by (auto simp: firewall_json_def state_wf_def json_wf_opt_member)
  moreover have "is_int_lit (show_int (st_Version s))"
    using assms by (auto simp: state_wf_def CurrentVersion_def intro!: is_int_lit_show)
  ultimately show "json_wf (state_json s)"
    using assms m by (simp add: state_json_def json_int_def state_wf_def)
  have "depth (sections_json x) \<le> 4" for x
    by (simp add: sections_json_def depth_JObj depth_JArr ball_opt_member ball_Un)
  then have "depth (linterface_json i) \<le> 5" for i
    using depth_iface [of "li_Content i"] by (simp add: linterface_json_def depth_JObj)
  then have "depth (json_map linterface_json m) \<le> 6"
    using depth_json_map [of linterface_json 5 m] by simp
  moreover have "depth (firewall_json (st_Firewall s)) \<le> 6"
    by (simp add: firewall_json_def depth_JObj depth_JArr ball_opt_member ball_Un)
  ultimately show "depth (state_json s) \<le> max_depth"
    using m by (simp add: state_json_def depth_JObj max_depth_def)
qed

lemma read_state_print:
  assumes "state_wf w s"
  shows "read_state w (print_json (go_quote True) (state_json s)) = Inr (norm_state s)"
  using html.decode_stream_print [OF state_json_wf [OF assms], of "[]"] dec_state_json [OF assms] assms
  by (auto simp: read_state_def dec_more_def skip_ws_def state_wf_def norm_state_def)

section \<open>Write replaces the file in one step\<close>

text \<open>What a call of Write may do to the files: nothing to \<open>path\<close> but the final replacement.\<close>

definition new_file :: "string \<Rightarrow> File" where
  "new_file data = \<lparr>f_data = data, f_mode = 384\<rparr>"

definition replaces :: "string \<Rightarrow> string \<Rightarrow> fs \<Rightarrow> 'e + unit \<Rightarrow> fs \<Rightarrow> bool" where
  "replaces path data s r s' =
     ((r = Inr () \<longrightarrow> fs_files s' = (fs_files s)(path \<mapsto> new_file data))
      \<and> (\<forall>e. r = Inl e \<longrightarrow> fs_files s' path = fs_files s path)
      \<and> (\<forall>f \<in> set (fs_hist s'). f \<in> set (fs_hist s) \<or> f path = fs_files s path \<or> f path = Some (new_file data)))"

text \<open>Steps that change no file but \<open>tmp\<close>.\<close>

definition only :: "string \<Rightarrow> fs \<Rightarrow> fs \<Rightarrow> bool" where
  "only tmp s s' = ((\<forall>p. p \<noteq> tmp \<longrightarrow> fs_files s' p = fs_files s p)
     \<and> (\<forall>f \<in> set (fs_hist s'). f \<in> set (fs_hist s) \<or> (\<forall>p. p \<noteq> tmp \<longrightarrow> f p = fs_files s p)))"

lemma only_trans: "only tmp s s1 \<Longrightarrow> only tmp s1 s2 \<Longrightarrow> only tmp s s2"
  unfolding only_def by metis

lemma only_refl: "only tmp s s"
  by (simp add: only_def)

lemma only_syscall:
  assumes "syscall e bad good x s = (r, s')" and "\<And>p. p \<noteq> tmp \<Longrightarrow> good p = fs_files s p"
    and "\<And>n p. p \<noteq> tmp \<Longrightarrow> bad n p = fs_files s p"
  shows "only tmp s s'"
  using assms(1) by (rule syscall_cases) (auto simp: only_def assms(2, 3))

lemma only_ops:
  "os_Chmod tmp m s = (r, s') \<Longrightarrow> only tmp s s'"
  "os_Write tmp d s = (r, s') \<Longrightarrow> only tmp s s'"
  "os_Sync tmp s = (r, s') \<Longrightarrow> only tmp s s'"
  "os_Close tmp s = (r, s') \<Longrightarrow> only tmp s s'"
  unfolding os_Chmod_def os_Write_def os_Sync_def os_Close_def Let_def
  by (erule only_syscall; simp)+

lemma only_Close: "only tmp s (snd (os_Close tmp s))"
  by (metis only_ops(4) prod.collapse)

lemma only_Remove: "only tmp s (snd (os_Remove tmp s))"
proof (cases "fs_files s tmp")
  case None
  then show ?thesis by (simp add: os_Remove_def only_refl)
next
  case (Some f)
  obtain r s' where *: "os_Remove tmp s = (r, s')" by fastforce
  then have "syscall OSErr (\<lambda>_. fs_files s) ((fs_files s)(tmp := None)) () s = (r, s')"
    using Some by (simp add: os_Remove_def)
  then have "only tmp s s'" by (rule only_syscall) auto
  then show ?thesis using * by simp
qed

lemma ops_success:
  "os_Chmod tmp m s = (Inr u, s') \<Longrightarrow> fs_files s' tmp = map_option (f_mode_update (\<lambda>_. m)) (fs_files s tmp)"
  "os_Write tmp d s = (Inr u, s') \<Longrightarrow> fs_files s' tmp = map_option (f_data_update (\<lambda>old. old @ d)) (fs_files s tmp)"
  "os_Sync tmp s = (Inr u, s') \<Longrightarrow> fs_files s' tmp = fs_files s tmp"
  "os_Close tmp s = (Inr u, s') \<Longrightarrow> fs_files s' tmp = fs_files s tmp"
  unfolding os_Chmod_def os_Write_def os_Sync_def os_Close_def Let_def
  by (erule syscall_cases; simp)+

lemma Rename_cases:
  assumes "os_Rename tmp path s = (r, s')" and "tmp \<noteq> path" and "fs_files s tmp = Some f"
  obtains e where "r = Inl e" "only tmp s s'"
  | "r = Inr ()" "fs_files s' = (fs_files s)(path \<mapsto> f, tmp := None)"
    "fs_hist s' = fs_hist s @ [fs_files s']"
proof -
  have "syscall OSErr (\<lambda>_. fs_files s) ((fs_files s)(path \<mapsto> f, tmp := None)) () s = (r, s')"
    using assms by (simp add: os_Rename_def)
  then show ?thesis by (rule syscall_cases) (use that in \<open>auto simp: only_def\<close>)
qed

text \<open>Filling the temporary file touches no other file.\<close>

lemma fill_cases:
  assumes "fill tmp data s = (r, s')" and "fs_files s tmp = Some (new_file [])"
  obtains e where "r = Inl e" "only tmp s s'"
  | "r = Inr ()" "only tmp s s'" "fs_files s' tmp = Some (new_file data)"
proof -
  obtain r1 s1 where 1: "os_Chmod tmp 384 s = (r1, s1)" by fastforce
  obtain r2 s2 where 2: "os_Write tmp data s1 = (r2, s2)" by fastforce
  obtain r3 s3 where 3: "os_Sync tmp s2 = (r3, s3)" by fastforce
  obtain r4 s4 where 4: "os_Close tmp s3 = (r4, s4)" by fastforce
  note on = only_ops(1) [OF 1] only_ops(2) [OF 2] only_ops(3) [OF 3] only_ops(4) [OF 4]
  note on2 = only_trans [OF on(1) on(2)]
  note on3 = only_trans [OF on2 on(3)]
  note on4 = only_trans [OF on3 on(4)]
  note b = assms(1) [unfolded fill_def]
  show ?thesis
  proof (cases "\<exists>e. r1 = Inl e \<or> r2 = Inl e \<or> r3 = Inl e \<or> r4 = Inl e")
    case True
    have "only tmp s s' \<and> (\<exists>e. r = Inl e)"
      using b 1 2 3 4 True only_trans [OF on(1) only_Close] only_trans [OF on2 only_Close]
        only_trans [OF on3 only_Close] on4 by (auto split: sum.splits)
    then show ?thesis using that(1) by blast
  next
    case False
    then obtain u1 u2 u3 u4 where ok: "r1 = Inr u1" "r2 = Inr u2" "r3 = Inr u3" "r4 = Inr u4"
      by (metis sum.exhaust)
    have "fs_files s4 tmp = Some (new_file data)"
      using ops_success(1) [OF 1 [unfolded ok]] ops_success(2) [OF 2 [unfolded ok]]
        ops_success(3) [OF 3 [unfolded ok]] ops_success(4) [OF 4 [unfolded ok]] assms(2)
      by (simp add: new_file_def)
    then show ?thesis using that(2) b 1 2 3 4 ok on4 by auto
  qed
qed

text \<open>Up to the rename the body touches the temporary file only.\<close>

lemma replace_body_cases:
  assumes "replace_body tmp path data s = (r, s')" and "tmp \<noteq> path" and "fs_files s tmp = Some (new_file [])"
  obtains e where "r = Inl e" "only tmp s s'"
  | s4 where "r = Inr ()" "only tmp s s4" "fs_files s' = (fs_files s4)(path \<mapsto> new_file data, tmp := None)"
    "fs_hist s' = fs_hist s4 @ [fs_files s']"
proof -
  obtain r4 s4 where f: "fill tmp data s = (r4, s4)" by fastforce
  from f assms(3) show ?thesis
  proof (rule fill_cases)
    fix e assume "r4 = Inl e" and "only tmp s s4"
    then show ?thesis using that(1) [of e] assms(1) f by (auto simp: replace_body_def andThen_def)
  next
    assume ok: "r4 = Inr ()" and on: "only tmp s s4" and t: "fs_files s4 tmp = Some (new_file data)"
    obtain r5 s5 where 5: "os_Rename tmp path s4 = (r5, s5)" by fastforce
    have eq: "wrap (\<lambda>_. WRename) (os_Rename tmp path) s4 = (r, s')"
      using assms(1) f ok by (simp add: replace_body_def andThen_def)
    from 5 assms(2) t show ?thesis
      by (rule Rename_cases) (use that on eq 5 in \<open>auto simp: wrap_def dest: only_trans [OF on]\<close>)
  qed
qed

text \<open>The temporary files of a path are told from the path itself.\<close>

definition not_temp :: "string \<Rightarrow> string \<Rightarrow> bool" where
  "not_temp pat path = (\<not> has_prefix path (temp_base (filepath_Dir path) pat))"

lemma CreateTemp_cases:
  assumes "os_CreateTemp dir pat s = (r, s')"
  obtains e where "r = Inl e" "only tmp s s'"
  | t where "r = Inr t" "fs_files s t = None" "has_prefix t (temp_base dir pat)"
    "fs_files s' = (fs_files s)(t \<mapsto> new_file [])" "fs_hist s' = fs_hist s @ [fs_files s']"
proof (cases "temp_name 10000 (fs_files s) (temp_base dir pat) (fs_seed s)")
  case None
  then show ?thesis using assms that(1) only_refl by (auto simp: os_CreateTemp_def)
next
  case (Some tk)
  then obtain t k where tk: "temp_name 10000 (fs_files s) (temp_base dir pat) (fs_seed s) = Some (t, k)"
    by (cases tk) auto
  have t: "fs_files s t = None" "has_prefix t (temp_base dir pat)"
    using temp_name_Some [OF tk] by (auto simp: has_prefix_iff)
  have "syscall OSErr (\<lambda>_. fs_files s) ((fs_files s)(t \<mapsto> new_file [])) t (s\<lparr>fs_seed := k\<rparr>) = (r, s')"
    using assms tk by (simp add: os_CreateTemp_def new_file_def)
  then show ?thesis
    by (rule syscall_cases) (use that t in \<open>auto simp: only_def\<close>)
qed

lemma replaces_only: "only tmp s s' \<Longrightarrow> tmp \<noteq> path \<Longrightarrow> replaces path data s (Inl e) s'"
  unfolding only_def replaces_def by fastforce

lemma replace_file_spec:
  assumes "replace_file pat path data s = (r, s')" and "not_temp pat path"
  shows "replaces path data s r s'"
proof -
  obtain r0 s0 where c: "os_CreateTemp (filepath_Dir path) pat s = (r0, s0)" by fastforce
  from c show ?thesis
  proof (rule CreateTemp_cases [where tmp = "path @ ''x''"])
    fix e assume "r0 = Inl e" and o: "only (path @ ''x'') s s0"
    then show ?thesis using assms(1) c replaces_only [OF o, of path] by (auto simp: replace_file_def)
  next
    fix tmp
    assume r0: "r0 = Inr tmp" and fresh: "fs_files s tmp = None"
      and p: "has_prefix tmp (temp_base (filepath_Dir path) pat)"
      and f0: "fs_files s0 = (fs_files s)(tmp \<mapsto> new_file [])" and h0: "fs_hist s0 = fs_hist s @ [fs_files s0]"
    have ne: "tmp \<noteq> path" using p assms(2) by (auto simp: not_temp_def)
    have on0: "only tmp s s0" using f0 h0 by (auto simp: only_def)
    obtain r2 s2 where body: "replace_body tmp path data s0 = (r2, s2)" by fastforce
    have res: "r = r2" "s' = snd (os_Remove tmp s2)"
      using assms(1) c r0 body by (simp_all add: replace_file_def)
    from body ne show ?thesis
    proof (rule replace_body_cases)
      show "fs_files s0 tmp = Some (new_file [])" using f0 by simp
    next
      fix e assume "r2 = Inl e" and "only tmp s0 s2"
      then show ?thesis
        using res replaces_only [OF only_trans [OF on0 only_trans [OF _ only_Remove]] ne] by simp
    next
      fix s4
      assume r2: "r2 = Inr ()" and on4: "only tmp s0 s4"
        and f2: "fs_files s2 = (fs_files s4)(path \<mapsto> new_file data, tmp := None)"
        and h2: "fs_hist s2 = fs_hist s4 @ [fs_files s2]"
      have on: "only tmp s s4" by (rule only_trans [OF on0 on4])
      have "s' = s2" using res(2) f2 by (simp add: os_Remove_def)
      moreover have "fs_files s2 = (fs_files s)(path \<mapsto> new_file data)"
        using on fresh ne unfolding f2 only_def by (intro ext) auto
      moreover have "f \<in> set (fs_hist s) \<or> f path = fs_files s path" if "f \<in> set (fs_hist s4)" for f
        using on ne that unfolding only_def by metis
      ultimately show ?thesis
        using res(1) r2 h2 by (auto simp: replaces_def)
    qed
  qed
qed

lemma Write_spec:
  assumes "Write path st s = (r, s')" and "not_temp ''.last.json.tmp-'' path"
  shows "replaces path (print_json (go_quote True) (state_json st)) s r s'"
  using replace_file_spec assms unfolding Write_def .

text \<open>C33: a Write that returns success left the new state in the file and touched no other file; one that
  returns an error left the file as it was; and at every moment in between (whatever calls failed or
  wrote only part of their data) the file was the old one or the complete new one, of mode 0600.\<close>

theorem Write_atomic:
  assumes "Write path st s = (r, s')" and "not_temp ''.last.json.tmp-'' path"
  shows "(r = Inr () \<longrightarrow> fs_files s' = (fs_files s)(path \<mapsto> new_file (print_json (go_quote True) (state_json st))))
     \<and> (\<forall>e. r = Inl e \<longrightarrow> fs_files s' path = fs_files s path)
     \<and> (\<forall>f \<in> set (fs_hist s'). f \<in> set (fs_hist s) \<or>
          f path \<in> {fs_files s path, Some (new_file (print_json (go_quote True) (state_json st)))})"
  using Write_spec [OF assms] by (auto simp: replaces_def)

definition ex_path :: string where
  "ex_path = ''/etc/stunmesh/agent/last.json''"

definition ex_state :: State where
  "ex_state = \<lparr>st_Version = 1, st_WG = Some [(''wg0'', \<lparr>li_Content = zero_iface\<lparr>if_PrivateKey := ''k'',
       if_Addresses := Some [''10.0.0.1/24''], if_Peers := Some []\<rparr>,
       li_Sections = \<lparr>sec_Interface = ''wg0'', sec_Routes = Some [], sec_Peers = Some []\<rparr>\<rparr>)],
     st_Stunmesh = ''log: info'', st_Firewall = \<lparr>fw_ZoneOwned = True, fw_Members = Some [''wg0'']\<rparr>\<rparr>"

text \<open>The write of the data fails after three bytes.\<close>

definition ex_fs :: fs where
  "ex_fs = \<lparr>fs_files = (\<lambda>_. None)(ex_path \<mapsto> new_file ''old''),
     fs_faults = [None, None, Some 3], fs_seed = 7, fs_hist = []\<rparr>"

lemma ex_not_temp: "not_temp ''.last.json.tmp-'' ex_path"
  by code_simp

theorem Write_atomic_witness:
  "fst (Write ex_path ex_state ex_fs) = Inl WWrite
   \<and> fs_files (snd (Write ex_path ex_state ex_fs)) ex_path = Some (new_file ''old'')"
proof -
  let ?tmp = "temp_base (filepath_Dir ex_path) ''.last.json.tmp-'' @ show_nat 7"
  have ne: "?tmp \<noteq> ex_path" using ex_not_temp by (metis has_prefix_append not_temp_def)
  then have "temp_name 10000 (fs_files ex_fs) (temp_base (filepath_Dir ex_path) ''.last.json.tmp-'') 7
      = Some (?tmp, 8)"
    by (subst temp_name_first) (simp_all add: ex_fs_def)
  moreover have "fs_seed ex_fs = 7" "fs_faults ex_fs = [None, None, Some 3]" by (simp_all add: ex_fs_def)
  ultimately have "fst (Write ex_path ex_state ex_fs) = Inl WWrite"
    by (simp add: Write_def replace_file_def os_CreateTemp_def syscall_def replace_body_def fill_def andThen_def wrap_def
        os_Chmod_def os_Write_def Let_def split: prod.splits)
  then show ?thesis
    using Write_atomic [OF prod.collapse [symmetric] ex_not_temp, of ex_state ex_fs]
    by (auto simp: ex_fs_def)
qed

text \<open>Read returns the state Write stored, with every map in key order and empty section lists read as
  absent, and on a path that was never written the empty state.\<close>

theorem Read_Write:
  assumes "Write path st s = (Inr (), s')" and "not_temp ''.last.json.tmp-'' path" and "state_wf w st"
    and "fs_faults s' = []"
  shows "fst (Read w path s') = Inr (norm_state st)"
proof -
  have "fs_files s' path = Some (new_file (print_json (go_quote True) (state_json st)))"
    using Write_spec [OF assms(1, 2)] by (simp add: replaces_def)
  then show ?thesis
    using read_state_print [OF assms(3)] assms(4) by (simp add: Read_def os_ReadFile_def new_file_def)
qed

lemma ex_state_wf: "state_wf 64 ex_state"
  by (simp add: state_wf_def ex_state_def CurrentVersion_def map_wf_def gm_ok_def linterface_wf_def
      valid_iface_def iface_wf_def zero_iface_def nonempty_opt_def in_opt_def strs_wf_def sections_wf_def)

theorem Read_Write_witness:
  "fst (Read 64 ex_path (snd (Write ex_path ex_state (ex_fs\<lparr>fs_faults := []\<rparr>)))) = Inr (norm_state ex_state)"
proof -
  let ?s = "ex_fs\<lparr>fs_faults := []\<rparr>"
  let ?tmp = "temp_base (filepath_Dir ex_path) ''.last.json.tmp-'' @ show_nat 7"
  have ne: "?tmp \<noteq> ex_path" using ex_not_temp by (metis has_prefix_append not_temp_def)
  then have "temp_name 10000 (fs_files ex_fs) (temp_base (filepath_Dir ex_path) ''.last.json.tmp-'') 7
      = Some (?tmp, 8)"
    by (subst temp_name_first) (simp_all add: ex_fs_def)
  moreover have "fs_seed ex_fs = 7" by (simp add: ex_fs_def)
  ultimately have "fst (Write ex_path ex_state ?s) = Inr ()" "fs_faults (snd (Write ex_path ex_state ?s)) = []"
    using ne by (simp_all add: Write_def replace_file_def os_CreateTemp_def replace_body_def fill_def andThen_def wrap_def
        os_Chmod_def os_Write_def os_Sync_def os_Close_def os_Rename_def os_Remove_def Let_def split: prod.splits)
  then show ?thesis
    using Read_Write [OF _ ex_not_temp ex_state_wf, of ?s "snd (Write ex_path ex_state ?s)"]
    by (metis prod.collapse)
qed

end
