(* ===== verification/Netaddr.thy ===== *)
theory Netaddr
  imports Prelude
begin

text \<open>
  The parts of the standard library's net and net/netip packages that internal/uci and
  internal/dhtproxy call: SplitHostPort, and ParseCIDR with the IPv4 and IPv6 parsers
  (a zone is always an error in a CIDR), down to the bytes of the address.
\<close>

section \<open>Positions in a string\<close>

text \<open>strings.IndexByte, strings.LastIndexByte.\<close>

fun index_of :: "char \<Rightarrow> string \<Rightarrow> nat option" where
  "index_of c [] = None"
| "index_of c (x # xs) = (if x = c then Some 0 else map_option Suc (index_of c xs))"

fun last_index_of :: "char \<Rightarrow> string \<Rightarrow> nat option" where
  "last_index_of c [] = None"
| "last_index_of c (x # xs) =
     (case last_index_of c xs of Some i \<Rightarrow> Some (Suc i) | None \<Rightarrow> if x = c then Some 0 else None)"

section \<open>net.SplitHostPort\<close>

abbreviation colon :: char where "colon \<equiv> CHR '':''"
abbreviation lbr :: char where "lbr \<equiv> CHR ''[''"
abbreviation rbr :: char where "rbr \<equiv> CHR '']''"

text \<open>The last checks: no stray bracket from the positions \<open>j\<close> and \<open>k\<close> on.\<close>

definition split_check :: "string \<Rightarrow> nat \<Rightarrow> nat \<Rightarrow> nat \<Rightarrow> string \<Rightarrow> (string \<times> string) option" where
  "split_check s i j k host =
     (if lbr \<in> set (drop j s) \<or> rbr \<in> set (drop k s) then None else Some (host, drop (i + 1) s))"

definition SplitHostPort :: "string \<Rightarrow> (string \<times> string) option" where
  "SplitHostPort s =
     (case last_index_of colon s of None \<Rightarrow> None
      | Some i \<Rightarrow>
         if hd s = lbr then
           (case index_of rbr s of None \<Rightarrow> None
            | Some e \<Rightarrow> if e + 1 = i then split_check s i 1 (e + 1) (take (e - 1) (drop 1 s)) else None)
         else if colon \<in> set (take i s) then None
         else split_check s i 0 0 (take i s))"

section \<open>IPv4 addresses\<close>

text \<open>The loop of parseIPv4Fields: \<open>prev\<close> is the character before, \<open>val\<close> and \<open>dl\<close> the octet
  read so far and its number of digits, \<open>fs\<close> the octets before it.\<close>

fun ipv4_fields :: "char option \<Rightarrow> nat \<Rightarrow> nat \<Rightarrow> nat list \<Rightarrow> string \<Rightarrow> nat list option" where
  "ipv4_fields prev val dl fs [] = (if length fs < 3 then None else Some (fs @ [val]))"
| "ipv4_fields prev val dl fs (c # cs) =
     (if is_digit c then
        (if dl = 1 \<and> val = 0 then None
         else if val * 10 + digit_val c > 255 then None
         else ipv4_fields (Some c) (val * 10 + digit_val c) (dl + 1) fs cs)
      else if c = CHR ''.'' then
        (if prev = None \<or> cs = [] \<or> prev = Some (CHR ''.'') \<or> length fs = 3 then None
         else ipv4_fields (Some c) 0 0 (fs @ [val]) cs)
      else None)"

definition parse_ipv4 :: "string \<Rightarrow> nat list option" where
  "parse_ipv4 s = ipv4_fields None 0 0 [] s"

section \<open>IPv6 addresses\<close>

definition hex_digit :: "char \<Rightarrow> nat option" where
  "hex_digit c =
     (if is_digit c then Some (code c - 48)
      else if 97 \<le> code c \<and> code c \<le> 102 then Some (code c - 87)
      else if 65 \<le> code c \<and> code c \<le> 70 then Some (code c - 55) else None)"

definition is_hex :: "char \<Rightarrow> bool" where
  "is_hex c = (hex_digit c \<noteq> None)"

definition hex_value :: "string \<Rightarrow> nat" where
  "hex_value s = foldl (\<lambda>v c. 16 * v + (case hex_digit c of None \<Rightarrow> 0 | Some d \<Rightarrow> d)) 0 s"

text \<open>
  The loop of parseIPv6: \<open>bs\<close> the bytes so far, \<open>ell\<close> where an ellipsis stood, \<open>s\<close> the rest.
  The result is the bytes, the ellipsis and the rest that was not read.
\<close>

function ipv6_loop :: "nat list \<Rightarrow> nat option \<Rightarrow> string \<Rightarrow> (nat list \<times> nat option \<times> string) option" where
  "ipv6_loop bs ell s =
     (if 16 \<le> length bs then Some (bs, ell, s)
      else
        (let h = takeWhile is_hex s; r = dropWhile is_hex s in
         if h = [] \<or> 4 < length h then None
         else if r \<noteq> [] \<and> hd r = CHR ''.'' then
           (if ell = None \<and> length bs \<noteq> 12 then None
            else if 16 < length bs + 4 then None
            else (case parse_ipv4 s of None \<Rightarrow> None | Some f \<Rightarrow> Some (bs @ f, ell, [])))
         else
           (let bs' = bs @ [hex_value h div 256, hex_value h mod 256] in
            case r of [] \<Rightarrow> Some (bs', ell, [])
            | c # t \<Rightarrow>
               if c \<noteq> colon then None
               else (case t of [] \<Rightarrow> None
                 | d # u \<Rightarrow>
                    if d = colon then
                      (if ell \<noteq> None then None
                       else if u = [] then Some (bs', Some (length bs'), [])
                       else ipv6_loop bs' (Some (length bs')) u)
                    else ipv6_loop bs' ell t))))"
  by pat_completeness auto
termination
  by (relation "measure (\<lambda>(bs, ell, s). 16 - length bs)") auto

declare ipv6_loop.simps [simp del]

definition expand_ellipsis :: "nat list \<Rightarrow> nat option \<Rightarrow> nat list option" where
  "expand_ellipsis bs ell =
     (if length bs < 16 then
        (case ell of None \<Rightarrow> None
         | Some e \<Rightarrow> Some (take e bs @ replicate (16 - length bs) 0 @ drop e bs))
      else if ell \<noteq> None then None else Some bs)"

definition parse_ipv6 :: "string \<Rightarrow> nat list option" where
  "parse_ipv6 s =
     (let (ell, s') = (if has_prefix s ''::'' then (Some 0, drop 2 s) else (None, s)) in
      if ell \<noteq> None \<and> s' = [] then Some (replicate 16 0)
      else (case ipv6_loop [] ell s' of None \<Rightarrow> None
        | Some (bs, e, rest) \<Rightarrow> if rest \<noteq> [] then None else expand_ellipsis bs e))"

section \<open>net.ParseCIDR\<close>

text \<open>netip.ParseAddr without a zone: the first dot or colon picks the parser.\<close>

definition parse_addr :: "string \<Rightarrow> nat list option" where
  "parse_addr s =
     (if CHR ''%'' \<in> set s then None
      else (case filter (\<lambda>c. c = CHR ''.'' \<or> c = colon) s of [] \<Rightarrow> None
        | c # _ \<Rightarrow> if c = colon then parse_ipv6 s else parse_ipv4 s))"

text \<open>The address bytes (4 or 16) and the prefix length.\<close>

definition ParseCIDR :: "string \<Rightarrow> (nat list \<times> nat) option" where
  "ParseCIDR s =
     (case index_of (CHR ''/'') s of None \<Rightarrow> None
      | Some i \<Rightarrow>
         let m = drop (i + 1) s in
         (case parse_addr (take i s) of None \<Rightarrow> None
          | Some a \<Rightarrow> if m = [] \<or> \<not> list_all is_digit m \<or> 8 * length a < nat_of_digits m then None
                     else Some (a, nat_of_digits m)))"

text \<open>The network's To4 is not nil: an IPv4 address, or a v4-mapped IPv6 one whose mask
  keeps the mapping prefix.\<close>

definition v4_mapped_prefix :: "nat list" where
  "v4_mapped_prefix = replicate 10 0 @ [255, 255]"

definition network_To4 :: "nat list \<times> nat \<Rightarrow> bool" where
  "network_To4 n = (length (fst n) = 4 \<or> (take 12 (fst n) = v4_mapped_prefix \<and> 96 \<le> snd n))"

section \<open>Lemmas\<close>

lemma index_of_Some: "index_of c s = Some i \<Longrightarrow> i < length s \<and> s ! i = c \<and> c \<notin> set (take i s)"
  by (induction s arbitrary: i) (auto split: if_splits)

lemma index_of_append: "c \<notin> set a \<Longrightarrow> index_of c (a @ c # b) = Some (length a)"
  by (induction a) auto

lemma last_index_of_None: "last_index_of c s = None \<longleftrightarrow> c \<notin> set s"
  by (induction s) (auto split: option.splits)

lemma last_index_of_Some: "last_index_of c s = Some i \<Longrightarrow> i < length s \<and> s ! i = c \<and> c \<notin> set (drop (i + 1) s)"
  by (induction s arbitrary: i) (auto simp: last_index_of_None split: option.splits if_splits)

lemma last_index_of_append: "c \<notin> set b \<Longrightarrow> last_index_of c (a @ c # b) = Some (length a)"
proof (induction a)
  case Nil
  then have "last_index_of c b = None" by (simp add: last_index_of_None)
  then show ?case by simp
qed simp

text \<open>What was split joins to the string again.\<close>

lemma SplitHostPort_Some:
  assumes "SplitHostPort s = Some (h, p)"
  shows "(s = h @ colon # p \<and> colon \<notin> set h \<and> (h = [] \<or> hd h \<noteq> lbr)) \<or> s = lbr # h @ rbr # colon # p"
proof -
  obtain i where i: "last_index_of colon s = Some i"
    using assms by (cases "last_index_of colon s") (auto simp: SplitHostPort_def)
  have il: "i < length s" "s ! i = colon" using last_index_of_Some [OF i] by auto
  have cut: "s = take i s @ colon # drop (i + 1) s" using il id_take_nth_drop [of i s] by simp
  show ?thesis
  proof (cases "hd s = lbr")
    case False
    then have "h = take i s" "p = drop (i + 1) s" "colon \<notin> set (take i s)"
      using assms i by (auto simp: SplitHostPort_def split_check_def split: if_splits)
    moreover have "take i s = [] \<or> hd (take i s) \<noteq> lbr" using False by (cases s; cases i) auto
    ultimately show ?thesis using cut by metis
  next
    case True
    then obtain e where e: "index_of rbr s = Some e" "e + 1 = i"
      and hp: "h = take (e - 1) (drop 1 s)" "p = drop (i + 1) s"
      using assms i by (auto simp: SplitHostPort_def split_check_def split: option.splits if_splits)
    have es: "s ! e = rbr" "e < length s" using index_of_Some [OF e(1)] by auto
    then have "0 < e" using True by (cases e; cases s) auto
    then have "take i s = lbr # h @ [rbr]"
      using es hp e(2) True by (cases s; cases e) (auto simp: take_Suc_conv_app_nth)
    then show ?thesis using cut hp(2) by (metis append_Cons append_assoc append_Nil)
  qed
qed

lemma SplitHostPort_plain:
  assumes "set h \<inter> {colon, lbr, rbr} = {}" and "set p \<inter> {colon, lbr, rbr} = {}"
  shows "SplitHostPort (h @ colon # p) = Some (h, p)"
proof -
  have "hd (h @ colon # p) \<noteq> lbr" using assms by (cases h) auto
  then show ?thesis
    using assms last_index_of_append [of colon p h]
    by (auto simp: SplitHostPort_def split_check_def)
qed

lemma SplitHostPort_brackets:
  assumes "set h \<inter> {lbr, rbr} = {}" and "set p \<inter> {colon, lbr, rbr} = {}"
  shows "SplitHostPort (lbr # h @ rbr # colon # p) = Some (h, p)"
proof -
  have "last_index_of colon (lbr # h @ rbr # colon # p) = Some (length h + 2)"
    using last_index_of_append [of colon p "lbr # h @ [rbr]"] assms by simp
  moreover have "index_of rbr (lbr # h @ rbr # colon # p) = Some (length h + 1)"
    using index_of_append [of rbr "lbr # h" "colon # p"] assms by auto
  ultimately show ?thesis using assms by (auto simp: SplitHostPort_def split_check_def)
qed

end
