(* ===== verification/Uci.thy ===== *)
theory Uci
  imports Last Netaddr
begin

text \<open>
  internal/uci: the batch of uci commands for one interface, the delete batch, the firewall
  batches, the section names, and the endpoint and route-family helpers. An interface is
  first described as a list of sections with their settings (\<open>iface_sections\<close>), and the
  batch is shown to be exactly the rendering of that list.
\<close>

section \<open>Commands\<close>

record Command =
  Args :: "string list"

type_synonym Batch = "Command list"

definition Text :: "Batch \<Rightarrow> string" where
  "Text b = concat (map (\<lambda>cmd. ''uci'' @ concat (map (\<lambda>arg. CHR '' '' # arg) (Args cmd)) @ [newline]) b)"

definition setCmd :: "string \<Rightarrow> string \<Rightarrow> string \<Rightarrow> string \<Rightarrow> Command" where
  "setCmd config sec opt value = \<lparr>Args = [''set'', config @ ''.'' @ sec @ ''.'' @ opt @ ''='' @ value]\<rparr>"

definition createCmd :: "string \<Rightarrow> string \<Rightarrow> string \<Rightarrow> Command" where
  "createCmd config sec typ = \<lparr>Args = [''set'', config @ ''.'' @ sec @ ''='' @ typ]\<rparr>"

definition addListCmd :: "string \<Rightarrow> string \<Rightarrow> string \<Rightarrow> string \<Rightarrow> Command" where
  "addListCmd config sec opt value =
     \<lparr>Args = [''add_list'', config @ ''.'' @ sec @ ''.'' @ opt @ ''='' @ value]\<rparr>"

definition delListCmd :: "string \<Rightarrow> string \<Rightarrow> string \<Rightarrow> string \<Rightarrow> Command" where
  "delListCmd config sec opt value =
     \<lparr>Args = [''del_list'', config @ ''.'' @ sec @ ''.'' @ opt @ ''='' @ value]\<rparr>"

definition deleteCmd :: "string \<Rightarrow> string \<Rightarrow> Command" where
  "deleteCmd config sec = \<lparr>Args = [''delete'', config @ ''.'' @ sec]\<rparr>"

section \<open>Endpoints and route families\<close>

definition parseEndpoint :: "string \<Rightarrow> string \<times> string \<times> bool" where
  "parseEndpoint s =
     (case SplitHostPort s of Some (h, p) \<Rightarrow> (h, p, True)
      | None \<Rightarrow>
         if has_prefix s ''['' \<and> has_suffix s '']'' \<and> 2 \<le> length s
         then (take (length s - 2) (drop 1 s), [], False)
         else (s, [], False))"

definition routeFamily :: "string \<Rightarrow> string" where
  "routeFamily cidr =
     (case ParseCIDR cidr of Some n \<Rightarrow> if network_To4 n then ''route'' else ''route6''
      | None \<Rightarrow> if colon \<in> set cidr then ''route6'' else ''route'')"

section \<open>Names\<close>

text \<open>The keys of a map, sorted, and the value at a key (the zero value is not needed: the key is there).\<close>

definition sortedKeys :: "'v gomap \<Rightarrow> string list" where
  "sortedKeys m = sorted_keys m"

definition map_get :: "'v gomap \<Rightarrow> string \<Rightarrow> 'v option" where
  "map_get m k = map_of m k"

definition routeSectionName :: "string \<Rightarrow> nat \<Rightarrow> string" where
  "routeSectionName iface n = iface @ ''_r_'' @ show_nat n"

definition peerSectionName :: "string \<Rightarrow> string \<Rightarrow> string" where
  "peerSectionName iface peer = iface @ ''_p_'' @ peer"

definition of_opt :: "'a list option \<Rightarrow> 'a list" where
  "of_opt x = (case x of None \<Rightarrow> [] | Some v \<Rightarrow> v)"

definition RouteSectionNames :: "string \<Rightarrow> Route list option \<Rightarrow> string list" where
  "RouteSectionNames name routes = map (routeSectionName name) [0..<length (of_opt routes)]"

definition PeerSectionNames :: "string \<Rightarrow> Peer gomap option \<Rightarrow> string list" where
  "PeerSectionNames name peers = map (peerSectionName name) (sortedKeys (of_opt peers))"

section \<open>BuildInterface\<close>

definition opt_cmd :: "('a \<Rightarrow> Command) \<Rightarrow> 'a option \<Rightarrow> Batch" where
  "opt_cmd f x = (case x of None \<Rightarrow> [] | Some v \<Rightarrow> [f v])"

text \<open>fmt.Sprintf 0x%x of an int64.\<close>

fun hex_nat :: "nat \<Rightarrow> string" where
  "hex_nat n = (if n < 16 then [hexdig n] else hex_nat (n div 16) @ [hexdig (n mod 16)])"

declare hex_nat.simps [simp del]

definition hex0x :: "int \<Rightarrow> string" where
  "hex0x i = (if i < 0 then ''0x-'' @ hex_nat (nat (- i)) else ''0x'' @ hex_nat (nat i))"

definition optionCommands :: "string \<Rightarrow> string gomap option \<Rightarrow> Batch" where
  "optionCommands sec options =
     map (\<lambda>key. setCmd ''network'' sec key (case map_get (of_opt options) key of None \<Rightarrow> [] | Some v \<Rightarrow> v))
       (sortedKeys (of_opt options))"

definition buildRoute :: "string \<Rightarrow> nat \<Rightarrow> Route \<Rightarrow> Batch" where
  "buildRoute iface n route =
     (let sec = routeSectionName iface n in
      [createCmd ''network'' sec (routeFamily (rt_CIDR route)),
       setCmd ''network'' sec ''interface'' iface,
       setCmd ''network'' sec ''target'' (rt_CIDR route)]
      @ opt_cmd (setCmd ''network'' sec ''gateway'') (rt_Gateway route)
      @ opt_cmd (\<lambda>m. setCmd ''network'' sec ''metric'' (show_int m)) (rt_Metric route))"

definition endpointCommands :: "string \<Rightarrow> string \<Rightarrow> Batch" where
  "endpointCommands sec endpoint =
     (case parseEndpoint endpoint of (host, port, hasPort) \<Rightarrow>
        setCmd ''network'' sec ''endpoint_host'' host
        # (if hasPort then [setCmd ''network'' sec ''endpoint_port'' port] else []))"

definition buildPeer :: "string \<Rightarrow> string \<Rightarrow> Peer \<Rightarrow> string \<Rightarrow> Batch" where
  "buildPeer iface peer p routeAllowedIPs =
     (let sec = peerSectionName iface peer in
      [createCmd ''network'' sec (''wireguard_'' @ iface),
       setCmd ''network'' sec ''description'' peer,
       setCmd ''network'' sec ''public_key'' (peer_PublicKey p)]
      @ opt_cmd (setCmd ''network'' sec ''preshared_key'') (peer_PresharedKey p)
      @ map (addListCmd ''network'' sec ''allowed_ips'') (of_opt (peer_AllowedIPs p))
      @ (case peer_Endpoint p of None \<Rightarrow> [] | Some e \<Rightarrow> endpointCommands sec e)
      @ opt_cmd (\<lambda>k. setCmd ''network'' sec ''persistent_keepalive'' (show_int k)) (peer_PersistentKeepalive p)
      @ [setCmd ''network'' sec ''route_allowed_ips'' routeAllowedIPs]
      @ optionCommands sec (peer_Options p))"

definition BuildInterface :: "string \<Rightarrow> Interface \<Rightarrow> Batch" where
  "BuildInterface name iface =
     [createCmd ''network'' name ''interface'', setCmd ''network'' name ''proto'' ''wireguard'',
      setCmd ''network'' name ''private_key'' (if_PrivateKey iface)]
     @ opt_cmd (\<lambda>p. setCmd ''network'' name ''listen_port'' (show_int p)) (if_ListenPort iface)
     @ map (addListCmd ''network'' name ''addresses'') (of_opt (if_Addresses iface))
     @ opt_cmd (\<lambda>m. setCmd ''network'' name ''mtu'' (show_int m)) (if_MTU iface)
     @ opt_cmd (\<lambda>f. setCmd ''network'' name ''fwmark'' (hex0x f)) (if_Fwmark iface)
     @ (case if_RoutingTable iface of None \<Rightarrow> []
        | Some t \<Rightarrow> opt_cmd (setCmd ''network'' name ''ip4table'') (rtab_IPv4 t)
            @ opt_cmd (setCmd ''network'' name ''ip6table'') (rtab_IPv6 t))
     @ optionCommands name (if_Options iface)
     @ concat (map (\<lambda>(n, r). buildRoute name n r) (enumerate 0 (of_opt (if_Routes iface))))
     @ (let routeAllowedIPs = (if RouteAllowedIPsOrDefault iface then ''1'' else ''0'') in
        concat (map (\<lambda>peerName. buildPeer name peerName
            (case map_get (of_opt (if_Peers iface)) peerName of None \<Rightarrow> zero_peer | Some p \<Rightarrow> p) routeAllowedIPs)
          (sortedKeys (of_opt (if_Peers iface)))))"

definition ListOptions :: "string \<Rightarrow> Interface \<Rightarrow> string list" where
  "ListOptions name iface = (name @ ''.addresses'')
     # map (\<lambda>peerName. peerSectionName name peerName @ ''.allowed_ips'') (sortedKeys (of_opt (if_Peers iface)))"

definition BuildDelete :: "Sections \<Rightarrow> Batch" where
  "BuildDelete s = map (deleteCmd ''network'') (of_opt (sec_Peers s))
     @ map (deleteCmd ''network'') (of_opt (sec_Routes s))
     @ (if sec_Interface s \<noteq> [] then [deleteCmd ''network'' (sec_Interface s)] else [])"

section \<open>The firewall zone\<close>

definition FirewallZoneName :: string where
  "FirewallZoneName = ''stunmesh''"

definition ForwardingLANToZoneName :: string where
  "ForwardingLANToZoneName = ''stunmesh_fwd_lan_stunmesh''"

definition ForwardingZoneToLANName :: string where
  "ForwardingZoneToLANName = ''stunmesh_fwd_stunmesh_lan''"

definition ForwardingZoneToWANName :: string where
  "ForwardingZoneToWANName = ''stunmesh_fwd_stunmesh_wan''"

definition BuildFirewallZoneCreate :: Batch where
  "BuildFirewallZoneCreate =
     [createCmd ''firewall'' FirewallZoneName ''zone'',
      setCmd ''firewall'' FirewallZoneName ''name'' FirewallZoneName,
      setCmd ''firewall'' FirewallZoneName ''input'' ''ACCEPT'',
      setCmd ''firewall'' FirewallZoneName ''output'' ''ACCEPT'',
      setCmd ''firewall'' FirewallZoneName ''forward'' ''ACCEPT'',
      setCmd ''firewall'' FirewallZoneName ''mtu_fix'' ''1'']"

definition BuildFirewallForwardingsCreate :: Batch where
  "BuildFirewallForwardingsCreate =
     [createCmd ''firewall'' ForwardingLANToZoneName ''forwarding'',
      setCmd ''firewall'' ForwardingLANToZoneName ''src'' ''lan'',
      setCmd ''firewall'' ForwardingLANToZoneName ''dest'' FirewallZoneName,
      createCmd ''firewall'' ForwardingZoneToLANName ''forwarding'',
      setCmd ''firewall'' ForwardingZoneToLANName ''src'' FirewallZoneName,
      setCmd ''firewall'' ForwardingZoneToLANName ''dest'' ''lan'',
      createCmd ''firewall'' ForwardingZoneToWANName ''forwarding'',
      setCmd ''firewall'' ForwardingZoneToWANName ''src'' FirewallZoneName,
      setCmd ''firewall'' ForwardingZoneToWANName ''dest'' ''wan'']"

definition DeleteFirewallForwardings :: Batch where
  "DeleteFirewallForwardings =
     [deleteCmd ''firewall'' ForwardingLANToZoneName, deleteCmd ''firewall'' ForwardingZoneToLANName,
      deleteCmd ''firewall'' ForwardingZoneToWANName]"

definition AddFirewallZoneNetwork :: "string \<Rightarrow> Command" where
  "AddFirewallZoneNetwork iface = addListCmd ''firewall'' FirewallZoneName ''network'' iface"

definition RemoveFirewallZoneNetwork :: "string \<Rightarrow> Command" where
  "RemoveFirewallZoneNetwork iface = delListCmd ''firewall'' FirewallZoneName ''network'' iface"

definition DeleteFirewallZone :: Command where
  "DeleteFirewallZone = deleteCmd ''firewall'' FirewallZoneName"

section \<open>An interface as a list of sections\<close>

text \<open>A setting of a section: an option, or one element of a list option.\<close>

datatype setting = Scalar string string | Element string string

type_synonym section_spec = "string \<times> string \<times> setting list"

primrec render_setting :: "string \<Rightarrow> setting \<Rightarrow> Command" where
  "render_setting sec (Scalar k v) = setCmd ''network'' sec k v"
| "render_setting sec (Element k v) = addListCmd ''network'' sec k v"

definition render :: "section_spec \<Rightarrow> Batch" where
  "render s = (case s of (name, typ, ss) \<Rightarrow> createCmd ''network'' name typ # map (render_setting name) ss)"

definition scalar_opt :: "string \<Rightarrow> ('a \<Rightarrow> string) \<Rightarrow> 'a option \<Rightarrow> setting list" where
  "scalar_opt k f x = (case x of None \<Rightarrow> [] | Some v \<Rightarrow> [Scalar k (f v)])"

definition option_settings :: "string gomap option \<Rightarrow> setting list" where
  "option_settings options = map (\<lambda>kv. Scalar (fst kv) (snd kv)) (sort_map (of_opt options))"

definition endpoint_settings :: "string \<Rightarrow> setting list" where
  "endpoint_settings e = (case parseEndpoint e of (host, port, hasPort) \<Rightarrow>
     Scalar ''endpoint_host'' host # (if hasPort then [Scalar ''endpoint_port'' port] else []))"

definition peer_settings :: "bool \<Rightarrow> string \<Rightarrow> Peer \<Rightarrow> setting list" where
  "peer_settings allowed peer p =
     [Scalar ''description'' peer, Scalar ''public_key'' (peer_PublicKey p)]
     @ scalar_opt ''preshared_key'' id (peer_PresharedKey p)
     @ map (Element ''allowed_ips'') (of_opt (peer_AllowedIPs p))
     @ (case peer_Endpoint p of None \<Rightarrow> [] | Some e \<Rightarrow> endpoint_settings e)
     @ scalar_opt ''persistent_keepalive'' show_int (peer_PersistentKeepalive p)
     @ [Scalar ''route_allowed_ips'' (if allowed then ''1'' else ''0'')]
     @ option_settings (peer_Options p)"

definition route_settings :: "string \<Rightarrow> Route \<Rightarrow> setting list" where
  "route_settings iface r =
     [Scalar ''interface'' iface, Scalar ''target'' (rt_CIDR r)]
     @ scalar_opt ''gateway'' id (rt_Gateway r) @ scalar_opt ''metric'' show_int (rt_Metric r)"

definition iface_settings :: "Interface \<Rightarrow> setting list" where
  "iface_settings i =
     [Scalar ''proto'' ''wireguard'', Scalar ''private_key'' (if_PrivateKey i)]
     @ scalar_opt ''listen_port'' show_int (if_ListenPort i)
     @ map (Element ''addresses'') (of_opt (if_Addresses i))
     @ scalar_opt ''mtu'' show_int (if_MTU i)
     @ scalar_opt ''fwmark'' hex0x (if_Fwmark i)
     @ (case if_RoutingTable i of None \<Rightarrow> []
        | Some t \<Rightarrow> scalar_opt ''ip4table'' id (rtab_IPv4 t) @ scalar_opt ''ip6table'' id (rtab_IPv6 t))
     @ option_settings (if_Options i)"

definition iface_sections :: "string \<Rightarrow> Interface \<Rightarrow> section_spec list" where
  "iface_sections name i =
     (name, ''interface'', iface_settings i)
     # map (\<lambda>(n, r). (routeSectionName name n, routeFamily (rt_CIDR r), route_settings name r))
         (enumerate 0 (of_opt (if_Routes i)))
     @ map (\<lambda>kv. (peerSectionName name (fst kv), ''wireguard_'' @ name,
           peer_settings (RouteAllowedIPsOrDefault i) (fst kv) (snd kv)))
         (sort_map (of_opt (if_Peers i)))"

section \<open>The batch is the rendering of the sections\<close>

lemma map_of_sort_map: "gm_ok m \<Longrightarrow> map_of (sort_map m) = map_of m"
  by (metis gm_ok_sort_map map_of_perm sort_map_perm)

lemma sorted_keys_lookup:
  assumes "gm_ok m"
  shows "map (\<lambda>k. f k (map_get m k)) (sortedKeys m) = map (\<lambda>kv. f (fst kv) (Some (snd kv))) (sort_map m)"
proof -
  have "map_get m (fst kv) = Some (snd kv)" if "kv \<in> set (sort_map m)" for kv
    using that assms by (metis gm_ok_def map_get_def map_of_is_SomeI prod.collapse set_sort_map)
  then show ?thesis
    unfolding sortedKeys_def map_fst_sort_map [symmetric] map_map
    by (intro map_cong) simp_all
qed

lemma render_scalar_opt: "map (render_setting sec) (scalar_opt k f x) = opt_cmd (\<lambda>v. setCmd ''network'' sec k (f v)) x"
  by (cases x) (simp_all add: scalar_opt_def opt_cmd_def)

lemma opt_gm_ok_simps: "opt_all gm_ok m \<Longrightarrow> gm_ok (of_opt m)"
  by (cases m) (simp_all add: of_opt_def gm_ok_def)

lemma render_options:
  assumes "opt_all gm_ok options"
  shows "optionCommands sec options = map (render_setting sec) (option_settings options)"
  unfolding optionCommands_def
  by (subst sorted_keys_lookup [OF opt_gm_ok_simps [OF assms]]) (simp add: option_settings_def)

lemma render_endpoint: "endpointCommands sec e = map (render_setting sec) (endpoint_settings e)"
  by (simp add: endpointCommands_def endpoint_settings_def split: prod.splits)

lemma render_route: "buildRoute name n r = render (routeSectionName name n, routeFamily (rt_CIDR r), route_settings name r)"
  by (simp add: buildRoute_def render_def route_settings_def render_scalar_opt Let_def)

text \<open>The maps of an interface have distinct keys.\<close>

definition iface_maps :: "Interface \<Rightarrow> bool" where
  "iface_maps i = (opt_all gm_ok (if_Options i)
     \<and> opt_all (\<lambda>m. gm_ok m \<and> (\<forall>p \<in> snd ` set m. opt_all gm_ok (peer_Options p))) (if_Peers i))"

lemma opt_all_mono: "opt_all p x \<Longrightarrow> (\<And>v. p v \<Longrightarrow> q v) \<Longrightarrow> opt_all q x"
  by (cases x) simp_all

lemma map_wf_gm_ok: "map_wf p m \<Longrightarrow> gm_ok m"
  by (simp add: map_wf_def)

lemma peer_wf_options: "peer_wf w p \<Longrightarrow> opt_all gm_ok (peer_Options p)"
  unfolding peer_wf_def by (blast intro: opt_all_mono map_wf_gm_ok)

lemma iface_wf_maps: "iface_wf w i \<Longrightarrow> iface_maps i"
  unfolding iface_wf_def iface_maps_def
  by (auto elim!: opt_all_mono simp: map_wf_def list_all_iff) (metis peer_wf_options snd_conv)

lemma render_peer:
  assumes "opt_all gm_ok (peer_Options p)"
  shows "buildPeer name peer p (if allowed then ''1'' else ''0'') =
    render (peerSectionName name peer, ''wireguard_'' @ name, peer_settings allowed peer p)"
  by (simp add: buildPeer_def render_def peer_settings_def render_scalar_opt Let_def render_options [OF assms]
      render_endpoint split: option.splits)

lemma render_iface:
  assumes "iface_maps i"
  shows "BuildInterface name i = concat (map render (iface_sections name i))"
proof -
  let ?ps = "of_opt (if_Peers i)" and ?a = "RouteAllowedIPsOrDefault i"
  have ok: "gm_ok ?ps" using assms by (auto simp: iface_maps_def of_opt_def gm_ok_def opt_all_def split: option.splits)
  have opt: "opt_all gm_ok (peer_Options (snd kv))" if "kv \<in> set (sort_map ?ps)" for kv
    using assms that by (auto simp: iface_maps_def of_opt_def opt_all_def split: option.splits)
  have "map (\<lambda>n. buildPeer name n (case map_get ?ps n of None \<Rightarrow> zero_peer | Some p \<Rightarrow> p) (if ?a then ''1'' else ''0''))
      (sortedKeys ?ps) =
    map (\<lambda>kv. buildPeer name (fst kv) (snd kv) (if ?a then ''1'' else ''0'')) (sort_map ?ps)"
    by (subst sorted_keys_lookup [OF ok]) simp
  also have "\<dots> = map (\<lambda>kv. render (peerSectionName name (fst kv), ''wireguard_'' @ name,
      peer_settings ?a (fst kv) (snd kv))) (sort_map ?ps)"
    by (intro map_cong refl render_peer opt)
  finally have peers: "map (\<lambda>n. buildPeer name n (case map_get ?ps n of None \<Rightarrow> zero_peer | Some p \<Rightarrow> p)
      (if ?a then ''1'' else ''0'')) (sortedKeys ?ps) = \<dots>" .
  have opts: "optionCommands name (if_Options i) = map (render_setting name) (option_settings (if_Options i))"
    using assms by (intro render_options) (simp add: iface_maps_def)
  have tab: "(case if_RoutingTable i of None \<Rightarrow> []
        | Some t \<Rightarrow> opt_cmd (setCmd ''network'' name ''ip4table'') (rtab_IPv4 t)
            @ opt_cmd (setCmd ''network'' name ''ip6table'') (rtab_IPv6 t)) =
      map (render_setting name) (case if_RoutingTable i of None \<Rightarrow> []
        | Some t \<Rightarrow> scalar_opt ''ip4table'' id (rtab_IPv4 t) @ scalar_opt ''ip6table'' id (rtab_IPv6 t))"
    by (simp add: render_scalar_opt split: option.splits)
  show ?thesis
    unfolding BuildInterface_def iface_sections_def Let_def peers opts tab
    by (simp add: render_def [of "(name, _, _)"] iface_settings_def render_scalar_opt render_route comp_def
        case_prod_unfold)
qed

section \<open>Section names\<close>

lemma enumerate_fst: "map fst (enumerate n xs) = [n..<n + length xs]"
  by (simp add: enumerate_eq_zip)

text \<open>The names that are recorded (RouteSectionNames, PeerSectionNames) are the sections created.\<close>

lemma iface_section_names:
  "map fst (iface_sections name i) = name # RouteSectionNames name (if_Routes i) @ PeerSectionNames name (if_Peers i)"
proof -
  have "map (\<lambda>x. routeSectionName name (fst x)) (enumerate 0 rs) = map (routeSectionName name) [0..<length rs]" for rs :: "Route list"
    by (metis (no_types, lifting) add_0 enumerate_fst list.map_comp comp_apply map_eq_conv)
  moreover have "map (\<lambda>x. peerSectionName name (fst x)) (sort_map m) = map (peerSectionName name) (sortedKeys m)" for m :: "Peer gomap"
    by (simp add: sortedKeys_def map_fst_sort_map [symmetric] comp_def)
  ultimately show ?thesis
    by (simp add: iface_sections_def RouteSectionNames_def PeerSectionNames_def case_prod_unfold comp_def)
qed

lemma routeSectionName_inj: "routeSectionName name m = routeSectionName name n \<Longrightarrow> m = n"
  by (auto simp: routeSectionName_def dest: show_nat_inj)

lemma peerSectionName_inj: "peerSectionName name p = peerSectionName name q \<Longrightarrow> p = q"
  by (simp add: peerSectionName_def)

lemma route_not_peer: "routeSectionName name n \<noteq> peerSectionName name p"
  by (simp add: routeSectionName_def peerSectionName_def)

lemma distinct_sorted_keys: "gm_ok m \<Longrightarrow> distinct (sortedKeys m)"
  by (simp add: sortedKeys_def sorted_keys_def gm_ok_def)

lemma iface_sections_distinct:
  assumes "iface_maps i"
  shows "distinct (map fst (iface_sections name i))"
proof -
  have "gm_ok (of_opt (if_Peers i))"
    using assms by (auto simp: iface_maps_def of_opt_def gm_ok_def opt_all_def split: option.splits)
  then have "distinct (PeerSectionNames name (if_Peers i))"
    using distinct_sorted_keys by (auto simp: PeerSectionNames_def distinct_map inj_on_def dest: peerSectionName_inj)
  moreover have "distinct (RouteSectionNames name (if_Routes i))"
    by (auto simp: RouteSectionNames_def distinct_map inj_on_def dest: routeSectionName_inj)
  moreover have "name \<noteq> routeSectionName name n" "name \<noteq> peerSectionName name p" for n p
    by (simp_all add: routeSectionName_def peerSectionName_def)
  ultimately show ?thesis
    unfolding iface_section_names
    by (auto simp: RouteSectionNames_def PeerSectionNames_def route_not_peer)
qed

section \<open>List options\<close>

text \<open>The list options of a section.\<close>

definition element_paths :: "section_spec \<Rightarrow> string set" where
  "element_paths s = {fst s @ ''.'' @ k |k v. Element k v \<in> set (snd (snd s))}"

lemma no_element: "Element k v \<notin> set (scalar_opt j f x)" "Element k v \<notin> set (option_settings m)"
  "Element k v \<notin> set (endpoint_settings e)"
  by (auto simp: scalar_opt_def option_settings_def endpoint_settings_def split: option.splits prod.splits if_splits)

lemma iface_elements: "Element k v \<in> set (iface_settings i) \<Longrightarrow> k = ''addresses''"
  by (auto simp: iface_settings_def no_element split: option.splits)

lemma peer_elements: "Element k v \<in> set (peer_settings a n p) \<Longrightarrow> k = ''allowed_ips''"
  by (auto simp: peer_settings_def no_element split: option.splits)

lemma route_elements: "Element k v \<notin> set (route_settings n r)"
  by (simp add: route_settings_def no_element)

lemma list_options_cover:
  "(\<Union>s \<in> set (iface_sections name i). element_paths s) \<subseteq> set (ListOptions name i)"
proof
  fix x assume "x \<in> (\<Union>s \<in> set (iface_sections name i). element_paths s)"
  then obtain s k v where s: "s \<in> set (iface_sections name i)" and x: "x = fst s @ ''.'' @ k"
    and e: "Element k v \<in> set (snd (snd s))" by (auto simp: element_paths_def)
  from s consider "s = (name, ''interface'', iface_settings i)"
    | n r where "s = (routeSectionName name n, routeFamily (rt_CIDR r), route_settings name r)"
    | kv where "kv \<in> set (sort_map (of_opt (if_Peers i)))"
      "s = (peerSectionName name (fst kv), ''wireguard_'' @ name, peer_settings (RouteAllowedIPsOrDefault i) (fst kv) (snd kv))"
    by (auto simp: iface_sections_def)
  then show "x \<in> set (ListOptions name i)"
  proof cases
    case 1
    then show ?thesis using x e iface_elements by (auto simp: ListOptions_def)
  next
    case 2
    then show ?thesis using e route_elements by auto
  next
    case (3 kv)
    then have "fst kv \<in> set (sortedKeys (of_opt (if_Peers i)))"
      by (auto simp: sortedKeys_def sorted_keys_def)
    moreover have "k = ''allowed_ips''" using 3 e peer_elements by auto
    ultimately show ?thesis using x 3 by (auto simp: ListOptions_def)
  qed
qed

section \<open>The batch depends on the content only\<close>

lemma norm_map_values: "norm_map id m = sort_map m"
  by (simp add: norm_map_def)

lemma sort_map_norm: "gm_ok m \<Longrightarrow> sort_map (norm_map g m) = norm_map g m"
  by (rule sort_map_id [OF key_ordered_norm_map])

lemma sort_map_idem: "gm_ok m \<Longrightarrow> sort_map (sort_map m) = sort_map m"
  by (simp add: sort_map_id key_ordered_sort_map)

lemma option_settings_norm:
  "opt_all gm_ok m \<Longrightarrow> option_settings (map_option (norm_map id) m) = option_settings m"
  by (cases m) (simp_all add: option_settings_def of_opt_def norm_map_values sort_map_idem)

lemma peer_settings_norm:
  "opt_all gm_ok (peer_Options p) \<Longrightarrow> peer_settings a n (norm_peer p) = peer_settings a n p"
  by (simp add: peer_settings_def norm_peer_def option_settings_norm)

lemma iface_sections_norm:
  assumes "iface_maps i"
  shows "iface_sections name (norm_iface i) = iface_sections name i"
proof -
  have settings: "iface_settings (norm_iface i) = iface_settings i"
    using assms by (simp add: iface_settings_def norm_iface_def option_settings_norm iface_maps_def)
  have dflt: "RouteAllowedIPsOrDefault (norm_iface i) = RouteAllowedIPsOrDefault i"
    by (simp add: RouteAllowedIPsOrDefault_def norm_iface_def)
  have "map (\<lambda>kv. (peerSectionName name (fst kv), ''wireguard_'' @ name, peer_settings a (fst kv) (snd kv)))
      (sort_map (of_opt (if_Peers (norm_iface i)))) =
    map (\<lambda>kv. (peerSectionName name (fst kv), ''wireguard_'' @ name, peer_settings a (fst kv) (snd kv)))
      (sort_map (of_opt (if_Peers i)))" for a
  proof (cases "if_Peers i")
    case None
    then show ?thesis by (simp add: norm_iface_def)
  next
    case (Some m)
    then have ok: "gm_ok m" "\<And>kv. kv \<in> set m \<Longrightarrow> opt_all gm_ok (peer_Options (snd kv))"
      using assms by (auto simp: iface_maps_def)
    then show ?thesis
      using Some by (simp add: norm_iface_def of_opt_def sort_map_norm) (simp add: norm_map_def peer_settings_norm)
  qed
  then show ?thesis by (simp add: iface_sections_def settings dflt) (simp add: norm_iface_def)
qed

section \<open>Properties\<close>

definition ex_uci :: Interface where
  "ex_uci = zero_iface\<lparr>if_PrivateKey := ''k'', if_Addresses := Some [''10.0.0.1/24'', ''fd00::1/64''],
     if_Routes := Some [\<lparr>rt_CIDR = ''fd00:20::/32'', rt_Gateway = None, rt_Metric = Some 100\<rparr>],
     if_Options := Some [(''zone'', ''b''), (''defaultroute'', ''0'')],
     if_Peers := Some [(''charlie'', zero_peer\<lparr>peer_PublicKey := ''c'', peer_AllowedIPs := Some [''fd00::3/128''],
         peer_Endpoint := Some ''[fd00::10]:51821''\<rparr>),
       (''bravo'', zero_peer\<lparr>peer_PublicKey := ''b'', peer_AllowedIPs := Some [''10.0.0.2/32'']\<rparr>)]\<rparr>"

lemma ex_uci_maps: "iface_maps ex_uci"
  by (simp add: iface_maps_def ex_uci_def zero_iface_def zero_peer_def gm_ok_def)

text \<open>C31: BuildInterface emits, section by section, one create command followed by that section's settings.
  The sections are the interface, its routes and its peers under exactly the names that
  RouteSectionNames and PeerSectionNames record, no name twice, and every list that is appended to is
  one that ListOptions names.\<close>

theorem BuildInterface_sections:
  assumes "iface_maps i"
  shows "BuildInterface name i = concat (map render (iface_sections name i))
     \<and> map fst (iface_sections name i)
        = name # RouteSectionNames name (if_Routes i) @ PeerSectionNames name (if_Peers i)
     \<and> distinct (map fst (iface_sections name i))
     \<and> (\<Union>s \<in> set (iface_sections name i). element_paths s) \<subseteq> set (ListOptions name i)"
  using assms by (simp add: render_iface iface_section_names [symmetric] iface_sections_distinct list_options_cover)

theorem BuildInterface_sections_witness:
  "map fst (iface_sections ''wg0'' ex_uci) = [''wg0'', ''wg0_r_0'', ''wg0_p_bravo'', ''wg0_p_charlie'']"
  using BuildInterface_sections [OF ex_uci_maps, of "''wg0''"]
  by (simp add: RouteSectionNames_def PeerSectionNames_def ex_uci_def of_opt_def zero_iface_def
      routeSectionName_def peerSectionName_def sortedKeys_def sorted_keys_def less_char_def)

text \<open>Two interfaces with the same content (equal up to the order of their maps) give the same batch, so
  the batch does not depend on the order in which the runtime walks the maps.\<close>

theorem BuildInterface_deterministic:
  assumes "iface_maps i" and "iface_maps j" and "norm_iface i = norm_iface j"
  shows "BuildInterface name i = BuildInterface name j"
  using assms iface_sections_norm [of i name] iface_sections_norm [of j name]
  by (simp add: render_iface)

theorem BuildInterface_deterministic_witness:
  "BuildInterface ''wg0'' ex_uci = BuildInterface ''wg0'' (ex_uci\<lparr>if_Options := Some (rev (the (if_Options ex_uci)))\<rparr>)"
proof (rule BuildInterface_deterministic)
  show "iface_maps ex_uci" by (rule ex_uci_maps)
  show "iface_maps (ex_uci\<lparr>if_Options := Some (rev (the (if_Options ex_uci)))\<rparr>)"
    by (simp add: iface_maps_def ex_uci_def zero_iface_def zero_peer_def gm_ok_def)
  show "norm_iface ex_uci = norm_iface (ex_uci\<lparr>if_Options := Some (rev (the (if_Options ex_uci)))\<rparr>)"
    by (simp add: norm_iface_def ex_uci_def norm_map_def sort_map_def less_char_def)
qed

text \<open>The function parseEndpoint loses nothing: with a port the endpoint is host:port with the host free of colons, or
  [host]:port; without one it is the host itself, or the host in brackets.\<close>

theorem parseEndpoint_parts:
  "case parseEndpoint s of (h, p, hasPort) \<Rightarrow>
     (if hasPort then (s = h @ '':'' @ p \<and> colon \<notin> set h) \<or> s = ''['' @ h @ '']:'' @ p
      else p = [] \<and> (s = h \<or> s = ''['' @ h @ '']''))"
proof (cases "SplitHostPort s")
  case None
  show ?thesis
  proof (cases "has_prefix s ''['' \<and> has_suffix s '']'' \<and> 2 \<le> length s")
    case True
    then obtain a where a: "s = ''['' @ a" by (auto simp: has_prefix_iff)
    then obtain b c where "a = b @ [c]" using True by (cases a rule: rev_cases) auto
    moreover have "c = rbr" using True a calculation by (auto simp: has_suffix_def has_prefix_def)
    ultimately have "s = ''['' @ take (length s - 2) (drop 1 s) @ '']''" using a by simp
    then show ?thesis using None True by (simp add: parseEndpoint_def)
  next
    case False
    then show ?thesis using None by (auto simp: parseEndpoint_def)
  qed
next
  case (Some hp)
  then show ?thesis
    using SplitHostPort_Some [of s "fst hp" "snd hp"] by (auto simp: parseEndpoint_def split: prod.splits)
qed

lemma ipv4_fields_length:
  "ipv4_fields prev val dl fs s = Some r \<Longrightarrow> length fs \<le> 3 \<Longrightarrow> length r = 4"
  by (induction prev val dl fs s rule: ipv4_fields.induct) (auto split: if_splits)

lemma ipv4_fields_no_colon: "ipv4_fields prev val dl fs s = Some r \<Longrightarrow> colon \<notin> set s"
  by (induction prev val dl fs s rule: ipv4_fields.induct) (auto simp: is_digit_def split: if_splits)

lemma parse_ipv6_length: "parse_ipv6 s = Some a \<Longrightarrow> 16 \<le> length a"
  by (auto simp: parse_ipv6_def expand_ellipsis_def Let_def split: if_splits option.splits)

text \<open>Which parser an address goes to is told by its colons.\<close>

lemma parse_addr_family:
  assumes "parse_addr s = Some a"
  shows "if colon \<in> set s then 16 \<le> length a else length a = 4"
proof -
  obtain c cs where f: "filter (\<lambda>c. c = CHR ''.'' \<or> c = colon) s = c # cs"
    using assms by (auto simp: parse_addr_def split: if_splits list.splits)
  then have c: "c \<in> set s" by (metis filter_is_subset list.set_intros(1) subsetD)
  show ?thesis
  proof (cases "c = colon")
    case True
    then show ?thesis using assms f c parse_ipv6_length by (auto simp: parse_addr_def split: if_splits)
  next
    case False
    then have "parse_ipv4 s = Some a" using assms f by (auto simp: parse_addr_def split: if_splits)
    then show ?thesis using ipv4_fields_length ipv4_fields_no_colon by (auto simp: parse_ipv4_def)
  qed
qed

lemma ParseCIDR_family:
  assumes "ParseCIDR s = Some (a, n)"
  shows "if colon \<in> set s then 16 \<le> length a else length a = 4"
proof -
  obtain i where i0: "index_of (CHR ''/'') s = Some i"
    using assms by (cases "index_of (CHR ''/'') s") (auto simp: ParseCIDR_def)
  then obtain b where "parse_addr (take i s) = Some b"
    using assms by (cases "parse_addr (take i s)") (auto simp: ParseCIDR_def)
  then have i: "index_of (CHR ''/'') s = Some i" "parse_addr (take i s) = Some a"
    "list_all is_digit (drop (i + 1) s)"
    using assms i0 by (simp_all add: ParseCIDR_def Let_def split: if_splits)
  have "colon \<notin> set (drop (i + 1) s)" using i(3) by (auto simp: list_all_iff is_digit_def)
  moreover have cut: "s = take i s @ CHR ''/'' # drop (i + 1) s"
    using index_of_Some [OF i(1)] id_take_nth_drop [of i s] by simp
  have "set s = set (take i s @ CHR ''/'' # drop (i + 1) s)" by (rule arg_cong [OF cut])
  ultimately have "colon \<in> set s \<longleftrightarrow> colon \<in> set (take i s)" by auto
  then show ?thesis using parse_addr_family [OF i(2)] by simp
qed

text \<open>A route goes to the IPv6 family exactly when its CIDR has a colon, unless it parses as a network
  inside the IPv4-mapped range, which is sent to the IPv4 family.\<close>

theorem routeFamily_v6:
  "routeFamily cidr = ''route6'' \<longleftrightarrow>
     colon \<in> set cidr \<and> \<not> (\<exists>a n. ParseCIDR cidr = Some (a, n) \<and> take 12 a = v4_mapped_prefix \<and> 96 \<le> n)"
proof (cases "ParseCIDR cidr")
  case None
  then show ?thesis by (simp add: routeFamily_def)
next
  case (Some an)
  obtain a n where an: "an = (a, n)" by fastforce
  have "length a = 4 \<Longrightarrow> take 12 a \<noteq> v4_mapped_prefix"
    by (auto simp: v4_mapped_prefix_def dest!: arg_cong [of _ _ length])
  then show ?thesis
    using ParseCIDR_family [of cidr a n] Some an
    by (auto simp: routeFamily_def network_To4_def split: if_splits)
qed

text \<open>Two interfaces can claim one section.\<close>

lemma section_names_collide:
  "peerSectionName ''wg'' ''0_p_b'' = peerSectionName ''wg_p_0'' ''b''"
  "routeSectionName ''wg'' 0 = ''wg_r_0''"
  by (simp_all add: peerSectionName_def routeSectionName_def)

end
