(* ===== verification/Diff.thy ===== *)
theory Diff
  imports Uci Decode_Type
begin

text \<open>
  cmd/stunmesh-agent/fetch_diff.go and fetch_compare.go: the difference between a new bundle
  and last.json, interface by interface, and the test whether both hold the same content.
  Both compare through Canonical; proved: what they answer on a bundle that Validate accepts,
  computeDiff on every state that Read returns whose contents Canonical can tell apart
  (\<open>comparable\<close>), sameContent on a state as the agent records it (\<open>old_ok\<close>).
\<close>

section \<open>Model\<close>

datatype InterfaceChange = InterfaceNew | InterfaceChanged | InterfaceUnchanged | InterfaceRemoved

fun InterfaceChange_String :: "InterfaceChange \<Rightarrow> string" where
  "InterfaceChange_String InterfaceNew = ''new''"
| "InterfaceChange_String InterfaceChanged = ''changed''"
| "InterfaceChange_String InterfaceUnchanged = ''unchanged''"
| "InterfaceChange_String InterfaceRemoved = ''removed''"

datatype StunmeshChange = StunmeshUnchanged | StunmeshChanged | StunmeshEmpty

fun StunmeshChange_String :: "StunmeshChange \<Rightarrow> string" where
  "StunmeshChange_String StunmeshUnchanged = ''unchanged''"
| "StunmeshChange_String StunmeshChanged = ''changed''"
| "StunmeshChange_String StunmeshEmpty = ''empty''"

record InterfaceDiff =
  id_Name :: string
  id_Change :: InterfaceChange
  id_Content :: "Interface option"
  id_Sections :: Sections

record Diff =
  d_Interfaces :: "InterfaceDiff list"
  d_Stunmesh :: StunmeshChange
  d_StunmeshContent :: string

definition one_iface :: "string \<Rightarrow> Interface \<Rightarrow> Bundle" where
  "one_iface name a = zero_bundle\<lparr>b_WG := Some [(name, a)], b_Stunmesh := Some []\<rparr>"

definition interfaceEqual :: "string \<Rightarrow> Interface \<Rightarrow> Interface \<Rightarrow> cerr + bool" where
  "interfaceEqual name a b = Equal (one_iface name a) (one_iface name b)"

definition diffStunmesh :: "string \<Rightarrow> string \<Rightarrow> bool \<Rightarrow> StunmeshChange" where
  "diffStunmesh newS oldS forceAll =
     (if newS = [] then StunmeshEmpty
      else if newS = oldS \<and> \<not> forceAll then StunmeshUnchanged else StunmeshChanged)"

text \<open>The body of computeDiff's loop for one name; the last case cannot happen.\<close>

definition diff_one :: "Interface gomap \<Rightarrow> LInterface gomap \<Rightarrow> bool \<Rightarrow> string \<Rightarrow> cerr + InterfaceDiff list" where
  "diff_one new old forceAll name =
     (case (map_get new name, map_get old name) of
        (Some n, None) \<Rightarrow>
          Inr [\<lparr>id_Name = name, id_Change = InterfaceNew, id_Content = Some n, id_Sections = zero_sections\<rparr>]
      | (Some n, Some l) \<Rightarrow>
          bindE (if forceAll then Inr False else interfaceEqual name n (li_Content l)) (\<lambda>equal.
            if equal then
              Inr [\<lparr>id_Name = name, id_Change = InterfaceUnchanged, id_Content = None, id_Sections = zero_sections\<rparr>]
            else
              Inr [\<lparr>id_Name = name, id_Change = InterfaceChanged, id_Content = Some n, id_Sections = li_Sections l\<rparr>])
      | (None, Some l) \<Rightarrow>
          Inr [\<lparr>id_Name = name, id_Change = InterfaceRemoved, id_Content = None, id_Sections = li_Sections l\<rparr>]
      | (None, None) \<Rightarrow> Inr [])"

fun diff_all :: "Interface gomap \<Rightarrow> LInterface gomap \<Rightarrow> bool \<Rightarrow> string list \<Rightarrow> cerr + InterfaceDiff list" where
  "diff_all new old forceAll [] = Inr []"
| "diff_all new old forceAll (n # ns) =
     bindE (diff_one new old forceAll n) (\<lambda>d. bindE (diff_all new old forceAll ns) (\<lambda>ds. Inr (d @ ds)))"

definition union_names :: "'a gomap \<Rightarrow> 'b gomap \<Rightarrow> string list" where
  "union_names m m' = sort (remdups (map fst m @ map fst m'))"

definition computeDiff :: "Bundle \<Rightarrow> State \<Rightarrow> bool \<Rightarrow> cerr + Diff" where
  "computeDiff b state forceAll =
     (let new = of_opt (b_WG b); old = of_opt (st_WG state) in
      bindE (diff_all new old forceAll (union_names new old)) (\<lambda>diffs.
        let newS = (case b_Stunmesh b of None \<Rightarrow> [] | Some s \<Rightarrow> s) in
        Inr \<lparr>d_Interfaces = diffs, d_Stunmesh = diffStunmesh newS (st_Stunmesh state) forceAll,
             d_StunmeshContent = newS\<rparr>))"

definition stateToBundle :: "State \<Rightarrow> Bundle \<Rightarrow> Bundle" where
  "stateToBundle state ref = \<lparr>b_Version = b_Version ref, b_Namespace = b_Namespace ref,
     b_NodeID = b_NodeID ref, b_Timestamp = 0,
     b_WG = Some (map (\<lambda>kv. (fst kv, li_Content (snd kv))) (of_opt (st_WG state))),
     b_Stunmesh = Some (st_Stunmesh state)\<rparr>"

definition sameContent :: "State \<Rightarrow> Bundle \<Rightarrow> cerr + bool" where
  "sameContent state b = Equal (stateToBundle state b) b"

section \<open>Maps up to their order\<close>

lemma key_ordered_inj:
  assumes "key_ordered xs" and "key_ordered ys" and "map_of xs = map_of ys"
  shows "xs = ys"
proof -
  have d: "distinct (map fst xs)" "distinct (map fst ys)"
    using assms(1, 2) by (auto dest!: key_ordered_gm_ok simp: gm_ok_def)
  have "set xs = set ys" using assms(3) d by (metis map_of_inject_set)
  then have "sort_map xs = sort_map ys"
    using sort_map_eq_iff [of xs ys] d by (metis gm_ok_def distinct_map set_eq_iff_mset_eq_distinct)
  then show ?thesis using sort_map_id assms(1, 2) by metis
qed

lemma map_of_map_snd: "map_of (map (\<lambda>kv. (fst kv, g (snd kv))) m) k = map_option g (map_of m k)"
  by (induction m) auto

lemma map_of_norm_map: "gm_ok m \<Longrightarrow> map_of (norm_map g m) k = map_option g (map_of m k)"
proof -
  assume "gm_ok m"
  then have "map_of (sort_map m) k = map_of m k" by (simp add: map_of_sort_map)
  then show ?thesis by (simp add: norm_map_def map_of_map_snd)
qed

lemma norm_map_eq_iff:
  assumes "gm_ok m" and "gm_ok m'"
  shows "norm_map g m = norm_map g' m' \<longleftrightarrow> (\<forall>k. map_option g (map_of m k) = map_option g' (map_of m' k))"
proof
  assume "norm_map g m = norm_map g' m'"
  then show "\<forall>k. map_option g (map_of m k) = map_option g' (map_of m' k)"
    using map_of_norm_map [OF assms(1), of g] map_of_norm_map [OF assms(2), of g'] by metis
next
  assume "\<forall>k. map_option g (map_of m k) = map_option g' (map_of m' k)"
  then have "map_of (norm_map g m) = map_of (norm_map g' m')"
    by (intro ext) (simp add: map_of_norm_map [OF assms(1)] map_of_norm_map [OF assms(2)])
  then show "norm_map g m = norm_map g' m'"
    by (rule key_ordered_inj [OF key_ordered_norm_map [OF assms(1)] key_ordered_norm_map [OF assms(2)]])
qed

section \<open>Inputs\<close>

text \<open>A new bundle that Validate accepted, and a state as the agent records it: its contents are valid.\<close>

definition new_ok :: "nat \<Rightarrow> Bundle \<Rightarrow> bool" where
  "new_ok w b = (bundle_wf w b \<and> valid_bundle (b_Namespace b) (b_NodeID b) b)"

definition old_ok :: "nat \<Rightarrow> State \<Rightarrow> bool" where
  "old_ok w st = state_wf w st"

lemma new_ok_wg:
  assumes "new_ok w b"
  obtains m where "b_WG b = Some m" "map_wf (\<lambda>i. valid_iface i \<and> iface_wf w i) m"
  using assms by (fastforce simp: new_ok_def valid_bundle_def bundle_wf_def map_wf_def list_all_iff)

lemma old_ok_wg:
  assumes "old_ok w st"
  obtains m where "st_WG st = Some m" "map_wf (linterface_wf w) m"
  using assms by (auto simp: old_ok_def state_wf_def)

section \<open>Contents Canonical can tell apart\<close>

text \<open>
  Read checks the types of last.json, not its values. Canonical refuses null, which a nil slice or map is
  written as, and takes numbers through float64, which is exact below 2^53.
\<close>

definition exact :: "int option \<Rightarrow> bool" where
  "exact x = opt_all (\<lambda>i. \<bar>i\<bar> < 2 ^ 53) x"

definition comparable_peer :: "Peer \<Rightarrow> bool" where
  "comparable_peer p = (peer_AllowedIPs p \<noteq> None \<and> exact (peer_PersistentKeepalive p))"

definition comparable :: "Interface \<Rightarrow> bool" where
  "comparable i = (if_Addresses i \<noteq> None \<and> exact (if_ListenPort i) \<and> exact (if_MTU i) \<and> exact (if_Fwmark i)
     \<and> (case if_Peers i of None \<Rightarrow> False | Some ps \<Rightarrow> list_all comparable_peer (map snd ps))
     \<and> opt_all (list_all (\<lambda>r. exact (rt_Metric r))) (if_Routes i))"

lemma in_opt_exact: "in_opt lo hi x \<Longrightarrow> - (2 ^ 53) < lo \<Longrightarrow> hi < 2 ^ 53 \<Longrightarrow> exact x"
  by (auto simp: in_opt_def exact_def opt_all_def split: option.splits)

lemma valid_peer_comparable: "valid_peer p \<Longrightarrow> comparable_peer p"
  unfolding valid_peer_def comparable_peer_def by (auto intro: in_opt_exact)

lemma valid_route_exact: "valid_route r \<Longrightarrow> exact (rt_Metric r)"
  unfolding valid_route_def by (auto intro: in_opt_exact)

lemma valid_comparable:
  assumes "valid_iface i"
  shows "comparable i"
proof -
  obtain ps where ps: "if_Peers i = Some ps" "\<forall>p \<in> snd ` set ps. valid_peer p"
    using assms unfolding valid_iface_def by blast
  have "exact (if_ListenPort i)" "exact (if_MTU i)" "exact (if_Fwmark i)" "if_Addresses i \<noteq> None"
    using assms unfolding valid_iface_def by (auto intro: in_opt_exact)
  moreover have "list_all comparable_peer (map snd ps)"
    using ps(2) valid_peer_comparable by (simp add: list_all_iff)
  moreover have "opt_all (list_all (\<lambda>r. exact (rt_Metric r))) (if_Routes i)"
    using assms valid_route_exact unfolding valid_iface_def by (cases "if_Routes i") (simp_all add: list_all_iff)
  ultimately show ?thesis by (simp add: comparable_def ps(1))
qed

lemma exact_tree: "exact x \<Longrightarrow> x = Some v \<Longrightarrow> canon_tree (json_int v)"
  by (auto simp: exact_def intro!: canon_tree_int)

lemma canon_exact_route: "exact (rt_Metric r) \<Longrightarrow> route_wf r \<Longrightarrow> canon_tree (route_json r)"
  unfolding route_json_def route_wf_def
  by (rule canon_JObj) (auto simp: order_simps canon_opt_member intro: canon_opts exact_tree)

lemma canon_comparable_peer: "comparable_peer p \<Longrightarrow> peer_wf w p \<Longrightarrow> canon_tree (peer_json p)"
  unfolding peer_json_members
  by (rule canon_JObj [OF peer_members_ordered])
    (auto simp: comparable_peer_def peer_wf_def peer_members_def canon_opt_member canon_strs intro: canon_opts exact_tree)

lemma canon_comparable:
  assumes "comparable i" and "iface_wf w i"
  shows "canon_tree (iface_json i)"
proof -
  have "canon_tree (json_map peer_json ps)" if ps: "if_Peers i = Some ps" for ps
  proof (rule canon_json_map)
    show "map_wf (peer_wf w) ps" using assms(2) ps by (simp add: iface_wf_def)
    show "canon_tree (peer_json (snd kv))" if "kv \<in> set ps" "peer_wf w (snd kv)" for kv
      using assms(1) ps that by (auto simp: comparable_def list_all_iff intro: canon_comparable_peer)
  qed
  moreover have "canon_tree (JArr (map route_json rs))" if "if_Routes i = Some rs" for rs
    using assms that by (auto simp: comparable_def iface_wf_def list_all_iff intro: canon_exact_route)
  moreover have "canon_tree (rtab_json t)" if "if_RoutingTable i = Some t" for t
    using assms(2) that unfolding iface_wf_def by (auto intro: canon_rtab)
  moreover have "canon_tree (json_int x)" if "Some x \<in> {if_ListenPort i, if_MTU i, if_Fwmark i}" for x
    using assms(1) that unfolding comparable_def by (auto intro: exact_tree)
  ultimately show ?thesis
    using assms(2) unfolding iface_json_members iface_wf_def
    by (intro canon_JObj [OF iface_members_ordered])
      (simp add: iface_members_def canon_opt_member canon_strs, blast intro: canon_opts(3))
qed

lemma peer_wf_comparable: "peer_type w p \<Longrightarrow> comparable_peer p \<Longrightarrow> peer_wf w p"
  by (cases "peer_AllowedIPs p") (simp_all add: peer_type_def peer_wf_def comparable_peer_def strs_wf_def)

lemma iface_wf_comparable:
  assumes "iface_type w i" and "comparable i"
  shows "iface_wf w i"
proof -
  obtain ps where ps: "if_Peers i = Some ps" "list_all comparable_peer (map snd ps)"
    using assms(2) by (cases "if_Peers i") (simp_all add: comparable_def)
  obtain as where as: "if_Addresses i = Some as" using assms(2) by (auto simp: comparable_def)
  have "map_wf (peer_type w) ps" using assms(1) ps(1) by (simp add: iface_type_def)
  then have "map_wf (peer_wf w) ps"
    by (rule map_wf_mono) (rule peer_wf_comparable, assumption, use ps(2) in \<open>auto simp: list_all_iff\<close>)
  then show ?thesis using assms(1) ps(1) as by (simp add: iface_type_def iface_wf_def strs_wf_def)
qed

section \<open>The types of what Read returns\<close>

definition typed_content :: "nat \<Rightarrow> LInterface \<Rightarrow> bool" where
  "typed_content w l = iface_type w (li_Content l)"

lemma keeps_any: "keeps (\<lambda>_. True) dec"
  by (simp add: keeps_def)

lemma keeps_if: "(b \<Longrightarrow> keeps q d1) \<Longrightarrow> (\<not> b \<Longrightarrow> keeps q d2) \<Longrightarrow> keeps q (\<lambda>v r. if b then d1 v r else d2 v r)"
  by (cases b) simp_all

lemma keeps_linterface: "keeps (typed_content w) (dec_linterface w)"
  unfolding dec_linterface_def
  by (rule keeps_struct, rule keeps_if, rule keeps_field [OF keeps_iface], simp_all add: typed_content_def,
      rule keeps_field [OF keeps_any], simp_all add: typed_content_def)

lemma keeps_state: "keeps (\<lambda>st. opt_all (map_wf (typed_content w)) (st_WG st)) (dec_state w)"
proof -
  have "typed_content w zero_linterface" by (simp add: typed_content_def zero_linterface_def zero_types)
  note wg = keeps_map [OF keeps_linterface this]
  show ?thesis
    unfolding dec_state_def
    by (rule keeps_struct, intro keeps_if)
      (rule keeps_field [OF keeps_any] keeps_field [OF wg], simp_all, (rule keeps_field [OF wg] keeps_field [OF keeps_any], simp_all)+)
qed

lemma read_state_type:
  assumes "read_state w data = Inr st"
  shows "\<exists>m. st_WG st = Some m \<and> map_wf (typed_content w) m"
proof -
  obtain v rest st0 where d: "decode_stream data = Some (v, rest)" "dec_state w v zero_state = Inr st0"
    "st = (if st_WG st0 = None then st0\<lparr>st_WG := Some []\<rparr> else st0)"
    using assms by (auto simp: read_state_def split: option.splits sum.splits if_splits)
  have "opt_all (map_wf (typed_content w)) (st_WG st0)"
    using keepsD [OF keeps_state d(2) decode_stream_utf8 [OF d(1)]] by (simp add: zero_state_def)
  moreover have "map_wf (typed_content w) []" by (simp add: map_wf_def gm_ok_def)
  ultimately show ?thesis using d(3) by (cases "st_WG st0") auto
qed

lemma Read_type:
  assumes "fst (Read w path f) = Inr st"
  shows "\<exists>m. st_WG st = Some m \<and> map_wf (typed_content w) m"
proof -
  have "map_wf (typed_content w) []" by (simp add: map_wf_def gm_ok_def)
  then show ?thesis
    using assms read_state_type [of w _ st]
    by (auto simp: Read_def emptyState_def split: prod.splits sum.splits oserr.splits)
qed

text \<open>What computeDiff is proved on: the state's contents are typed and comparable.\<close>

definition readable :: "nat \<Rightarrow> State \<Rightarrow> bool" where
  "readable w st = (w \<in> {32, 64} \<and> (\<exists>m. st_WG st = Some m
     \<and> map_wf (\<lambda>l. comparable (li_Content l) \<and> iface_wf w (li_Content l)) m))"

lemma old_ok_readable:
  assumes "old_ok w st"
  shows "readable w st"
proof -
  obtain m where m: "st_WG st = Some m" "map_wf (linterface_wf w) m" using old_ok_wg [OF assms] .
  have "map_wf (\<lambda>l. comparable (li_Content l) \<and> iface_wf w (li_Content l)) m"
    by (rule map_wf_mono [OF m(2)]) (simp add: linterface_wf_def valid_comparable)
  then show ?thesis using assms m(1) by (simp add: readable_def old_ok_def state_wf_def)
qed

lemma Read_readable:
  assumes "fst (Read w path f) = Inr st" and "\<forall>l \<in> snd ` set (of_opt (st_WG st)). comparable (li_Content l)" and "w \<in> {32, 64}"
  shows "readable w st"
proof -
  obtain m where m: "st_WG st = Some m" "map_wf (typed_content w) m" using Read_type [OF assms(1)] by blast
  have "map_wf (\<lambda>l. comparable (li_Content l) \<and> iface_wf w (li_Content l)) m"
    by (rule map_wf_mono [OF m(2)])
      (use assms(2) m(1) in \<open>auto simp: typed_content_def of_opt_def intro: iface_wf_comparable\<close>)
  then show ?thesis using assms(3) m(1) by (simp add: readable_def)
qed

lemma canon_one:
  assumes "valid_utf8 name" and "comparable a" and "iface_wf w a" and "w \<in> {32, 64}"
  shows "canon_tree (bundle_json (one_iface name a))" and "bundle_wf w (one_iface name a)"
proof -
  have "canon_tree (json_map iface_json [(name, a)])"
    using assms by (intro canon_json_map [of "\<lambda>i. True"]) (simp_all add: map_wf_def gm_ok_def canon_comparable)
  then show "canon_tree (bundle_json (one_iface name a))"
    unfolding bundle_json_members
    by (intro canon_JObj [OF bundle_members_ordered])
      (auto simp: bundle_members_def one_iface_def zero_bundle_def canon_opt_member intro!: canon_tree_int)
  show "bundle_wf w (one_iface name a)"
    using assms by (auto simp: bundle_wf_def one_iface_def zero_bundle_def fits_def map_wf_def gm_ok_def)
qed

lemma interfaceEqual_iff:
  assumes "valid_utf8 name" and "comparable a" "iface_wf w a" and "comparable b" "iface_wf w b" and "w \<in> {32, 64}"
  shows "interfaceEqual name a b = Inr (norm_iface a = norm_iface b)"
  using Equal_iff [OF canon_one(1) canon_one(1) canon_one(2) canon_one(2)] assms
  by (simp add: interfaceEqual_def same_content_def one_iface_def norm_bundle_def zero_bundle_def norm_map_def sort_map_def)

section \<open>What computeDiff answers\<close>

text \<open>The class of an interface by its content on both sides.\<close>

fun classify :: "bool \<Rightarrow> Interface option \<Rightarrow> LInterface option \<Rightarrow> InterfaceChange" where
  "classify forceAll (Some n) None = InterfaceNew"
| "classify forceAll (Some n) (Some l) =
     (if \<not> forceAll \<and> norm_iface n = norm_iface (li_Content l) then InterfaceUnchanged else InterfaceChanged)"
| "classify forceAll None l = InterfaceRemoved"

definition entry :: "Interface gomap \<Rightarrow> LInterface gomap \<Rightarrow> bool \<Rightarrow> string \<Rightarrow> InterfaceDiff" where
  "entry new old forceAll name =
     (let c = classify forceAll (map_of new name) (map_of old name) in
      \<lparr>id_Name = name, id_Change = c,
       id_Content = (if c = InterfaceNew \<or> c = InterfaceChanged then map_of new name else None),
       id_Sections = (if c = InterfaceChanged \<or> c = InterfaceRemoved
          then (case map_of old name of None \<Rightarrow> zero_sections | Some l \<Rightarrow> li_Sections l) else zero_sections)\<rparr>)"

lemma map_wf_lookup: "map_wf p m \<Longrightarrow> map_of m k = Some v \<Longrightarrow> valid_utf8 k \<and> p v"
  by (fastforce simp: map_wf_def list_all_iff dest: map_of_SomeD)

lemma union_names_iff: "n \<in> set (union_names m m') \<longleftrightarrow> n \<in> fst ` set m \<or> n \<in> fst ` set m'"
  by (auto simp: union_names_def)

lemma union_names_sorted: "sorted_wrt (<) (union_names m m')"
  by (simp add: union_names_def strict_sorted_iff)

lemma diff_one_entry:
  assumes "map_wf (\<lambda>i. valid_iface i \<and> iface_wf w i) new"
    and "map_wf (\<lambda>l. comparable (li_Content l) \<and> iface_wf w (li_Content l)) old" and "w \<in> {32, 64}"
    and "name \<in> set (union_names new old)"
  shows "diff_one new old forceAll name = Inr [entry new old forceAll name]"
proof (cases "map_of new name"; cases "map_of old name")
  assume "map_of new name = None" and "map_of old name = None"
  then show ?thesis using assms(4) by (auto simp: union_names_iff map_of_eq_None_iff)
next
  fix n l assume n: "map_of new name = Some n" and l: "map_of old name = Some l"
  have "interfaceEqual name n (li_Content l) = Inr (norm_iface n = norm_iface (li_Content l))"
    using map_wf_lookup [OF assms(1) n] map_wf_lookup [OF assms(2) l] assms(3)
    by (intro interfaceEqual_iff) (auto intro: valid_comparable)
  then show ?thesis using n l by (simp add: diff_one_def map_get_def entry_def Let_def)
qed (simp_all add: diff_one_def map_get_def entry_def Let_def)

lemma diff_all_entries:
  assumes "\<And>n. n \<in> set ns \<Longrightarrow> diff_one new old forceAll n = Inr [entry new old forceAll n]"
  shows "diff_all new old forceAll ns = Inr (map (entry new old forceAll) ns)"
  using assms by (induction ns) auto

lemma computeDiff_readable:
  assumes "new_ok w b" and "readable w st"
  shows "computeDiff b st forceAll = Inr
     \<lparr>d_Interfaces = map (entry (of_opt (b_WG b)) (of_opt (st_WG st)) forceAll)
        (union_names (of_opt (b_WG b)) (of_opt (st_WG st))),
      d_Stunmesh = diffStunmesh (of_opt (b_Stunmesh b)) (st_Stunmesh st) forceAll,
      d_StunmeshContent = of_opt (b_Stunmesh b)\<rparr>"
proof -
  obtain m where m: "b_WG b = Some m" "map_wf (\<lambda>i. valid_iface i \<and> iface_wf w i) m"
    using new_ok_wg [OF assms(1)] .
  obtain l where l: "st_WG st = Some l" "map_wf (\<lambda>l. comparable (li_Content l) \<and> iface_wf w (li_Content l)) l"
    and "w \<in> {32, 64}"
    using assms(2) by (auto simp: readable_def)
  then have "diff_all m l forceAll (union_names m l) = Inr (map (entry m l forceAll) (union_names m l))"
    using m(2) l(2) by (intro diff_all_entries diff_one_entry)
  then show ?thesis using m(1) l(1) by (simp add: computeDiff_def of_opt_def Let_def)
qed

lemmas computeDiff_eq = computeDiff_readable [OF _ old_ok_readable]

section \<open>What sameContent answers\<close>

definition same_wg :: "Interface gomap \<Rightarrow> LInterface gomap \<Rightarrow> bool" where
  "same_wg new old = (\<forall>k \<in> set (union_names new old).
     map_option norm_iface (map_of new k) = map_option (\<lambda>l. norm_iface (li_Content l)) (map_of old k))"

lemma same_wg_all:
  "same_wg new old \<longleftrightarrow> (\<forall>k. map_option norm_iface (map_of new k)
     = map_option (\<lambda>l. norm_iface (li_Content l)) (map_of old k))"
proof -
  have "map_of new k = None \<and> map_of old k = None" if "k \<notin> set (union_names new old)" for k
    using that by (auto simp: union_names_iff map_of_eq_None_iff)
  then show ?thesis unfolding same_wg_def by (metis option.simps(8))
qed

lemma sameContent_eq:
  assumes "new_ok w b" and "old_ok w st"
  shows "sameContent st b = Inr (same_wg (of_opt (b_WG b)) (of_opt (st_WG st))
     \<and> of_opt (b_Stunmesh b) = st_Stunmesh st)"
proof -
  obtain m where m: "b_WG b = Some m" "map_wf (\<lambda>i. valid_iface i \<and> iface_wf w i) m"
    using new_ok_wg [OF assms(1)] .
  obtain l where l: "st_WG st = Some l" "map_wf (linterface_wf w) l" using old_ok_wg [OF assms(2)] .
  obtain s where s: "b_Stunmesh b = Some s" using assms(1) by (auto simp: new_ok_def valid_bundle_def)
  let ?c = "map (\<lambda>kv. (fst kv, li_Content (snd kv))) l"
  have c: "map_wf (\<lambda>i. valid_iface i \<and> iface_wf w i) ?c"
    using l(2) by (auto simp: map_wf_def list_all_iff gm_ok_def linterface_wf_def comp_def)
  have wf': "bundle_wf w (stateToBundle st b)"
    using assms c l(1) by (auto simp: bundle_wf_def stateToBundle_def new_ok_def old_ok_def state_wf_def fits_def
        of_opt_def map_wf_def list_all_iff)
  have "canon_tree (json_map iface_json ?c)"
    by (rule canon_json_map [OF c]) (auto intro: canon_iface)
  then have canon': "canon_tree (bundle_json (stateToBundle st b))"
    unfolding bundle_json_members using assms l(1) wf'
    by (intro canon_JObj [OF bundle_members_ordered])
      (auto simp: bundle_members_def stateToBundle_def canon_opt_member of_opt_def bundle_wf_def
        new_ok_def valid_bundle_def intro!: canon_tree_int)
  have wf: "bundle_wf w b" and canon: "canon_tree (bundle_json b)"
    using assms(1) canon_bundle by (auto simp: new_ok_def)
  have gm: "gm_ok m" "gm_ok ?c" using m(2) c by (auto simp: map_wf_def)
  have "same_content (stateToBundle st b) b \<longleftrightarrow> norm_map norm_iface ?c = norm_map norm_iface m \<and> st_Stunmesh st = s"
    using m(1) l(1) s by (cases b) (auto simp: same_content_def norm_bundle_def stateToBundle_def of_opt_def)
  also have "norm_map norm_iface ?c = norm_map norm_iface m \<longleftrightarrow> same_wg m l"
    unfolding norm_map_eq_iff [OF gm(2, 1)] same_wg_all map_of_map_snd by (auto simp: option.map_comp comp_def)
  finally show ?thesis
    using Equal_iff [OF canon' canon wf' wf] m(1) l(1) s by (auto simp: sameContent_def of_opt_def)
qed

lemma sameContent_diff:
  assumes "new_ok w b" and "old_ok w st" and "computeDiff b st False = Inr d"
  shows "sameContent st b = Inr ((\<forall>i \<in> set (d_Interfaces d). id_Change i = InterfaceUnchanged)
     \<and> d_StunmeshContent d = st_Stunmesh st)"
proof -
  let ?new = "of_opt (b_WG b)" and ?old = "of_opt (st_WG st)"
  have d: "d_Interfaces d = map (entry ?new ?old False) (union_names ?new ?old)"
    "d_StunmeshContent d = of_opt (b_Stunmesh b)"
    using computeDiff_eq [OF assms(1, 2), of False] assms(3) by auto
  have "id_Change (entry ?new ?old False k) = InterfaceUnchanged
      \<longleftrightarrow> map_option norm_iface (map_of ?new k) = map_option (\<lambda>l. norm_iface (li_Content l)) (map_of ?old k)"
    if "k \<in> set (union_names ?new ?old)" for k
  proof -
    have "\<not> (map_of ?new k = None \<and> map_of ?old k = None)"
      using that by (auto simp: union_names_iff map_of_eq_None_iff)
    then show ?thesis by (cases "map_of ?new k"; cases "map_of ?old k") (auto simp: entry_def Let_def)
  qed
  then show ?thesis
    unfolding sameContent_eq [OF assms(1, 2)] d same_wg_def by auto
qed

section \<open>Properties\<close>

text \<open>The bundle adds wg1 and changes nothing on wg0; the state also has wg9.\<close>

definition ex_new :: Bundle where
  "ex_new = \<lparr>b_Version = 1, b_Namespace = ''ns'', b_NodeID = ''alpha'', b_Timestamp = 9,
     b_WG = Some [(''wg1'', zero_iface\<lparr>if_PrivateKey := ''k1'', if_Addresses := Some [''10.1.0.1/24''], if_Peers := Some []\<rparr>),
       (''wg0'', zero_iface\<lparr>if_PrivateKey := ''k'', if_Addresses := Some [''10.0.0.1/24''], if_Peers := Some []\<rparr>)],
     b_Stunmesh = Some ''log: info''\<rparr>"

lemma ex_new_ok: "new_ok 64 ex_new"
  by (simp add: new_ok_def ex_new_def valid_bundle_def bundle_wf_def map_wf_def gm_ok_def valid_iface_def
      iface_wf_def zero_iface_def nonempty_opt_def in_opt_def strs_wf_def fits_def)

lemma ex_state_ok: "old_ok 64 ex_state"
  by (simp add: old_ok_def ex_state_wf)

text \<open>C23: computeDiff never fails on a valid bundle and a state Read returned, hand-edited or not, in whose contents no
  slice or map is missing (Canonical refuses null) and every number is below 2^53 in size (Canonical takes it
  through float64). It has one entry for every interface name of either side, in strictly increasing order; an
  interface only in the bundle is new, only in the state removed, and on both sides changed unless its content is
  equal (and forceAll is off); the entry carries the content to create and the recorded sections to delete.\<close>

theorem computeDiff_spec:
  assumes "new_ok w b" and "fst (Read w path f) = Inr st" and "w \<in> {32, 64}"
    and "\<forall>l \<in> snd ` set (of_opt (st_WG st)). comparable (li_Content l)"
  shows "\<exists>d. computeDiff b st forceAll = Inr d
     \<and> d_Interfaces d = map (entry (of_opt (b_WG b)) (of_opt (st_WG st)) forceAll) (map id_Name (d_Interfaces d))
     \<and> sorted_wrt (<) (map id_Name (d_Interfaces d))
     \<and> set (map id_Name (d_Interfaces d)) = fst ` set (of_opt (b_WG b)) \<union> fst ` set (of_opt (st_WG st))
     \<and> d_Stunmesh d = diffStunmesh (of_opt (b_Stunmesh b)) (st_Stunmesh st) forceAll"
proof -
  have names: "map id_Name (map (entry m l f) ns) = ns" for m :: "Interface gomap" and l f ns
    by (simp add: entry_def Let_def comp_def)
  show ?thesis
    unfolding computeDiff_readable [OF assms(1) Read_readable [OF assms(2, 4, 3)], of forceAll]
    by (rule exI, intro conjI, rule refl)
      (simp_all only: Diff.select_convs names union_names_sorted set_eq_iff Un_iff union_names_iff simp_thms)
qed

text \<open>A last.json edited by hand: an mtu that Validate would refuse, and no address.\<close>

definition ex_edited_json :: json where
  "ex_edited_json = JObj [(''version'', json_int 1), (''wg'', JObj [(''wg0'', JObj [(''content'', JObj [(''private_key'', JStr ''k''),
       (''addresses'', JArr []), (''mtu'', json_int 1), (''peers'', JObj [])]),
       (''sections'', JObj [(''interface'', JStr ''wg0'')])])]), (''stunmesh'', JStr [])]"

definition ex_edited_state :: State where
  "ex_edited_state = \<lparr>st_Version = 1, st_WG = Some [(''wg0'', \<lparr>li_Content = zero_iface\<lparr>if_PrivateKey := ''k'',
       if_Addresses := Some [], if_MTU := Some 1, if_Peers := Some []\<rparr>,
       li_Sections = \<lparr>sec_Interface = ''wg0'', sec_Routes = None, sec_Peers = None\<rparr>\<rparr>)],
     st_Stunmesh = [], st_Firewall = zero_firewall\<rparr>"

lemma ex_edited_read: "read_state 64 (print_json (go_quote True) ex_edited_json) = Inr ex_edited_state"
proof -
  have "is_int_lit (show_int 1)" by (rule is_int_lit_show) simp_all
  then have "json_wf ex_edited_json" by (simp add: ex_edited_json_def json_int_def)
  moreover have "depth ex_edited_json \<le> max_depth"
    by (simp add: ex_edited_json_def max_depth_def depth_JObj depth_JArr json_int_def del: depth.simps(1, 2))
  ultimately have "decode_stream (print_json (go_quote True) ex_edited_json) = Some (ex_edited_json, [])"
    using html.decode_stream_print [of ex_edited_json "[]"] by simp
  moreover have "dec_state 64 ex_edited_json zero_state = Inr ex_edited_state"
  proof -
    have f: "fits 64 1" by (simp add: fits_def)
    show ?thesis
      by (simp add: ex_edited_json_def ex_edited_state_def dec_state_def dec_linterface_def dec_iface_def dec_sections_def
          find_field_def dec_ptr_def f zero_state_def zero_linterface_def zero_iface_def zero_sections_def)
  qed
  ultimately show ?thesis
    by (simp add: read_state_def dec_more_def skip_ws_def ex_edited_state_def CurrentVersion_def)
qed

theorem computeDiff_spec_witness:
  "\<not> valid_iface (li_Content (snd (hd (of_opt (st_WG ex_edited_state)))))
     \<and> (\<exists>d. computeDiff ex_new ex_edited_state False = Inr d \<and> sorted_wrt (<) (map id_Name (d_Interfaces d))
     \<and> set (map id_Name (d_Interfaces d)) = {''wg0'', ''wg1''})"
proof -
  let ?f = "\<lparr>fs_files = [ex_path \<mapsto> new_file (print_json (go_quote True) ex_edited_json)], fs_faults = [], fs_seed = 0, fs_hist = []\<rparr>"
  have r: "fst (Read 64 ex_path ?f) = Inr ex_edited_state"
    using ex_edited_read by (simp add: Read_def os_ReadFile_def new_file_def)
  have c: "\<forall>l \<in> snd ` set (of_opt (st_WG ex_edited_state)). comparable (li_Content l)"
    by (simp add: ex_edited_state_def comparable_def exact_def zero_iface_def of_opt_def)
  have "\<not> valid_iface (li_Content (snd (hd (of_opt (st_WG ex_edited_state)))))"
    by (simp add: ex_edited_state_def valid_iface_def zero_iface_def of_opt_def)
  then show ?thesis
    using computeDiff_spec [OF ex_new_ok r _ c, of False]
    by (auto simp: ex_new_def ex_edited_state_def of_opt_def)
qed

text \<open>SameContent, the test that lets the agent skip an apply, answers yes exactly when the diff has
  nothing but unchanged interfaces and the stunmesh text is the recorded one.\<close>

theorem sameContent_iff_unchanged:
  assumes "new_ok w b" and "old_ok w st" and "computeDiff b st False = Inr d"
  shows "sameContent st b = Inr ((\<forall>i \<in> set (d_Interfaces d). id_Change i = InterfaceUnchanged)
     \<and> d_StunmeshContent d = st_Stunmesh st)"
  using assms by (rule sameContent_diff)

theorem sameContent_iff_unchanged_witness:
  "sameContent ex_state ex_new = Inr False"
proof -
  obtain d where d: "computeDiff ex_new ex_state False = Inr d"
    and e: "d_Interfaces d = map (entry (of_opt (b_WG ex_new)) (of_opt (st_WG ex_state)) False)
      (union_names (of_opt (b_WG ex_new)) (of_opt (st_WG ex_state)))"
    using computeDiff_eq [OF ex_new_ok ex_state_ok, of False] by simp
  have "''wg1'' \<in> set (union_names (of_opt (b_WG ex_new)) (of_opt (st_WG ex_state)))"
    by (simp add: union_names_iff ex_new_def of_opt_def)
  moreover have "id_Change (entry (of_opt (b_WG ex_new)) (of_opt (st_WG ex_state)) False ''wg1'') = InterfaceNew"
    by (simp add: entry_def Let_def ex_new_def ex_state_def of_opt_def)
  ultimately have "\<not> (\<forall>i \<in> set (d_Interfaces d). id_Change i = InterfaceUnchanged)"
    unfolding e by (metis InterfaceChange.distinct(4) imageI set_map)
  then show ?thesis using sameContent_iff_unchanged [OF ex_new_ok ex_state_ok d] by simp
qed

end
