(* ===== verification/Apply.thy ===== *)
theory Apply
  imports Diff
begin

text \<open>
  cmd/stunmesh-agent/fetch_apply.go: bringing a router to the state of a new bundle. The
  commands (uci, ubus, ifup, the firewall script) run on the runner's state, the stunmesh
  configuration and last.json are files; \<open>World\<close> holds both. The order of the commands and
  which paths they name are proved in the locale of a runner that logs its calls.
\<close>

section \<open>Running uci\<close>

record 'r World =
  w_run :: 'r
  w_fs :: fs

text \<open>A failed command, or a panic (a nil pointer that is dereferenced).\<close>

datatype uerr = URun | UPanic

definition run_command :: "'r runner \<Rightarrow> string \<Rightarrow> string list \<Rightarrow> ('r, uerr, unit) step" where
  "run_command run name args = andThen (wrap (\<lambda>_. URun) (run name args)) (\<lambda>_. ret ())"

definition runUCIBatch :: "'r runner \<Rightarrow> Batch \<Rightarrow> ('r, uerr, unit) step" where
  "runUCIBatch run batch = each (\<lambda>cmd. run_command run ''uci'' (Args cmd)) batch"

definition deleteIfPresent :: "'r runner \<Rightarrow> string \<Rightarrow> ('r, uerr, unit) step" where
  "deleteIfPresent run name r =
     (case run ''uci'' [''get'', ''network.'' @ name] r of
        (Inl _, r') \<Rightarrow> (Inr (), r')
      | (Inr _, r') \<Rightarrow> run_command run ''uci'' [''delete'', ''network.'' @ name] r')"

definition clearListOptions :: "'r runner \<Rightarrow> string list \<Rightarrow> ('r, uerr, unit) step" where
  "clearListOptions run options = each (deleteIfPresent run) options"

definition deleteSections :: "'r runner \<Rightarrow> Sections \<Rightarrow> ('r, uerr, unit) step" where
  "deleteSections run s =
     andThen (each (deleteIfPresent run) (of_opt (sec_Peers s))) (\<lambda>_.
     andThen (each (deleteIfPresent run) (of_opt (sec_Routes s))) (\<lambda>_.
       if sec_Interface s \<noteq> [] then deleteIfPresent run (sec_Interface s) else ret ()))"

definition createInterface :: "'r runner \<Rightarrow> string \<Rightarrow> Interface \<Rightarrow> ('r, uerr, unit) step" where
  "createInterface run name iface =
     andThen (clearListOptions run (ListOptions name iface)) (\<lambda>_. runUCIBatch run (BuildInterface name iface))"

text \<open>\<open>*id.Content\<close>.\<close>

definition create_content :: "'r runner \<Rightarrow> InterfaceDiff \<Rightarrow> ('r, uerr, unit) step" where
  "create_content run i =
     (case id_Content i of None \<Rightarrow> fail_with UPanic | Some c \<Rightarrow> createInterface run (id_Name i) c)"

definition write_one :: "'r runner \<Rightarrow> InterfaceDiff \<Rightarrow> ('r, uerr, unit) step" where
  "write_one run i =
     (case id_Change i of
        InterfaceRemoved \<Rightarrow> deleteSections run (id_Sections i)
      | InterfaceChanged \<Rightarrow> andThen (deleteSections run (id_Sections i)) (\<lambda>_. create_content run i)
      | InterfaceNew \<Rightarrow> create_content run i
      | InterfaceUnchanged \<Rightarrow> ret ())"

definition writeUCI :: "'r runner \<Rightarrow> Diff \<Rightarrow> ('r, uerr, unit) step" where
  "writeUCI run diff = each (write_one run) (d_Interfaces diff)"

definition revertUCI :: "'r runner \<Rightarrow> string \<Rightarrow> 'r \<Rightarrow> 'r" where
  "revertUCI run config r = snd (run ''uci'' [''revert'', config] r)"

section \<open>The firewall zone\<close>

definition firewallZonePresent :: "'r runner \<Rightarrow> ('r, uerr, bool) step" where
  "firewallZonePresent run r =
     (case run ''uci'' [''get'', ''firewall.'' @ FirewallZoneName] r of (x, r') \<Rightarrow> (Inr (\<not> isl x), r'))"

definition runFirewallZoneCreate :: "'r runner \<Rightarrow> ('r, uerr, unit) step" where
  "runFirewallZoneCreate run =
     andThen (runUCIBatch run BuildFirewallZoneCreate) (\<lambda>_. runUCIBatch run BuildFirewallForwardingsCreate)"

text \<open>The first loop: the members to add and to remove, and how many interfaces remain.\<close>

definition kept :: "Diff \<Rightarrow> InterfaceDiff list" where
  "kept diff = filter (\<lambda>i. id_Change i \<noteq> InterfaceRemoved) (d_Interfaces diff)"

definition fw_toAdd :: "Diff \<Rightarrow> string list \<Rightarrow> string list" where
  "fw_toAdd diff have_members = filter (\<lambda>n. n \<notin> set have_members) (map id_Name (kept diff))"

definition fw_toRemove :: "Diff \<Rightarrow> string list \<Rightarrow> string list" where
  "fw_toRemove diff have_members = filter (\<lambda>n. n \<in> set have_members)
     (map id_Name (filter (\<lambda>i. id_Change i = InterfaceRemoved) (d_Interfaces diff)))"

definition removeFirewallNetworkArgs :: "string \<Rightarrow> string list" where
  "removeFirewallNetworkArgs iface = Args (RemoveFirewallZoneNetwork iface)"

definition addFirewallNetworkArgs :: "string \<Rightarrow> string list" where
  "addFirewallNetworkArgs iface = Args (AddFirewallZoneNetwork iface)"

definition deleteFirewallZoneArgs :: "string list" where
  "deleteFirewallZoneArgs = Args DeleteFirewallZone"

text \<open>From the point where the zone is the agent's own: membership, and the state to record.\<close>

definition fw_members :: "'r runner \<Rightarrow> Diff \<Rightarrow> string list \<Rightarrow> ('r, uerr, FirewallState \<times> bool) step" where
  "fw_members run diff have_members =
     (let toAdd = fw_toAdd diff have_members; toRemove = fw_toRemove diff have_members;
          now = filter (\<lambda>n. n \<notin> set toRemove) have_members @ toAdd in
      andThen (each (\<lambda>n. run_command run ''uci'' (removeFirewallNetworkArgs n)) toRemove) (\<lambda>_.
      andThen (each (\<lambda>n. andThen (run_command run ''uci'' (removeFirewallNetworkArgs n)) (\<lambda>_.
          run_command run ''uci'' (addFirewallNetworkArgs n))) toAdd) (\<lambda>_.
      ret (\<lparr>fw_ZoneOwned = True, fw_Members = Some (filter (\<lambda>n. n \<in> set now) (map id_Name (kept diff)))\<rparr>, True))))"

definition manageFirewall :: "'r runner \<Rightarrow> Diff \<Rightarrow> FirewallState \<Rightarrow> ('r, uerr, FirewallState \<times> bool) step" where
  "manageFirewall run diff have_fw =
     (let members = of_opt (fw_Members have_fw) in
      if kept diff = [] then
        (if \<not> fw_ZoneOwned have_fw then ret (zero_firewall, False)
         else andThen (runUCIBatch run DeleteFirewallForwardings) (\<lambda>_.
              andThen (run_command run ''uci'' deleteFirewallZoneArgs) (\<lambda>_. ret (zero_firewall, True))))
      else if fw_toAdd diff members = [] \<and> fw_toRemove diff members = [] then ret (have_fw, False)
      else if fw_ZoneOwned have_fw then fw_members run diff members
      else andThen (firewallZonePresent run) (\<lambda>present.
        if present then ret (zero_firewall, False)
        else andThen (runFirewallZoneCreate run) (\<lambda>_. fw_members run diff members)))"

section \<open>applyDiff\<close>

definition anyInterfaceChanged :: "Diff \<Rightarrow> bool" where
  "anyInterfaceChanged diff = list_ex (\<lambda>i. id_Change i \<noteq> InterfaceUnchanged) (d_Interfaces diff)"

definition ifup_one :: "'r runner \<Rightarrow> InterfaceDiff \<Rightarrow> ('r, uerr, unit) step" where
  "ifup_one run i =
     (if id_Change i \<noteq> InterfaceNew \<and> id_Change i \<noteq> InterfaceChanged then ret ()
      else run_command run ''ifup'' [id_Name i])"

definition ifupChangedInterfaces :: "'r runner \<Rightarrow> Diff \<Rightarrow> ('r, uerr, unit) step" where
  "ifupChangedInterfaces run diff = each (ifup_one run) (d_Interfaces diff)"

datatype aerr = APanic | AUci | AFirewall | ACommitNetwork | ACommitFirewall | AReload | AIfup
  | AFwReload | AStunmesh | ALast

definition at_step :: "aerr \<Rightarrow> ('r, uerr, 'a) step \<Rightarrow> ('r, aerr, 'a) step" where
  "at_step e m = wrap (\<lambda>u. case u of URun \<Rightarrow> e | UPanic \<Rightarrow> APanic) m"

text \<open>What runs after an error is returned; a panic skips it.\<close>

definition or_revert :: "('r, aerr, 'a) step \<Rightarrow> ('r \<Rightarrow> 'r) \<Rightarrow> ('r, aerr, 'a) step" where
  "or_revert m g r =
     (case m r of (Inl e, r') \<Rightarrow> (Inl e, if e = APanic then r' else g r') | (Inr x, r') \<Rightarrow> (Inr x, r'))"

definition revert_both :: "'r runner \<Rightarrow> 'r \<Rightarrow> 'r" where
  "revert_both run r = revertUCI run ''firewall'' (revertUCI run ''network'' r)"

definition stage_network :: "'r runner \<Rightarrow> Diff \<Rightarrow> ('r, aerr, unit) step" where
  "stage_network run diff = or_revert (at_step AUci (writeUCI run diff)) (revertUCI run ''network'')"

definition stage_firewall :: "'r runner \<Rightarrow> Diff \<Rightarrow> FirewallState \<Rightarrow> ('r, aerr, FirewallState \<times> bool) step" where
  "stage_firewall run diff fw =
     (if anyInterfaceChanged diff
      then or_revert (at_step AFirewall (manageFirewall run diff fw)) (revert_both run)
      else ret (fw, False))"

text \<open>The commits, the reloads and the ifup calls.\<close>

definition activate :: "'r runner \<Rightarrow> Diff \<Rightarrow> bool \<Rightarrow> ('r, aerr, unit) step" where
  "activate run diff changed =
     andThen (or_revert (at_step ACommitNetwork (run_command run ''uci'' [''commit'', ''network''])) (revert_both run)) (\<lambda>_.
     andThen (if changed then or_revert (at_step ACommitFirewall (run_command run ''uci'' [''commit'', ''firewall'']))
        (revertUCI run ''firewall'') else ret ()) (\<lambda>_.
     andThen (at_step AReload (run_command run ''ubus'' [''call'', ''network'', ''reload''])) (\<lambda>_.
     andThen (at_step AIfup (ifupChangedInterfaces run diff)) (\<lambda>_.
       if changed then at_step AFwReload (run_command run ''/etc/init.d/firewall'' [''reload'']) else ret ()))))"

definition apply_commands :: "'r runner \<Rightarrow> Diff \<Rightarrow> State \<Rightarrow> ('r, aerr, FirewallState) step" where
  "apply_commands run diff state =
     andThen (stage_network run diff) (\<lambda>_.
     andThen (stage_firewall run diff (st_Firewall state)) (\<lambda>(fw, changed).
     andThen (activate run diff changed) (\<lambda>_. ret fw)))"

definition writeStunmeshConfigAtomic :: "string \<Rightarrow> string \<Rightarrow> (fs, werr, unit) step" where
  "writeStunmeshConfigAtomic path content = replace_file ''.stunmesh-config.tmp-'' path content"

definition applyStunmeshConfig :: "string \<Rightarrow> Diff \<Rightarrow> (fs, unit, unit) step" where
  "applyStunmeshConfig path diff s =
     (case d_Stunmesh diff of
        StunmeshEmpty \<Rightarrow>
          (case os_Remove path s of
             (Inl e, s') \<Rightarrow> (if e = NotExist then Inr () else Inl (), s') | (Inr _, s') \<Rightarrow> (Inr (), s'))
      | StunmeshChanged \<Rightarrow> wrap (\<lambda>_. ()) (writeStunmeshConfigAtomic path (d_StunmeshContent diff)) s
      | StunmeshUnchanged \<Rightarrow> (Inr (), s))"

definition sectionsFor :: "string \<Rightarrow> Interface \<Rightarrow> Sections" where
  "sectionsFor name iface = \<lparr>sec_Interface = name, sec_Routes = Some (RouteSectionNames name (if_Routes iface)),
     sec_Peers = Some (PeerSectionNames name (if_Peers iface))\<rparr>"

text \<open>One turn of buildState's loop on the map; \<open>None\<close> is the panic on a nil Content.\<close>

definition build_one :: "State \<Rightarrow> InterfaceDiff \<Rightarrow> LInterface gomap \<Rightarrow> LInterface gomap option" where
  "build_one state i wg =
     (if id_Change i = InterfaceNew \<or> id_Change i = InterfaceChanged then
        (case id_Content i of None \<Rightarrow> None
         | Some c \<Rightarrow> Some (AList.update (id_Name i) \<lparr>li_Content = c, li_Sections = sectionsFor (id_Name i) c\<rparr> wg))
      else if id_Change i = InterfaceUnchanged then
        Some (AList.update (id_Name i) (case map_get (of_opt (st_WG state)) (id_Name i) of
          None \<Rightarrow> zero_linterface | Some l \<Rightarrow> l) wg)
      else Some wg)"

fun build_wg :: "State \<Rightarrow> InterfaceDiff list \<Rightarrow> LInterface gomap \<Rightarrow> LInterface gomap option" where
  "build_wg state [] wg = Some wg"
| "build_wg state (i # is) wg = (case build_one state i wg of None \<Rightarrow> None | Some wg' \<Rightarrow> build_wg state is wg')"

definition buildState :: "Diff \<Rightarrow> State \<Rightarrow> State option" where
  "buildState diff state = map_option (\<lambda>wg. \<lparr>st_Version = CurrentVersion, st_WG = Some wg,
     st_Stunmesh = d_StunmeshContent diff, st_Firewall = zero_firewall\<rparr>) (build_wg state (d_Interfaces diff) [])"

text \<open>From the stunmesh configuration on, only files are touched.\<close>

definition apply_files :: "string \<Rightarrow> string \<Rightarrow> Diff \<Rightarrow> State \<Rightarrow> FirewallState \<Rightarrow> (fs, aerr, unit) step" where
  "apply_files write_path last_path diff state fw =
     andThen (wrap (\<lambda>_. AStunmesh) (applyStunmeshConfig write_path diff)) (\<lambda>_.
       case buildState diff state of None \<Rightarrow> fail_with APanic
       | Some st \<Rightarrow> wrap (\<lambda>_. ALast) (Write last_path (st\<lparr>st_Firewall := fw\<rparr>)))"

definition applyDiff :: "'r runner \<Rightarrow> string \<Rightarrow> string \<Rightarrow> Diff \<Rightarrow> State \<Rightarrow> ('r World, aerr, unit) step" where
  "applyDiff run write_path last_path diff state w =
     (case apply_commands run diff state (w_run w) of
        (Inl e, r) \<Rightarrow> (Inl e, w\<lparr>w_run := r\<rparr>)
      | (Inr fw, r) \<Rightarrow>
          (case apply_files write_path last_path diff state fw (w_fs w) of
             (x, f) \<Rightarrow> (x, w\<lparr>w_run := r, w_fs := f\<rparr>)))"

end
