(* ===== verification/Apply_State.thy ===== *)
theory Apply_State
  imports Apply
begin

text \<open>
  The files side of applyDiff: what buildState records, that last.json changes only when every
  step has succeeded, and that a successful apply converges: the state it leaves is read
  back, and the next diff against the same bundle finds nothing to do.
\<close>

section \<open>States that Read returns\<close>

lemma map_wf_norm_map: "map_wf p m \<Longrightarrow> (\<And>v. p v \<Longrightarrow> q (g v)) \<Longrightarrow> map_wf q (norm_map g m)"
  by (auto simp: map_wf_def norm_map_def list_all_iff gm_ok_def comp_def gm_ok_sort_map [unfolded gm_ok_def])

lemma norm_map_idem:
  assumes "gm_ok m" and "\<And>v. v \<in> snd ` set m \<Longrightarrow> g (g v) = g v"
  shows "norm_map g (norm_map g m) = norm_map g m"
proof -
  have "norm_map g (norm_map g m) = map (\<lambda>kv. (fst kv, g (snd kv))) (norm_map g m)"
    by (subst norm_map_def) (simp add: sort_map_norm assms(1))
  also have "\<dots> = norm_map g m" using assms(2) by (simp add: norm_map_def)
  finally show ?thesis .
qed

lemma norm_peer_idem: "opt_all gm_ok (peer_Options p) \<Longrightarrow> norm_peer (norm_peer p) = norm_peer p"
  by (cases "peer_Options p") (simp_all add: norm_peer_def norm_map_idem)

lemma norm_iface_idem:
  assumes "iface_maps i"
  shows "norm_iface (norm_iface i) = norm_iface i"
proof -
  have "map_option (norm_map id) (map_option (norm_map id) x) = map_option (norm_map id) x"
    if "opt_all gm_ok x" for x :: "string gomap option"
    using that by (cases x) (simp_all add: norm_map_idem)
  moreover have "map_option (norm_map norm_peer) (map_option (norm_map norm_peer) (if_Peers i))
      = map_option (norm_map norm_peer) (if_Peers i)"
    using assms by (cases "if_Peers i") (auto simp: iface_maps_def intro!: norm_map_idem norm_peer_idem)
  ultimately show ?thesis using assms by (simp add: norm_iface_def iface_maps_def)
qed

lemma peer_wf_norm: "peer_wf w p \<Longrightarrow> peer_wf w (norm_peer p)"
  by (cases "peer_Options p") (auto simp: peer_wf_def norm_peer_def intro: map_wf_norm_map)

lemma iface_wf_norm: "iface_wf w i \<Longrightarrow> iface_wf w (norm_iface i)"
  by (cases "if_Options i"; cases "if_Peers i")
    (auto simp: iface_wf_def norm_iface_def intro: map_wf_norm_map peer_wf_norm)

lemma valid_iface_norm: "valid_iface i \<Longrightarrow> valid_iface (norm_iface i)"
  by (auto simp: valid_iface_def norm_iface_def norm_map_def valid_peer_def norm_peer_def)

lemma sections_wf_norm: "sections_wf s \<Longrightarrow> sections_wf (norm_sections s)"
  by (auto simp: sections_wf_def norm_sections_def nonempty_def)

lemma linterface_wf_norm: "linterface_wf w l \<Longrightarrow> linterface_wf w (norm_linterface l)"
  by (simp add: linterface_wf_def norm_linterface_def iface_wf_norm valid_iface_norm sections_wf_norm)

lemma state_wf_norm: "state_wf w st \<Longrightarrow> state_wf w (norm_state st)"
  by (auto simp: state_wf_def norm_state_def nonempty_def intro!: map_wf_norm_map [of "linterface_wf w"] linterface_wf_norm)

section \<open>What buildState records\<close>

text \<open>The record of one interface.\<close>

definition built :: "State \<Rightarrow> InterfaceDiff \<Rightarrow> LInterface option" where
  "built state i =
     (case id_Change i of
        InterfaceNew \<Rightarrow> map_option (\<lambda>c. \<lparr>li_Content = c, li_Sections = sectionsFor (id_Name i) c\<rparr>) (id_Content i)
      | InterfaceChanged \<Rightarrow> map_option (\<lambda>c. \<lparr>li_Content = c, li_Sections = sectionsFor (id_Name i) c\<rparr>) (id_Content i)
      | InterfaceUnchanged \<Rightarrow> Some (case map_of (of_opt (st_WG state)) (id_Name i) of
          None \<Rightarrow> zero_linterface | Some l \<Rightarrow> l)
      | InterfaceRemoved \<Rightarrow> None)"

definition has_content :: "InterfaceDiff \<Rightarrow> bool" where
  "has_content i = (id_Change i \<in> {InterfaceNew, InterfaceChanged} \<longrightarrow> id_Content i \<noteq> None)"

lemma build_one_built:
  assumes "has_content i" and "gm_ok wg"
  obtains wg' where "build_one state i wg = Some wg'" "gm_ok wg'"
    "map_of wg' = (case built state i of None \<Rightarrow> map_of wg | Some l \<Rightarrow> (map_of wg)(id_Name i \<mapsto> l))"
  using assms that
  by (cases "id_Change i")
    (auto simp: build_one_def built_def has_content_def gm_ok_def map_get_def distinct_update update_conv')

lemma build_wg_built:
  assumes "\<And>i. i \<in> set is \<Longrightarrow> has_content i" and "distinct (map id_Name is)" and "gm_ok wg"
  shows "\<exists>wg'. build_wg state is wg = Some wg' \<and> gm_ok wg' \<and>
    (\<forall>k. map_of wg' k = (case find (\<lambda>i. id_Name i = k) is of None \<Rightarrow> map_of wg k
      | Some i \<Rightarrow> (case built state i of None \<Rightarrow> map_of wg k | Some l \<Rightarrow> Some l)))"
  using assms
proof (induction "is" arbitrary: wg)
  case Nil
  then show ?case by simp
next
  case (Cons i "is")
  obtain wg1 where 1: "build_one state i wg = Some wg1" "gm_ok wg1"
    "map_of wg1 = (case built state i of None \<Rightarrow> map_of wg | Some l \<Rightarrow> (map_of wg)(id_Name i \<mapsto> l))"
    using Cons.prems build_one_built [of i wg state] by auto
  obtain wg' where 2: "build_wg state is wg1 = Some wg'" "gm_ok wg'"
    "\<And>k. map_of wg' k = (case find (\<lambda>i. id_Name i = k) is of None \<Rightarrow> map_of wg1 k
      | Some i \<Rightarrow> (case built state i of None \<Rightarrow> map_of wg1 k | Some l \<Rightarrow> Some l))"
    using Cons.IH [OF _ _ 1(2)] Cons.prems by auto
  have none: "find (\<lambda>j. id_Name j = id_Name i) is = None"
    unfolding find_None_iff using Cons.prems(2) by (metis distinct.simps(2) image_eqI list.simps(9) set_map)
  have "map_of wg' k = (case find (\<lambda>i. id_Name i = k) (i # is) of None \<Rightarrow> map_of wg k
      | Some i \<Rightarrow> (case built state i of None \<Rightarrow> map_of wg k | Some l \<Rightarrow> Some l))" for k
    by (cases "id_Name i = k") (use 2(3) [of k] 1(3) none in \<open>auto split: option.splits\<close>)
  then show ?case using 1(1) 2(1, 2) by auto
qed

lemma find_entry:
  "find (\<lambda>i. id_Name i = k) (map (entry new old f) ns) = (if k \<in> set ns then Some (entry new old f k) else None)"
  by (induction ns) (auto simp: entry_def Let_def)

lemma entry_simps [simp]: "id_Name (entry new old f k) = k"
  "id_Change (entry new old f k) = classify f (map_of new k) (map_of old k)"
  by (simp_all add: entry_def Let_def)

lemma classify_new: "classify f x y \<in> {InterfaceNew, InterfaceChanged} \<Longrightarrow> x \<noteq> None"
  by (cases x) auto

text \<open>What is recorded under a name: for an interface of the new bundle its content and the sections
  of the batch that created it, or the old record when the interface was left alone.\<close>

definition recorded :: "Interface gomap \<Rightarrow> LInterface gomap \<Rightarrow> bool \<Rightarrow> string \<Rightarrow> LInterface option" where
  "recorded new old f k =
     (case map_of new k of None \<Rightarrow> None
      | Some n \<Rightarrow> if classify f (Some n) (map_of old k) = InterfaceUnchanged then map_of old k
                  else Some \<lparr>li_Content = n, li_Sections = sectionsFor k n\<rparr>)"

lemma built_entry:
  assumes "k \<in> set (union_names new (of_opt (st_WG state)))"
  shows "built state (entry new (of_opt (st_WG state)) f k) = recorded new (of_opt (st_WG state)) f k"
  by (cases "map_of new k"; cases "map_of (of_opt (st_WG state)) k")
    (auto simp: built_def recorded_def entry_def Let_def)

lemma has_content_entry: "has_content (entry new old f k)"
  using classify_new [of f "map_of new k" "map_of old k"] by (auto simp: has_content_def entry_def Let_def)

lemma distinct_union_names: "distinct (union_names m m')"
  by (simp add: union_names_def)

lemma buildState_computeDiff:
  assumes "new_ok w b" and "old_ok w st" and "computeDiff b st f = Inr d"
  obtains wg where "buildState d st = Some \<lparr>st_Version = CurrentVersion, st_WG = Some wg,
      st_Stunmesh = of_opt (b_Stunmesh b), st_Firewall = zero_firewall\<rparr>"
    "gm_ok wg" "\<And>k. map_of wg k = recorded (of_opt (b_WG b)) (of_opt (st_WG st)) f k"
proof -
  let ?new = "of_opt (b_WG b)" and ?old = "of_opt (st_WG st)"
  have d: "d_Interfaces d = map (entry ?new ?old f) (union_names ?new ?old)"
    "d_StunmeshContent d = of_opt (b_Stunmesh b)"
    using computeDiff_eq [OF assms(1, 2), of f] assms(3) by auto
  have dist: "distinct (map id_Name (d_Interfaces d))"
    unfolding d by (simp add: comp_def distinct_union_names)
  have content: "has_content i" if "i \<in> set (d_Interfaces d)" for i
    using that has_content_entry unfolding d by auto
  obtain wg where wg: "build_wg st (d_Interfaces d) [] = Some wg" "gm_ok wg"
    "\<forall>k. map_of wg k = (case find (\<lambda>i. id_Name i = k) (d_Interfaces d) of None \<Rightarrow> map_of [] k
      | Some i \<Rightarrow> (case built st i of None \<Rightarrow> map_of [] k | Some l \<Rightarrow> Some l))"
    using build_wg_built [OF content dist, of "[]" st] by (auto simp: gm_ok_def)
  have "map_of wg k = recorded ?new ?old f k" for k
  proof (cases "k \<in> set (union_names ?new ?old)")
    case True
    then show ?thesis using wg(3) [rule_format, of k] built_entry [OF True, of f] unfolding d find_entry
      by (simp split: option.splits)
  next
    case False
    then have "map_of ?new k = None" by (auto simp: union_names_iff map_of_eq_None_iff)
    then show ?thesis using wg(3) [rule_format, of k] False unfolding d find_entry by (simp add: recorded_def)
  qed
  then show ?thesis using that [of wg] wg d(2) by (simp add: buildState_def)
qed

section \<open>The recorded state is well formed\<close>

lemma ascii_section_name: "valid_utf8 name \<Longrightarrow> valid_utf8 (routeSectionName name n)"
  "valid_utf8 name \<Longrightarrow> valid_utf8 p \<Longrightarrow> valid_utf8 (peerSectionName name p)"
proof -
  have "valid_utf8 ''_r_''" "valid_utf8 ''_p_''" by (rule valid_utf8_ascii; simp)+
  moreover have "valid_utf8 (show_nat n)"
    by (rule valid_utf8_ascii) (use show_nat_digits [of n] in \<open>auto simp: list_all_iff is_digit_def\<close>)
  ultimately show "valid_utf8 name \<Longrightarrow> valid_utf8 (routeSectionName name n)"
    "valid_utf8 name \<Longrightarrow> valid_utf8 p \<Longrightarrow> valid_utf8 (peerSectionName name p)"
    unfolding routeSectionName_def peerSectionName_def by - (intro valid_utf8_append; assumption)+
qed

lemma sectionsFor_wf:
  assumes "valid_utf8 name" and "iface_wf w i"
  shows "sections_wf (sectionsFor name i)"
  using assms
  by (cases "if_Peers i")
    (auto simp: sections_wf_def sectionsFor_def RouteSectionNames_def PeerSectionNames_def of_opt_def list_all_iff
      sortedKeys_def sorted_keys_def iface_wf_def map_wf_def intro!: ascii_section_name)

lemma recorded_wf:
  assumes "map_wf (\<lambda>i. valid_iface i \<and> iface_wf w i) new" and "map_wf (linterface_wf w) old"
    and "recorded new old f k = Some l"
  shows "valid_utf8 k \<and> linterface_wf w l"
proof (cases "map_of new k")
  case None
  then show ?thesis using assms(3) by (simp add: recorded_def)
next
  case (Some n)
  have n: "valid_utf8 k" "valid_iface n" "iface_wf w n" using map_wf_lookup [OF assms(1) Some] by auto
  show ?thesis
    using assms(3) Some n sectionsFor_wf [OF n(1, 3)] map_wf_lookup [OF assms(2), of k l]
    by (auto simp: recorded_def linterface_wf_def split: if_splits)
qed

lemma map_wf_lookupI:
  assumes "gm_ok m" and "\<And>k v. map_of m k = Some v \<Longrightarrow> valid_utf8 k \<and> p v"
  shows "map_wf p m"
  unfolding map_wf_def list_all_iff
proof (intro conjI ballI)
  show "gm_ok m" by (rule assms(1))
  fix kv assume "kv \<in> set m"
  then have "map_of m (fst kv) = Some (snd kv)"
    using assms(1) by (simp add: gm_ok_def)
  from assms(2) [OF this] show "valid_utf8 (fst kv)" "p (snd kv)" by simp_all
qed

text \<open>The content recorded under a name is that of the new bundle.\<close>

lemma recorded_same: "map_option (\<lambda>l. norm_iface (li_Content l)) (recorded new old f k) = map_option norm_iface (map_of new k)"
  by (cases "map_of new k"; cases "map_of old k") (auto simp: recorded_def)

lemma buildState_converges:
  assumes "new_ok w b" and "old_ok w st" and "computeDiff b st f = Inr d" and "buildState d st = Some st'"
    and "opt_all (list_all valid_utf8) (fw_Members fw)"
  shows "state_wf w (st'\<lparr>st_Firewall := fw\<rparr>)"
    and "sameContent (norm_state (st'\<lparr>st_Firewall := fw\<rparr>)) b = Inr True"
proof -
  obtain m where m: "b_WG b = Some m" "map_wf (\<lambda>i. valid_iface i \<and> iface_wf w i) m"
    using new_ok_wg [OF assms(1)] .
  obtain l where l: "st_WG st = Some l" "map_wf (linterface_wf w) l" using old_ok_wg [OF assms(2)] .
  obtain wg where wg: "st' = \<lparr>st_Version = CurrentVersion, st_WG = Some wg,
      st_Stunmesh = of_opt (b_Stunmesh b), st_Firewall = zero_firewall\<rparr>"
    "gm_ok wg" "\<And>k. map_of wg k = recorded m l f k"
    using buildState_computeDiff [OF assms(1-3)] assms(4) m(1) l(1) by (auto simp: of_opt_def)
  have wgwf: "map_wf (linterface_wf w) wg"
    by (rule map_wf_lookupI [OF wg(2)]) (simp add: wg(3), rule recorded_wf [OF m(2) l(2)])
  have "valid_utf8 (of_opt (b_Stunmesh b))"
    using assms(1) by (cases "b_Stunmesh b") (auto simp: new_ok_def bundle_wf_def valid_bundle_def of_opt_def)
  then show wf: "state_wf w (st'\<lparr>st_Firewall := fw\<rparr>)"
    using assms(2, 5) wgwf by (simp add: state_wf_def wg(1) old_ok_def)
  have "old_ok w (norm_state (st'\<lparr>st_Firewall := fw\<rparr>))" unfolding old_ok_def by (rule state_wf_norm [OF wf])
  moreover have "same_wg m (norm_map norm_linterface wg)"
  proof -
    have "map_option (\<lambda>l. norm_iface (li_Content l)) (map_of (norm_map norm_linterface wg) k)
        = map_option (\<lambda>l. norm_iface (li_Content l)) (map_of wg k)" for k
      using map_wf_lookup [OF wgwf, of k]
      by (cases "map_of wg k") (auto simp: map_of_norm_map [OF wg(2)] norm_linterface_def linterface_wf_def
          intro!: norm_iface_idem iface_wf_maps)
    then show ?thesis unfolding same_wg_all wg(3) recorded_same by simp
  qed
  ultimately show "sameContent (norm_state (st'\<lparr>st_Firewall := fw\<rparr>)) b = Inr True"
    using m(1) by (simp add: sameContent_eq [OF assms(1)] norm_state_def wg(1) of_opt_def)
qed

section \<open>Files\<close>

text \<open>Replacing a file leaves every other file alone, whether it succeeds or not.\<close>

lemma replace_file_other:
  assumes "replace_file pat path data s = (r, s')" and "not_temp pat path" and "q \<noteq> path"
    and "\<not> has_prefix q (temp_base (filepath_Dir path) pat)"
  shows "fs_files s' q = fs_files s q"
proof -
  obtain r0 s0 where c: "os_CreateTemp (filepath_Dir path) pat s = (r0, s0)" by fastforce
  from c show ?thesis
  proof (rule CreateTemp_cases [where tmp = "q @ ''x''"])
    fix e assume "r0 = Inl e" and "only (q @ ''x'') s s0"
    then show ?thesis using assms(1) c by (auto simp: replace_file_def only_def)
  next
    fix tmp
    assume r0: "r0 = Inr tmp" and p: "has_prefix tmp (temp_base (filepath_Dir path) pat)"
      and f0: "fs_files s0 = (fs_files s)(tmp \<mapsto> new_file [])"
    have ne: "tmp \<noteq> path" "tmp \<noteq> q" using p assms(2, 4) by (auto simp: not_temp_def)
    obtain r2 s2 where body: "replace_body tmp path data s0 = (r2, s2)" by fastforce
    have s': "s' = snd (os_Remove tmp s2)" using assms(1) c r0 body by (simp add: replace_file_def)
    have "fs_files s2 q = fs_files s q"
      by (rule replace_body_cases [OF body ne(1)]) (use f0 ne assms(3) in \<open>auto simp: only_def\<close>)
    then show ?thesis using only_Remove [of tmp s2] ne unfolding s' only_def by simp
  qed
qed

text \<open>The stunmesh configuration and last.json are different files, and neither is a temporary file of the other.\<close>

definition paths_ok :: "string \<Rightarrow> string \<Rightarrow> bool" where
  "paths_ok wp lp = (wp \<noteq> lp \<and> not_temp ''.last.json.tmp-'' lp \<and> not_temp ''.stunmesh-config.tmp-'' wp
     \<and> \<not> has_prefix lp (temp_base (filepath_Dir wp) ''.stunmesh-config.tmp-'')
     \<and> \<not> has_prefix wp (temp_base (filepath_Dir lp) ''.last.json.tmp-''))"

text \<open>What applyStunmeshConfig leaves under its path.\<close>

definition stunmesh_file :: "Diff \<Rightarrow> File option \<Rightarrow> File option" where
  "stunmesh_file d old = (case d_Stunmesh d of StunmeshEmpty \<Rightarrow> None
     | StunmeshChanged \<Rightarrow> Some (new_file (d_StunmeshContent d)) | StunmeshUnchanged \<Rightarrow> old)"

lemma applyStunmeshConfig_spec:
  assumes "applyStunmeshConfig wp d s = (r, s')" and "paths_ok wp lp"
  shows "fs_files s' lp = fs_files s lp" and "r = Inr u \<Longrightarrow> fs_files s' wp = stunmesh_file d (fs_files s wp)"
    and "r = Inl e \<Longrightarrow> fs_files s' wp = fs_files s wp"
proof -
  have ne: "lp \<noteq> wp" using assms(2) by (auto simp: paths_ok_def)
  have "fs_files s' lp = fs_files s lp \<and> (r = Inr u \<longrightarrow> fs_files s' wp = stunmesh_file d (fs_files s wp))
      \<and> (r = Inl e \<longrightarrow> fs_files s' wp = fs_files s wp)"
  proof (cases "d_Stunmesh d")
    case StunmeshUnchanged
    then show ?thesis using assms(1) by (auto simp: applyStunmeshConfig_def stunmesh_file_def)
  next
    case StunmeshChanged
    obtain r1 where w: "replace_file ''.stunmesh-config.tmp-'' wp (d_StunmeshContent d) s = (r1, s')"
      "r = (case r1 of Inl _ \<Rightarrow> Inl () | Inr x \<Rightarrow> Inr x)"
      using assms(1) StunmeshChanged
      by (auto simp: applyStunmeshConfig_def writeStunmeshConfigAtomic_def wrap_def split: prod.splits sum.splits)
    have "replaces wp (d_StunmeshContent d) s r1 s'"
      using replace_file_spec [OF w(1)] assms(2) by (simp add: paths_ok_def)
    moreover have "fs_files s' lp = fs_files s lp"
      using replace_file_other [OF w(1)] assms(2) ne by (simp add: paths_ok_def)
    ultimately show ?thesis using w(2) StunmeshChanged by (cases r1) (auto simp: replaces_def stunmesh_file_def)
  next
    case StunmeshEmpty
    show ?thesis
    proof (cases "fs_files s wp")
      case None
      then show ?thesis using assms(1) StunmeshEmpty
        by (auto simp: applyStunmeshConfig_def os_Remove_def stunmesh_file_def)
    next
      case (Some f)
      obtain x s1 where x: "syscall OSErr (\<lambda>_. fs_files s) ((fs_files s)(wp := None)) () s = (x, s1)" by fastforce
      from x show ?thesis
        by (rule syscall_cases) (use assms(1) StunmeshEmpty Some x ne in
          \<open>auto simp: applyStunmeshConfig_def os_Remove_def stunmesh_file_def\<close>)
    qed
  qed
  then show "fs_files s' lp = fs_files s lp" "r = Inr u \<Longrightarrow> fs_files s' wp = stunmesh_file d (fs_files s wp)"
    "r = Inl e \<Longrightarrow> fs_files s' wp = fs_files s wp" by auto
qed

text \<open>last.json is the last thing written: it changes only when everything succeeded.\<close>

lemma applyDiff_files:
  assumes "applyDiff run wp lp d st w = (x, w')" and "paths_ok wp lp"
  shows "(\<forall>e. x = Inl e \<longrightarrow> fs_files (w_fs w') lp = fs_files (w_fs w) lp)
     \<and> (x = Inr () \<longrightarrow> (\<exists>st' fw. buildState d st = Some st'
          \<and> apply_commands run d st (w_run w) = (Inr fw, w_run w')
          \<and> fs_files (w_fs w') lp = Some (new_file (print_json (go_quote True) (state_json (st'\<lparr>st_Firewall := fw\<rparr>))))
          \<and> fs_files (w_fs w') wp = stunmesh_file d (fs_files (w_fs w) wp)))"
proof -
  obtain y r where c: "apply_commands run d st (w_run w) = (y, r)" by fastforce
  show ?thesis
  proof (cases y)
    case (Inl e)
    then show ?thesis using assms(1) c by (auto simp: applyDiff_def)
  next
    case (Inr fw)
    obtain z f where z: "applyStunmeshConfig wp d (w_fs w) = (z, f)" by fastforce
    note fz = applyStunmeshConfig_spec [OF z assms(2)]
    show ?thesis
    proof (cases "\<exists>u st'. z = Inr u \<and> buildState d st = Some st'")
      case False
      then show ?thesis using assms(1) c Inr z fz
        by (cases z; cases "buildState d st") (auto simp: applyDiff_def apply_files_def andThen_def wrap_def)
    next
      case True
      then obtain st' where st': "z = Inr ()" "buildState d st = Some st'" by auto
      obtain v f' where v: "Write lp (st'\<lparr>st_Firewall := fw\<rparr>) f = (v, f')" by fastforce
      have w': "w' = w\<lparr>w_run := r, w_fs := f'\<rparr>" "x = (case v of Inl _ \<Rightarrow> Inl ALast | Inr u \<Rightarrow> Inr u)"
        using assms(1) c Inr z st' v
        by (auto simp: applyDiff_def apply_files_def andThen_def wrap_def split: sum.splits)
      have "replaces lp (print_json (go_quote True) (state_json (st'\<lparr>st_Firewall := fw\<rparr>))) f v f'"
        using Write_spec [OF v] assms(2) by (simp add: paths_ok_def)
      then show ?thesis using w' fz(1, 2) c Inr st' assms(2)
        by (cases v) (auto simp: replaces_def paths_ok_def)
    qed
  qed
qed

text \<open>The firewall state that is recorded.\<close>

lemma manageFirewall_value:
  assumes "manageFirewall run d fw r = (Inr (fw', ch), r')"
  shows "fw' \<in> {zero_firewall, fw} \<or> (\<exists>ms. fw_Members fw' = Some ms \<and> set ms \<subseteq> set (map id_Name (kept d)))"
  using assms
  by (auto simp: manageFirewall_def Let_def fw_members_def andThen_Inr split: if_splits)

lemma apply_commands_value:
  assumes "apply_commands run d st r = (Inr fw', r')"
  shows "fw' \<in> {zero_firewall, st_Firewall st} \<or> (\<exists>ms. fw_Members fw' = Some ms \<and> set ms \<subseteq> set (map id_Name (kept d)))"
proof -
  obtain ch r1 r2 where "stage_firewall run d (st_Firewall st) r1 = (Inr (fw', ch), r2)"
    using assms by (auto simp: apply_commands_def andThen_Inr)
  then show ?thesis
    using manageFirewall_value [of run d "st_Firewall st" r1 fw' ch r2]
    by (auto simp: stage_firewall_def or_revert_def at_step_def split: if_splits prod.splits sum.splits)
qed

lemma kept_names:
  assumes "new_ok w b" and "old_ok w st" and "computeDiff b st f = Inr d" and "n \<in> set (map id_Name (kept d))"
  shows "valid_utf8 n"
proof -
  obtain m where m: "b_WG b = Some m" "map_wf (\<lambda>i. valid_iface i \<and> iface_wf w i) m"
    using new_ok_wg [OF assms(1)] .
  have "d_Interfaces d = map (entry m (of_opt (st_WG st)) f) (union_names m (of_opt (st_WG st)))"
    using computeDiff_eq [OF assms(1, 2), of f] assms(3) m(1) by (auto simp: of_opt_def)
  then have "classify f (map_of m n) (map_of (of_opt (st_WG st)) n) \<noteq> InterfaceRemoved"
    using assms(4) by (auto simp: kept_def)
  then obtain i where "map_of m n = Some i" by (cases "map_of m n") auto
  then show ?thesis using map_wf_lookup [OF m(2)] by blast
qed

end
