(* ===== verification/Apply_Commands.thy ===== *)
theory Apply_Commands
  imports Apply
begin

text \<open>
  The commands side of applyDiff, in the locale of a runner that logs its calls: which commands
  can run at all, in which order, and what is reverted after a failure. Probes (uci get), the
  deletes of network paths and the reverts depend on what is already on the router, so the
  order is stated for the other commands, the \<open>effective\<close> ones.
\<close>

section \<open>The plan of an apply\<close>

definition uci :: "Command \<Rightarrow> Call" where
  "uci cmd = mkcall ''uci'' (Args cmd)"

definition creates :: "InterfaceDiff \<Rightarrow> bool" where
  "creates i = (id_Change i \<in> {InterfaceNew, InterfaceChanged})"

definition batch_of :: "InterfaceDiff \<Rightarrow> Call list" where
  "batch_of i = (if creates i then
     (case id_Content i of None \<Rightarrow> [] | Some c \<Rightarrow> map uci (BuildInterface (id_Name i) c)) else [])"

text \<open>
  The firewall stage. An interface is out of place when it stays and last.json does not list it as a member
  of the zone, or goes and is listed. With an interface changed at all: when none remains, an owned zone is
  deleted; otherwise, if one is out of place, an owned zone's membership is corrected, and a zone that is
  not owned is asked for first and created unless the router already has it.
\<close>

definition zone_probe :: Call where
  "zone_probe = mkcall ''uci'' [''get'', ''firewall.stunmesh'']"

definition all_removed :: "Diff \<Rightarrow> bool" where
  "all_removed d = list_all (\<lambda>i. id_Change i = InterfaceRemoved) (d_Interfaces d)"

definition out_of_place :: "string list \<Rightarrow> InterfaceDiff \<Rightarrow> bool" where
  "out_of_place members i = (if id_Change i = InterfaceRemoved then id_Name i \<in> set members else id_Name i \<notin> set members)"

definition fw_asks :: "Diff \<Rightarrow> FirewallState \<Rightarrow> bool" where
  "fw_asks d have_fw = (list_ex (\<lambda>i. id_Change i \<noteq> InterfaceUnchanged) (d_Interfaces d) \<and> \<not> all_removed d
     \<and> list_ex (out_of_place (of_opt (fw_Members have_fw))) (d_Interfaces d) \<and> \<not> fw_ZoneOwned have_fw)"

definition fw_changes :: "Diff \<Rightarrow> FirewallState \<Rightarrow> bool \<Rightarrow> bool" where
  "fw_changes d have_fw found = (list_ex (\<lambda>i. id_Change i \<noteq> InterfaceUnchanged) (d_Interfaces d)
     \<and> (if all_removed d then fw_ZoneOwned have_fw
        else list_ex (out_of_place (of_opt (fw_Members have_fw))) (d_Interfaces d) \<and> (fw_ZoneOwned have_fw \<or> \<not> found)))"

definition fw_plan :: "Diff \<Rightarrow> FirewallState \<Rightarrow> Call list" where
  "fw_plan d have_fw =
     (let moved = filter (out_of_place (of_opt (fw_Members have_fw))) (d_Interfaces d);
          leave = filter (\<lambda>i. id_Change i = InterfaceRemoved) moved;
          join = filter (\<lambda>i. id_Change i \<noteq> InterfaceRemoved) moved in
      if all_removed d then map uci (DeleteFirewallForwardings @ [DeleteFirewallZone])
      else (if fw_ZoneOwned have_fw then [] else map uci (BuildFirewallZoneCreate @ BuildFirewallForwardingsCreate))
        @ map (\<lambda>i. uci (RemoveFirewallZoneNetwork (id_Name i))) leave
        @ concat (map (\<lambda>i. [uci (RemoveFirewallZoneNetwork (id_Name i)), uci (AddFirewallZoneNetwork (id_Name i))]) join))"

definition fw_stage_plan :: "Diff \<Rightarrow> FirewallState \<Rightarrow> bool \<Rightarrow> Call list" where
  "fw_stage_plan d have_fw found = (if fw_asks d have_fw then [zone_probe] else [])
     @ (if fw_changes d have_fw found then fw_plan d have_fw else [])"

definition activate_plan :: "Diff \<Rightarrow> bool \<Rightarrow> Call list" where
  "activate_plan d changed =
     [mkcall ''uci'' [''commit'', ''network'']]
     @ (if changed then [mkcall ''uci'' [''commit'', ''firewall'']] else [])
     @ [mkcall ''ubus'' [''call'', ''network'', ''reload'']]
     @ map (\<lambda>i. mkcall ''ifup'' [id_Name i]) (filter creates (d_Interfaces d))
     @ (if changed then [mkcall ''/etc/init.d/firewall'' [''reload'']] else [])"

definition plan :: "Diff \<Rightarrow> FirewallState \<Rightarrow> bool \<Rightarrow> Call list" where
  "plan d have_fw found = concat (map batch_of (d_Interfaces d))
     @ fw_stage_plan d have_fw found @ activate_plan d (fw_changes d have_fw found)"

definition effective :: "Call \<Rightarrow> bool" where
  "effective c = (\<not> (call_Name c = ''uci'' \<and>
     (case call_Args c of [] \<Rightarrow> False | a # as \<Rightarrow> a = ''revert''
        \<or> (a \<in> {''get'', ''delete''} \<and> as \<noteq> [] \<and> has_prefix (hd as) ''network.''))))"

lemma effective_simps [simp]:
  "\<not> effective (mkcall ''uci'' [''revert'', x])"
  "effective zone_probe"
  "effective (mkcall ''uci'' [''commit'', x])" "effective (mkcall ''ifup'' as)" "effective (mkcall ''ubus'' as)"
  "effective (mkcall ''/etc/init.d/firewall'' as)"
  by (simp_all add: effective_def mkcall_def has_prefix_def zone_probe_def)

lemma effective_delete: "\<not> effective (mkcall ''uci'' [''delete'', ''network.'' @ x])"
  by (simp add: effective_def mkcall_def has_prefix_def)

text \<open>Commands that create, set or append.\<close>

definition writes :: "Command \<Rightarrow> bool" where
  "writes cmd = (\<exists>a as. Args cmd = a # as \<and> a \<in> {''set'', ''add_list''})"

lemma writes_simps [simp]: "writes (setCmd c s k v)" "writes (createCmd c s t)" "writes (addListCmd c s k v)"
  by (simp_all add: writes_def setCmd_def createCmd_def addListCmd_def)

lemma writes_opt_cmd: "(\<And>v. writes (f v)) \<Longrightarrow> cmd \<in> set (opt_cmd f x) \<Longrightarrow> writes cmd"
  by (auto simp: opt_cmd_def split: option.splits)

lemma writes_options: "cmd \<in> set (optionCommands s m) \<Longrightarrow> writes cmd"
  by (auto simp: optionCommands_def)

lemma writes_route: "cmd \<in> set (buildRoute i n r) \<Longrightarrow> writes cmd"
  by (auto simp: buildRoute_def Let_def elim!: writes_opt_cmd [rotated])

lemma writes_peer: "cmd \<in> set (buildPeer i n p a) \<Longrightarrow> writes cmd"
  by (auto simp: buildPeer_def Let_def endpointCommands_def elim!: writes_opt_cmd [rotated] writes_options
      split: option.splits prod.splits if_splits)

lemma writes_BuildInterface: "cmd \<in> set (BuildInterface name i) \<Longrightarrow> writes cmd"
  by (auto simp: BuildInterface_def Let_def elim!: writes_opt_cmd [rotated] writes_options writes_peer
      writes_route split: option.splits prod.splits)

lemma writes_zone: "cmd \<in> set (BuildFirewallZoneCreate @ BuildFirewallForwardingsCreate) \<Longrightarrow> writes cmd"
  by (auto simp: BuildFirewallZoneCreate_def BuildFirewallForwardingsCreate_def)

lemma writes_not: "writes cmd \<Longrightarrow> a \<notin> {''set'', ''add_list''} \<Longrightarrow> uci cmd \<noteq> mkcall ''uci'' (a # as)"
  by (auto simp: writes_def uci_def mkcall_def)

lemma effective_writes: "writes cmd \<Longrightarrow> effective (uci cmd)"
  by (auto simp: writes_def effective_def uci_def mkcall_def)

lemma effective_firewall [simp]: "effective (uci (delListCmd c s k v))" "effective (uci (deleteCmd ''firewall'' s))"
  by (simp_all add: effective_def uci_def mkcall_def delListCmd_def deleteCmd_def has_prefix_def)

lemmas effective_BuildInterface = effective_writes [OF writes_BuildInterface]

text \<open>The plan's cases are those of manageFirewall.\<close>

lemma all_removed_kept: "all_removed d \<longleftrightarrow> kept d = []"
  by (auto simp: all_removed_def kept_def list_all_iff filter_empty_conv)

lemma out_of_place_fw:
  "list_ex (out_of_place ms) (d_Interfaces d) \<longleftrightarrow> fw_toAdd d ms \<noteq> [] \<or> fw_toRemove d ms \<noteq> []"
  by (auto simp: out_of_place_def fw_toAdd_def fw_toRemove_def kept_def filter_empty_conv list_ex_iff)

lemma leave_join:
  "fw_toRemove d ms = map id_Name (filter (\<lambda>i. id_Change i = InterfaceRemoved) (filter (out_of_place ms) (d_Interfaces d)))"
  "fw_toAdd d ms = map id_Name (filter (\<lambda>i. id_Change i \<noteq> InterfaceRemoved) (filter (out_of_place ms) (d_Interfaces d)))"
  unfolding fw_toRemove_def fw_toAdd_def kept_def filter_map filter_filter
  by (rule arg_cong [where f = "map id_Name"], rule filter_cong, simp, simp add: out_of_place_def conj_commute, blast?)+

lemmas fw_cases = all_removed_kept out_of_place_fw anyInterfaceChanged_def [symmetric]

lemma fw_plan_eq: "fw_plan d fw =
     (let members = of_opt (fw_Members fw) in
      if kept d = [] then map uci (DeleteFirewallForwardings @ [DeleteFirewallZone])
      else (if fw_ZoneOwned fw then [] else map uci (BuildFirewallZoneCreate @ BuildFirewallForwardingsCreate))
        @ map (\<lambda>n. uci (RemoveFirewallZoneNetwork n)) (fw_toRemove d members)
        @ concat (map (\<lambda>n. [uci (RemoveFirewallZoneNetwork n), uci (AddFirewallZoneNetwork n)]) (fw_toAdd d members)))"
  by (simp add: fw_plan_def Let_def leave_join fw_cases comp_def)

text \<open>What manageFirewall ran, by its answer.\<close>

definition fw_ran :: "Diff \<Rightarrow> FirewallState \<Rightarrow> bool \<Rightarrow> uerr + FirewallState \<times> bool \<Rightarrow> Call list \<Rightarrow> bool" where
  "fw_ran d fw found x es = (case x of Inl _ \<Rightarrow> prefix (filter effective es) (fw_stage_plan d fw found)
     | Inr (_, changed) \<Rightarrow> changed = fw_changes d fw found \<and> filter effective es = fw_stage_plan d fw found)"

section \<open>Steps that run a plan\<close>

context command_log begin

text \<open>Of the commands of the step that satisfy \<open>P\<close>, exactly \<open>cs\<close> run when it succeeds, in this order, and
  a prefix of \<open>cs\<close> when it fails.\<close>

definition runs_only :: "(Call \<Rightarrow> bool) \<Rightarrow> ('r, 'e, 'a) step \<Rightarrow> Call list \<Rightarrow> bool" where
  "runs_only P m cs = (\<forall>r. \<exists>ds. log (snd (m r)) = log r @ ds \<and> prefix (filter P ds) cs
     \<and> (\<forall>x. fst (m r) = Inr x \<longrightarrow> filter P ds = cs))"

lemma runs_onlyI: "(\<And>r. \<exists>ds. log (snd (m r)) = log r @ ds \<and> prefix (filter P ds) cs
     \<and> (\<forall>x. fst (m r) = Inr x \<longrightarrow> filter P ds = cs)) \<Longrightarrow> runs_only P m cs"
  unfolding runs_only_def by blast

lemma runs_onlyE:
  assumes "runs_only P m cs" and "m r = (x, r')"
  obtains ds where "log r' = log r @ ds" "prefix (filter P ds) cs" "\<And>v. x = Inr v \<Longrightarrow> filter P ds = cs"
  using assms unfolding runs_only_def by (metis fst_conv snd_conv)

lemma runs_only_ret: "runs_only P (ret x) []"
  by (simp add: runs_only_def)

lemma runs_only_wrap: "runs_only P m cs \<Longrightarrow> runs_only P (wrap g m) cs"
  unfolding runs_only_def by (auto simp: wrap_def split: prod.splits sum.splits) (metis fst_conv snd_conv)+

lemma runs_only_run: "runs_only P (run name args) (filter P [mkcall name args])"
  unfolding runs_only_def by (metis log_run prefix_order.order_refl)

lemma runs_only_then:
  assumes "runs_only P m cs" and "\<And>x. runs_only P (f x) ds"
  shows "runs_only P (andThen m f) (cs @ ds)"
proof (rule runs_onlyI)
  fix r
  obtain y r' where m: "m r = (y, r')" by fastforce
  obtain es where es: "log r' = log r @ es" "prefix (filter P es) cs" "\<And>v. y = Inr v \<Longrightarrow> filter P es = cs"
    using runs_onlyE [OF assms(1) m] by blast
  show "\<exists>zs. log (snd (andThen m f r)) = log r @ zs \<and> prefix (filter P zs) (cs @ ds)
      \<and> (\<forall>x. fst (andThen m f r) = Inr x \<longrightarrow> filter P zs = cs @ ds)"
  proof (cases y)
    case (Inl e)
    then show ?thesis using m es by (auto simp: andThen_def)
  next
    case (Inr x)
    obtain z r'' where f: "f x r' = (z, r'')" by fastforce
    obtain fs where fs: "log r'' = log r' @ fs" "prefix (filter P fs) ds" "\<And>v. z = Inr v \<Longrightarrow> filter P fs = ds"
      using runs_onlyE [OF assms(2) f] by blast
    show ?thesis using m es f fs Inr by (auto simp: andThen_def intro!: exI [of _ "es @ fs"])
  qed
qed

lemma runs_only_each:
  assumes "\<And>x. x \<in> set xs \<Longrightarrow> runs_only P (f x) (g x)"
  shows "runs_only P (each f xs) (concat (map g xs))"
  using assms
proof (induction xs)
  case Nil
  then show ?case by (simp add: runs_only_def)
next
  case (Cons x xs)
  then show ?case using runs_only_then [of P "f x" "g x" "\<lambda>_. each f xs"] by simp
qed

lemma runs_only_command: "P (mkcall name args) \<Longrightarrow> runs_only P (run_command run name args) [mkcall name args]"
  using runs_only_then [OF runs_only_wrap [OF runs_only_run [of P name args]] runs_only_ret, of "\<lambda>_. URun" "\<lambda>_. ()"]
  by (simp add: run_command_def)

lemma runs_only_silent: "\<not> P (mkcall name args) \<Longrightarrow> runs_only P (run_command run name args) []"
  using runs_only_then [OF runs_only_wrap [OF runs_only_run [of P name args]] runs_only_ret, of "\<lambda>_. URun" "\<lambda>_. ()"]
  by (simp add: run_command_def)

lemma runs_only_batch:
  assumes "\<And>cmd. cmd \<in> set b \<Longrightarrow> P (uci cmd)"
  shows "runs_only P (runUCIBatch run b) (map uci b)"
proof -
  have "runs_only P (each (\<lambda>cmd. run_command run ''uci'' (Args cmd)) b) (concat (map (\<lambda>cmd. [uci cmd]) b))"
    by (rule runs_only_each) (use assms in \<open>auto simp: uci_def intro!: runs_only_command\<close>)
  then show ?thesis by (simp add: runUCIBatch_def)
qed

lemma runs_only_weaken: "runs_only P m cs \<Longrightarrow> (\<And>r x. fst (m r) \<noteq> Inr x) \<Longrightarrow> runs_only P m (cs @ ds)"
  unfolding runs_only_def by (metis prefix_append prefix_order.trans prefixI)

lemma runs_only_delete: "runs_only effective (deleteIfPresent run n) []"
proof (rule runs_onlyI)
  fix r
  obtain x r' where g: "run ''uci'' [''get'', ''network.'' @ n] r = (x, r')" by fastforce
  obtain y r'' where d: "run_command run ''uci'' [''delete'', ''network.'' @ n] r' = (y, r'')" by fastforce
  obtain es where es: "log r'' = log r' @ es" "prefix (filter effective es) []"
    using runs_onlyE [OF runs_only_silent [where P = effective, OF effective_delete] d] by blast
  show "\<exists>ds. log (snd (deleteIfPresent run n r)) = log r @ ds \<and> prefix (filter effective ds) []
      \<and> (\<forall>x. fst (deleteIfPresent run n r) = Inr x \<longrightarrow> filter effective ds = [])"
    using log_run' [OF g] g d es
    by (cases x) (auto simp: deleteIfPresent_def effective_def mkcall_def has_prefix_def)
qed

lemma runs_only_deletes: "runs_only effective (each (deleteIfPresent run) ns) []"
proof -
  have "concat (map (\<lambda>_. []) ns) = ([] :: Call list)" by simp
  then show ?thesis using runs_only_each [of ns effective "deleteIfPresent run" "\<lambda>_. []"] runs_only_delete by metis
qed

lemma runs_only_deleteSections: "runs_only effective (deleteSections run s) []"
proof -
  have "runs_only effective (if sec_Interface s \<noteq> [] then deleteIfPresent run (sec_Interface s) else ret ()) []"
    by (simp add: runs_only_delete runs_only_ret)
  then have "runs_only effective (deleteSections run s) ([] @ [] @ [])"
    unfolding deleteSections_def by (intro runs_only_then runs_only_deletes)
  then show ?thesis by simp
qed

lemma runs_only_create:
  "runs_only effective (createInterface run name i) (map uci (BuildInterface name i))"
  using runs_only_then [OF runs_only_deletes runs_only_batch [of _ effective], of "BuildInterface name i"]
  unfolding createInterface_def clearListOptions_def by (simp add: effective_BuildInterface)

lemma runs_only_content: "runs_only effective (create_content run i)
   (case id_Content i of None \<Rightarrow> [] | Some c \<Rightarrow> map uci (BuildInterface (id_Name i) c))"
  by (cases "id_Content i") (simp_all add: create_content_def runs_only_create, simp add: runs_only_def)

lemma runs_only_write: "runs_only effective (write_one run i) (batch_of i)"
  using runs_only_content [of i] runs_only_then [OF runs_only_deleteSections runs_only_content [of i], of "id_Sections i"]
  by (cases "id_Change i") (simp_all add: write_one_def batch_of_def creates_def runs_only_deleteSections runs_only_ret)

lemma runs_only_writeUCI: "runs_only effective (writeUCI run d) (concat (map batch_of (d_Interfaces d)))"
  unfolding writeUCI_def by (rule runs_only_each) (rule runs_only_write)

section \<open>The firewall\<close>

lemma runs_only_fw_members: "runs_only effective (fw_members run d ms)
   (map (\<lambda>n. uci (RemoveFirewallZoneNetwork n)) (fw_toRemove d ms)
    @ concat (map (\<lambda>n. [uci (RemoveFirewallZoneNetwork n), uci (AddFirewallZoneNetwork n)]) (fw_toAdd d ms)))"
proof -
  have 1: "runs_only effective (run_command run ''uci'' (removeFirewallNetworkArgs n)) [uci (RemoveFirewallZoneNetwork n)]"
    "runs_only effective (run_command run ''uci'' (addFirewallNetworkArgs n)) [uci (AddFirewallZoneNetwork n)]" for n
    unfolding removeFirewallNetworkArgs_def addFirewallNetworkArgs_def uci_def
    by (rule runs_only_command, simp add: RemoveFirewallZoneNetwork_def AddFirewallZoneNetwork_def effective_writes flip: uci_def)+
  have 2: "runs_only effective (each (\<lambda>n. run_command run ''uci'' (removeFirewallNetworkArgs n)) ns)
      (map (\<lambda>n. uci (RemoveFirewallZoneNetwork n)) ns)" for ns
    using runs_only_each [of ns, OF 1(1)] by simp
  have 3: "runs_only effective (andThen (run_command run ''uci'' (removeFirewallNetworkArgs n))
      (\<lambda>_. run_command run ''uci'' (addFirewallNetworkArgs n)))
      [uci (RemoveFirewallZoneNetwork n), uci (AddFirewallZoneNetwork n)]" for n
    using runs_only_then [OF 1(1) 1(2)] by simp
  have "runs_only effective (fw_members run d ms)
     (map (\<lambda>n. uci (RemoveFirewallZoneNetwork n)) (fw_toRemove d ms)
      @ concat (map (\<lambda>n. [uci (RemoveFirewallZoneNetwork n), uci (AddFirewallZoneNetwork n)]) (fw_toAdd d ms)) @ [])"
    unfolding fw_members_def Let_def
    by (intro runs_only_then 2 runs_only_each 3 runs_only_ret)
  then show ?thesis by simp
qed

lemma runs_only_zone_create: "runs_only effective (runFirewallZoneCreate run)
   (map uci (BuildFirewallZoneCreate @ BuildFirewallForwardingsCreate))"
  unfolding runFirewallZoneCreate_def map_append
  by (intro runs_only_then runs_only_batch)
    (auto intro!: effective_writes intro: writes_zone)

lemma runs_only_zone_delete: "runs_only effective (andThen (runUCIBatch run DeleteFirewallForwardings) (\<lambda>_.
    andThen (run_command run ''uci'' deleteFirewallZoneArgs) (\<lambda>_. ret x)))
   (map uci (DeleteFirewallForwardings @ [DeleteFirewallZone]))"
proof -
  have 1: "runs_only effective (run_command run ''uci'' deleteFirewallZoneArgs) [uci DeleteFirewallZone]"
    unfolding deleteFirewallZoneArgs_def uci_def
    by (rule runs_only_command) (simp add: DeleteFirewallZone_def flip: uci_def)
  have "runs_only effective (andThen (runUCIBatch run DeleteFirewallForwardings) (\<lambda>_.
    andThen (run_command run ''uci'' deleteFirewallZoneArgs) (\<lambda>_. ret x)))
   (map uci DeleteFirewallForwardings @ [uci DeleteFirewallZone] @ [])"
    by (intro runs_only_then runs_only_batch 1 runs_only_ret) (auto simp: DeleteFirewallForwardings_def)
  then show ?thesis by simp
qed

lemma fw_ran_only:
  assumes "runs_only effective m (fw_stage_plan d fw found)" and "m r = (x, r')"
    and "\<And>v. x = Inr v \<Longrightarrow> snd v" and "fw_changes d fw found"
  shows "\<exists>es. log r' = log r @ es \<and> fw_ran d fw found x es"
proof -
  obtain es where "log r' = log r @ es" "prefix (filter effective es) (fw_stage_plan d fw found)"
    "\<And>v. x = Inr v \<Longrightarrow> filter effective es = fw_stage_plan d fw found"
    using runs_onlyE [OF assms(1, 2)] by blast
  then show ?thesis using assms(3, 4) by (cases x) (auto simp: fw_ran_def)
qed

lemma fw_members_value: "fw_members run d ms r = (Inr v, r') \<Longrightarrow> snd v"
  by (auto simp: fw_members_def Let_def andThen_Inr)

text \<open>Whether the router answers that it has the zone.\<close>

definition zone_answer :: "'r \<Rightarrow> bool" where
  "zone_answer r = (\<not> isl (fst (run ''uci'' [''get'', ''firewall.stunmesh''] r)))"

lemma manageFirewall_foreign:
  assumes m: "manageFirewall run d fw r = (x, r')" and any: "anyInterfaceChanged d" and asks: "fw_asks d fw"
  shows "\<exists>es. log r' = log r @ zone_probe # es \<and> fw_ran d fw (zone_answer r) x (zone_probe # es)"
proof -
  let ?ms = "of_opt (fw_Members fw)"
  have c: "kept d \<noteq> []" "fw_toAdd d ?ms \<noteq> [] \<or> fw_toRemove d ?ms \<noteq> []" "\<not> fw_ZoneOwned fw"
    using asks by (auto simp: fw_asks_def fw_cases)
  obtain y r1 where g: "run ''uci'' [''get'', ''firewall.stunmesh''] r = (y, r1)" by fastforce
  let ?m = "andThen (runFirewallZoneCreate run) (\<lambda>_. fw_members run d ?ms)"
  have e: "manageFirewall run d fw r = (if isl y then ?m r1 else (Inr (zero_firewall, False), r1))"
    using c g by (auto simp: manageFirewall_def andThen_def firewallZonePresent_def FirewallZoneName_def)
  have l: "log r1 = log r @ [zone_probe]" unfolding zone_probe_def by (rule log_run' [OF g])
  have ans: "zone_answer r = (\<not> isl y)" using g by (simp add: zone_answer_def)
  show ?thesis
  proof (cases "isl y")
    case False
    then show ?thesis using m e l ans c asks
      by (auto simp: fw_ran_def fw_stage_plan_def fw_changes_def fw_cases)
  next
    case True
    have ch: "fw_changes d fw False" using c any by (auto simp: fw_changes_def fw_cases)
    have only: "runs_only effective ?m (fw_plan d fw)"
      using runs_only_then [OF runs_only_zone_create runs_only_fw_members [of d ?ms]] c by (simp add: fw_plan_eq Let_def)
    have m1: "?m r1 = (x, r')" using m e True by simp
    obtain es where es: "log r' = log r1 @ es" "prefix (filter effective es) (fw_plan d fw)"
      "\<And>v. x = Inr v \<Longrightarrow> filter effective es = fw_plan d fw"
      using runs_onlyE [OF only m1] by blast
    have "snd v" if "x = Inr v" for v
      using m1 that by (auto simp: andThen_Inr simp del: split_paired_All dest: fw_members_value)
    then have "fw_ran d fw False x (zone_probe # es)"
      using es(2, 3) ch asks by (cases x) (auto simp: fw_ran_def fw_stage_plan_def)
    then show ?thesis using es(1) l ans True by simp
  qed
qed

lemma manageFirewall_ran:
  assumes m: "manageFirewall run d fw r = (x, r')" and any: "anyInterfaceChanged d"
  shows "\<exists>es. log r' = log r @ es \<and> fw_ran d fw (zone_answer r) x es \<and> (fw_asks d fw \<longrightarrow> (\<exists>ds. es = zone_probe # ds))"
proof -
  let ?ms = "of_opt (fw_Members fw)"
  let ?p = "zone_answer r"
  consider (gone) "kept d = []" "fw_ZoneOwned fw"
    | (nothing) "kept d = []" "\<not> fw_ZoneOwned fw" | (same) "kept d \<noteq> []" "fw_toAdd d ?ms = []" "fw_toRemove d ?ms = []"
    | (owned) "kept d \<noteq> []" "fw_toAdd d ?ms \<noteq> [] \<or> fw_toRemove d ?ms \<noteq> []" "fw_ZoneOwned fw"
    | (foreign) "fw_asks d fw"
    using any by (auto simp: fw_asks_def fw_cases)
  then show ?thesis
  proof cases
    case gone
    then have e: "manageFirewall run d fw = andThen (runUCIBatch run DeleteFirewallForwardings) (\<lambda>_.
        andThen (run_command run ''uci'' deleteFirewallZoneArgs) (\<lambda>_. ret (zero_firewall, True)))"
      and p: "fw_stage_plan d fw ?p = map uci (DeleteFirewallForwardings @ [DeleteFirewallZone])" "\<not> fw_asks d fw"
      and c: "fw_changes d fw ?p"
      using any by (simp_all add: manageFirewall_def fw_stage_plan_def fw_asks_def fw_changes_def fw_plan_def fw_cases)
    have "snd v" if "x = Inr v" for v using m e that by (auto simp: andThen_Inr)
    then show ?thesis
      using fw_ran_only [OF runs_only_zone_delete [where x = "(zero_firewall, True)", folded p(1) e] m _ c] p(2) by blast
  next
    case nothing
    then show ?thesis using m
      by (auto simp: manageFirewall_def fw_ran_def fw_stage_plan_def fw_asks_def fw_changes_def fw_cases)
  next
    case same
    then show ?thesis using m
      by (auto simp: manageFirewall_def fw_ran_def fw_stage_plan_def fw_asks_def fw_changes_def fw_cases)
  next
    case owned
    then have e: "manageFirewall run d fw = fw_members run d ?ms" by (auto simp: manageFirewall_def)
    have c: "fw_changes d fw ?p" "\<not> fw_asks d fw" using owned any by (auto simp: fw_changes_def fw_asks_def fw_cases)
    have "runs_only effective (fw_members run d ?ms) (fw_stage_plan d fw ?p)"
      using runs_only_fw_members [of d ?ms] owned c by (simp add: fw_stage_plan_def fw_plan_eq Let_def)
    then obtain es where "log r' = log r @ es" "fw_ran d fw ?p x es"
      using fw_ran_only [where m = "fw_members run d ?ms" and found = ?p] c(1) fw_members_value m e by metis
    then show ?thesis using c(2) by blast
  next
    case foreign
    then show ?thesis using manageFirewall_foreign [OF m any] by blast
  qed
qed

section \<open>The whole sequence\<close>

lemma runs_only_revert:
  assumes "runs_only effective m cs" and "\<And>r. \<exists>ds. log (g r) = log r @ ds \<and> filter effective ds = []"
  shows "runs_only effective (or_revert m g) cs"
proof (rule runs_onlyI)
  fix r
  obtain x r' where m: "m r = (x, r')" by fastforce
  obtain es where es: "log r' = log r @ es" "prefix (filter effective es) cs" "\<And>v. x = Inr v \<Longrightarrow> filter effective es = cs"
    using runs_onlyE [OF assms(1) m] by blast
  obtain ds where "log (g r') = log r' @ ds" "filter effective ds = []" using assms(2) by blast
  then show "\<exists>ds. log (snd (or_revert m g r)) = log r @ ds \<and> prefix (filter effective ds) cs
      \<and> (\<forall>x. fst (or_revert m g r) = Inr x \<longrightarrow> filter effective ds = cs)"
    using m es by (cases x) (auto simp: or_revert_def)
qed

lemma log_revert: "log (revertUCI run c r) = log r @ [mkcall ''uci'' [''revert'', c]]"
  by (simp add: revertUCI_def log_run)

lemma log_revert_both: "log (revert_both run r) = log r @ [mkcall ''uci'' [''revert'', ''network''], mkcall ''uci'' [''revert'', ''firewall'']]"
  by (simp add: revert_both_def log_revert)

lemma runs_only_at_step: "runs_only P m cs \<Longrightarrow> runs_only P (at_step e m) cs"
  unfolding at_step_def by (rule runs_only_wrap)

lemma runs_only_when: "(c \<Longrightarrow> runs_only P m cs) \<Longrightarrow> runs_only P (if c then m else ret x) (if c then cs else [])"
  by (simp add: runs_only_ret)

lemma runs_only_stage: "runs_only effective (stage_network run d) (concat (map batch_of (d_Interfaces d)))"
  unfolding stage_network_def
  by (rule runs_only_revert [OF runs_only_at_step [OF runs_only_writeUCI]]) (simp add: log_revert)

lemma runs_only_ifup:
  "runs_only effective (ifupChangedInterfaces run d) (map (\<lambda>i. mkcall ''ifup'' [id_Name i]) (filter creates (d_Interfaces d)))"
proof -
  have "runs_only effective (ifup_one run i) (if creates i then [mkcall ''ifup'' [id_Name i]] else [])" for i
    by (auto simp: ifup_one_def creates_def intro: runs_only_command runs_only_ret)
  then have "runs_only effective (ifupChangedInterfaces run d)
      (concat (map (\<lambda>i. if creates i then [mkcall ''ifup'' [id_Name i]] else []) (d_Interfaces d)))"
    unfolding ifupChangedInterfaces_def by (intro runs_only_each)
  moreover have "concat (map (\<lambda>i. if creates i then [mkcall ''ifup'' [id_Name i]] else []) xs)
      = map (\<lambda>i. mkcall ''ifup'' [id_Name i]) (filter creates xs)" for xs
    by (induction xs) auto
  ultimately show ?thesis by metis
qed

lemma runs_only_activate: "runs_only effective (activate run d changed) (activate_plan d changed)"
  unfolding activate_def activate_plan_def
  by (intro runs_only_then runs_only_when runs_only_revert runs_only_at_step runs_only_command runs_only_ifup)
    (simp_all add: log_revert log_revert_both)

lemma stage_firewall_ran:
  assumes "stage_firewall run d fw r = (x, r')"
  shows "\<exists>es. log r' = log r @ es \<and> (case x of Inl _ \<Rightarrow> prefix (filter effective es) (fw_stage_plan d fw (zone_answer r))
     | Inr (_, changed) \<Rightarrow> changed = fw_changes d fw (zone_answer r) \<and> filter effective es = fw_stage_plan d fw (zone_answer r))
     \<and> (fw_asks d fw \<longrightarrow> (\<exists>ds. es = zone_probe # ds))"
proof (cases "anyInterfaceChanged d")
  case False
  then show ?thesis using assms
    by (auto simp: stage_firewall_def fw_stage_plan_def fw_asks_def fw_changes_def fw_cases)
next
  case True
  obtain y r1 where m: "manageFirewall run d fw r = (y, r1)" by fastforce
  obtain es where "log r1 = log r @ es" "fw_ran d fw (zone_answer r) y es" "fw_asks d fw \<longrightarrow> (\<exists>ds. es = zone_probe # ds)"
    using manageFirewall_ran [OF m True] by blast
  then show ?thesis
    using assms True m by (cases y) (auto simp: stage_firewall_def or_revert_def at_step_def wrap_def
        log_revert_both fw_ran_def split: if_splits)
qed

lemma uci_not_probe: "hd (Args cmd) \<noteq> ''get'' \<Longrightarrow> uci cmd \<noteq> zone_probe"
  by (auto simp: uci_def zone_probe_def mkcall_def)

lemma writes_not_probe: "writes cmd \<Longrightarrow> uci cmd \<noteq> zone_probe"
  by (rule uci_not_probe) (auto simp: writes_def)

lemma batches_no_probe: "zone_probe \<notin> set (concat (map batch_of is))"
proof -
  have not: "zone_probe \<notin> uci ` set (BuildInterface n c)" for n c
    using writes_not_probe [OF writes_BuildInterface] by (metis imageE)
  have "zone_probe \<notin> set (batch_of i)" for i
    unfolding batch_of_def
    by (cases "creates i"; cases "id_Content i") (simp_all only: not if_True if_False option.case list.set list.set_map empty_iff not_False_eq_True)
  then show ?thesis by simp
qed

lemma fw_plan_no_probe: "zone_probe \<notin> set (fw_plan d fw)"
proof -
  have "zone_probe \<noteq> uci cmd" if "cmd \<in> set (DeleteFirewallForwardings @ [DeleteFirewallZone])" for cmd
    using that uci_not_probe [of cmd] by (auto simp: DeleteFirewallForwardings_def DeleteFirewallZone_def deleteCmd_def)
  moreover have "zone_probe \<noteq> uci (RemoveFirewallZoneNetwork n)" "zone_probe \<noteq> uci (AddFirewallZoneNetwork n)" for n
    using uci_not_probe [of "RemoveFirewallZoneNetwork n"] uci_not_probe [of "AddFirewallZoneNetwork n"]
    by (auto simp: RemoveFirewallZoneNetwork_def AddFirewallZoneNetwork_def delListCmd_def addListCmd_def)
  moreover have "zone_probe \<noteq> uci cmd" if "cmd \<in> set (BuildFirewallZoneCreate @ BuildFirewallForwardingsCreate)" for cmd
    using writes_not_probe [OF writes_zone [OF that]] by (rule not_sym)
  ultimately show ?thesis
    by (simp add: fw_plan_def Let_def image_iff Ball_def)
qed

lemma stage_plan_probe: "zone_probe \<in> set (fw_stage_plan d fw p) \<Longrightarrow> fw_asks d fw"
  using fw_plan_no_probe by (auto simp: fw_stage_plan_def split: if_splits)

lemma activate_no_probe: "zone_probe \<notin> set (activate_plan d ch)"
  by (auto simp: activate_plan_def zone_probe_def mkcall_def)

lemma effective_prefix:
  "prefix (filter effective es) cs \<Longrightarrow> zone_probe \<in> set es \<Longrightarrow> zone_probe \<in> set cs"
  using set_mono_prefix by fastforce

lemma first_split:
  assumes "xs @ p # ys = xs' @ p # ys'" and "p \<notin> set xs" and "p \<notin> set xs'"
  shows "xs = xs'"
proof -
  have "takeWhile (\<lambda>c. c \<noteq> p) (zs @ p # ws) = zs" if "p \<notin> set zs" for zs ws
    using that by (induction zs) auto
  then show ?thesis using assms by metis
qed

text \<open>Up to the zone probe, if it ran, the log is that of staging the network.\<close>

lemma apply_commands_plan:
  assumes "apply_commands run d st r = (x, r')" and p: "p = zone_answer (snd (stage_network run d r))"
  shows "\<exists>es. log r' = log r @ es \<and> prefix (filter effective es) (plan d (st_Firewall st) p)
     \<and> (\<forall>fw. x = Inr fw \<longrightarrow> filter effective es = plan d (st_Firewall st) p)
     \<and> (\<forall>es1 es2. es = es1 @ zone_probe # es2 \<longrightarrow> zone_probe \<notin> set es1 \<longrightarrow> log (snd (stage_network run d r)) = log r @ es1)"
proof -
  obtain x1 r1 where 1: "stage_network run d r = (x1, r1)" by fastforce
  obtain x2 r2 where 2: "stage_firewall run d (st_Firewall st) r1 = (x2, r2)" by fastforce
  obtain es1 where es1: "log r1 = log r @ es1" "prefix (filter effective es1) (concat (map batch_of (d_Interfaces d)))"
    "\<And>v. x1 = Inr v \<Longrightarrow> filter effective es1 = concat (map batch_of (d_Interfaces d))"
    using runs_onlyE [OF runs_only_stage 1] by blast
  have no: "zone_probe \<notin> set es1" using effective_prefix [OF es1(2)] batches_no_probe by blast
  obtain es2 where es2: "log r2 = log r1 @ es2"
    "case x2 of Inl _ \<Rightarrow> prefix (filter effective es2) (fw_stage_plan d (st_Firewall st) p)
     | Inr (_, changed) \<Rightarrow> changed = fw_changes d (st_Firewall st) p \<and> filter effective es2 = fw_stage_plan d (st_Firewall st) p"
    "fw_asks d (st_Firewall st) \<longrightarrow> (\<exists>ds. es2 = zone_probe # ds)"
    using stage_firewall_ran [OF 2] 1 p by auto
  have split: "es1' = es1" if "zone_probe \<notin> set es3" "es1 @ es2 @ es3 = es1' @ zone_probe # es2'" "zone_probe \<notin> set es1'" for es1' es2' es3
  proof -
    have "zone_probe \<in> set es2" using no that by (metis UnE in_set_conv_decomp set_append)
    moreover have "prefix (filter effective es2) (fw_stage_plan d (st_Firewall st) p)"
      using es2(2) by (cases x2) auto
    ultimately obtain ds where "es2 = zone_probe # ds" using effective_prefix stage_plan_probe es2(3) by blast
    then show ?thesis using first_split [of es1 zone_probe "ds @ es3" es1' es2'] that(2, 3) no by simp
  qed
  show ?thesis
  proof (cases x1)
    case (Inl e)
    then have "r' = r1" "x = Inl e" using assms(1) 1 by (auto simp: apply_commands_def andThen_def)
    then show ?thesis
      by (intro exI [of _ es1] conjI allI impI) (use es1(1, 2) no in \<open>auto simp: plan_def\<close>)
  next
    case ok1: (Inr u)
    show ?thesis
    proof (cases x2)
      case (Inl e)
      then have "x = Inl e" "r' = r2" using assms(1) 1 2 ok1 by (auto simp: apply_commands_def andThen_def)
      moreover have "prefix (filter effective es2) (fw_stage_plan d (st_Firewall st) p)" using es2(2) Inl by simp
      moreover have "es1 @ es2 = es1' @ zone_probe # es2' \<Longrightarrow> zone_probe \<notin> set es1' \<Longrightarrow> es1' = es1" for es1' es2'
        using split [of "[]"] by simp
      moreover have "snd (stage_network run d r) = r1" using 1 by simp
      ultimately show ?thesis using es1(1) es1(3) [OF ok1] es2(1)
        by (intro exI [of _ "es1 @ es2"] conjI allI impI) (simp_all add: plan_def)
    next
      case ok2: (Inr fwc)
      obtain fw ch where fwc: "fwc = (fw, ch)" by fastforce
      obtain x3 r3 where 3: "activate run d ch r2 = (x3, r3)" by fastforce
      obtain es3 where es3: "log r3 = log r2 @ es3" "prefix (filter effective es3) (activate_plan d ch)"
        "\<And>v. x3 = Inr v \<Longrightarrow> filter effective es3 = activate_plan d ch"
        using runs_onlyE [OF runs_only_activate 3] by blast
      have no3: "zone_probe \<notin> set es3" using effective_prefix [OF es3(2)] activate_no_probe by blast
      have "r' = r3" "x = (case x3 of Inl e \<Rightarrow> Inl e | Inr _ \<Rightarrow> Inr fw)"
        using assms(1) 1 2 3 ok1 ok2 fwc by (auto simp: apply_commands_def andThen_def split: sum.splits)
      moreover have "ch = fw_changes d (st_Firewall st) p" "filter effective es2 = fw_stage_plan d (st_Firewall st) p"
        using es2(2) ok2 fwc by simp_all
      moreover have "snd (stage_network run d r) = r1" using 1 by simp
      ultimately show ?thesis using es1(1) es1(3) [OF ok1] es2(1) es3 split [OF no3]
        by (intro exI [of _ "es1 @ es2 @ es3"] conjI allI impI) (simp_all add: plan_def split: sum.splits)
    qed
  qed
qed

end

section \<open>What may be deleted\<close>

text \<open>The network paths an interface's entry may delete: its recorded sections when it changed or is gone,
  and the list options of the sections that are about to be created.\<close>

definition clears :: "InterfaceDiff \<Rightarrow> string set" where
  "clears i =
     (if id_Change i \<in> {InterfaceChanged, InterfaceRemoved}
      then set (of_opt (sec_Peers (id_Sections i)) @ of_opt (sec_Routes (id_Sections i)))
        \<union> (if sec_Interface (id_Sections i) \<noteq> [] then {sec_Interface (id_Sections i)} else {}) else {})
     \<union> (if creates i then (case id_Content i of None \<Rightarrow> {} | Some c \<Rightarrow> set (ListOptions (id_Name i) c)) else {})"

text \<open>Everything staging an interface may run: probes and deletes of those paths, and its batch.\<close>

definition stages :: "InterfaceDiff \<Rightarrow> Call \<Rightarrow> bool" where
  "stages i c = ((\<exists>n \<in> clears i. c = mkcall ''uci'' [''get'', ''network.'' @ n] \<or> c = mkcall ''uci'' [''delete'', ''network.'' @ n])
     \<or> c \<in> set (batch_of i))"

context command_log begin

lemma calls_in_command: "P (mkcall name args) \<Longrightarrow> calls_in P (run_command run name args)"
  unfolding run_command_def by (intro calls_in_then calls_in_wrap calls_in_run calls_in_ret)

lemma calls_in_batch: "(\<And>cmd. cmd \<in> set b \<Longrightarrow> P (uci cmd)) \<Longrightarrow> calls_in P (runUCIBatch run b)"
  unfolding runUCIBatch_def by (rule calls_in_each) (rule calls_in_command, simp flip: uci_def)

lemma calls_in_delete:
  assumes "P (mkcall ''uci'' [''get'', ''network.'' @ n])" and "P (mkcall ''uci'' [''delete'', ''network.'' @ n])"
  shows "calls_in P (deleteIfPresent run n)"
proof (rule calls_inI)
  fix r
  obtain x r' where g: "run ''uci'' [''get'', ''network.'' @ n] r = (x, r')" by fastforce
  obtain y r'' where d: "run_command run ''uci'' [''delete'', ''network.'' @ n] r' = (y, r'')" by fastforce
  obtain es where "log r'' = log r' @ es" "list_all P es"
    using calls_inD [OF calls_in_command [where P = P, OF assms(2)] d] by blast
  then show "\<exists>cs. log (snd (deleteIfPresent run n r)) = log r @ cs \<and> list_all P cs"
    using log_run' [OF g] g d assms(1) by (cases x) (auto simp: deleteIfPresent_def)
qed

lemma calls_in_deleteSections:
  assumes "\<And>n. n \<in> set (of_opt (sec_Peers s)) \<union> set (of_opt (sec_Routes s)) \<union> (if sec_Interface s \<noteq> [] then {sec_Interface s} else {})
      \<Longrightarrow> P (mkcall ''uci'' [''get'', ''network.'' @ n]) \<and> P (mkcall ''uci'' [''delete'', ''network.'' @ n])"
  shows "calls_in P (deleteSections run s)"
  unfolding deleteSections_def
proof (intro calls_in_then calls_in_each)
  show "calls_in P (deleteIfPresent run n)" if "n \<in> set (of_opt (sec_Peers s))" for n
    using assms [of n] that by (intro calls_in_delete) simp_all
  show "calls_in P (deleteIfPresent run n)" if "n \<in> set (of_opt (sec_Routes s))" for n
    using assms [of n] that by (intro calls_in_delete) simp_all
  have "calls_in P (deleteIfPresent run (sec_Interface s))" if "sec_Interface s \<noteq> []"
    using assms [of "sec_Interface s"] that by (intro calls_in_delete) simp_all
  then show "calls_in P (if sec_Interface s \<noteq> [] then deleteIfPresent run (sec_Interface s) else ret ())"
    by (simp add: calls_in_ret)
qed

lemma calls_in_content:
  assumes "creates i"
  shows "calls_in (stages i) (create_content run i)"
proof (cases "id_Content i")
  case None
  then show ?thesis by (auto simp: create_content_def)
next
  case (Some c)
  have "calls_in (stages i) (deleteIfPresent run n)" if "n \<in> set (ListOptions (id_Name i) c)" for n
    using that assms Some by (intro calls_in_delete) (auto simp: stages_def clears_def)
  moreover have "calls_in (stages i) (runUCIBatch run (BuildInterface (id_Name i) c))"
    using assms Some by (intro calls_in_batch) (simp add: stages_def batch_of_def)
  ultimately show ?thesis
    using Some by (auto simp: create_content_def createInterface_def clearListOptions_def)
qed

lemma calls_in_write: "calls_in (stages i) (write_one run i)"
proof -
  have del: "calls_in (stages i) (deleteSections run (id_Sections i))" if "id_Change i \<in> {InterfaceChanged, InterfaceRemoved}"
    by (rule calls_in_deleteSections) (use that in \<open>auto simp: stages_def clears_def\<close>)
  have "creates i" if "id_Change i \<in> {InterfaceChanged, InterfaceNew}" using that by (auto simp: creates_def)
  then show ?thesis using del calls_in_content
    by (cases "id_Change i") (auto simp: write_one_def simp del: step_simps)
qed

lemma calls_in_writeUCI: "calls_in (\<lambda>c. \<exists>i \<in> set (d_Interfaces d). stages i c) (writeUCI run d)"
  unfolding writeUCI_def by (rule calls_in_each) (rule calls_in_mono [OF calls_in_write], blast)

lemma calls_in_manageFirewall:
  assumes get: "P (mkcall ''uci'' [''get'', ''firewall.'' @ FirewallZoneName])"
    and w: "\<And>cmd. writes cmd \<Longrightarrow> P (uci cmd)" and d: "\<And>n. P (uci (RemoveFirewallZoneNetwork n))"
    and del: "\<And>cmd. cmd \<in> set (DeleteFirewallForwardings @ [DeleteFirewallZone]) \<Longrightarrow> kept diff = [] \<Longrightarrow> fw_ZoneOwned fw \<Longrightarrow> P (uci cmd)"
  shows "calls_in P (manageFirewall run diff fw)"
proof -
  have probe: "calls_in P (firewallZonePresent run)"
  proof (rule calls_inI)
    fix r
    obtain x r' where "run ''uci'' [''get'', ''firewall.'' @ FirewallZoneName] r = (x, r')" by fastforce
    then show "\<exists>cs. log (snd (firewallZonePresent run r)) = log r @ cs \<and> list_all P cs"
      using log_run' get by (auto simp: firewallZonePresent_def)
  qed
  have members: "calls_in P (fw_members run diff ms)" for ms
    unfolding fw_members_def Let_def removeFirewallNetworkArgs_def addFirewallNetworkArgs_def
    by (intro calls_in_then calls_in_each calls_in_command calls_in_ret)
      (use d w in \<open>simp_all add: AddFirewallZoneNetwork_def flip: uci_def\<close>)
  have create: "calls_in P (runFirewallZoneCreate run)"
    unfolding runFirewallZoneCreate_def by (intro calls_in_then calls_in_batch w) (auto intro: writes_zone)
  have delete: "calls_in P (andThen (runUCIBatch run DeleteFirewallForwardings) (\<lambda>_.
      andThen (run_command run ''uci'' deleteFirewallZoneArgs) (\<lambda>_. ret x)))" if "kept diff = []" "fw_ZoneOwned fw" for x :: "FirewallState \<times> bool"
    unfolding deleteFirewallZoneArgs_def
    by (intro calls_in_then calls_in_batch calls_in_command calls_in_ret) (use del that in \<open>auto simp flip: uci_def\<close>)
  have "calls_in P (andThen (firewallZonePresent run) (\<lambda>found. if found then ret (zero_firewall, False)
      else andThen (runFirewallZoneCreate run) (\<lambda>_. fw_members run diff ms)))" for ms
  proof (rule calls_in_then [OF probe])
    show "calls_in P (if found then ret (zero_firewall, False)
        else andThen (runFirewallZoneCreate run) (\<lambda>_. fw_members run diff ms))" for found
      using calls_in_then [OF create members] by (cases found) (simp_all add: calls_in_ret del: step_simps)
  qed
  then show ?thesis
    unfolding manageFirewall_def Let_def using delete members by (simp add: calls_in_ret del: step_simps)
qed

lemma calls_in_revert:
  assumes "calls_in P m" and "\<And>r. \<exists>cs. log (g r) = log r @ cs \<and> list_all P cs"
  shows "calls_in P (or_revert m g)"
proof (rule calls_inI)
  fix r
  obtain x r' where m: "m r = (x, r')" by fastforce
  obtain cs where "log r' = log r @ cs" "list_all P cs" using calls_inD [OF assms(1) m] by blast
  moreover obtain ds where "log (g r') = log r' @ ds" "list_all P ds" using assms(2) by blast
  ultimately show "\<exists>cs. log (snd (or_revert m g r)) = log r @ cs \<and> list_all P cs"
    using m by (cases x) (auto simp: or_revert_def)
qed

lemma calls_in_at_step: "calls_in P m \<Longrightarrow> calls_in P (at_step e m)"
  unfolding at_step_def by (rule calls_in_wrap)

lemma calls_in_activate:
  assumes "\<And>as. as \<in> {[''commit'', ''network''], [''commit'', ''firewall''], [''revert'', ''network''], [''revert'', ''firewall'']}
      \<Longrightarrow> P (mkcall ''uci'' as)" and "\<And>n as. n \<noteq> ''uci'' \<Longrightarrow> P (mkcall n as)"
  shows "calls_in P (activate run d changed)"
proof -
  have "calls_in P (ifupChangedInterfaces run d)"
    unfolding ifupChangedInterfaces_def
    by (rule calls_in_each) (use assms(2) in \<open>auto simp: ifup_one_def simp del: step_simps intro!: calls_in_command\<close>)
  moreover have "calls_in P (if changed then or_revert (at_step ACommitFirewall (run_command run ''uci'' [''commit'', ''firewall'']))
      (revertUCI run ''firewall'') else ret ())"
    by (cases changed) (use assms(1) in \<open>auto simp: log_revert simp del: step_simps intro!: calls_in_revert calls_in_at_step calls_in_command\<close>)
  moreover have "calls_in P (if changed then at_step AFwReload (run_command run ''/etc/init.d/firewall'' [''reload'']) else ret ())"
    by (cases changed) (use assms(2) in \<open>auto simp del: step_simps intro!: calls_in_at_step calls_in_command\<close>)
  ultimately show ?thesis
    unfolding activate_def using assms
    by (intro calls_in_then calls_in_revert calls_in_at_step calls_in_command) (auto simp: log_revert_both)
qed

end

end
