(* ===== verification/Apply_Props.thy ===== *)
theory Apply_Props
  imports Apply_State Apply_Commands
begin

text \<open>
  The properties of applyDiff: the order of its commands, what it may delete, what it reverts,
  when last.json changes, and that a successful apply leaves nothing to do.
\<close>

section \<open>Errors and the step they come from\<close>

lemma at_step_Inl: "at_step e m r = (Inl e', r') \<Longrightarrow> e' \<in> {e, APanic} \<and> (\<exists>u. m r = (Inl u, r') \<and> (e' = APanic \<longleftrightarrow> u = UPanic \<or> e = APanic))"
  by (auto simp: at_step_def split: uerr.splits) (metis uerr.exhaust)+

lemma or_revert_Inl: "or_revert m g r = (Inl e, r') \<longleftrightarrow>
    (\<exists>r1. m r = (Inl e, r1) \<and> r' = (if e = APanic then r1 else g r1))"
  by (auto simp: or_revert_def split: prod.splits sum.splits)

lemma stage_network_Inl: "stage_network run d r = (Inl e, r') \<Longrightarrow> e \<in> {AUci, APanic}"
  by (auto simp: stage_network_def or_revert_Inl dest: at_step_Inl)

lemma stage_firewall_Inl: "stage_firewall run d fw r = (Inl e, r') \<Longrightarrow> e \<in> {AFirewall, APanic}"
  by (auto simp: stage_firewall_def or_revert_Inl dest: at_step_Inl split: if_splits)

text \<open>The commands at which an error of the staging steps or of a commit ends.\<close>

definition rollback :: "aerr \<Rightarrow> Call list option" where
  "rollback e =
     (let n = mkcall ''uci'' [''revert'', ''network'']; f = mkcall ''uci'' [''revert'', ''firewall''] in
      case e of AUci \<Rightarrow> Some [n] | AFirewall \<Rightarrow> Some [n, f]
      | ACommitNetwork \<Rightarrow> Some [mkcall ''uci'' [''commit'', ''network''], n, f] | _ \<Rightarrow> None)"

definition is_commit :: "Call \<Rightarrow> bool" where
  "is_commit c = (call_Name c = ''uci'' \<and> (case call_Args c of a # _ \<Rightarrow> a = ''commit'' | [] \<Rightarrow> False))"

definition is_delete :: "Call \<Rightarrow> bool" where
  "is_delete c = (call_Name c = ''uci'' \<and> (case call_Args c of a # _ \<Rightarrow> a = ''delete'' | [] \<Rightarrow> False))"

lemma is_simps [simp]: "is_commit (mkcall n as) \<longleftrightarrow> n = ''uci'' \<and> as \<noteq> [] \<and> hd as = ''commit''"
  "is_delete (mkcall n as) \<longleftrightarrow> n = ''uci'' \<and> as \<noteq> [] \<and> hd as = ''delete''"
  by (cases as; auto simp: is_commit_def is_delete_def mkcall_def)+

lemma writes_is: "writes cmd \<Longrightarrow> \<not> is_commit (uci cmd) \<and> \<not> is_delete (uci cmd)"
  by (auto simp: writes_def uci_def)

lemma fw_commands_is: "\<not> is_commit (uci (RemoveFirewallZoneNetwork n))" "\<not> is_delete (uci (RemoveFirewallZoneNetwork n))"
  "cmd \<in> set (DeleteFirewallForwardings @ [DeleteFirewallZone]) \<Longrightarrow> \<not> is_commit (uci cmd)"
  by (auto simp: uci_def RemoveFirewallZoneNetwork_def DeleteFirewallForwardings_def DeleteFirewallZone_def
      delListCmd_def deleteCmd_def)

lemma batch_of_is: "c \<in> set (batch_of i) \<Longrightarrow> \<not> is_commit c \<and> \<not> is_delete c"
proof -
  assume "c \<in> set (batch_of i)"
  then obtain n b cmd where "cmd \<in> set (BuildInterface n b)" "c = uci cmd"
    unfolding batch_of_def by (cases "creates i"; cases "id_Content i") auto
  then show ?thesis using writes_is [OF writes_BuildInterface] by metis
qed

text \<open>The deletes an apply may run.\<close>

definition deletes_owned :: "Diff \<Rightarrow> FirewallState \<Rightarrow> Call \<Rightarrow> bool" where
  "deletes_owned d fw c = (\<not> is_delete c
     \<or> (\<exists>i \<in> set (d_Interfaces d). \<exists>n \<in> clears i. c = mkcall ''uci'' [''delete'', ''network.'' @ n])
     \<or> (kept d = [] \<and> fw_ZoneOwned fw \<and> c \<in> set (map uci (DeleteFirewallForwardings @ [DeleteFirewallZone]))))"

context command_log begin

lemma writeUCI_uncommitted: "calls_in (\<lambda>c. \<not> is_commit c) (writeUCI run d)"
  by (rule calls_in_mono [OF calls_in_writeUCI]) (auto simp: stages_def dest: batch_of_is)

lemma manageFirewall_uncommitted: "calls_in (\<lambda>c. \<not> is_commit c) (manageFirewall run d fw)"
  by (rule calls_in_manageFirewall) (use writes_is fw_commands_is in \<open>auto simp del: append_Cons\<close>)

lemma stage_network_deletes: "calls_in (deletes_owned d fw) (stage_network run d)"
  unfolding stage_network_def
  by (rule calls_in_revert [OF calls_in_at_step [OF calls_in_mono [OF calls_in_writeUCI]]])
    (auto simp: stages_def deletes_owned_def log_revert dest: batch_of_is)

lemma stage_firewall_deletes: "calls_in (deletes_owned d fw) (stage_firewall run d fw)"
proof -
  have "calls_in (deletes_owned d fw) (or_revert (at_step AFirewall (manageFirewall run d fw)) (revert_both run))"
    by (intro calls_in_revert calls_in_at_step calls_in_manageFirewall)
      (auto simp: deletes_owned_def log_revert_both writes_is fw_commands_is)
  then show ?thesis by (simp add: stage_firewall_def calls_in_ret del: step_simps)
qed

lemma apply_commands_deletes: "calls_in (deletes_owned d (st_Firewall st)) (apply_commands run d st)"
  unfolding apply_commands_def
proof (intro calls_in_then stage_network_deletes stage_firewall_deletes)
  have "calls_in (deletes_owned d (st_Firewall st)) (andThen (activate run d ch) (\<lambda>_. ret fw))" for fw ch
    by (intro calls_in_then calls_in_activate calls_in_ret) (auto simp: deletes_owned_def)
  then show "calls_in (deletes_owned d (st_Firewall st)) (case x of (fw, ch) \<Rightarrow> andThen (activate run d ch) (\<lambda>_. ret fw))" for x
    by (cases x) simp
qed

lemma stage_network_rollback:
  assumes "stage_network run d r = (Inl AUci, r')"
  shows "\<exists>es. log r' = log r @ es @ [mkcall ''uci'' [''revert'', ''network'']] \<and> list_all (\<lambda>c. \<not> is_commit c) es"
proof -
  obtain r1 where m: "at_step AUci (writeUCI run d) r = (Inl AUci, r1)" and r': "r' = revertUCI run ''network'' r1"
    using assms by (auto simp: stage_network_def or_revert_Inl)
  show ?thesis using calls_inD [OF calls_in_at_step [OF writeUCI_uncommitted] m] r' log_revert by auto
qed

lemma stage_network_uncommitted:
  assumes "stage_network run d r = (Inr v, r')"
  shows "\<exists>es. log r' = log r @ es \<and> list_all (\<lambda>c. \<not> is_commit c) es"
proof -
  have "at_step AUci (writeUCI run d) r = (Inr v, r')"
    using assms by (auto simp: stage_network_def or_revert_def split: prod.splits sum.splits)
  then show ?thesis using calls_inD [OF calls_in_at_step [OF writeUCI_uncommitted]] by blast
qed

lemma stage_firewall_rollback:
  assumes "stage_firewall run d fw r = (Inl AFirewall, r')"
  shows "\<exists>es. log r' = log r @ es @ [mkcall ''uci'' [''revert'', ''network''], mkcall ''uci'' [''revert'', ''firewall'']]
     \<and> list_all (\<lambda>c. \<not> is_commit c) es"
proof -
  obtain r1 where m: "at_step AFirewall (manageFirewall run d fw) r = (Inl AFirewall, r1)" and r': "r' = revert_both run r1"
    using assms by (auto simp: stage_firewall_def or_revert_Inl split: if_splits)
  show ?thesis using calls_inD [OF calls_in_at_step [OF manageFirewall_uncommitted] m] r' log_revert_both by auto
qed

lemma stage_firewall_uncommitted:
  assumes "stage_firewall run d fw r = (Inr v, r')"
  shows "\<exists>es. log r' = log r @ es \<and> list_all (\<lambda>c. \<not> is_commit c) es"
proof (cases "anyInterfaceChanged d")
  case False
  then show ?thesis using assms by (simp add: stage_firewall_def)
next
  case True
  then have "at_step AFirewall (manageFirewall run d fw) r = (Inr v, r')"
    using assms by (auto simp: stage_firewall_def or_revert_def split: prod.splits sum.splits)
  then show ?thesis using calls_inD [OF calls_in_at_step [OF manageFirewall_uncommitted]] by blast
qed

lemma activate_rollback:
  assumes "activate run d ch r = (Inl e, r')" and "rollback e = Some zs"
  shows "e = ACommitNetwork \<and> log r' = log r @ zs"
proof -
  let ?c = "at_step ACommitNetwork (run_command run ''uci'' [''commit'', ''network''])"
  have "e \<notin> {AUci, AFirewall}"
    using assms(1) by (auto simp: activate_def andThen_Inl or_revert_Inl dest!: at_step_Inl split: if_splits)
  then have e: "e = ACommitNetwork" using assms(2) by (cases e) (auto simp: rollback_def Let_def)
  then have "or_revert ?c (revert_both run) r = (Inl ACommitNetwork, r')"
    using assms(1) by (auto simp: activate_def andThen_Inl or_revert_Inl dest!: at_step_Inl split: if_splits)
  then obtain r1 where c: "?c r = (Inl ACommitNetwork, r1)" and r': "r' = revert_both run r1"
    by (auto simp: or_revert_Inl)
  obtain x where "run ''uci'' [''commit'', ''network''] r = (x, r1)"
    using at_step_Inl [OF c] by (auto simp: run_command_def andThen_Inl)
  from log_run' [OF this] show ?thesis using e r' assms(2) by (simp add: log_revert_both rollback_def Let_def)
qed

lemma apply_commands_rollback:
  assumes "apply_commands run d st r = (Inl e, r')" and "rollback e = Some zs"
  shows "\<exists>es. log r' = log r @ es @ zs \<and> list_all (\<lambda>c. \<not> is_commit c) es"
proof -
  obtain x1 r1 where 1: "stage_network run d r = (x1, r1)" by fastforce
  obtain x2 r2 where 2: "stage_firewall run d (st_Firewall st) r1 = (x2, r2)" by fastforce
  show ?thesis
  proof (cases x1)
    case (Inl e1)
    then have "e1 = e" "r' = r1" using assms(1) 1 by (auto simp: apply_commands_def andThen_def)
    moreover have "e = AUci" using stage_network_Inl [of run d r e1 r1] 1 Inl calculation assms(2)
      by (auto simp: rollback_def Let_def)
    ultimately show ?thesis using stage_network_rollback [of d r r1] 1 Inl assms(2) by (simp add: rollback_def Let_def)
  next
    case ok1: (Inr u)
    obtain es1 where es1: "log r1 = log r @ es1" "list_all (\<lambda>c. \<not> is_commit c) es1"
      using stage_network_uncommitted 1 ok1 by blast
    show ?thesis
    proof (cases x2)
      case (Inl e2)
      then have "e2 = e" "r' = r2" using assms(1) 1 2 ok1 by (auto simp: apply_commands_def andThen_def)
      moreover have "e = AFirewall" using stage_firewall_Inl [of run d "st_Firewall st" r1 e2 r2] 2 Inl calculation assms(2)
        by (auto simp: rollback_def Let_def)
      ultimately obtain es2 where "log r' = log r1 @ es2 @ zs" "list_all (\<lambda>c. \<not> is_commit c) es2"
        using stage_firewall_rollback [of d _ r1 r2] 2 Inl assms(2) by (auto simp: rollback_def Let_def)
      then show ?thesis using es1 by (intro exI [of _ "es1 @ es2"]) simp
    next
      case ok2: (Inr fwc)
      obtain fw ch where fwc: "fwc = (fw, ch)" by fastforce
      obtain es2 where es2: "log r2 = log r1 @ es2" "list_all (\<lambda>c. \<not> is_commit c) es2"
        using stage_firewall_uncommitted 2 ok2 by blast
      have "activate run d ch r2 = (Inl e, r')"
        using assms(1) 1 2 ok1 ok2 fwc by (auto simp: apply_commands_def andThen_def split: prod.splits sum.splits)
      then have "log r' = log r2 @ zs" using activate_rollback assms(2) by blast
      then show ?thesis using es1 es2 by (intro exI [of _ "es1 @ es2"]) simp
    qed
  qed
qed

end

section \<open>An apply that meets no failure\<close>

definition always :: "('s, 'e, 'a) step \<Rightarrow> bool" where
  "always m = (\<forall>s. \<not> isl (fst (m s)))"

lemma always_ret: "always (ret x)"
  by (simp add: always_def)

lemma always_then: "always m \<Longrightarrow> (\<And>x. always (f x)) \<Longrightarrow> always (andThen m f)"
  unfolding always_def andThen_def by (auto split: prod.splits sum.splits) (metis fst_conv sum.disc(1))

lemma always_each: "(\<And>x. x \<in> set xs \<Longrightarrow> always (f x)) \<Longrightarrow> always (each f xs)"
proof (induction xs)
  case Nil
  then show ?case by (simp add: always_def)
next
  case (Cons x xs)
  then show ?case by (simp add: always_then)
qed

lemma always_wrap: "always m \<Longrightarrow> always (wrap g m)"
  unfolding always_def wrap_def by (auto split: prod.splits sum.splits) (metis fst_conv sum.disc(1))

lemma always_revert: "always m \<Longrightarrow> always (or_revert m g)"
  unfolding always_def or_revert_def by (auto split: prod.splits sum.splits) (metis fst_conv sum.disc(1))

text \<open>A runner no command of which fails.\<close>

definition reliable :: "'r runner \<Rightarrow> bool" where
  "reliable run = (\<forall>name args. always (run name args))"

lemma always_command: "reliable run \<Longrightarrow> always (run_command run name args)"
  unfolding run_command_def reliable_def by (intro always_then always_wrap always_ret) blast

lemma always_batch: "reliable run \<Longrightarrow> always (runUCIBatch run b)"
  unfolding runUCIBatch_def by (intro always_each always_command)

lemma always_delete: "reliable run \<Longrightarrow> always (deleteIfPresent run n)"
  using always_command unfolding always_def deleteIfPresent_def by (auto split: prod.splits sum.splits)

lemmas always_basic = always_ret always_then always_each always_command always_batch always_delete always_wrap always_revert

lemma always_deleteSections: "reliable run \<Longrightarrow> always (deleteSections run s)"
  unfolding deleteSections_def
  by (intro always_then always_each) (simp_all add: always_basic del: step_simps)

lemma always_write: "reliable run \<Longrightarrow> has_content i \<Longrightarrow> always (write_one run i)"
  by (cases "id_Change i"; cases "id_Content i")
    (auto simp: write_one_def create_content_def createInterface_def clearListOptions_def has_content_def
      simp del: step_simps intro!: always_basic always_deleteSections)

lemma always_manageFirewall:
  assumes ok: "reliable run"
  shows "always (manageFirewall run d fw)"
proof -
  have members: "always (fw_members run d ms)" for ms
    unfolding fw_members_def Let_def using ok by (intro always_basic)
  have create: "always (andThen (runFirewallZoneCreate run) (\<lambda>_. fw_members run d ms))" for ms
    unfolding runFirewallZoneCreate_def using ok by (intro always_then always_batch members)
  have probe: "always (firewallZonePresent run)"
    by (auto simp: always_def firewallZonePresent_def split: prod.splits)
  have "always (andThen (firewallZonePresent run) (\<lambda>present. if present then ret (zero_firewall, False)
      else andThen (runFirewallZoneCreate run) (\<lambda>_. fw_members run d ms)))" for ms
    by (intro always_then probe) (simp add: create always_ret del: step_simps)
  moreover have "always (andThen (runUCIBatch run DeleteFirewallForwardings) (\<lambda>_.
      andThen (run_command run ''uci'' deleteFirewallZoneArgs) (\<lambda>_. ret x)))" for x :: "FirewallState \<times> bool"
    using ok by (intro always_then always_batch always_command always_ret)
  ultimately show ?thesis
    unfolding manageFirewall_def Let_def using members by (simp add: always_ret del: step_simps)
qed

lemma always_apply_commands:
  assumes ok: "reliable run" and "\<And>i. i \<in> set (d_Interfaces d) \<Longrightarrow> has_content i"
  shows "always (apply_commands run d st)"
proof -
  have 1: "always (stage_network run d)"
    unfolding stage_network_def at_step_def writeUCI_def
    by (intro always_revert always_wrap always_each always_write assms)
  have 2: "always (stage_firewall run d fw)" for fw
    unfolding stage_firewall_def at_step_def
    by (simp add: always_basic always_manageFirewall ok del: step_simps)
  have "always (ifupChangedInterfaces run d)"
    unfolding ifupChangedInterfaces_def ifup_one_def
    by (intro always_each) (simp add: always_basic ok del: step_simps)
  then have 3: "always (activate run d ch)" for ch
    unfolding activate_def at_step_def
    by (cases ch) (simp_all add: always_basic ok del: step_simps)
  show ?thesis
    unfolding apply_commands_def
    by (intro always_then 1 2) (simp add: always_then 3 always_ret split: prod.splits del: step_simps)
qed

text \<open>Replacing a file when no call fails and no temporary file is left over.\<close>

definition no_temps :: "string \<Rightarrow> string \<Rightarrow> fs \<Rightarrow> bool" where
  "no_temps pat path s = (\<forall>p. has_prefix p (temp_base (filepath_Dir path) pat) \<longrightarrow> fs_files s p = None)"

lemma replace_file_ok:
  assumes "fs_faults s = []" and "no_temps pat path s" and "not_temp pat path"
  shows "\<exists>s'. replace_file pat path data s = (Inr (), s') \<and> fs_faults s' = []"
proof -
  let ?t = "temp_base (filepath_Dir path) pat @ show_nat (fs_seed s)"
  have ne: "?t \<noteq> path" using assms(3) by (metis has_prefix_append not_temp_def)
  have "fs_files s ?t = None" using assms(2) by (simp add: no_temps_def)
  then have "temp_name 10000 (fs_files s) (temp_base (filepath_Dir path) pat) (fs_seed s) = Some (?t, Suc (fs_seed s))"
    by (subst temp_name_first) simp_all
  then show ?thesis
    using assms(1) ne by (simp add: replace_file_def os_CreateTemp_def replace_body_def fill_def andThen_def wrap_def os_Chmod_def
        os_Write_def os_Sync_def os_Close_def os_Rename_def os_Remove_def Let_def split: prod.splits)
qed

lemma applyStunmeshConfig_ok:
  assumes "fs_faults s = []" and "no_temps ''.stunmesh-config.tmp-'' wp s" and "not_temp ''.stunmesh-config.tmp-'' wp"
  shows "\<exists>s'. applyStunmeshConfig wp d s = (Inr (), s') \<and> fs_faults s' = [] \<and> (\<forall>p. p \<noteq> wp \<longrightarrow> fs_files s' p = fs_files s p)"
proof -
  obtain s' where s': "replace_file ''.stunmesh-config.tmp-'' wp (d_StunmeshContent d) s = (Inr (), s')" "fs_faults s' = []"
    using replace_file_ok [OF assms] by blast
  have "\<forall>p. p \<noteq> wp \<longrightarrow> fs_files s' p = fs_files s p"
    using replace_file_spec [OF s'(1) assms(3)] by (simp add: replaces_def)
  then show ?thesis using s' assms(1)
    by (cases "d_Stunmesh d")
      (auto simp: applyStunmeshConfig_def writeStunmeshConfigAtomic_def wrap_def os_Remove_def)
qed

lemma applyDiff_ok:
  assumes "reliable run" and "\<And>i. i \<in> set (d_Interfaces d) \<Longrightarrow> has_content i" and "buildState d st \<noteq> None"
    and "paths_ok wp lp" and "fs_faults (w_fs w) = []"
    and "no_temps ''.stunmesh-config.tmp-'' wp (w_fs w)" and "no_temps ''.last.json.tmp-'' lp (w_fs w)"
  shows "\<exists>w'. applyDiff run wp lp d st w = (Inr (), w') \<and> fs_faults (w_fs w') = []"
proof -
  obtain fw r where c: "apply_commands run d st (w_run w) = (Inr fw, r)"
    using always_apply_commands [OF assms(1), of d st] assms(2) unfolding always_def
    by (metis prod.collapse sum.collapse(2))
  obtain s1 where s1: "applyStunmeshConfig wp d (w_fs w) = (Inr (), s1)" "fs_faults s1 = []"
    "\<forall>p. p \<noteq> wp \<longrightarrow> fs_files s1 p = fs_files (w_fs w) p"
    using applyStunmeshConfig_ok [OF assms(5, 6)] assms(4) unfolding paths_ok_def by blast
  obtain st' where st': "buildState d st = Some st'" using assms(3) by auto
  have "no_temps ''.last.json.tmp-'' lp s1"
    using assms(4, 7) s1(3) unfolding no_temps_def paths_ok_def by metis
  then obtain s2 where "Write lp (st'\<lparr>st_Firewall := fw\<rparr>) s1 = (Inr (), s2)" "fs_faults s2 = []"
    using replace_file_ok [OF s1(2)] assms(4) unfolding Write_def paths_ok_def by metis
  then show ?thesis using c s1 st' by (simp add: applyDiff_def apply_files_def andThen_def wrap_def)
qed

lemma computeDiff_applies:
  assumes "new_ok w b" and "old_ok w st" and "computeDiff b st f = Inr d"
  shows "\<And>i. i \<in> set (d_Interfaces d) \<Longrightarrow> has_content i" and "buildState d st \<noteq> None"
    and "distinct (map id_Name (d_Interfaces d))"
proof -
  have "d_Interfaces d = map (entry (of_opt (b_WG b)) (of_opt (st_WG st)) f) (union_names (of_opt (b_WG b)) (of_opt (st_WG st)))"
    using computeDiff_eq [OF assms(1, 2), of f] assms(3) by auto
  then show "\<And>i. i \<in> set (d_Interfaces d) \<Longrightarrow> has_content i" "distinct (map id_Name (d_Interfaces d))"
    using has_content_entry distinct_union_names by (auto simp: comp_def)
  show "buildState d st \<noteq> None" by (rule buildState_computeDiff [OF assms]) simp
qed

section \<open>Properties of the commands\<close>

text \<open>The fake answers by position in its script: \<open>zone_found f es\<close> is what it answered the zone probe, if the
  calls \<open>es\<close> it then logged contain one.\<close>

definition scripted_ok :: "Fake \<Rightarrow> nat \<Rightarrow> bool" where
  "scripted_ok f i = (i < length (fk_results f) \<longrightarrow> \<not> res_Err (fk_results f ! i))"

definition zone_found :: "Fake \<Rightarrow> Call list \<Rightarrow> bool" where
  "zone_found f es = (let before = takeWhile (\<lambda>c. c \<noteq> zone_probe) es in
     before \<noteq> es \<and> scripted_ok f (length (Calls f) + length before))"

lemma Fake_Run_ok: "(\<not> isl (fst (Fake_Run name args f))) = scripted_ok f (length (Calls f))"
  by (simp add: Fake_Run_def scripted_ok_def Calls_def Let_def)

text \<open>Staging the network does not change the script.\<close>

definition script_kept :: "(Fake, 'e, 'a) step \<Rightarrow> bool" where
  "script_kept m = (\<forall>f. fk_results (snd (m f)) = fk_results f)"

lemma script_kept_ret: "script_kept (ret x)" "script_kept (fail_with e)"
  by (simp_all add: script_kept_def ret_def fail_with_def)

lemma script_kept_wrap: "script_kept m \<Longrightarrow> script_kept (wrap g m)"
  by (auto simp: script_kept_def wrap_def split: prod.split sum.split) (metis snd_conv)+

lemma script_kept_then: "script_kept m \<Longrightarrow> (\<And>x. script_kept (f x)) \<Longrightarrow> script_kept (andThen m f)"
  by (auto simp: script_kept_def andThen_def split: prod.split sum.split) (metis snd_conv)+

lemma script_kept_each: "(\<And>x. script_kept (f x)) \<Longrightarrow> script_kept (each f xs)"
  by (induction xs) (auto intro: script_kept_ret script_kept_then)

lemma script_kept_command: "script_kept (run_command Fake_Run name args)"
proof -
  have "script_kept (Fake_Run name args)" by (simp add: script_kept_def Fake_Run_def Let_def)
  then show ?thesis unfolding run_command_def by (intro script_kept_then script_kept_wrap script_kept_ret)
qed

lemma script_kept_delete: "script_kept (deleteIfPresent Fake_Run n)"
  using script_kept_command
  by (auto simp: script_kept_def deleteIfPresent_def Fake_Run_def Let_def split: prod.split sum.split)

lemmas script_kept_steps = script_kept_ret script_kept_wrap script_kept_then script_kept_each script_kept_command script_kept_delete

lemma script_kept_sections: "script_kept (deleteSections Fake_Run s)"
  unfolding deleteSections_def by (cases "sec_Interface s = []") (simp_all del: step_simps, (intro script_kept_steps)+)

lemma script_kept_content: "script_kept (create_content Fake_Run i)"
  unfolding create_content_def createInterface_def clearListOptions_def runUCIBatch_def
  by (cases "id_Content i") (simp_all del: step_simps, (intro script_kept_steps)+)

lemma script_kept_write: "script_kept (write_one Fake_Run i)"
  unfolding write_one_def
  by (cases "id_Change i") (simp_all del: step_simps, (intro script_kept_steps script_kept_sections script_kept_content)+)

lemma script_kept_stage: "script_kept (stage_network Fake_Run d)"
proof -
  have "script_kept (at_step AUci (writeUCI Fake_Run d))"
    unfolding at_step_def writeUCI_def by (intro script_kept_steps script_kept_write)
  then have "fk_results (snd (at_step AUci (writeUCI Fake_Run d) f)) = fk_results f" for f by (simp add: script_kept_def)
  moreover have "fk_results (revertUCI Fake_Run c f) = fk_results f" for c f
    by (simp add: revertUCI_def Fake_Run_def Let_def)
  ultimately show ?thesis
    by (auto simp: script_kept_def stage_network_def or_revert_def split: prod.split sum.split) (metis snd_conv)+
qed

lemma plan_found:
  assumes "\<not> fw_asks d fw"
  shows "plan d fw p = plan d fw q"
proof -
  have "fw_changes d fw p = fw_changes d fw q" using assms by (auto simp: fw_changes_def fw_asks_def)
  then show ?thesis by (simp add: plan_def fw_stage_plan_def)
qed

lemma prefix_found:
  assumes "prefix (filter effective es) (plan d fw p)" and "zone_probe \<notin> set es"
  shows "prefix (filter effective es) (plan d fw q) \<and> (fw_asks d fw \<longrightarrow> filter effective es \<noteq> plan d fw p)"
proof (cases "fw_asks d fw")
  case True
  have no: "zone_probe \<notin> set (filter effective es)" using assms(2) by simp
  define ts where "ts r = (if fw_changes d fw r then fw_plan d fw else []) @ activate_plan d (fw_changes d fw r)" for r
  have ts: "plan d fw r = concat (map batch_of (d_Interfaces d)) @ zone_probe # ts r" for r
    using True by (simp add: plan_def fw_stage_plan_def ts_def)
  have "prefix (filter effective es) (concat (map batch_of (d_Interfaces d)))"
  proof -
    have "filter effective es \<noteq> concat (map batch_of (d_Interfaces d)) @ zone_probe # zs" for zs
      using no by (metis in_set_conv_decomp)
    then show ?thesis using assms(1) unfolding ts prefix_append prefix_Cons by auto
  qed
  moreover have "filter effective es \<noteq> plan d fw p"
  proof
    assume "filter effective es = plan d fw p"
    then have "zone_probe \<in> set (filter effective es)" by (simp add: ts)
    then show False using no by blast
  qed
  ultimately show ?thesis unfolding ts by (simp add: prefix_append)
qed (use assms plan_found in metis)


text \<open>C25: whatever the commands answer, an apply deletes only network paths that are the recorded sections of a
  changed or removed interface or list options of an interface it is about to create, and the firewall
  sections only when no interface is left and last.json says the agent owns the zone.\<close>

theorem applyDiff_deletes:
  "\<exists>es. Calls (w_run (snd (applyDiff Fake_Run wp lp d st w))) = Calls (w_run w) @ es
     \<and> list_all (deletes_owned d (st_Firewall st)) es"
proof -
  obtain y r where c: "apply_commands Fake_Run d st (w_run w) = (y, r)" by fastforce
  show ?thesis
    using fake.calls_inD [OF fake.apply_commands_deletes c] c
    by (cases y) (auto simp: applyDiff_def split: prod.splits)
qed

text \<open>C24: an apply that fails while staging or in the network commit has committed nothing, and its last
  commands discard what was staged.\<close>

theorem applyDiff_rollback:
  "case applyDiff Fake_Run wp lp d st w of (Inl e, w') \<Rightarrow>
     (case rollback e of None \<Rightarrow> True
      | Some zs \<Rightarrow> \<exists>es. Calls (w_run w') = Calls (w_run w) @ es @ zs \<and> list_all (\<lambda>c. \<not> is_commit c) es)
   | (Inr _, _) \<Rightarrow> True"
proof -
  obtain y r where c: "apply_commands Fake_Run d st (w_run w) = (y, r)" by fastforce
  show ?thesis
  proof (cases y)
    case (Inl e)
    then show ?thesis
      using fake.apply_commands_rollback [of d st "w_run w" e r] c
      by (auto simp: applyDiff_def split: option.splits)
  next
    case (Inr fw)
    have "e \<in> {AStunmesh, APanic, ALast}" if "apply_files wp lp d st fw (w_fs w) = (Inl e, s')" for e s'
      using that by (auto simp: apply_files_def andThen_Inl split: option.splits)
    then have "rollback e = None" if "apply_files wp lp d st fw (w_fs w) = (Inl e, s')" for e s'
      using that by (force simp: rollback_def Let_def)
    then show ?thesis using c Inr by (auto simp: applyDiff_def split: prod.splits sum.splits)
  qed
qed

section \<open>Properties of the firewall zone\<close>

definition ex_sections :: Sections where
  "ex_sections = \<lparr>sec_Interface = ''wg0'', sec_Routes = Some [''wg0_r_0''], sec_Peers = None\<rparr>"

text \<open>wg0 is new, wg9 is gone.\<close>

definition ex_diff :: Diff where
  "ex_diff = \<lparr>d_Interfaces = [\<lparr>id_Name = ''wg0'', id_Change = InterfaceNew, id_Content = Some ex_uci, id_Sections = zero_sections\<rparr>,
      \<lparr>id_Name = ''wg9'', id_Change = InterfaceRemoved, id_Content = None, id_Sections = ex_sections\<rparr>],
     d_Stunmesh = StunmeshUnchanged, d_StunmeshContent = ''log: info''\<rparr>"

lemma ex_diff_lists: "kept ex_diff = [hd (d_Interfaces ex_diff)]" "fw_toAdd ex_diff [] = [''wg0'']" "fw_toRemove ex_diff [] = []"
  by (simp_all add: kept_def ex_diff_def fw_toAdd_def fw_toRemove_def)

text \<open>A zone named stunmesh that the router has and last.json does not call the agent's own is left alone:
  manageFirewall runs no command but the probe, stages nothing and does not claim the zone.\<close>

theorem manageFirewall_operator_zone:
  assumes "\<not> fw_ZoneOwned fw" and "run ''uci'' [''get'', ''firewall.stunmesh''] r = (Inr out, r1)"
  shows "case manageFirewall run d fw r of (x, r') \<Rightarrow> x \<in> {Inr (fw, False), Inr (zero_firewall, False)} \<and> r' \<in> {r, r1}"
proof -
  have "firewallZonePresent run r = (Inr True, r1)"
    using assms(2) by (simp add: firewallZonePresent_def FirewallZoneName_def)
  then show ?thesis
    using assms(1) by (auto simp: manageFirewall_def Let_def andThen_def)
qed

theorem manageFirewall_operator_zone_witness:
  "Calls (snd (manageFirewall Fake_Run ex_diff zero_firewall (NewFake [])))
     = [mkcall ''uci'' [''get'', ''firewall.stunmesh'']]"
proof -
  have run: "Fake_Run ''uci'' [''get'', ''firewall.stunmesh''] (NewFake []) =
      (Inr [], (NewFake [])\<lparr>fk_calls := [mkcall ''uci'' [''get'', ''firewall.stunmesh'']]\<rparr>)"
    by (simp add: Fake_Run_def NewFake_def mkcall_def)
  have "\<not> fw_ZoneOwned zero_firewall" by (simp add: zero_firewall_def)
  note manageFirewall_operator_zone [where run = Fake_Run and r = "NewFake []" and d = ex_diff, OF this run]
  moreover have "snd (manageFirewall Fake_Run ex_diff zero_firewall (NewFake [])) \<noteq> NewFake []"
    by (simp add: manageFirewall_def ex_diff_lists zero_firewall_def of_opt_def andThen_def firewallZonePresent_def
        Fake_Run_def NewFake_def Let_def)
  ultimately show ?thesis by (auto simp: Calls_def split: prod.splits)
qed

text \<open>After manageFirewall either nothing is recorded for the zone, or the members it records are exactly
  the interfaces that remain: with the zone the agent's own and in name order when it changed
  something, and a superset with no removed interface among them when it found nothing to do.\<close>

theorem manageFirewall_members:
  assumes "manageFirewall run d fw r = (Inr (fw', changed), r')" and "distinct (map id_Name (d_Interfaces d))"
  shows "fw' = zero_firewall
     \<or> (changed \<and> fw' = \<lparr>fw_ZoneOwned = True, fw_Members = Some (map id_Name (kept d))\<rparr>)
     \<or> (\<not> changed \<and> fw' = fw \<and> set (map id_Name (kept d)) \<subseteq> set (of_opt (fw_Members fw))
        \<and> (\<forall>i \<in> set (d_Interfaces d). id_Change i = InterfaceRemoved \<longrightarrow> id_Name i \<notin> set (of_opt (fw_Members fw))))"
proof -
  let ?ms = "of_opt (fw_Members fw)"
  have in_kept: "n \<notin> set (fw_toRemove d ?ms)" if k: "n \<in> set (map id_Name (kept d))" for n
  proof
    assume "n \<in> set (fw_toRemove d ?ms)"
    then obtain i where i: "i \<in> set (d_Interfaces d)" "id_Name i = n" "id_Change i = InterfaceRemoved"
      by (auto simp: fw_toRemove_def)
    obtain j where "j \<in> set (d_Interfaces d)" "id_Name j = n" "id_Change j \<noteq> InterfaceRemoved"
      using k by (auto simp: kept_def)
    then show False using assms(2) i by (metis distinct_map inj_onD)
  qed
  have "fw' = \<lparr>fw_ZoneOwned = True, fw_Members = Some (map id_Name (kept d))\<rparr> \<and> changed"
    if "fw_members run d ?ms r1 = (Inr (fw', changed), r')" for r1
  proof -
    have "n \<in> set (filter (\<lambda>n. n \<notin> set (fw_toRemove d ?ms)) ?ms @ fw_toAdd d ?ms)" if "n \<in> set (map id_Name (kept d))" for n
      using in_kept that by (auto simp: fw_toAdd_def)
    then have "filter (\<lambda>n. n \<in> set (filter (\<lambda>n. n \<notin> set (fw_toRemove d ?ms)) ?ms @ fw_toAdd d ?ms)) (map id_Name (kept d))
        = map id_Name (kept d)"
      by (intro filter_True ballI)
    then show ?thesis using that by (auto simp: fw_members_def Let_def andThen_Inr)
  qed
  moreover have "set (map id_Name (kept d)) \<subseteq> set ?ms" if "fw_toAdd d ?ms = []"
    using that by (auto simp: fw_toAdd_def filter_empty_conv)
  moreover have "id_Name i \<notin> set ?ms" if "fw_toRemove d ?ms = []" "i \<in> set (d_Interfaces d)" "id_Change i = InterfaceRemoved" for i
    using that by (auto simp: fw_toRemove_def filter_empty_conv)
  ultimately show ?thesis
    using assms(1) unfolding manageFirewall_def Let_def by (auto simp: andThen_Inr split: if_splits)
qed

theorem manageFirewall_members_witness:
  "fst (manageFirewall Fake_Run ex_diff \<lparr>fw_ZoneOwned = True, fw_Members = Some [''wg9'']\<rparr> (NewFake []))
     = Inr (\<lparr>fw_ZoneOwned = True, fw_Members = Some [''wg0'']\<rparr>, True)"
proof -
  let ?fw = "\<lparr>fw_ZoneOwned = True, fw_Members = Some [''wg9'']\<rparr>"
  obtain fw' r' where m: "manageFirewall Fake_Run ex_diff ?fw (NewFake []) = (Inr (fw', True), r')"
    by (simp add: manageFirewall_def fw_members_def Let_def of_opt_def kept_def ex_diff_def fw_toAdd_def fw_toRemove_def
        andThen_def run_command_def wrap_def Fake_Run_def NewFake_def)
  have "fw' \<noteq> zero_firewall"
    using m by (auto simp: manageFirewall_def fw_members_def Let_def of_opt_def kept_def ex_diff_def fw_toAdd_def
        fw_toRemove_def andThen_Inr zero_firewall_def)
  moreover have "distinct (map id_Name (d_Interfaces ex_diff))" by (simp add: ex_diff_def)
  ultimately show ?thesis using manageFirewall_members [OF m] m by (simp add: kept_def ex_diff_def)
qed

section \<open>Properties of the recorded state\<close>

text \<open>The state an apply records holds exactly the interfaces of the new bundle; each with its content and
  the names of exactly the sections its batch creates, or with its old record when it was unchanged.\<close>

theorem buildState_records:
  assumes "new_ok w b" and "old_ok w st" and "computeDiff b st f = Inr d"
  shows "\<exists>wg. buildState d st = Some \<lparr>st_Version = CurrentVersion, st_WG = Some wg,
        st_Stunmesh = of_opt (b_Stunmesh b), st_Firewall = zero_firewall\<rparr>
     \<and> distinct (map fst wg)
     \<and> (\<forall>k. map_of wg k = recorded (of_opt (b_WG b)) (of_opt (st_WG st)) f k)
     \<and> (\<forall>k n. sec_Interface (sectionsFor k n) # of_opt (sec_Routes (sectionsFor k n)) @ of_opt (sec_Peers (sectionsFor k n))
          = map fst (iface_sections k n))"
  by (rule buildState_computeDiff [OF assms]) (auto simp: iface_section_names sectionsFor_def of_opt_def gm_ok_def)

lemma ex_computeDiff: "\<exists>d. computeDiff ex_new ex_state False = Inr d"
  using computeDiff_eq [OF ex_new_ok ex_state_ok] by blast

theorem buildState_records_witness:
  "\<exists>d st'. computeDiff ex_new ex_state False = Inr d \<and> buildState d ex_state = Some st'
     \<and> map_option (\<lambda>l. sec_Interface (li_Sections l)) (map_of (of_opt (st_WG st')) ''wg1'') = Some ''wg1''"
proof -
  obtain d where d: "computeDiff ex_new ex_state False = Inr d" using ex_computeDiff by blast
  have "map_option (\<lambda>l. sec_Interface (li_Sections l)) (recorded (of_opt (b_WG ex_new)) (of_opt (st_WG ex_state)) False ''wg1'') = Some ''wg1''"
    by (simp add: recorded_def ex_new_def ex_state_def of_opt_def sectionsFor_def)
  then show ?thesis using buildState_records [OF ex_new_ok ex_state_ok d] d by (auto simp: of_opt_def)
qed

definition ex_wp :: string where
  "ex_wp = ''/etc/stunmesh/config.yaml''"

lemma ex_paths_ok: "paths_ok ex_wp ex_path"
  by code_simp

text \<open>A router on which no file exists yet, and a runner all of whose commands succeed and print nothing.\<close>

definition ex_run :: "unit runner" where
  "ex_run name args r = (Inr [], r)"

definition ex_world :: "unit World" where
  "ex_world = \<lparr>w_run = (), w_fs = \<lparr>fs_files = (\<lambda>_. None), fs_faults = [], fs_seed = 1, fs_hist = []\<rparr>\<rparr>"

lemma ex_reliable: "reliable ex_run"
  by (simp add: reliable_def always_def ex_run_def)

lemma ex_no_temps: "no_temps pat path (w_fs ex_world)"
  by (simp add: no_temps_def ex_world_def)

lemma ex_applies:
  assumes "computeDiff ex_new ex_state False = Inr d"
  obtains w' where "applyDiff ex_run ex_wp ex_path d ex_state ex_world = (Inr (), w')" "fs_faults (w_fs w') = []"
  using applyDiff_ok [OF ex_reliable computeDiff_applies(1, 2) [OF ex_new_ok ex_state_ok assms] ex_paths_ok, of ex_world]
    ex_no_temps by (auto simp: ex_world_def)

text \<open>C11: an apply that fails at any step leaves last.json as it was, so the next cycle sees the same
  difference and tries again; last.json is written by the last step, after every command and after the
  stunmesh configuration is in place, with the state buildState computes and the firewall state that
  manageFirewall reached.\<close>

theorem applyDiff_last_json:
  assumes "paths_ok wp lp"
  shows "case applyDiff run wp lp d st w of
     (Inl _, w') \<Rightarrow> fs_files (w_fs w') lp = fs_files (w_fs w) lp
   | (Inr _, w') \<Rightarrow> (\<exists>st' fw. buildState d st = Some st'
        \<and> apply_commands run d st (w_run w) = (Inr fw, w_run w')
        \<and> fs_files (w_fs w') lp = Some (new_file (print_json (go_quote True) (state_json (st'\<lparr>st_Firewall := fw\<rparr>))))
        \<and> fs_files (w_fs w') wp = stunmesh_file d (fs_files (w_fs w) wp))"
proof -
  obtain x w' where a: "applyDiff run wp lp d st w = (x, w')" by fastforce
  show ?thesis using applyDiff_files [OF a assms] a by (cases x) simp_all
qed

theorem applyDiff_last_json_witness:
  "\<exists>d w'. computeDiff ex_new ex_state False = Inr d \<and> applyDiff ex_run ex_wp ex_path d ex_state ex_world = (Inr (), w')
     \<and> fs_files (w_fs w') ex_path \<noteq> None"
proof -
  obtain d where d: "computeDiff ex_new ex_state False = Inr d" using ex_computeDiff by blast
  obtain w' where w': "applyDiff ex_run ex_wp ex_path d ex_state ex_world = (Inr (), w')" by (rule ex_applies [OF d])
  then show ?thesis
    using applyDiff_last_json [where run = ex_run and d = d and st = ex_state and w = ex_world, OF ex_paths_ok] d by auto
qed

text \<open>An apply of a computed difference succeeds when every command succeeds, no file call fails and no
  temporary file is left over: it never panics on a nil content and never refuses.\<close>

theorem applyDiff_succeeds:
  assumes "new_ok w b" and "old_ok w st" and "computeDiff b st f = Inr d" and "reliable run" and "paths_ok wp lp"
    and "fs_faults (w_fs s) = []" and "no_temps ''.stunmesh-config.tmp-'' wp (w_fs s)"
    and "no_temps ''.last.json.tmp-'' lp (w_fs s)"
  shows "fst (applyDiff run wp lp d st s) = Inr ()"
  using applyDiff_ok [OF assms(4) computeDiff_applies(1, 2) [OF assms(1-3)] assms(5-8)] by auto

theorem applyDiff_succeeds_witness:
  "\<exists>d. computeDiff ex_new ex_state False = Inr d \<and> fst (applyDiff ex_run ex_wp ex_path d ex_state ex_world) = Inr ()"
proof -
  obtain d where d: "computeDiff ex_new ex_state False = Inr d" using ex_computeDiff by blast
  have "fs_faults (w_fs ex_world) = []" by (simp add: ex_world_def)
  from applyDiff_succeeds [OF ex_new_ok ex_state_ok d ex_reliable ex_paths_ok this ex_no_temps ex_no_temps]
  show ?thesis using d by blast
qed

text \<open>What an apply that succeeds leaves in last.json.\<close>

lemma applied_recorded:
  assumes "new_ok w b" and "old_ok w st" and "computeDiff b st f = Inr d" and "paths_ok wp lp"
    and "applyDiff run wp lp d st s = (Inr (), s')"
  shows "\<exists>c st'. fs_files (w_fs s') lp = Some c \<and> read_state w (f_data c) = Inr st' \<and> old_ok w st'
     \<and> sameContent st' b = Inr True \<and> st_Stunmesh st' = of_opt (b_Stunmesh b)
     \<and> fs_files (w_fs s') wp = stunmesh_file d (fs_files (w_fs s) wp)"
proof -
  obtain st1 fw where st1: "buildState d st = Some st1" "apply_commands run d st (w_run s) = (Inr fw, w_run s')"
    "fs_files (w_fs s') lp = Some (new_file (print_json (go_quote True) (state_json (st1\<lparr>st_Firewall := fw\<rparr>))))"
    "fs_files (w_fs s') wp = stunmesh_file d (fs_files (w_fs s) wp)"
    using applyDiff_files [OF assms(5, 4)] by auto
  have "opt_all (list_all valid_utf8) (fw_Members fw)"
    using apply_commands_value [OF st1(2)]
  proof
    assume "fw \<in> {zero_firewall, st_Firewall st}"
    then show ?thesis using assms(2) by (auto simp: zero_firewall_def old_ok_def state_wf_def)
  next
    assume "\<exists>ms. fw_Members fw = Some ms \<and> set ms \<subseteq> set (map id_Name (kept d))"
    then obtain ms where ms: "fw_Members fw = Some ms" "set ms \<subseteq> set (map id_Name (kept d))" by blast
    have "valid_utf8 n" if "n \<in> set ms" for n
      using kept_names [OF assms(1-3)] subsetD [OF ms(2) that] by blast
    then show ?thesis by (simp add: ms(1) list_all_iff)
  qed
  note conv = buildState_converges [OF assms(1-3) st1(1) this]
  let ?st = "norm_state (st1\<lparr>st_Firewall := fw\<rparr>)"
  have ok: "old_ok w ?st" unfolding old_ok_def by (rule state_wf_norm [OF conv(1)])
  have "st_Stunmesh st1 = of_opt (b_Stunmesh b)"
    by (rule buildState_computeDiff [OF assms(1-3)]) (use st1(1) in \<open>simp\<close>)
  then have stun: "st_Stunmesh ?st = of_opt (b_Stunmesh b)" by (simp add: norm_state_def)
  have "read_state w (f_data (new_file (print_json (go_quote True) (state_json (st1\<lparr>st_Firewall := fw\<rparr>))))) = Inr ?st"
    using read_state_print [OF conv(1)] by (simp add: new_file_def)
  then show ?thesis using st1(3, 4) ok conv(2) stun by blast
qed

text \<open>C7: an apply that succeeds converges: what Read then returns is a well-formed state with the same content
  as the bundle, and the difference between the two has only unchanged interfaces.\<close>

theorem applyDiff_converges:
  assumes "new_ok w b" and "old_ok w st" and "computeDiff b st f = Inr d" and "paths_ok wp lp"
    and "applyDiff run wp lp d st s = (Inr (), s')" and "fs_faults (w_fs s') = []"
  shows "\<exists>st' d'. fst (Read w lp (w_fs s')) = Inr st' \<and> old_ok w st' \<and> sameContent st' b = Inr True
     \<and> computeDiff b st' False = Inr d' \<and> (\<forall>i \<in> set (d_Interfaces d'). id_Change i = InterfaceUnchanged)"
proof -
  obtain c st' where c: "fs_files (w_fs s') lp = Some c" "read_state w (f_data c) = Inr st'" "old_ok w st'" "sameContent st' b = Inr True"
    using applied_recorded [OF assms(1-5)] by blast
  have r: "fst (Read w lp (w_fs s')) = Inr st'"
    using c assms(6) by (simp add: Read_def os_ReadFile_def syscall_def Let_def)
  obtain d' where d': "computeDiff b st' False = Inr d'" using computeDiff_eq [OF assms(1) c(3)] by blast
  have "\<forall>i \<in> set (d_Interfaces d'). id_Change i = InterfaceUnchanged"
    using sameContent_diff [OF assms(1) c(3) d'] c(4) by simp
  then show ?thesis using r c(3, 4) d' by blast
qed

theorem applyDiff_converges_witness:
  "\<exists>d s' st'. computeDiff ex_new ex_state False = Inr d \<and> applyDiff ex_run ex_wp ex_path d ex_state ex_world = (Inr (), s')
     \<and> fst (Read 64 ex_path (w_fs s')) = Inr st' \<and> sameContent st' ex_new = Inr True"
proof -
  obtain d where d: "computeDiff ex_new ex_state False = Inr d" using ex_computeDiff by blast
  obtain s' where s': "applyDiff ex_run ex_wp ex_path d ex_state ex_world = (Inr (), s')" "fs_faults (w_fs s') = []"
    by (rule ex_applies [OF d])
  from applyDiff_converges [OF ex_new_ok ex_state_ok d ex_paths_ok s'] show ?thesis using d s'(1) by blast
qed

end
