(* ===== verification/Backend.thy ===== *)
theory Backend
  imports Prelude
begin

text \<open>
  internal/backend: the result of a fetch and the choice of the storage backend from the
  plugins and use_plugin keys of a configuration.
\<close>

record BResult =
  br_Values :: "string list"
  br_Skipped :: nat
  br_Dropped :: nat
  br_URL :: string

definition TypeDHTProxy :: string where
  "TypeDHTProxy = ''dhtproxy''"

record PluginSpec =
  pl_Type :: string
  pl_Proxies :: "string list option"

record Selection =
  sel_Plugins :: "PluginSpec gomap option"
  sel_UsePlugin :: string
  sel_Proxies :: "string list option"

record Resolved =
  res_Type :: string
  res_Proxies :: "string list"

datatype selerr = SelProxies | SelNoPlugins | SelNoUsePlugin | SelMissing | SelUnknownType | SelNoProxies

definition Resolve :: "Selection \<Rightarrow> selerr + Resolved" where
  "Resolve s =
     (if sel_Proxies s \<noteq> None then Inl SelProxies
      else case sel_Plugins s of None \<Rightarrow> Inl SelNoPlugins
      | Some plugins \<Rightarrow>
          if sel_UsePlugin s = [] then Inl SelNoUsePlugin
          else (case map_of plugins (sel_UsePlugin s) of None \<Rightarrow> Inl SelMissing
            | Some plugin \<Rightarrow>
                if pl_Type plugin \<noteq> TypeDHTProxy then Inl SelUnknownType
                else (case pl_Proxies plugin of None \<Rightarrow> Inl SelNoProxies
                  | Some proxies \<Rightarrow> if proxies = [] then Inl SelNoProxies
                      else Inr \<lparr>res_Type = TypeDHTProxy, res_Proxies = proxies\<rparr>)))"

lemma Resolve_Inr:
  "Resolve s = Inr r \<Longrightarrow> res_Type r = TypeDHTProxy \<and> res_Proxies r \<noteq> []"
  by (auto simp: Resolve_def split: option.splits if_splits)

end
