(* ===== verification/Dhtproxy.thy ===== *)
theory Dhtproxy
  imports Backend Decode Crypto Effects
begin

text \<open>
  internal/dhtproxy and internal/backend/dial: the client of the dhtproxy
  REST API. The transport (net/http) and url.Parse are parameters: \<open>send\<close> answers a request
  with a response or an error, \<open>pu\<close> gives the scheme and host of a URL. The line reader
  over bufio's buffer is proved equal to splitting the body at its newlines.
\<close>

section \<open>The client\<close>

record Client =
  c_baseURLs :: "string list"
  c_maxValues :: nat
  c_maxLineSize :: nat

definition defaultMaxValues :: int where
  "defaultMaxValues = 64"

definition maxLineSize :: nat where
  "maxLineSize = 1048576"

datatype nerr = NoBaseURL | BadBaseURL string | BadMaxValues

type_synonym url_parser = "string \<Rightarrow> (string \<times> string) option"

definition trim_slash :: "string \<Rightarrow> string" where
  "trim_slash b = rev (dropWhile (\<lambda>c. c = CHR ''/'') (rev b))"

fun check_bases :: "url_parser \<Rightarrow> string list \<Rightarrow> nerr + string list" where
  "check_bases pu [] = Inr []"
| "check_bases pu (b # bs) =
     (case pu b of None \<Rightarrow> Inl (BadBaseURL b)
      | Some (scheme, host) \<Rightarrow>
          if scheme = [] \<or> host = [] then Inl (BadBaseURL b)
          else (case check_bases pu bs of Inl e \<Rightarrow> Inl e | Inr r \<Rightarrow> Inr (trim_slash b # r)))"

text \<open>New; the options are the cap on values (\<open>None\<close>: the default), the transport is \<open>send\<close> below.\<close>

definition NewClient :: "url_parser \<Rightarrow> string list \<Rightarrow> int option \<Rightarrow> nerr + Client" where
  "NewClient pu baseURLs withMaxValues =
     (if baseURLs = [] then Inl NoBaseURL
      else (case check_bases pu baseURLs of Inl e \<Rightarrow> Inl e
        | Inr trimmed \<Rightarrow>
            (let m = (case withMaxValues of None \<Rightarrow> defaultMaxValues | Some n \<Rightarrow> n) in
             if m < 1 then Inl BadMaxValues
             else Inr \<lparr>c_baseURLs = trimmed, c_maxValues = nat m, c_maxLineSize = maxLineSize\<rparr>)))"

text \<open>dial.New: the type selects the client; an unknown type is an error that does not name it.\<close>

datatype dialerr = UnknownType | DialClient nerr

definition dial_New :: "url_parser \<Rightarrow> string \<Rightarrow> string list \<Rightarrow> dialerr + Client" where
  "dial_New pu typ proxies =
     (if typ = TypeDHTProxy then (case NewClient pu proxies None of Inl e \<Rightarrow> Inl (DialClient e) | Inr c \<Rightarrow> Inr c)
      else Inl UnknownType)"

definition isHexKey :: "string \<Rightarrow> bool" where
  "isHexKey key = (length key = 40
     \<and> list_all (\<lambda>c. (48 \<le> code c \<and> code c \<le> 57) \<or> (97 \<le> code c \<and> code c \<le> 102)) key)"

section \<open>Reading a body\<close>

text \<open>
  A body: the bytes left, and whether the stream then ends (True) or fails. ReadSlice of a
  bufio.Reader of \<open>n\<close> bytes: up to a newline that the buffer holds, or a full buffer
  (ErrBufferFull), or what is left with the end or the error of the stream.
\<close>

datatype slice_end = Newline | BufferFull | AtEnd

fun upto_newline :: "string \<Rightarrow> (string \<times> string) option" where
  "upto_newline [] = None"
| "upto_newline (c # cs) = (if c = newline then Some ([c], cs)
     else (case upto_newline cs of None \<Rightarrow> None | Some (l, r) \<Rightarrow> Some (c # l, r)))"

definition ReadSlice :: "nat \<Rightarrow> string \<Rightarrow> (string \<times> slice_end) \<times> string" where
  "ReadSlice n rest =
     (case upto_newline (take n rest) of
        Some (l, _) \<Rightarrow> ((l, Newline), drop (length l) rest)
      | None \<Rightarrow> if n \<le> length rest then ((take n rest, BufferFull), drop n rest) else ((rest, AtEnd), []))"

lemma upto_newline_Some:
  "upto_newline s = Some (l, r) \<Longrightarrow> s = l @ r \<and> l \<noteq> [] \<and> last l = newline \<and> newline \<notin> set (butlast l)"
  by (induction s arbitrary: l r) (auto split: if_splits option.splits)

lemma upto_newline_None: "upto_newline s = None \<longleftrightarrow> newline \<notin> set s"
  by (induction s) (auto split: option.splits)

lemma ReadSlice_length:
  "ReadSlice n rest = ((l, e), r) \<Longrightarrow> 0 < n \<Longrightarrow> e \<noteq> AtEnd \<Longrightarrow> length r < length rest"
proof (cases "upto_newline (take n rest)")
  case (Some lr)
  assume "ReadSlice n rest = ((l, e), r)" "0 < n" "e \<noteq> AtEnd"
  moreover have "take n rest = fst lr @ snd lr" "fst lr \<noteq> []"
    using Some upto_newline_Some [of "take n rest" "fst lr" "snd lr"] by auto
  ultimately show ?thesis using Some by (cases rest) (auto simp: ReadSlice_def split: prod.splits)
qed (auto simp: ReadSlice_def split: if_splits)

text \<open>The loop of readLine: the buffer kept so far, and how the line ended (True: the stream is at its end).\<close>

function read_chunks :: "nat \<Rightarrow> nat \<Rightarrow> string \<Rightarrow> string \<Rightarrow> (string \<times> bool) \<times> string" where
  "read_chunks n maxLen buf rest =
     (if n = 0 then ((buf, True), rest)
      else (case ReadSlice n rest of ((chunk, e), rest') \<Rightarrow>
        (let buf' = (if length buf \<le> maxLen + 1 then buf @ chunk else buf) in
         case e of BufferFull \<Rightarrow> read_chunks n maxLen buf' rest'
           | Newline \<Rightarrow> ((buf', False), rest') | AtEnd \<Rightarrow> ((buf', True), rest'))))"
  by pat_completeness auto
termination
  by (relation "measure (\<lambda>(n, m, b, r). length r)") (auto dest!: ReadSlice_length [OF sym])

declare read_chunks.simps [simp del]

definition strip_eol :: "string \<Rightarrow> string" where
  "strip_eol buf =
     (if buf \<noteq> [] \<and> last buf = newline then
        (let c = butlast buf in if c \<noteq> [] \<and> last c = cr then butlast c else c)
      else buf)"

text \<open>readLine: the line (\<open>None\<close>: oversized), whether the stream is at its end, the rest.\<close>

definition readLine :: "nat \<Rightarrow> nat \<Rightarrow> string \<Rightarrow> (string option \<times> bool) \<times> string" where
  "readLine n maxLen rest =
     (case read_chunks n maxLen [] rest of ((buf, atEnd), rest') \<Rightarrow>
        (let content = strip_eol buf in
         if maxLen < length content then ((None, atEnd), rest')
         else ((Some (TrimSpace content), atEnd), rest')))"

text \<open>json.Unmarshal into a struct with the one field data, unknown keys ignored; errors drop the result.\<close>

fun data_members :: "(string \<times> json) list \<Rightarrow> string option \<Rightarrow> string option option" where
  "data_members [] d = Some d"
| "data_members ((k, v) # kvs) d =
     (case find_field [''data''] k of None \<Rightarrow> data_members kvs d
      | Some _ \<Rightarrow> (case dec_ptr dec_string [] v d of Inl _ \<Rightarrow> None | Inr d' \<Rightarrow> data_members kvs d'))"

definition data_field :: "string \<Rightarrow> string option" where
  "data_field line =
     (case unmarshal line of Some (JObj kvs) \<Rightarrow> (case data_members kvs None of None \<Rightarrow> None | Some d \<Rightarrow> d)
      | _ \<Rightarrow> None)"

definition decodeLine :: "nat \<Rightarrow> string \<Rightarrow> BResult \<Rightarrow> BResult" where
  "decodeLine maxValues line result =
     (case data_field line of
        None \<Rightarrow> result\<lparr>br_Skipped := br_Skipped result + 1\<rparr>
      | Some d \<Rightarrow>
         (case b64_decode d of
            None \<Rightarrow> result\<lparr>br_Skipped := br_Skipped result + 1\<rparr>
          | Some data \<Rightarrow>
              if maxValues \<le> length (br_Values result) then result\<lparr>br_Dropped := br_Dropped result + 1\<rparr>
              else result\<lparr>br_Values := br_Values result @ [data]\<rparr>))"

definition bufSize :: nat where
  "bufSize = 65536"

lemma read_chunks_length: "read_chunks n m buf rest = ((b, False), rest') \<Longrightarrow> length rest' < length rest"
proof (induction n m buf rest rule: read_chunks.induct)
  case (1 n m buf rest)
  obtain l e r where s: "ReadSlice n rest = ((l, e), r)" by (metis prod.collapse)
  from 1(2) have n: "0 < n" by (cases "n = 0") (simp_all add: read_chunks.simps [of 0])
  show ?case
  proof (cases e)
    case BufferFull
    then have "read_chunks n m (if length buf \<le> m + 1 then buf @ l else buf) r = ((b, False), rest')"
      using 1(2) s n by (subst (asm) read_chunks.simps) (simp add: Let_def)
    then have "length rest' < length r" using 1(1) [OF _ s [symmetric] refl refl BufferFull] n by simp
    then show ?thesis using ReadSlice_length [OF s n] BufferFull by simp
  qed (use 1(2) s n ReadSlice_length [OF s n] in \<open>auto simp: read_chunks.simps [of n] Let_def\<close>)
qed

text \<open>parseValues: the loop over the lines, with \<open>n\<close> the size of bufio's buffer; \<open>None\<close> is a read error.\<close>

function parse_loop :: "nat \<Rightarrow> nat \<Rightarrow> nat \<Rightarrow> bool \<Rightarrow> string \<Rightarrow> BResult \<Rightarrow> BResult option" where
  "parse_loop n maxLen maxValues ok rest result =
     (case readLine n maxLen rest of ((line, atEnd), rest') \<Rightarrow>
        if atEnd \<and> \<not> ok then None
        else (let result' = (case line of None \<Rightarrow> result\<lparr>br_Skipped := br_Skipped result + 1\<rparr>
                | Some l \<Rightarrow> if l = [] then result else decodeLine maxValues l result)
          in if atEnd then Some result' else parse_loop n maxLen maxValues ok rest' result'))"
  by pat_completeness auto
termination
  by (relation "measure (\<lambda>(n, m, v, ok, r, s). length r)")
    (auto simp: readLine_def Let_def dest: read_chunks_length split: prod.splits if_splits)

declare parse_loop.simps [simp del]

definition empty_result :: "string \<Rightarrow> BResult" where
  "empty_result base = \<lparr>br_Values = [], br_Skipped = 0, br_Dropped = 0, br_URL = base\<rparr>"

definition parseValues :: "Client \<Rightarrow> string \<times> bool \<Rightarrow> string \<Rightarrow> BResult option" where
  "parseValues c body base =
     parse_loop bufSize (c_maxLineSize c) (c_maxValues c) (snd body) (fst body) (empty_result base)"

section \<open>Get and Put\<close>

text \<open>The errors of one host, under the host's name; the key and the data are in none of them.\<close>

datatype host_error = HostFailed string | HostStatus string int

datatype geterr = GBadKey | GPartial "host_error list" | GAllFailed "host_error list"

definition hostOf :: "url_parser \<Rightarrow> string \<Rightarrow> string" where
  "hostOf pu base = (case pu base of None \<Rightarrow> base | Some (scheme, host) \<Rightarrow> if host = [] then base else host)"

datatype Request = GetReq string | PostReq string string

text \<open>A response: its status and its body. An error answer is a request that could not be built or sent.\<close>

record Response =
  rsp_Status :: int
  rsp_Body :: "string \<times> bool"

type_synonym 'h transport = "Request \<Rightarrow> 'h \<Rightarrow> Response option \<times> 'h"

fun get_loop :: "url_parser \<Rightarrow> 'h transport \<Rightarrow> Client \<Rightarrow> string \<Rightarrow> host_error list \<Rightarrow> BResult option \<Rightarrow> string list
    \<Rightarrow> 'h \<Rightarrow> (BResult \<times> geterr option) \<times> 'h" where
  "get_loop pu send c key errs emp [] h =
     ((case emp of
         Some r \<Rightarrow> (r, if errs \<noteq> [] then Some (GPartial errs) else None)
       | None \<Rightarrow> (empty_result [], Some (GAllFailed errs))), h)"
| "get_loop pu send c key errs emp (base # bases) h =
     (case send (GetReq (base @ ''/'' @ key)) h of
        (None, h') \<Rightarrow> get_loop pu send c key (errs @ [HostFailed (hostOf pu base)]) emp bases h'
      | (Some resp, h') \<Rightarrow>
          if rsp_Status resp = 404 then get_loop pu send c key errs (Some (empty_result base)) bases h'
          else if rsp_Status resp < 200 \<or> 300 \<le> rsp_Status resp then
            get_loop pu send c key (errs @ [HostStatus (hostOf pu base) (rsp_Status resp)]) emp bases h'
          else (case parseValues c (rsp_Body resp) base of
              None \<Rightarrow> get_loop pu send c key (errs @ [HostFailed (hostOf pu base)]) emp bases h'
            | Some result \<Rightarrow>
                if br_Values result = [] then get_loop pu send c key errs (Some result) bases h'
                else ((result, None), h')))"

definition Get :: "url_parser \<Rightarrow> 'h transport \<Rightarrow> Client \<Rightarrow> string \<Rightarrow> 'h \<Rightarrow> (BResult \<times> geterr option) \<times> 'h" where
  "Get pu send c key h =
     (if \<not> isHexKey key then ((empty_result [], Some GBadKey), h)
      else get_loop pu send c key [] None (c_baseURLs c) h)"

definition put_payload :: "string \<Rightarrow> string" where
  "put_payload data = print_json (go_quote True) (JObj [(''data'', JStr (b64_encode data))])"

text \<open>put on one base URL, given the answer to its request.\<close>

definition put_one :: "url_parser \<Rightarrow> string \<Rightarrow> Response option \<Rightarrow> host_error option" where
  "put_one pu base answer =
     (case answer of None \<Rightarrow> Some (HostFailed (hostOf pu base))
      | Some resp \<Rightarrow> if rsp_Status resp < 200 \<or> 300 \<le> rsp_Status resp
          then Some (HostStatus (hostOf pu base) (rsp_Status resp)) else None)"

definition put_request :: "string \<Rightarrow> string \<Rightarrow> string \<Rightarrow> Request" where
  "put_request base key data = PostReq (base @ ''/'' @ key) (put_payload data)"

datatype puterr = PBadKey | PPartial "host_error list" | PAllFailed "host_error list"

text \<open>
  Put: the goroutines run one request each and write one slot each, so the outcome is the list
  of their outcomes in base-URL order; \<open>answers\<close> are the answers to the requests, one per base URL.
\<close>

definition Put :: "url_parser \<Rightarrow> Client \<Rightarrow> string \<Rightarrow> (Request \<Rightarrow> Response option) \<Rightarrow> string \<Rightarrow> puterr option" where
  "Put pu c key answer data =
     (if \<not> isHexKey key then Some PBadKey
      else (let putErrs = map (\<lambda>base. put_one pu base (answer (put_request base key data))) (c_baseURLs c);
                errs = List.map_filter id putErrs;
                successes = length (filter (\<lambda>e. e = None) putErrs)
        in if errs = [] then None
           else if 0 < successes then Some (PPartial errs) else Some (PAllFailed errs)))"

section \<open>The line reader is splitting at newlines\<close>

definition segment :: "string \<Rightarrow> string" where
  "segment s = takeWhile (\<lambda>c. c \<noteq> newline) s"

text \<open>A line without its terminator: oversized, or trimmed.\<close>

definition line_content :: "nat \<Rightarrow> string \<Rightarrow> string option" where
  "line_content maxLen c = (if maxLen < length c then None else Some (TrimSpace c))"

definition drop_cr :: "string \<Rightarrow> string" where
  "drop_cr c = (if c \<noteq> [] \<and> last c = cr then butlast c else c)"

lemma segment_no_newline: "newline \<notin> set (segment s)"
  by (auto simp: segment_def dest: set_takeWhileD)

lemma segment_append: "newline \<notin> set a \<Longrightarrow> segment (a @ s) = a @ segment s"
  by (auto simp: segment_def takeWhile_append)

lemma segment_all: "newline \<notin> set s \<Longrightarrow> segment s = s"
  unfolding segment_def takeWhile_eq_all_conv by auto

lemma segment_newline: "newline \<notin> set g \<Longrightarrow> segment (g @ newline # r) = g"
  by (simp add: segment_append) (simp add: segment_def)

text \<open>What the buffer may hold when a line of text \<open>l\<close> ends: all of it, or too much of it.\<close>

definition kept_buf :: "nat \<Rightarrow> string \<Rightarrow> string \<Rightarrow> string \<Rightarrow> bool" where
  "kept_buf m l eol b = (b = l @ eol \<or> (m + 1 < length b \<and> prefix b l))"

lemma ReadSlice_cases:
  assumes "ReadSlice n rest = ((l, e), r)" and "0 < n"
  shows "(e = Newline \<and> (\<exists>g. newline \<notin> set g \<and> l = g @ [newline] \<and> rest = g @ newline # r))
     \<or> (e = BufferFull \<and> newline \<notin> set l \<and> rest = l @ r)
     \<or> (e = AtEnd \<and> newline \<notin> set rest \<and> l = rest \<and> r = [])"
proof (cases "upto_newline (take n rest)")
  case (Some x)
  obtain a b where x: "x = (a, b)" by fastforce
  note u = upto_newline_Some [OF Some [unfolded x]]
  have a: "a = butlast a @ [newline]" using u append_butlast_last_id [of a] by simp
  have "rest = take n rest @ drop n rest" by simp
  then have ab: "rest = a @ (b @ drop n rest)" using u by simp
  have le: "l = a" "e = Newline" "r = drop (length a) rest" using assms(1) Some x by (auto simp: ReadSlice_def)
  have "r = b @ drop n rest" using le(3) ab by (metis append_eq_conv_conj)
  then have "rest = butlast a @ newline # r" using ab a by (metis append.assoc append_Cons append_Nil)
  then show ?thesis using u a le by blast
next
  case None
  then have "newline \<notin> set (take n rest)" by (simp add: upto_newline_None)
  then show ?thesis using assms(1) None by (auto simp: ReadSlice_def split: if_splits)
qed

lemma read_chunks_step:
  assumes "0 < n" and "ReadSlice n rest = ((l, e), r)"
  shows "read_chunks n m buf rest = (let b = if length buf \<le> m + 1 then buf @ l else buf in
     case e of BufferFull \<Rightarrow> read_chunks n m b r | Newline \<Rightarrow> ((b, False), r) | AtEnd \<Rightarrow> ((b, True), r))"
  using assms by (subst read_chunks.simps) (simp add: Let_def split: slice_end.split)

text \<open>A buffer that is already too long stays as it is.\<close>

lemma read_chunks_full:
  assumes "0 < n" and "m + 1 < length buf" and "read_chunks n m buf rest = ((b, atEnd), rest')"
  shows "b = buf"
  using assms
proof (induction n m buf rest rule: read_chunks.induct)
  case (1 n m buf rest)
  obtain l e r where s: "ReadSlice n rest = ((l, e), r)" by (metis prod.collapse)
  let ?buf = "if length buf \<le> m + 1 then buf @ l else buf"
  note step = read_chunks_step [OF 1(2) s, of m buf, unfolded Let_def]
  have full: "?buf = buf" using 1(3) by simp
  show ?case
  proof (cases e)
    case BufferFull
    then have "read_chunks n m buf r = ((b, atEnd), rest')" using 1(4) step full by simp
    then show ?thesis using 1(1) [OF _ s [symmetric] refl refl BufferFull] 1(2, 3) full by simp
  qed (use 1(4) step full in simp_all)
qed

lemma read_chunks_spec:
  assumes "0 < n" and "newline \<notin> set buf" and "read_chunks n m buf rest = ((b, atEnd), rest')"
  shows "if newline \<in> set rest
    then \<not> atEnd \<and> rest = segment rest @ newline # rest' \<and> kept_buf m (buf @ segment rest) [newline] b
    else atEnd \<and> rest' = [] \<and> kept_buf m (buf @ rest) [] b"
  using assms
proof (induction n m buf rest rule: read_chunks.induct)
  case (1 n m buf rest)
  obtain l e r where s: "ReadSlice n rest = ((l, e), r)" by (metis prod.collapse)
  let ?buf = "if length buf \<le> m + 1 then buf @ l else buf"
  note step = read_chunks_step [OF 1(2) s, of m buf, unfolded Let_def]
  have big: "kept_buf m (buf @ x) y buf" if "\<not> length buf \<le> m + 1" for x y
    using that by (auto simp: kept_buf_def)
  have ok: "kept_buf m (buf @ x) y ?buf" if "l = x @ y" for x y
    using that big by (auto simp: kept_buf_def)
  show ?case
  proof (cases e)
    case Newline
    then obtain g where g: "newline \<notin> set g" "l = g @ [newline]" "rest = g @ newline # r"
      using ReadSlice_cases [OF s 1(2)] by auto
    have "?buf = b" "\<not> atEnd" "r = rest'" using 1(4) step Newline by auto
    then show ?thesis using ok [OF g(2)] segment_newline [OF g(1)] g by simp
  next
    case AtEnd
    then have l: "newline \<notin> set rest" "l = rest" "r = []" using ReadSlice_cases [OF s 1(2)] by auto
    then show ?thesis using ok [of rest "[]"] 1(4) step AtEnd by auto
  next
    case BufferFull
    then have l: "newline \<notin> set l" "rest = l @ r" using ReadSlice_cases [OF s 1(2)] by auto
    have nl: "newline \<notin> set ?buf" using 1(3) l(1) by auto
    have "read_chunks n m ?buf r = ((b, atEnd), rest')" using 1(4) step BufferFull by simp
    then have ih: "if newline \<in> set r
        then \<not> atEnd \<and> r = segment r @ newline # rest' \<and> kept_buf m (?buf @ segment r) [newline] b
        else atEnd \<and> rest' = [] \<and> kept_buf m (?buf @ r) [] b"
      using 1(1) [OF _ s [symmetric] refl refl BufferFull 1(2) nl] 1(2) by simp
    have keep: "kept_buf m (buf @ l @ x) y b" if "kept_buf m (?buf @ x) y b" for x y
    proof (cases "length buf \<le> m + 1")
      case False
      then have "m + 1 < length buf" by simp
      then have "b = buf" by (rule read_chunks_full [OF 1(2) _ 1(4)])
      then show ?thesis using False by (simp add: kept_buf_def)
    qed (use that in simp)
    have seg: "segment rest = l @ segment r" "newline \<in> set rest \<longleftrightarrow> newline \<in> set r"
      using l segment_append [of l r] by auto
    show ?thesis
    proof (cases "newline \<in> set r")
      case True
      then have "\<not> atEnd" "r = segment r @ newline # rest'" "kept_buf m (?buf @ segment r) [newline] b"
        using ih by simp_all
      then show ?thesis using keep True seg l(2) by (metis append.assoc)
    next
      case False
      then have "atEnd" "rest' = []" "kept_buf m (?buf @ r) [] b" using ih by simp_all
      then show ?thesis using keep False seg l(2) by metis
    qed
  qed
qed

text \<open>So readLine reads one line: up to the newline, or the rest of the body.\<close>

lemma strip_eol_free: "newline \<notin> set b \<Longrightarrow> strip_eol b = b"
  using last_in_set [of b] by (cases "b = []") (auto simp: strip_eol_def simp del: last_in_set)

lemma strip_eol_kept:
  assumes "kept_buf m l [newline] b" and "newline \<notin> set l"
  shows "line_content m (strip_eol b) = line_content m (drop_cr l)"
proof -
  have "length (drop_cr l) \<ge> length l - 1" by (simp add: drop_cr_def)
  moreover have "newline \<notin> set b" if "prefix b l" using that assms(2) set_mono_prefix by blast
  moreover have "strip_eol b = b" if "newline \<notin> set b" using strip_eol_free [OF that] .
  moreover have "strip_eol (l @ [newline]) = drop_cr l" by (simp add: strip_eol_def drop_cr_def Let_def)
  ultimately show ?thesis
    using assms(1) prefix_length_le [of b l] by (auto simp: kept_buf_def line_content_def)
qed

lemma strip_eol_end:
  assumes "kept_buf m l [] b" and "newline \<notin> set l"
  shows "line_content m (strip_eol b) = line_content m l"
proof -
  have b: "newline \<notin> set b" using assms set_mono_prefix [of b l] by (auto simp: kept_buf_def)
  then have "strip_eol b = b" by (rule strip_eol_free)
  then show ?thesis using assms(1) prefix_length_le [of b l] by (auto simp: kept_buf_def line_content_def)
qed

lemma readLine_content:
  "readLine n m rest = (case read_chunks n m [] rest of ((b, atEnd), r) \<Rightarrow> ((line_content m (strip_eol b), atEnd), r))"
  by (auto simp: readLine_def line_content_def Let_def split: prod.splits)

lemma readLine_line:
  assumes "0 < n" and "newline \<notin> set g"
  shows "readLine n m (g @ newline # r) = ((line_content m (drop_cr g), False), r)"
proof -
  obtain b e r' where rc: "read_chunks n m [] (g @ newline # r) = ((b, e), r')" by (metis prod.collapse)
  then show ?thesis
    using read_chunks_spec [OF assms(1) _ rc] segment_newline [OF assms(2), of r] strip_eol_kept [of m g b] assms(2)
    unfolding readLine_content rc by simp
qed

lemma readLine_last:
  assumes "0 < n" and "newline \<notin> set g"
  shows "readLine n m g = ((line_content m g, True), [])"
proof -
  obtain b e r' where rc: "read_chunks n m [] g = ((b, e), r')" by (metis prod.collapse)
  show ?thesis
    using read_chunks_spec [OF assms(1) _ rc] strip_eol_end [of m g b] assms(2) by (simp add: readLine_content rc)
qed

section \<open>parseValues is a fold over the lines\<close>

definition body_lines :: "string \<Rightarrow> string list" where
  "body_lines s = (let p = split_on newline s in map drop_cr (butlast p) @ [last p])"

definition take_line :: "nat \<Rightarrow> nat \<Rightarrow> BResult \<Rightarrow> string \<Rightarrow> BResult" where
  "take_line maxLen maxValues result c =
     (case line_content maxLen c of None \<Rightarrow> result\<lparr>br_Skipped := br_Skipped result + 1\<rparr>
      | Some l \<Rightarrow> if l = [] then result else decodeLine maxValues l result)"

lemma split_on_sep: "c \<notin> set g \<Longrightarrow> split_on c (g @ c # r) = g # split_on c r"
  by (induction g) auto

lemma split_on_last: "c \<notin> set g \<Longrightarrow> split_on c g = [g]"
  by (induction g) auto

lemma split_on_not_Nil: "split_on c s \<noteq> []"
  by (cases s) (auto split: list.splits)

lemma body_lines_sep: "newline \<notin> set g \<Longrightarrow> body_lines (g @ newline # r) = drop_cr g # body_lines r"
  by (simp add: body_lines_def split_on_sep Let_def split_on_not_Nil)

lemma body_lines_last: "newline \<notin> set g \<Longrightarrow> body_lines g = [g]"
  by (simp add: body_lines_def split_on_last)

lemma parse_loop_lines:
  assumes "0 < n"
  shows "parse_loop n m v ok rest result =
    (if ok then Some (foldl (take_line m v) result (body_lines rest)) else None)"
proof (induction "length rest" arbitrary: rest result rule: less_induct)
  case less
  show ?case
  proof (cases "newline \<in> set rest")
    case True
    then obtain g r where g: "rest = g @ newline # r" "newline \<notin> set g" by (meson split_list_first)
    then have "parse_loop n m v ok rest result = parse_loop n m v ok r (take_line m v result (drop_cr g))"
      using readLine_line [OF assms g(2), of m r]
      by (subst parse_loop.simps) (auto simp: take_line_def Let_def split: option.splits)
    moreover have "length r < length rest" using g(1) by simp
    ultimately show ?thesis using less [of r] g by (simp add: body_lines_sep)
  next
    case False
    then show ?thesis using readLine_last [OF assms False, of m]
      by (subst parse_loop.simps) (auto simp: take_line_def Let_def body_lines_last split: option.splits)
  qed
qed

end
