(* ===== verification/Dhtkey.thy ===== *)
theory Dhtkey
  imports Dhtproxy "HOL-Library.Word"
begin

text \<open>
  internal/dhtkey: the rendezvous key of a node, the SHA-1 digest in lower-case hexadecimal of
  namespace/node ID. crypto/sha1 is modelled in full on 32-bit words.
\<close>

unbundle bit_operations_syntax

section \<open>crypto/sha1\<close>

definition byte_word :: "char \<Rightarrow> 32 word" where
  "byte_word c = word_of_nat (code c)"

fun words_of :: "string \<Rightarrow> 32 word list" where
  "words_of (a # b # c # d # cs) =
     (push_bit 24 (byte_word a) OR push_bit 16 (byte_word b) OR push_bit 8 (byte_word c) OR byte_word d) # words_of cs"
| "words_of _ = []"

text \<open>The bytes of a word, most significant first.\<close>

definition byte_at :: "nat \<Rightarrow> 'w::len word \<Rightarrow> char" where
  "byte_at i w = char_of (unat (drop_bit (8 * i) w AND 0xFF))"

definition be64 :: "64 word \<Rightarrow> string" where
  "be64 n = map (\<lambda>i. byte_at i n) [7, 6, 5, 4, 3, 2, 1, 0]"

definition sha1_pad :: "string \<Rightarrow> string" where
  "sha1_pad msg =
     msg @ CHR 0x80 # replicate ((119 - length msg mod 64) mod 64) (CHR 0x00) @ be64 (8 * word_of_nat (length msg))"

text \<open>The message schedule, last word first.\<close>

fun schedule :: "nat \<Rightarrow> 32 word list \<Rightarrow> 32 word list" where
  "schedule 0 ws = ws"
| "schedule (Suc n) ws =
     schedule n (word_rotl 1 (ws ! 2 XOR ws ! 7 XOR ws ! 13 XOR ws ! 15) # ws)"

type_synonym digest = "32 word \<times> 32 word \<times> 32 word \<times> 32 word \<times> 32 word"

definition round_fk :: "nat \<Rightarrow> 32 word \<Rightarrow> 32 word \<Rightarrow> 32 word \<Rightarrow> 32 word \<times> 32 word" where
  "round_fk t b c d =
     (if t < 20 then ((b AND c) OR (NOT b AND d), 0x5A827999)
      else if t < 40 then (b XOR c XOR d, 0x6ED9EBA1)
      else if t < 60 then (((b OR c) AND d) OR (b AND c), 0x8F1BBCDC)
      else (b XOR c XOR d, 0xCA62C1D6))"

fun rounds :: "nat \<Rightarrow> 32 word list \<Rightarrow> digest \<Rightarrow> digest" where
  "rounds t [] st = st"
| "rounds t (w # ws) (a, b, c, d, e) =
     (case round_fk t b c d of (f, k) \<Rightarrow>
        rounds (Suc t) ws (word_rotl 5 a + f + e + w + k, a, word_rotl 30 b, c, d))"

definition sha1_block :: "32 word list \<Rightarrow> digest \<Rightarrow> digest" where
  "sha1_block ws st =
     (case rounds 0 (rev (schedule 64 (rev ws))) st of (a, b, c, d, e) \<Rightarrow>
      case st of (h0, h1, h2, h3, h4) \<Rightarrow> (h0 + a, h1 + b, h2 + c, h3 + d, h4 + e))"

function sha1_blocks :: "32 word list \<Rightarrow> digest \<Rightarrow> digest" where
  "sha1_blocks ws st = (if ws = [] then st else sha1_blocks (drop 16 ws) (sha1_block (take 16 ws) st))"
  by pat_completeness auto
termination
  by (relation "measure (\<lambda>(ws, st). length ws)") auto

declare sha1_blocks.simps [simp del]

definition sha1_init :: digest where
  "sha1_init = (0x67452301, 0xEFCDAB89, 0x98BADCFE, 0x10325476, 0xC3D2E1F0)"

definition word_bytes :: "32 word \<Rightarrow> string" where
  "word_bytes w = map (\<lambda>i. byte_at i w) [3, 2, 1, 0]"

definition sha1_Sum :: "string \<Rightarrow> string" where
  "sha1_Sum msg =
     (case sha1_blocks (words_of (sha1_pad msg)) sha1_init of (a, b, c, d, e) \<Rightarrow>
        word_bytes a @ word_bytes b @ word_bytes c @ word_bytes d @ word_bytes e)"

text \<open>encoding/hex.\<close>

definition hex_EncodeToString :: "string \<Rightarrow> string" where
  "hex_EncodeToString s = concat (map (\<lambda>c. [hexdig (code c div 16), hexdig (code c mod 16)]) s)"

section \<open>Key\<close>

datatype part = NamespacePart | NodeIDPart
datatype keyerr = PartEmpty part | PartSlash part

definition validatePart :: "part \<Rightarrow> string \<Rightarrow> keyerr option" where
  "validatePart name v =
     (if v = [] then Some (PartEmpty name) else if CHR ''/'' \<in> set v then Some (PartSlash name) else None)"

definition dht_Key :: "string \<Rightarrow> string \<Rightarrow> keyerr + string" where
  "dht_Key namespace nodeID =
     (case validatePart NamespacePart namespace of Some e \<Rightarrow> Inl e
      | None \<Rightarrow> (case validatePart NodeIDPart nodeID of Some e \<Rightarrow> Inl e
        | None \<Rightarrow> Inr (hex_EncodeToString (sha1_Sum (namespace @ ''/'' @ nodeID)))))"

section \<open>Its form\<close>

lemma length_word_bytes [simp]: "length (word_bytes w) = 4"
  by (simp add: word_bytes_def)

lemma sha1_length: "length (sha1_Sum msg) = 20"
  by (simp add: sha1_Sum_def split: prod.split)

text \<open>The padding completes whole blocks of 64 bytes, so no word of the message is lost.\<close>

lemma sha1_pad_blocks: "length (sha1_pad msg) mod 64 = 0"
proof -
  let ?m = "length msg mod 64"
  have len: "length (sha1_pad msg) = length msg + (9 + (119 - ?m) mod 64)" by (simp add: sha1_pad_def be64_def)
  have "(119 - ?m) mod 64 = (if ?m \<le> 55 then 55 - ?m else 119 - ?m)"
  proof (cases "?m \<le> 55")
    case True
    then have "119 - ?m = 55 - ?m + 64" by simp
    then show ?thesis using True by (simp only: mod_add_self2) simp
  qed simp
  moreover have "?m \<le> 119" using mod_less_divisor [of 64 "length msg"] by linarith
  ultimately have "?m + (9 + (119 - ?m) mod 64) = 64 * (if ?m \<le> 55 then 1 else 2)" by simp
  then have "(?m + (9 + (119 - ?m) mod 64)) mod 64 = 0" by (metis mod_mult_self1_is_0)
  with len show ?thesis by (metis mod_add_left_eq)
qed

lemma length_words_of: "length (words_of s) = length s div 4"
  by (induction s rule: words_of.induct) simp_all

lemma hexdig_lower: "n < 16 \<Longrightarrow> (48 \<le> code (hexdig n) \<and> code (hexdig n) \<le> 57) \<or> (97 \<le> code (hexdig n) \<and> code (hexdig n) \<le> 102)"
  using nth_mem [of n "''0123456789abcdef''"] by (auto simp: hexdig_def)

lemma hex_length: "length (hex_EncodeToString s) = 2 * length s"
  by (induction s) (simp_all add: hex_EncodeToString_def)

lemma code_div16: "code c div 16 < 16"
  using code_le [of c] by linarith

lemma hex_isHex: "length s = 20 \<Longrightarrow> isHexKey (hex_EncodeToString s)"
  using hexdig_lower code_div16
  unfolding isHexKey_def hex_length by (auto simp: list_all_iff hex_EncodeToString_def)

lemma hex_inj: "hex_EncodeToString s = hex_EncodeToString t \<Longrightarrow> s = t"
proof (induction s arbitrary: t)
  case Nil
  then show ?case by (cases t) (simp_all add: hex_EncodeToString_def)
next
  case (Cons c s)
  then obtain d t' where t: "t = d # t'" by (cases t) (simp_all add: hex_EncodeToString_def)
  have inj: "i = j" if "hexdig i = hexdig j" "i < 16" "j < 16" for i j
    using that nth_eq_iff_index_eq [of "''0123456789abcdef''" i j] by (simp add: hexdig_def)
  have "code c div 16 = code d div 16" "code c mod 16 = code d mod 16"
    using Cons.prems t inj code_div16 by (simp_all add: hex_EncodeToString_def)
  then have "code c = code d" by (metis div_mult_mod_eq)
  then have "c = d" by simp
  moreover have "s = t'" using Cons t by (simp add: hex_EncodeToString_def)
  ultimately show ?case using t by simp
qed

text \<open>The text that is hashed determines both parts.\<close>

lemma slash_split:
  assumes "a @ CHR ''/'' # b = a' @ CHR ''/'' # b'" and "CHR ''/'' \<notin> set a" and "CHR ''/'' \<notin> set a'"
  shows "a = a' \<and> b = b'"
  using assms
proof (induction a arbitrary: a')
  case Nil
  then show ?case by (cases a') auto
next
  case (Cons c a)
  then show ?case by (cases a') auto
qed

lemma Key_Inr:
  "dht_Key ns nid = Inr k \<longleftrightarrow> validatePart NamespacePart ns = None \<and> validatePart NodeIDPart nid = None
     \<and> k = hex_EncodeToString (sha1_Sum (ns @ ''/'' @ nid))"
  by (auto simp: dht_Key_def split: option.splits)

lemma validatePart_None: "validatePart name v = None \<longleftrightarrow> v \<noteq> [] \<and> CHR ''/'' \<notin> set v"
  by (simp add: validatePart_def)

section \<open>Properties\<close>

text \<open>Key gives an error exactly when a part is empty or has a slash, naming the first such part and
  never its value; what it returns otherwise is a key that the dhtproxy client accepts: 40 lower-case
  hexadecimal characters, the SHA-1 digest of namespace/node.\<close>

theorem Key_form:
  "case dht_Key ns nid of
     Inl e \<Rightarrow> e = (if ns = [] then PartEmpty NamespacePart else if CHR ''/'' \<in> set ns then PartSlash NamespacePart
                 else if nid = [] then PartEmpty NodeIDPart else PartSlash NodeIDPart)
   | Inr k \<Rightarrow> ns \<noteq> [] \<and> nid \<noteq> [] \<and> CHR ''/'' \<notin> set (ns @ nid) \<and> isHexKey k
       \<and> k = hex_EncodeToString (sha1_Sum (ns @ ''/'' @ nid))"
proof (cases "dht_Key ns nid")
  case (Inl e)
  then show ?thesis by (auto simp: dht_Key_def validatePart_def split: if_splits)
next
  case (Inr k)
  note k = Inr [unfolded Key_Inr validatePart_None]
  moreover have "isHexKey k" using k hex_isHex [OF sha1_length] by simp
  ultimately show ?thesis unfolding Inr by simp
qed

text \<open>Two nodes with the same key are the same node of the same namespace, unless SHA-1 itself maps
  their two different texts to one digest: no two pairs join to one text.\<close>

theorem Key_separates:
  assumes "dht_Key ns nid = Inr k" and "dht_Key ns' nid' = Inr k"
  shows "(ns = ns' \<and> nid = nid')
    \<or> (ns @ ''/'' @ nid \<noteq> ns' @ ''/'' @ nid' \<and> sha1_Sum (ns @ ''/'' @ nid) = sha1_Sum (ns' @ ''/'' @ nid'))"
proof -
  have k: "k = hex_EncodeToString (sha1_Sum (ns @ ''/'' @ nid))" "k = hex_EncodeToString (sha1_Sum (ns' @ ''/'' @ nid'))"
    and n: "CHR ''/'' \<notin> set ns" "CHR ''/'' \<notin> set ns'"
    using assms unfolding Key_Inr validatePart_None by simp_all
  have "sha1_Sum (ns @ ''/'' @ nid) = sha1_Sum (ns' @ ''/'' @ nid')" by (rule hex_inj) (use k in simp)
  moreover have "ns = ns' \<and> nid = nid'" if "ns @ ''/'' @ nid = ns' @ ''/'' @ nid'"
    using slash_split [OF _ n] that by simp
  ultimately show ?thesis by blast
qed

theorem Key_separates_witness: "validatePart NodeIDPart ''b'' = None \<and> (''ns'' = ''ns'' \<and> ''b'' = ''b''
    \<or> (''ns'' @ ''/'' @ ''b'' \<noteq> ''ns'' @ ''/'' @ ''b'' \<and> sha1_Sum (''ns'' @ ''/'' @ ''b'') = sha1_Sum (''ns'' @ ''/'' @ ''b'')))"
  using Key_separates [of "''ns''" "''b''" "hex_EncodeToString (sha1_Sum (''ns'' @ ''/'' @ ''b''))" "''ns''" "''b''"]
  by (simp add: Key_Inr validatePart_None)

end
