(* ===== verification/Dhtproxy_Props.thy ===== *)
theory Dhtproxy_Props
  imports Dhtproxy Json_Lemmas
begin

text \<open>
  What the dhtproxy client promises: a body is read line by line whatever the buffer's size, Get stops at
  the first base URL with a value and reports an outage as such, Put succeeds exactly when every base URL
  took the value, and what Put posts is what the reader of Get decodes.
\<close>

section \<open>The value of a line\<close>

text \<open>\<open>None\<close>: blank; \<open>Some None\<close>: malformed or too long; otherwise the bytes.\<close>

definition line_value :: "nat \<Rightarrow> string \<Rightarrow> string option option" where
  "line_value maxLen c =
     (case line_content maxLen c of None \<Rightarrow> Some None
      | Some l \<Rightarrow> if l = [] then None
          else Some (case data_field l of None \<Rightarrow> None | Some d \<Rightarrow> b64_decode d))"

definition line_values :: "nat \<Rightarrow> string \<Rightarrow> string option list" where
  "line_values maxLen body = List.map_filter (line_value maxLen) (body_lines body)"

definition values_of :: "string option list \<Rightarrow> string list" where
  "values_of = List.map_filter id"

lemma values_of_simps [simp]:
  "values_of [] = []" "values_of (None # vs) = values_of vs" "values_of (Some d # vs) = d # values_of vs"
  by (simp_all add: values_of_def map_filter_simps)

lemma take_line_value:
  "take_line m v result c = (case line_value m c of None \<Rightarrow> result
     | Some None \<Rightarrow> result\<lparr>br_Skipped := br_Skipped result + 1\<rparr>
     | Some (Some d) \<Rightarrow> if v \<le> length (br_Values result) then result\<lparr>br_Dropped := br_Dropped result + 1\<rparr>
         else result\<lparr>br_Values := br_Values result @ [d]\<rparr>)"
  by (simp add: take_line_def line_value_def decodeLine_def split: option.splits)

lemma foldl_lines:
  assumes "length (br_Values r) \<le> v"
  shows "foldl (take_line m v) r ls =
    (let vs = List.map_filter (line_value m) ls; good = br_Values r @ values_of vs in
     r\<lparr>br_Values := take v good, br_Skipped := br_Skipped r + count_list vs None,
       br_Dropped := br_Dropped r + (length good - v)\<rparr>)"
  using assms
proof (induction ls arbitrary: r)
  case Nil
  then show ?case by (simp add: map_filter_simps)
next
  case (Cons l ls)
  consider "line_value m l = None" | "line_value m l = Some None" | d where "line_value m l = Some (Some d)"
    by (cases "line_value m l") auto
  then show ?case
  proof cases
    case 3
    show ?thesis
    proof (cases "length (br_Values r) = v")
      case True
      then show ?thesis using 3 Cons.IH [of "r\<lparr>br_Dropped := br_Dropped r + 1\<rparr>"]
        by (simp add: take_line_value map_filter_simps Let_def)
    next
      case False
      then show ?thesis using 3 Cons.prems Cons.IH [of "r\<lparr>br_Values := br_Values r @ [d]\<rparr>"]
        by (simp add: take_line_value map_filter_simps Let_def)
    qed
  qed (use Cons in \<open>simp_all add: take_line_value map_filter_simps Let_def\<close>)
qed

section \<open>The outcome of Get at one base URL\<close>

datatype get_outcome = Failed host_error | NoValue BResult | Found BResult

definition get_answer :: "url_parser \<Rightarrow> Client \<Rightarrow> string \<Rightarrow> Response option \<Rightarrow> get_outcome" where
  "get_answer pu c base answer =
     (case answer of None \<Rightarrow> Failed (HostFailed (hostOf pu base))
      | Some resp \<Rightarrow>
          if rsp_Status resp = 404 then NoValue (empty_result base)
          else if rsp_Status resp < 200 \<or> 300 \<le> rsp_Status resp then Failed (HostStatus (hostOf pu base) (rsp_Status resp))
          else (case parseValues c (rsp_Body resp) base of None \<Rightarrow> Failed (HostFailed (hostOf pu base))
            | Some r \<Rightarrow> if br_Values r = [] then NoValue r else Found r))"

fun failure :: "get_outcome \<Rightarrow> host_error option" where
  "failure (Failed e) = Some e" | "failure _ = None"

fun no_value :: "get_outcome \<Rightarrow> BResult option" where
  "no_value (NoValue r) = Some r" | "no_value _ = None"

fun found :: "get_outcome \<Rightarrow> BResult option" where
  "found (Found r) = Some r" | "found _ = None"

text \<open>A transport that answers from a table and keeps the requests it got.\<close>

definition logged :: "(Request \<Rightarrow> Response option) \<Rightarrow> Request list transport" where
  "logged answer req log = (answer req, log @ [req])"

definition get_end :: "host_error list \<Rightarrow> BResult option \<Rightarrow> get_outcome list \<Rightarrow> BResult \<times> geterr option" where
  "get_end errs emp os =
     (let es = errs @ List.map_filter failure os; ns = (case emp of None \<Rightarrow> [] | Some r \<Rightarrow> [r]) @ List.map_filter no_value os in
      if ns = [] then (empty_result [], Some (GAllFailed es))
      else (last ns, if es = [] then None else Some (GPartial es)))"

lemma get_loop_step:
  "get_loop pu (logged answer) c key errs emp (base # bases) log =
    (case get_answer pu c base (answer (GetReq (base @ ''/'' @ key))) of
       Failed e \<Rightarrow> get_loop pu (logged answer) c key (errs @ [e]) emp bases (log @ [GetReq (base @ ''/'' @ key)])
     | NoValue r \<Rightarrow> get_loop pu (logged answer) c key errs (Some r) bases (log @ [GetReq (base @ ''/'' @ key)])
     | Found r \<Rightarrow> ((r, None), log @ [GetReq (base @ ''/'' @ key)]))"
  by (auto simp: logged_def get_answer_def split: option.splits)

lemma get_loop_outcome:
  fixes answer :: "Request \<Rightarrow> Response option" and pu :: url_parser and c :: Client and key :: string
  defines "ask \<equiv> \<lambda>b. GetReq (b @ ''/'' @ key)"
  defines "out \<equiv> \<lambda>b. get_answer pu c b (answer (ask b))"
  shows "get_loop pu (logged answer) c key errs emp bases log =
    (case dropWhile (\<lambda>b. found (out b) = None) bases of
       [] \<Rightarrow> (get_end errs emp (map out bases), log @ map ask bases)
     | b # rest \<Rightarrow> ((the (found (out b)), None), log @ map ask (takeWhile (\<lambda>b. found (out b) = None) bases) @ [ask b]))"
proof -
  have step: "get_loop pu (logged answer) c key es em (b # bs) lg = (case out b of
       Failed e \<Rightarrow> get_loop pu (logged answer) c key (es @ [e]) em bs (lg @ [ask b])
     | NoValue r \<Rightarrow> get_loop pu (logged answer) c key es (Some r) bs (lg @ [ask b])
     | Found r \<Rightarrow> ((r, None), lg @ [ask b]))" for es em b bs lg
    unfolding get_loop_step out_def ask_def ..
  have last: "get_end es em (Failed e # os) = get_end (es @ [e]) em os" "get_end es em (NoValue r # os) = get_end es (Some r) os"
    for es em e r os
    by (simp_all add: get_end_def map_filter_simps Let_def split: option.split)
  show ?thesis
  proof (induction bases arbitrary: errs emp log)
    case Nil
    then show ?case by (simp add: get_end_def map_filter_simps split: option.split)
  next
    case (Cons b bases)
    show ?case
      by (cases "dropWhile (\<lambda>b. found (out b) = None) bases"; cases "out b")
        (simp_all add: step last Cons.IH del: get_loop.simps dropWhile_eq_Nil_conv)
  qed
qed

section \<open>Payloads\<close>

definition printable :: "string \<Rightarrow> bool" where
  "printable s = list_all (\<lambda>c. 33 \<le> code c \<and> code c < 128) s"

lemma printable_app [simp]: "printable (a @ b) = (printable a \<and> printable b)"
  by (simp add: printable_def)

lemma printable_Cons [simp]: "printable (c # s) = (33 \<le> code c \<and> code c < 128 \<and> printable s)"
  by (simp add: printable_def)

lemma printable_Nil [simp]: "printable []"
  by (simp add: printable_def)

lemma printable_hexdig: "n < 16 \<Longrightarrow> 33 \<le> code (hexdig n) \<and> code (hexdig n) < 128"
  using nth_mem [of n "''0123456789abcdef''"] by (auto simp: hexdig_def)

lemma printable_go_quote: "printable s \<Longrightarrow> printable (go_quote h s)"
proof -
  assume s: "printable s"
  then have "runes s = map Asc s" by (intro runes_ascii) (auto simp: printable_def list_all_iff)
  then have "go_quote h s = concat (map (esc_ascii h) s)" by (simp add: go_quote_def comp_def)
  moreover have "printable (esc_ascii h c)" if "33 \<le> code c" "code c < 128" for c
    using that by (auto simp: esc_ascii_def printable_hexdig)
  moreover have "printable (concat (map (esc_ascii h) t))" if "printable t" for t
    using that calculation(2) by (induction t) auto
  ultimately show ?thesis using s by simp
qed

lemma printable_payload: "printable (put_payload d)"
proof -
  have "printable (b64_encode d)" by (auto simp: printable_def list_all_iff dest: b64_encode_printable)
  then show ?thesis using printable_go_quote [of "b64_encode d" True] printable_go_quote [of "''data''" True]
    by (simp add: put_payload_def)
qed

lemma length_concat_le: "(\<And>x. x \<in> set xs \<Longrightarrow> length (f x) \<le> n) \<Longrightarrow> length (concat (map f xs)) \<le> n * length xs"
  by (induction xs) (simp_all add: add_le_mono)

lemma b64_encode_length: "length (b64_encode s) \<le> 4 * length s"
  by (induction s rule: b64_encode.induct) (simp_all add: Let_def)

text \<open>A bound on a payload's size, enough to see that a line of it is not too long.\<close>

lemma payload_length: "length (put_payload d) \<le> 11 + 24 * length d"
proof -
  have "runes (b64_encode d) = map Asc (b64_encode d)"
    by (rule runes_ascii) (auto simp: list_all_iff dest: b64_encode_printable)
  then have "length (go_quote True (b64_encode d)) \<le> 6 * length (b64_encode d)"
    unfolding go_quote_def map_map by (auto simp: comp_def esc_ascii_def intro!: length_concat_le)
  moreover have "length (go_quote True ''data'') = 4" by (simp add: go_quote_def runes_ascii esc_ascii_def)
  ultimately show ?thesis using b64_encode_length [of d] by (simp add: put_payload_def)
qed

lemma payload_field: "data_field (put_payload d) = Some (b64_encode d)"
proof -
  let ?v = "JObj [(''data'', JStr (b64_encode d))]"
  have "valid_utf8 (b64_encode d)" by (rule valid_utf8_ascii) (auto simp: list_all_iff dest: b64_encode_printable)
  moreover have "valid_utf8 ''data''" by (rule valid_utf8_ascii) simp
  ultimately have "unmarshal (put_payload d) = Some ?v"
    unfolding put_payload_def
    by (intro html.unmarshal_print) (simp_all add: max_depth_def depth_JObj del: depth.simps(2))
  then show ?thesis by (simp add: data_field_def find_field_def dec_ptr_def bindE_def)
qed

lemma payload_ends:
  obtains m where "put_payload d = CHR ''{'' # m @ ''}''"
  by (simp add: put_payload_def)

lemma payload_line:
  assumes "length (put_payload d) \<le> m"
  shows "line_value m (drop_cr (put_payload d)) = Some (Some d)" and "newline \<notin> set (put_payload d)"
proof -
  obtain t where t: "put_payload d = CHR ''{'' # t @ ''}''" by (rule payload_ends)
  then have "drop_cr (put_payload d) = put_payload d" by (simp add: drop_cr_def)
  moreover have "TrimSpace (put_payload d) = put_payload d"
    using TrimSpace_around [of "put_payload d" "[]" "[]"] printable_payload [of d] by (simp add: printable_def)
  ultimately show "line_value m (drop_cr (put_payload d)) = Some (Some d)"
    using assms t payload_field [of d] by (simp add: line_value_def line_content_def b64_decode_encode)
  show "newline \<notin> set (put_payload d)" using printable_payload [of d] by (auto simp: printable_def list_all_iff)
qed

text \<open>A server's answer: the payloads it stored, one to a line.\<close>

definition stored_body :: "string list \<Rightarrow> string" where
  "stored_body ds = concat (map (\<lambda>d. put_payload d @ [newline]) ds)"

lemma line_value_empty: "line_value m [] = None"
  by (simp add: line_value_def line_content_def TrimSpace_def)

lemma stored_lines:
  assumes "list_all (\<lambda>d. length (put_payload d) \<le> m) ds"
  shows "line_values m (stored_body ds) = map Some ds"
  using assms
proof (induction ds)
  case Nil
  then show ?case by (simp add: line_values_def stored_body_def body_lines_def map_filter_simps line_value_empty)
next
  case (Cons d ds)
  then show ?case using payload_line [of d m]
    by (simp add: line_values_def stored_body_def body_lines_sep map_filter_simps)
qed

section \<open>Properties\<close>

text \<open>C22: parseValues, which reads through a 64 KiB buffer and throws away what a line has over its
  limit, gives what splitting the body at its newlines gives: of the lines that are not blank, the
  values of the well-formed ones in order up to the cap, the count of well-formed ones past the cap as
  dropped, and the count of all others (malformed or too long) as skipped. A body whose stream fails
  gives an error.\<close>

theorem parseValues_lines:
  "parseValues c (body, ok) base =
    (if ok then (let vs = line_values (c_maxLineSize c) body; good = values_of vs in
       Some \<lparr>br_Values = take (c_maxValues c) good, br_Skipped = count_list vs None,
         br_Dropped = length good - c_maxValues c, br_URL = base\<rparr>)
     else None)"
  using foldl_lines [of "empty_result base" "c_maxValues c" "c_maxLineSize c" "body_lines body"]
  by (simp add: parseValues_def parse_loop_lines bufSize_def empty_result_def line_values_def Let_def)

text \<open>Get refuses a malformed key without a request. Otherwise it asks the base URLs in order, each
  once, and stops at the first that gives a value, whose result it returns. If none does, it returns
  the result of the last base URL that answered without a value, with an error that lists the hosts
  that failed, if any; and an error when every one failed.\<close>

theorem Get_outcome:
  "Get pu (logged answer) c key log =
    (if \<not> isHexKey key then ((empty_result [], Some GBadKey), log)
     else (let ask = \<lambda>b. GetReq (b @ ''/'' @ key); out = \<lambda>b. get_answer pu c b (answer (ask b));
               before = takeWhile (\<lambda>b. found (out b) = None) (c_baseURLs c) in
       case dropWhile (\<lambda>b. found (out b) = None) (c_baseURLs c) of
         [] \<Rightarrow> (get_end [] None (map out (c_baseURLs c)), log @ map ask (c_baseURLs c))
       | b # rest \<Rightarrow> ((the (found (out b)), None), log @ map ask before @ [ask b])))"
  by (cases "isHexKey key") (simp_all only: Get_def get_loop_outcome Let_def if_True if_False not_True_eq_False not_False_eq_True)

definition accepts :: "Response option \<Rightarrow> bool" where
  "accepts answer = (case answer of None \<Rightarrow> False | Some resp \<Rightarrow> 200 \<le> rsp_Status resp \<and> rsp_Status resp < 300)"

lemma put_one_None: "put_one pu base answer = None \<longleftrightarrow> accepts answer"
  by (auto simp: put_one_def accepts_def split: option.splits)

lemma map_filter_Nil: "List.map_filter f xs = [] \<longleftrightarrow> (\<forall>x \<in> set xs. f x = None)"
  by (induction xs) (auto simp: map_filter_simps split: option.splits)

text \<open>Put succeeds exactly when every base URL answers with a 2xx status, reports a partial failure
  exactly when some do and some do not, and fails when none does; its error lists one entry per base URL
  that failed, in order, and a malformed key is refused.\<close>

theorem Put_outcome:
  "Put pu c key answer data =
    (let took = map (\<lambda>b. accepts (answer (put_request b key data))) (c_baseURLs c);
         fails = List.map_filter (\<lambda>b. put_one pu b (answer (put_request b key data))) (c_baseURLs c) in
     if \<not> isHexKey key then Some PBadKey else if list_all id took then None
     else if list_ex id took then Some (PPartial fails) else Some (PAllFailed fails))"
proof -
  let ?p = "\<lambda>b. put_one pu b (answer (put_request b key data))"
  let ?t = "\<lambda>b. accepts (answer (put_request b key data))"
  have f: "List.map_filter id (map ?p bs) = List.map_filter ?p bs" for bs
    by (induction bs) (simp_all add: map_filter_simps split: option.split)
  have n: "List.map_filter ?p bs = [] \<longleftrightarrow> list_all id (map ?t bs)" for bs
    by (simp add: map_filter_Nil put_one_None list_all_iff)
  have s: "0 < length (filter (\<lambda>e. e = None) (map ?p bs)) \<longleftrightarrow> list_ex id (map ?t bs)" for bs
    by (auto simp: filter_empty_conv put_one_None list_ex_iff)
  show ?thesis unfolding Put_def Let_def f n s ..
qed

lemma parse_stored:
  assumes "list_all (\<lambda>d. length (put_payload d) \<le> c_maxLineSize c) ds"
  shows "parseValues c (stored_body ds, True) base = Some \<lparr>br_Values = take (c_maxValues c) ds,
     br_Skipped = 0, br_Dropped = length ds - c_maxValues c, br_URL = base\<rparr>"
proof -
  have "values_of (map Some ds) = ds" by (induction ds) simp_all
  moreover have "count_list (map Some ds) None = 0" by (induction ds) simp_all
  moreover have "parse_loop bufSize (c_maxLineSize c) (c_maxValues c) True (stored_body ds) (empty_result base)
      = Some (foldl (take_line (c_maxLineSize c) (c_maxValues c)) (empty_result base) (body_lines (stored_body ds)))"
    by (simp add: parse_loop_lines bufSize_def)
  ultimately show ?thesis using stored_lines [OF assms] foldl_lines [of "empty_result base"]
    by (simp add: parseValues_def empty_result_def line_values_def Let_def)
qed

text \<open>What was put is what is read back: a body that holds the payloads Put posted, one to a line,
  gives the values in order, up to the cap and with nothing skipped.\<close>

theorem Put_parseValues:
  assumes "list_all (\<lambda>d. length (put_payload d) \<le> c_maxLineSize c) ds"
  shows "parseValues c (stored_body ds, True) base = Some \<lparr>br_Values = take (c_maxValues c) ds,
     br_Skipped = 0, br_Dropped = length ds - c_maxValues c, br_URL = base\<rparr>"
  using assms by (rule parse_stored)

theorem Put_parseValues_witness:
  "parseValues \<lparr>c_baseURLs = [], c_maxValues = 1, c_maxLineSize = 100\<rparr> (stored_body [''ab'', ''c''], True) ''u''
     = Some \<lparr>br_Values = [''ab''], br_Skipped = 0, br_Dropped = 1, br_URL = ''u''\<rparr>"
proof -
  have "length (put_payload ''ab'') \<le> 100" "length (put_payload ''c'') \<le> 100"
    by (simp_all add: put_payload_def go_quote_def runes_ascii b64_encode.simps b64_char_def b64_alphabet_def esc_ascii_def)
  then show ?thesis using Put_parseValues [of "\<lparr>c_baseURLs = [], c_maxValues = 1, c_maxLineSize = 100\<rparr>"
      "[''ab'', ''c'']" "''u''"] by simp
qed

end
