(* ===== verification/AgentConfig.thy ===== *)
theory AgentConfig
  imports Complex_Main Backend Json_Lemmas Decode Crypto Effects
begin

text \<open>
  cmd/stunmesh-agent/config.go: config.yaml, its decoding, defaults and rules, with
  time.ParseDuration and the rounding of its fractions modelled. The conversion of YAML to
  JSON is a parameter (\<open>yaml\<close>, internal/yamlx.ToJSON).
\<close>

section \<open>time.ParseDuration\<close>

text \<open>leadingInt, with its overflow checks; \<open>x\<close> is the value so far.\<close>

fun leadingInt :: "nat \<Rightarrow> string \<Rightarrow> (nat \<times> string) option" where
  "leadingInt x [] = Some (x, [])"
| "leadingInt x (c # cs) =
     (if \<not> is_digit c then Some (x, c # cs)
      else if x > 2 ^ 63 div 10 then None
      else if x * 10 + digit_val c > 2 ^ 63 then None
      else leadingInt (x * 10 + digit_val c) cs)"

text \<open>A positive float64: 53 significant bits, round to nearest, ties to even.\<close>

fun bit_len :: "nat \<Rightarrow> nat" where
  "bit_len n = (if n = 0 then 0 else Suc (bit_len (n div 2)))"

declare bit_len.simps [simp del]

definition round_even :: "rat \<Rightarrow> int" where
  "round_even q =
     (let m = \<lfloor>q\<rfloor>; r = q - of_int m in
      if r < 1/2 then m else if r > 1/2 then m + 1 else if even m then m else m + 1)"

definition scaled :: "int \<Rightarrow> rat \<Rightarrow> rat" where
  "scaled e q = (if 0 \<le> e then q / 2 ^ nat e else q * 2 ^ nat (- e))"

definition float64 :: "rat \<Rightarrow> rat" where
  "float64 q =
     (if q \<le> 0 then 0
      else (case quotient_of q of (a, b) \<Rightarrow>
        (let e0 = int (bit_len (nat a)) - int (bit_len (nat b)) - 53;
             e = (if scaled e0 q \<ge> 2 ^ 53 then e0 + 1 else e0)
         in scaled (- e) (of_int (round_even (scaled e q))))))"

text \<open>leadingFraction: digits past an overflow are skipped; the scale is a float64.\<close>

fun leadingFraction :: "nat \<Rightarrow> rat \<Rightarrow> bool \<Rightarrow> string \<Rightarrow> (nat \<times> rat) \<times> string" where
  "leadingFraction x scale ovf [] = ((x, scale), [])"
| "leadingFraction x scale ovf (c # cs) =
     (if \<not> is_digit c then ((x, scale), c # cs)
      else if ovf \<or> x > (2 ^ 63 - 1) div 10 \<or> x * 10 + digit_val c > 2 ^ 63 then leadingFraction x scale True cs
      else leadingFraction (x * 10 + digit_val c) (float64 (scale * 10)) False cs)"

definition unitMap :: "(string \<times> nat) list" where
  "unitMap = [(''ns'', 1), (''us'', 1000), ([CHR 0xC2, CHR 0xB5, CHR ''s''], 1000), ([CHR 0xCE, CHR 0xBC, CHR ''s''], 1000),
     (''ms'', 1000000), (''s'', 1000000000), (''m'', 60000000000), (''h'', 3600000000000)]"

text \<open>The amount of one number with its unit, in nanoseconds; \<open>None\<close> is an error.\<close>

definition amount :: "nat \<Rightarrow> nat \<Rightarrow> rat \<Rightarrow> nat \<Rightarrow> nat option" where
  "amount v f scale unit =
     (if v > 2 ^ 63 div unit then None
      else if f = 0 then Some (v * unit)
      else (let v' = v * unit + nat \<lfloor>float64 (float64 (of_nat f) * float64 (of_nat unit / scale))\<rfloor> in
        if v' > 2 ^ 63 then None else Some v'))"

text \<open>The fraction after the leading digits (with its scale) and the rest, if there is a point.\<close>

definition fraction :: "string \<Rightarrow> (nat \<times> rat) \<times> string" where
  "fraction s1 = (if s1 \<noteq> [] \<and> hd s1 = CHR ''.'' then leadingFraction 0 1 False (tl s1) else ((0, 1), s1))"

definition unit_text :: "string \<Rightarrow> string" where
  "unit_text s2 = takeWhile (\<lambda>c. \<not> (c = CHR ''.'' \<or> is_digit c)) s2"

text \<open>One number with its unit, from a text that is not empty: the amount and the rest.\<close>

definition one_unit :: "string \<Rightarrow> (nat \<times> string) option" where
  "one_unit s =
     (if \<not> (hd s = CHR ''.'' \<or> is_digit (hd s)) then None
      else (case leadingInt 0 s of None \<Rightarrow> None
        | Some (v, s1) \<Rightarrow>
            (case fraction s1 of ((f, scale), s2) \<Rightarrow>
              (let post = (s1 \<noteq> [] \<and> hd s1 = CHR ''.'' \<and> s2 \<noteq> tl s1); u = unit_text s2 in
               if s1 = s \<and> \<not> post then None
               else if u = [] then None
               else (case map_of unitMap u of None \<Rightarrow> None
                 | Some unit \<Rightarrow> (case amount v f scale unit of None \<Rightarrow> None
                     | Some a \<Rightarrow> Some (a, drop (length u) s2)))))))"

lemma leadingInt_length: "leadingInt x s = Some (v, r) \<Longrightarrow> length r \<le> length s"
  by (induction x s rule: leadingInt.induct) (auto split: if_splits)

lemma leadingFraction_length: "length (snd (leadingFraction x sc ovf s)) \<le> length s"
  by (induction x sc ovf s rule: leadingFraction.induct) auto

lemma fraction_length: "length (snd (fraction s)) \<le> length s"
  using leadingFraction_length [of 0 1 False "tl s"] by (cases s) (auto simp: fraction_def)

lemma one_unit_length:
  assumes "one_unit s = Some (a, r)"
  shows "length r < length s"
proof -
  obtain v s1 where s1: "leadingInt 0 s = Some (v, s1)"
    using assms by (cases "leadingInt 0 s") (auto simp: one_unit_def split: if_splits)
  obtain f sc s2 where s2: "fraction s1 = ((f, sc), s2)" by (metis prod.collapse)
  have u: "unit_text s2 \<noteq> []" "r = drop (length (unit_text s2)) s2"
    using assms s1 s2 by (auto simp: one_unit_def Let_def split: option.splits if_splits)
  have "length s2 \<le> length s" using leadingInt_length [OF s1] fraction_length [of s1] s2 by simp
  moreover have "length (unit_text s2) \<le> length s2" by (simp add: unit_text_def length_takeWhile_le)
  ultimately show ?thesis using u by (cases "unit_text s2") auto
qed

text \<open>The loop; the sum is a uint64, which wraps.\<close>

function add_units :: "nat \<Rightarrow> string \<Rightarrow> nat option" where
  "add_units d s =
     (if s = [] then Some d
      else (case one_unit s of None \<Rightarrow> None
        | Some (a, r) \<Rightarrow> (let d' = (d + a) mod 2 ^ 64 in if d' > 2 ^ 63 then None else add_units d' r)))"
  by pat_completeness auto
termination
  by (relation "measure (\<lambda>(d, s). length s)") (auto intro: one_unit_length)

declare add_units.simps [simp del]

definition ParseDuration :: "string \<Rightarrow> int option" where
  "ParseDuration orig =
     (let signed = (orig \<noteq> [] \<and> hd orig \<in> {CHR ''-'', CHR ''+''});
          neg = (signed \<and> hd orig = CHR ''-''); s = (if signed then tl orig else orig)
      in if s = ''0'' then Some 0
         else if s = [] then None
         else (case add_units 0 s of None \<Rightarrow> None
           | Some d \<Rightarrow> if neg then Some (- int d) else if d > 2 ^ 63 - 1 then None else Some (int d)))"

section \<open>The configuration\<close>

text \<open>stunmeshapp.Options: the two fields the agent sets.\<close>

record AppOptions =
  ao_ConfigFile :: string
  ao_ConfigDir :: string

record StunmeshConfig =
  sc_WritePath :: string
  sc_AppOptions :: AppOptions

record Config =
  cfg_Namespace :: string
  cfg_NodeID :: string
  cfg_ControllerPubkey :: string
  cfg_RefreshInterval :: int
  cfg_FullApplyInterval :: int
  cfg_IdentityKeyPath :: string
  cfg_LastPath :: string
  cfg_LockPath :: string
  cfg_Backend :: string
  cfg_Proxies :: "string list"
  cfg_Stunmesh :: StunmeshConfig

record rawStunmesh =
  rs_Config :: "string option"
  rs_ConfigDir :: "string option"

record rawConfig =
  rc_Namespace :: "string option"
  rc_NodeID :: "string option"
  rc_ControllerPubkey :: "string option"
  rc_RefreshInterval :: "string option"
  rc_FullApplyInterval :: "string option"
  rc_IdentityKey :: "string option"
  rc_Last :: "string option"
  rc_Lock :: "string option"
  rc_UsePlugin :: "string option"
  rc_Plugins :: "PluginSpec gomap option"
  rc_Stunmesh :: "rawStunmesh option"

definition zero_rawConfig :: rawConfig where
  "zero_rawConfig = \<lparr>rc_Namespace = None, rc_NodeID = None, rc_ControllerPubkey = None, rc_RefreshInterval = None,
     rc_FullApplyInterval = None, rc_IdentityKey = None, rc_Last = None, rc_Lock = None, rc_UsePlugin = None,
     rc_Plugins = None, rc_Stunmesh = None\<rparr>"

text \<open>durationString.UnmarshalJSON: a JSON string, or the raw text of any other value (the document is
  the output of json.Marshal, so that is the value as json.Marshal prints it).\<close>

fun dec_durationString :: "string decoder" where
  "dec_durationString (JStr s) old = Inr s"
| "dec_durationString v old = Inr (print_json (go_quote True) v)"

definition dec_plugin :: "PluginSpec decoder" where
  "dec_plugin = dec_struct [''type'', ''proxies''] (\<lambda>f v r.
     if f = ''type'' then bindE (dec_string v (pl_Type r)) (\<lambda>x. Inr (r\<lparr>pl_Type := x\<rparr>))
     else bindE (dec_slice dec_string [] v (pl_Proxies r)) (\<lambda>x. Inr (r\<lparr>pl_Proxies := x\<rparr>)))"

definition dec_rawStunmesh :: "rawStunmesh decoder" where
  "dec_rawStunmesh = dec_struct [''config'', ''config_dir''] (\<lambda>f v r.
     if f = ''config'' then bindE (dec_ptr dec_string [] v (rs_Config r)) (\<lambda>x. Inr (r\<lparr>rs_Config := x\<rparr>))
     else bindE (dec_ptr dec_string [] v (rs_ConfigDir r)) (\<lambda>x. Inr (r\<lparr>rs_ConfigDir := x\<rparr>)))"

definition dec_rawConfig :: "rawConfig decoder" where
  "dec_rawConfig = dec_struct
     [''namespace'', ''node_id'', ''controller_pubkey'', ''refresh_interval'', ''full_apply_interval'', ''identity_key'',
      ''last'', ''lock'', ''use_plugin'', ''plugins'', ''stunmesh''] (\<lambda>f v r.
     let str = (\<lambda>old. dec_ptr dec_string [] v old); dur = (\<lambda>old. dec_ptr dec_durationString [] v old) in
     if f = ''namespace'' then bindE (str (rc_Namespace r)) (\<lambda>x. Inr (r\<lparr>rc_Namespace := x\<rparr>))
     else if f = ''node_id'' then bindE (str (rc_NodeID r)) (\<lambda>x. Inr (r\<lparr>rc_NodeID := x\<rparr>))
     else if f = ''controller_pubkey'' then bindE (str (rc_ControllerPubkey r)) (\<lambda>x. Inr (r\<lparr>rc_ControllerPubkey := x\<rparr>))
     else if f = ''refresh_interval'' then bindE (dur (rc_RefreshInterval r)) (\<lambda>x. Inr (r\<lparr>rc_RefreshInterval := x\<rparr>))
     else if f = ''full_apply_interval'' then bindE (dur (rc_FullApplyInterval r)) (\<lambda>x. Inr (r\<lparr>rc_FullApplyInterval := x\<rparr>))
     else if f = ''identity_key'' then bindE (str (rc_IdentityKey r)) (\<lambda>x. Inr (r\<lparr>rc_IdentityKey := x\<rparr>))
     else if f = ''last'' then bindE (str (rc_Last r)) (\<lambda>x. Inr (r\<lparr>rc_Last := x\<rparr>))
     else if f = ''lock'' then bindE (str (rc_Lock r)) (\<lambda>x. Inr (r\<lparr>rc_Lock := x\<rparr>))
     else if f = ''use_plugin'' then bindE (str (rc_UsePlugin r)) (\<lambda>x. Inr (r\<lparr>rc_UsePlugin := x\<rparr>))
     else if f = ''plugins'' then
       bindE (dec_map dec_plugin \<lparr>pl_Type = [], pl_Proxies = None\<rparr> v (rc_Plugins r)) (\<lambda>x. Inr (r\<lparr>rc_Plugins := x\<rparr>))
     else bindE (dec_ptr dec_rawStunmesh \<lparr>rs_Config = None, rs_ConfigDir = None\<rparr> v (rc_Stunmesh r))
       (\<lambda>x. Inr (r\<lparr>rc_Stunmesh := x\<rparr>)))"

section \<open>Paths and defaults\<close>

text \<open>filepath.Join of two elements; os.Stat of a file.\<close>

definition filepath_Join :: "string \<Rightarrow> string \<Rightarrow> string" where
  "filepath_Join dir name =
     (if dir \<noteq> [] then filepath_Clean (dir @ ''/'' @ name) else if name \<noteq> [] then filepath_Clean name else [])"

definition os_Stat :: "string \<Rightarrow> (fs, oserr, unit) step" where
  "os_Stat path w =
     (if fs_files w path = None then (Inl NotExist, w) else syscall OSErr (\<lambda>_. fs_files w) (fs_files w) () w)"

definition defaultConfigDir :: string where
  "defaultConfigDir = ''/etc/stunmesh/agent''"

definition defaultLockPath :: string where
  "defaultLockPath = ''/var/lock/stunmesh-agent.lock''"

definition defaultStunmeshConfigPath :: string where
  "defaultStunmeshConfigPath = ''/etc/stunmesh/config.yaml''"

definition defaultRefreshInterval :: int where
  "defaultRefreshInterval = 5 * 60 * 1000000000"

definition defaultFullApplyInterval :: int where
  "defaultFullApplyInterval = 24 * 3600 * 1000000000"

definition defaultProxies :: "string list" where
  "defaultProxies = [''https://dhtproxy2.jami.net'', ''https://dhtproxy3.jami.net'']"

datatype cfgerr = CMissing "string list" | CPubkey | CDuration string | CNotPositive string | CNegative string
  | CBackend selerr

text \<open>The value of an optional setting: present and not empty.\<close>

definition given :: "string option \<Rightarrow> string option" where
  "given x = (case x of None \<Rightarrow> None | Some s \<Rightarrow> if s = [] then None else Some s)"

definition parseDuration :: "string option \<Rightarrow> int \<Rightarrow> bool \<Rightarrow> string \<Rightarrow> cfgerr + int" where
  "parseDuration s def allowZero field =
     (case s of None \<Rightarrow> Inr def
      | Some text \<Rightarrow> (case ParseDuration text of None \<Rightarrow> Inl (CDuration field)
          | Some d \<Rightarrow> if d = 0 \<and> \<not> allowZero then Inl (CNotPositive field) else Inr d))"

definition resolveStunmeshConfig :: "rawStunmesh option \<Rightarrow> StunmeshConfig" where
  "resolveStunmeshConfig rs =
     (case Option.bind rs (\<lambda>r. given (rs_Config r)) of
        Some c \<Rightarrow> \<lparr>sc_WritePath = c, sc_AppOptions = \<lparr>ao_ConfigFile = c, ao_ConfigDir = []\<rparr>\<rparr>
      | None \<Rightarrow> (case Option.bind rs (\<lambda>r. given (rs_ConfigDir r)) of
          Some d \<Rightarrow> \<lparr>sc_WritePath = filepath_Join d ''config.yaml'', sc_AppOptions = \<lparr>ao_ConfigFile = [], ao_ConfigDir = d\<rparr>\<rparr>
        | None \<Rightarrow> \<lparr>sc_WritePath = defaultStunmeshConfigPath,
            sc_AppOptions = \<lparr>ao_ConfigFile = defaultStunmeshConfigPath, ao_ConfigDir = []\<rparr>\<rparr>))"

definition missing_keys :: "rawConfig \<Rightarrow> string list" where
  "missing_keys rc =
     (if given (rc_Namespace rc) = None then [''namespace''] else [])
     @ (if given (rc_NodeID rc) = None then [''node_id''] else [])
     @ (if given (rc_ControllerPubkey rc) = None then [''controller_pubkey''] else [])"

definition backend_of :: "rawConfig \<Rightarrow> selerr + Resolved" where
  "backend_of rc =
     (let usePlugin = (case rc_UsePlugin rc of None \<Rightarrow> [] | Some u \<Rightarrow> u) in
      if usePlugin \<noteq> [] \<or> rc_Plugins rc \<noteq> None
      then Resolve \<lparr>sel_Plugins = rc_Plugins rc, sel_UsePlugin = usePlugin, sel_Proxies = None\<rparr>
      else Inr \<lparr>res_Type = TypeDHTProxy, res_Proxies = defaultProxies\<rparr>)"

definition or_default :: "string option \<Rightarrow> string \<Rightarrow> string" where
  "or_default x d = (case given x of None \<Rightarrow> d | Some s \<Rightarrow> s)"

definition buildConfig :: "rawConfig \<Rightarrow> string \<Rightarrow> cfgerr + Config" where
  "buildConfig rc configPath =
     (let dir = filepath_Dir configPath in
      if missing_keys rc \<noteq> [] then Inl (CMissing (missing_keys rc))
      else case ParseKey (or_default (rc_ControllerPubkey rc) []) of Inl _ \<Rightarrow> Inl CPubkey
      | Inr _ \<Rightarrow>
        (case parseDuration (rc_RefreshInterval rc) defaultRefreshInterval False ''refresh_interval'' of Inl e \<Rightarrow> Inl e
         | Inr refresh \<Rightarrow>
           if refresh \<le> 0 then Inl (CNotPositive ''refresh_interval'')
           else (case parseDuration (rc_FullApplyInterval rc) defaultFullApplyInterval True ''full_apply_interval'' of
               Inl e \<Rightarrow> Inl e
             | Inr fullApply \<Rightarrow>
               if fullApply < 0 then Inl (CNegative ''full_apply_interval'')
               else (case backend_of rc of Inl e \<Rightarrow> Inl (CBackend e)
                 | Inr resolved \<Rightarrow> Inr
                   \<lparr>cfg_Namespace = or_default (rc_Namespace rc) [], cfg_NodeID = or_default (rc_NodeID rc) [],
                    cfg_ControllerPubkey = or_default (rc_ControllerPubkey rc) [],
                    cfg_RefreshInterval = refresh, cfg_FullApplyInterval = fullApply,
                    cfg_IdentityKeyPath = or_default (rc_IdentityKey rc) (filepath_Join dir ''identity.key''),
                    cfg_LastPath = or_default (rc_Last rc) (filepath_Join dir ''last.json''),
                    cfg_LockPath = or_default (rc_Lock rc) defaultLockPath,
                    cfg_Backend = res_Type resolved, cfg_Proxies = res_Proxies resolved,
                    cfg_Stunmesh = resolveStunmeshConfig (rc_Stunmesh rc)\<rparr>))))"

section \<open>Reading the file\<close>

datatype cferr = CfRead | CfYaml | CfDecode | CfTrailing | CfBuild cfgerr

definition parseRawConfig :: "(string \<Rightarrow> string option) \<Rightarrow> string \<Rightarrow> (fs, cferr, rawConfig) step" where
  "parseRawConfig yaml path s =
     (case os_ReadFile path s of (Inl _, s') \<Rightarrow> (Inl CfRead, s')
      | (Inr data, s') \<Rightarrow>
          ((case yaml data of None \<Rightarrow> Inl CfYaml
            | Some j \<Rightarrow> (case decode_stream j of None \<Rightarrow> Inl CfDecode
               | Some (v, rest) \<Rightarrow> (case dec_rawConfig v zero_rawConfig of Inl _ \<Rightarrow> Inl CfDecode
                  | Inr rc \<Rightarrow> if dec_more rest then Inl CfTrailing else Inr rc))), s'))"

definition loadConfig :: "(string \<Rightarrow> string option) \<Rightarrow> string \<Rightarrow> (fs, cferr, Config) step" where
  "loadConfig yaml path =
     andThen (parseRawConfig yaml path)
       (\<lambda>rc. case buildConfig rc path of Inl e \<Rightarrow> fail_with (CfBuild e) | Inr cfg \<Rightarrow> ret cfg)"

definition loadStunmeshOnlyConfig :: "(string \<Rightarrow> string option) \<Rightarrow> string \<Rightarrow> (fs, cferr, StunmeshConfig) step" where
  "loadStunmeshOnlyConfig yaml path =
     (if path = [] then ret (resolveStunmeshConfig None)
      else andThen (parseRawConfig yaml path) (\<lambda>rc. ret (resolveStunmeshConfig (rc_Stunmesh rc))))"

text \<open>findConfigFile: the file asked for, or the first of two names that is there; empty when neither is.\<close>

definition findConfigFile :: "string \<Rightarrow> string \<Rightarrow> (fs, unit, string) step" where
  "findConfigFile configFile configDir s =
     (if configFile \<noteq> [] then
        (case os_Stat configFile s of (Inl _, s') \<Rightarrow> (Inl (), s') | (Inr _, s') \<Rightarrow> (Inr configFile, s'))
      else
        (let p = filepath_Join configDir ''config.yaml''; q = filepath_Join configDir ''config.yml'' in
         case os_Stat p s of (Inr _, s') \<Rightarrow> (Inr p, s')
         | (Inl _, s') \<Rightarrow> (case os_Stat q s' of (Inr _, s'') \<Rightarrow> (Inr q, s'') | (Inl _, s'') \<Rightarrow> (Inr [], s''))))"

section \<open>Properties\<close>

lemma amount_bound: "amount v f sc u = Some a \<Longrightarrow> 0 < u \<Longrightarrow> a \<le> 2 ^ 63"
proof -
  assume a: "amount v f sc u = Some a" "0 < u"
  have "v * u \<le> 2 ^ 63" if "v \<le> 2 ^ 63 div u"
    using that mult_le_mono1 [of v "2 ^ 63 div u" u] div_times_less_eq_dividend [of "2 ^ 63" u] by linarith
  then show "a \<le> 2 ^ 63" using a by (auto simp: amount_def Let_def split: if_splits)
qed

lemma add_units_bound: "add_units d s = Some n \<Longrightarrow> d \<le> 2 ^ 63 \<Longrightarrow> n \<le> 2 ^ 63"
proof (induction d s rule: add_units.induct)
  case (1 d s)
  show ?case
  proof (cases "s = []")
    case True
    then show ?thesis using 1(2, 3) by (simp add: add_units.simps)
  next
    case False
    then obtain a r where u: "one_unit s = Some (a, r)"
      using 1(2) by (cases "one_unit s") (auto simp: add_units.simps [of d s])
    define d' where "d' = (d + a) mod 2 ^ 64"
    have "\<not> d' > 2 ^ 63" "add_units d' r = Some n"
      using 1(2) False u by (simp_all add: add_units.simps [of d s] d'_def Let_def split: if_splits)
    then show ?thesis using 1(1) [OF False u refl d'_def] by simp
  qed
qed

lemma ParseDuration_Some:
  assumes "ParseDuration s = Some d"
  shows "- (2 ^ 63) \<le> d \<and> d < 2 ^ 63"
proof -
  have "int n \<le> 2 ^ 63" if "add_units 0 t = Some n" for t n
    using add_units_bound [OF that] by (simp flip: of_nat_le_iff)
  then show ?thesis using assms by (force simp: ParseDuration_def Let_def split: option.splits if_splits)
qed

lemma Clean_not_Nil: "filepath_Clean p \<noteq> []"
  by (simp add: filepath_Clean_def Let_def)

lemma Join_not_Nil: "name \<noteq> [] \<Longrightarrow> filepath_Join dir name \<noteq> []"
  by (simp add: filepath_Join_def Clean_not_Nil)

lemma given_Some: "given x = Some s \<longleftrightarrow> x = Some s \<and> s \<noteq> []"
  by (cases x) (auto simp: given_def)

lemma given_bind: "Option.bind x (\<lambda>r. given (f r)) = Some s \<Longrightarrow> s \<noteq> []"
  by (cases x) (auto simp: given_Some)

lemma or_default_not_Nil: "d \<noteq> [] \<Longrightarrow> or_default x d \<noteq> []"
  by (auto simp: or_default_def given_Some split: option.split)

text \<open>The file the embedded app reads: the one it is given, or the first it searches for.\<close>

definition app_config_file :: "AppOptions \<Rightarrow> string" where
  "app_config_file o' = (if ao_ConfigFile o' \<noteq> [] then ao_ConfigFile o' else filepath_Join (ao_ConfigDir o') ''config.yaml'')"

lemma resolveStunmeshConfig_same_file:
  "sc_WritePath (resolveStunmeshConfig rs) = app_config_file (sc_AppOptions (resolveStunmeshConfig rs))
   \<and> sc_WritePath (resolveStunmeshConfig rs) \<noteq> []"
  by (auto simp: resolveStunmeshConfig_def app_config_file_def defaultStunmeshConfigPath_def given_Some Join_not_Nil
      dest!: given_bind split: option.splits)

definition config_valid :: "Config \<Rightarrow> bool" where
  "config_valid cfg \<longleftrightarrow> cfg_Namespace cfg \<noteq> [] \<and> cfg_NodeID cfg \<noteq> []
     \<and> \<not> isl (ParseKey (cfg_ControllerPubkey cfg))
     \<and> 0 < cfg_RefreshInterval cfg \<and> cfg_RefreshInterval cfg < 2 ^ 63
     \<and> 0 \<le> cfg_FullApplyInterval cfg \<and> cfg_FullApplyInterval cfg < 2 ^ 63
     \<and> cfg_IdentityKeyPath cfg \<noteq> [] \<and> cfg_LastPath cfg \<noteq> [] \<and> cfg_LockPath cfg \<noteq> []
     \<and> cfg_Backend cfg = TypeDHTProxy \<and> cfg_Proxies cfg \<noteq> []
     \<and> sc_WritePath (cfg_Stunmesh cfg) = app_config_file (sc_AppOptions (cfg_Stunmesh cfg))"

lemma parseDuration_range:
  assumes "parseDuration s def z f = Inr d" and "- (2 ^ 63) \<le> def" and "def < 2 ^ 63"
  shows "- (2 ^ 63) \<le> d \<and> d < 2 ^ 63"
  using assms ParseDuration_Some by (auto simp: parseDuration_def simp del: power_numeral split: option.splits if_splits)

lemma default_in_range:
  "- (2 ^ 63) \<le> defaultRefreshInterval" "defaultRefreshInterval < 2 ^ 63"
  "- (2 ^ 63) \<le> defaultFullApplyInterval" "defaultFullApplyInterval < 2 ^ 63"
  by (simp_all add: defaultRefreshInterval_def defaultFullApplyInterval_def)

lemma backend_of_Inr: "backend_of rc = Inr r \<Longrightarrow> res_Type r = TypeDHTProxy \<and> res_Proxies r \<noteq> []"
  using Resolve_Inr by (auto simp: backend_of_def defaultProxies_def Let_def split: if_splits)

lemma buildConfig_Inr:
  assumes "buildConfig rc path = Inr cfg"
  shows "config_valid cfg"
proof -
  have mk: "missing_keys rc = []" using assms by (auto simp: buildConfig_def Let_def split: if_splits)
  obtain k where k: "ParseKey (or_default (rc_ControllerPubkey rc) []) = Inr k"
    using assms by (auto simp: buildConfig_def Let_def split: if_splits sum.splits)
  obtain d where d: "parseDuration (rc_RefreshInterval rc) defaultRefreshInterval False ''refresh_interval'' = Inr d" "0 < d"
    using assms mk k by (auto simp: buildConfig_def Let_def split: if_splits sum.splits)
  obtain f where f: "parseDuration (rc_FullApplyInterval rc) defaultFullApplyInterval True ''full_apply_interval'' = Inr f" "0 \<le> f"
    using assms mk k d by (auto simp: buildConfig_def Let_def split: if_splits sum.splits)
  obtain r where r: "backend_of rc = Inr r"
    using assms mk k d f by (auto simp: buildConfig_def Let_def split: sum.splits)
  have req: "or_default (rc_Namespace rc) [] \<noteq> []" "or_default (rc_NodeID rc) [] \<noteq> []"
    using mk by (auto simp: missing_keys_def or_default_def given_Some split: if_splits option.splits)
  have cfg: "cfg = \<lparr>cfg_Namespace = or_default (rc_Namespace rc) [], cfg_NodeID = or_default (rc_NodeID rc) [],
                    cfg_ControllerPubkey = or_default (rc_ControllerPubkey rc) [],
                    cfg_RefreshInterval = d, cfg_FullApplyInterval = f,
                    cfg_IdentityKeyPath = or_default (rc_IdentityKey rc) (filepath_Join (filepath_Dir path) ''identity.key''),
                    cfg_LastPath = or_default (rc_Last rc) (filepath_Join (filepath_Dir path) ''last.json''),
                    cfg_LockPath = or_default (rc_Lock rc) defaultLockPath,
                    cfg_Backend = res_Type r, cfg_Proxies = res_Proxies r,
                    cfg_Stunmesh = resolveStunmeshConfig (rc_Stunmesh rc)\<rparr>"
    using assms mk k d f r by (simp add: buildConfig_def Let_def)
  show ?thesis
    using req k d(2) f(2) parseDuration_range [OF d(1) default_in_range(1, 2)] parseDuration_range [OF f(1) default_in_range(3, 4)]
      backend_of_Inr [OF r] resolveStunmeshConfig_same_file [of "rc_Stunmesh rc"]
      or_default_not_Nil [OF Join_not_Nil] or_default_not_Nil [of defaultLockPath "rc_Lock rc"]
    unfolding cfg config_valid_def by (simp add: defaultLockPath_def)
qed

text \<open>A whole number of one unit.\<close>

lemma leadingInt_digits:
  assumes "list_all is_digit ds" and "r = [] \<or> \<not> is_digit (hd r)" and "x \<le> 2 ^ 63"
  shows "leadingInt x (ds @ r) =
    (let v = foldl (\<lambda>n c. 10 * n + digit_val c) x ds in if v \<le> 2 ^ 63 then Some (v, r) else None)"
  using assms(1, 3)
proof (induction ds arbitrary: x)
  case Nil
  then show ?case using assms(2) by (cases r) simp_all
next
  case (Cons c ds)
  let ?f = "\<lambda>n c. 10 * n + digit_val c"
  have mono: "y \<le> foldl ?f y ds" for y
  proof (induction ds arbitrary: y)
    case (Cons c ds)
    have "y \<le> 10 * y + digit_val c" by simp
    also have "\<dots> \<le> foldl ?f (10 * y + digit_val c) ds" by (rule Cons.IH)
    finally show ?case by simp
  qed simp
  show ?case
  proof (cases "x * 10 + digit_val c \<le> 2 ^ 63")
    case True
    then show ?thesis using Cons by (simp add: Let_def mult.commute)
  next
    case False
    then show ?thesis using Cons.prems mono [of "10 * x + digit_val c"] by (simp add: Let_def mult.commute)
  qed
qed

lemma unit_facts:
  assumes "(u, k) \<in> set unitMap"
  shows "u \<noteq> []" and "map_of unitMap u = Some k" and "0 < k" and "list_all (\<lambda>c. c \<noteq> CHR ''.'' \<and> \<not> is_digit c) u"
  using assms by (auto simp: unitMap_def is_digit_def)

lemma one_unit_whole:
  assumes "(u, k) \<in> set unitMap"
  shows "one_unit (show_nat n @ u) = (if n * k \<le> 2 ^ 63 then Some (n * k, []) else None)"
proof -
  note u = unit_facts [OF assms]
  have hd: "is_digit (hd (show_nat n @ u))" using show_nat_hd_digit [of n] by simp
  have u0: "\<not> is_digit (hd u)" "hd u \<noteq> CHR ''.''" using u(1, 4) by (cases u; simp)+
  have li: "leadingInt 0 (show_nat n @ u) = (if n \<le> 2 ^ 63 then Some (n, u) else None)"
    using leadingInt_digits [OF show_nat_digits, of u 0 n] u0 nat_of_digits_show [of n]
    by (simp add: nat_of_digits_def Let_def)
  have fr: "fraction u = ((0, 1), u)" using u0 by (simp add: fraction_def)
  have ut: "unit_text u = u" using u(4) by (simp add: unit_text_def list_all_iff)
  have ne: "u \<noteq> show_nat n @ u" by (simp add: show_nat_nonempty)
  have le: "n \<le> 2 ^ 63 div k \<longleftrightarrow> n * k \<le> 2 ^ 63" using u(3) by (rule less_eq_div_iff_mult_less_eq)
  have big: "\<not> n * k \<le> 2 ^ 63" if "\<not> n \<le> 2 ^ 63"
    using that u(3) by (metis le_trans le_div_geq div_le_dividend le)
  show ?thesis
    using hd li fr ut ne u(1, 2) u0(2) le big
    by (auto simp: one_unit_def amount_def Let_def simp del: power_numeral)
qed

text \<open>An interval written as a whole number of one of the units ns, us, ms, s, m, h (and the two other
  spellings of us) configures exactly that many nanoseconds; it is refused when they do not fit 63 bits,
  however many digits there are, and zero is refused unless the key allows it.\<close>

theorem parseDuration_whole:
  assumes "(u, k) \<in> set unitMap"
  shows "parseDuration (Some (show_nat n @ u)) def allowZero field =
    (if 2 ^ 63 \<le> n * k then Inl (CDuration field)
     else if n = 0 \<and> \<not> allowZero then Inl (CNotPositive field) else Inr (int (n * k)))"
proof -
  have sgn: "hd (show_nat n @ u) \<noteq> CHR ''-''" "hd (show_nat n @ u) \<noteq> CHR ''+''"
    using is_digit_not_sign [OF show_nat_hd_digit [of n]] by simp_all
  have nz: "show_nat n @ u \<noteq> ''0''" using unit_facts(1) [OF assms] by (cases "show_nat n") (auto simp: show_nat_nonempty)
  have mod: "n * k \<le> 2 ^ 63 \<Longrightarrow> (n * k) mod 2 ^ 64 = n * k" by simp
  have add: "add_units 0 (show_nat n @ u) = (if n * k \<le> 2 ^ 63 then Some (n * k) else None)"
    using mod by (simp add: add_units.simps [of 0 "show_nat n @ u"] add_units.simps [of "n * k" "[]"]
        one_unit_whole [OF assms] Let_def del: power_numeral)
  have "ParseDuration (show_nat n @ u) = (if 2 ^ 63 \<le> n * k then None else Some (int (n * k)))"
    using sgn nz add by (auto simp: ParseDuration_def Let_def)
  then show ?thesis using unit_facts(3) [OF assms] by (simp add: parseDuration_def)
qed

theorem parseDuration_whole_witness:
  "parseDuration (Some (show_nat 90 @ ''m'')) 0 False ''refresh_interval'' = Inr 5400000000000"
  using parseDuration_whole [of "''m''" 60000000000 90 0 False "''refresh_interval''"] by (simp add: unitMap_def)

text \<open>C34: a configuration that loads has everything the agent relies on: a namespace and a node ID, a
  controller key that parses, a positive refresh interval and a full-apply interval that is not negative
  (both 64-bit), paths that are not empty, the one known backend with at least one proxy, and a stunmesh
  configuration path that is the file the embedded app reads.\<close>

theorem loadConfig_valid:
  assumes "loadConfig yaml path s = (Inr cfg, s')"
  shows "config_valid cfg"
  using assms buildConfig_Inr
  by (auto simp: loadConfig_def andThen_def fail_with_def ret_def split: prod.splits sum.splits)

definition ex_doc :: json where
  "ex_doc = JObj [(''namespace'', JStr ''n''), (''node_id'', JStr ''b''),
     (''controller_pubkey'', JStr (Key_String (replicate 32 (CHR ''k'')))), (''full_apply_interval'', JNum ''0'')]"

definition ex_files :: fs where
  "ex_files = \<lparr>fs_files = [''c.yaml'' \<mapsto> \<lparr>f_data = [], f_mode = 420\<rparr>], fs_faults = [], fs_seed = 0, fs_hist = []\<rparr>"

lemma valid_utf8_printable: "list_all (\<lambda>c. 32 \<le> code c \<and> code c < 128) s \<Longrightarrow> valid_utf8 s"
  by (rule valid_utf8_ascii) (auto simp: list_all_iff)

lemma valid_utf8_key: "valid_utf8 (Key_String k)"
  by (rule valid_utf8_ascii) (auto simp: list_all_iff Key_String_def dest: b64_encode_printable)

lemma ex_doc_decodes: "decode_stream (print_json (go_quote True) ex_doc) = Some (ex_doc, [])"
proof -
  have "json_wf ex_doc" by (simp add: ex_doc_def valid_utf8_key valid_utf8_printable is_int_lit_show [of 0, simplified show_int_def show_nat_0, simplified])
  moreover have "depth ex_doc \<le> max_depth" by (simp add: ex_doc_def max_depth_def depth_JObj del: depth.simps(2))
  ultimately show ?thesis using html.decode_stream_print [of ex_doc "[]"] by simp
qed

definition ex_yaml :: "string \<Rightarrow> string option" where
  "ex_yaml _ = Some (print_json (go_quote True) ex_doc)"

lemma ex_config_loads: "\<not> isl (fst (loadConfig ex_yaml ''c.yaml'' ex_files))"
proof -
  let ?k = "Key_String (replicate 32 (CHR ''k''))"
  have k: "ParseKey ?k = Inr (replicate 32 (CHR ''k''))" "?k \<noteq> []"
    using ParseKey_encoded [of "replicate 32 (CHR ''k'')" "[]" "[]"] by (simp_all add: Key_String_def b64_encode_nonempty)
  have "dec_rawConfig ex_doc zero_rawConfig = Inr (zero_rawConfig\<lparr>rc_Namespace := Some ''n'', rc_NodeID := Some ''b'',
      rc_ControllerPubkey := Some ?k, rc_FullApplyInterval := Some ''0''\<rparr>)"
    by (simp add: ex_doc_def dec_rawConfig_def find_field_def dec_ptr_def bindE_def zero_rawConfig_def)
  moreover have "os_ReadFile ''c.yaml'' ex_files = (Inr [], ex_files\<lparr>fs_hist := [fs_files ex_files]\<rparr>)"
    by (simp add: os_ReadFile_def ex_files_def syscall_def Let_def)
  ultimately have "fst (parseRawConfig ex_yaml ''c.yaml'' ex_files) = Inr (zero_rawConfig\<lparr>rc_Namespace := Some ''n'',
      rc_NodeID := Some ''b'', rc_ControllerPubkey := Some ?k, rc_FullApplyInterval := Some ''0''\<rparr>)"
    by (simp add: parseRawConfig_def ex_yaml_def ex_doc_decodes dec_more_def skip_ws_def)
  then show ?thesis using k
    by (cases "parseRawConfig ex_yaml ''c.yaml'' ex_files")
      (simp add: loadConfig_def andThen_def buildConfig_def missing_keys_def given_def or_default_def parseDuration_def
        zero_rawConfig_def defaultRefreshInterval_def ParseDuration_def backend_of_def ret_def Let_def)
qed

theorem loadConfig_valid_witness:
  "case loadConfig ex_yaml ''c.yaml'' ex_files of (Inl _, _) \<Rightarrow> False | (Inr cfg, _) \<Rightarrow> config_valid cfg"
  using ex_config_loads loadConfig_valid [of ex_yaml "''c.yaml''" ex_files]
  by (cases "loadConfig ex_yaml ''c.yaml'' ex_files") (auto split: sum.split)

end
