(* ===== verification/Fetch.thy ===== *)
theory Fetch
  imports Select Decode_Type Apply_Props Dhtkey Dhtproxy_Props AgentConfig
begin

text \<open>
  cmd/stunmesh-agent/fetch.go: one cycle of the agent, from the identity key over the DHT to
  the apply. The world is the router and the files (\<open>World\<close>), the network and the lines
  logged; \<open>AEnv\<close> holds what env.go's Env gives, with nacl/box, net/http and url.Parse as
  parameters and the width of int.
\<close>

datatype ferr = FIdentity ikerr | FPubkey | FKey keyerr | FDial dialerr | FGet geterr
  | FLast lerr | FCompare | FDiff | FApply aerr

datatype line = LPartial "host_error list" | LDropped nat | LSkipped nat | LNoValue | LNoneUsable nat selectStats
  | LNoChange | LFailed ferr | LLocked | LEmbeddedFailed | LRestarted | LShutdown

record ('r, 'h) Agent =
  ag_sys :: "'r World"
  ag_net :: 'h
  ag_log :: "line list"

record ('r, 'h) AEnv =
  e_w :: nat
  e_url :: url_parser
  e_http :: "'h transport"
  e_open :: opener
  e_runner :: "'r runner"

record fetchOutcome =
  fo_Applied :: bool
  fo_Diff :: "Diff option"

definition no_outcome :: fetchOutcome where
  "no_outcome = \<lparr>fo_Applied = False, fo_Diff = None\<rparr>"

section \<open>Steps on a part of the world\<close>

definition on_fs :: "(fs, 'e, 'a) step \<Rightarrow> (('r, 'h) Agent, 'e, 'a) step" where
  "on_fs m a = (case m (w_fs (ag_sys a)) of (x, f) \<Rightarrow> (x, a\<lparr>ag_sys := (ag_sys a)\<lparr>w_fs := f\<rparr>\<rparr>))"

definition on_sys :: "('r World, 'e, 'a) step \<Rightarrow> (('r, 'h) Agent, 'e, 'a) step" where
  "on_sys m a = (case m (ag_sys a) of (x, s) \<Rightarrow> (x, a\<lparr>ag_sys := s\<rparr>))"

definition say :: "line \<Rightarrow> (('r, 'h) Agent, 'e, unit) step" where
  "say l a = (Inr (), a\<lparr>ag_log := ag_log a @ [l]\<rparr>)"

definition only_if :: "bool \<Rightarrow> ('s, 'e, unit) step \<Rightarrow> ('s, 'e, unit) step" where
  "only_if b m = (if b then m else ret ())"

definition of_sum :: "('x \<Rightarrow> 'e) \<Rightarrow> 'x + 'a \<Rightarrow> ('s, 'e, 'a) step" where
  "of_sum g x = (case x of Inl e \<Rightarrow> fail_with (g e) | Inr y \<Rightarrow> ret y)"

section \<open>The cycle\<close>

definition newBackend :: "('r, 'h) AEnv \<Rightarrow> Config \<Rightarrow> dialerr + Client" where
  "newBackend env cfg = dial_New (e_url env) (cfg_Backend cfg) (cfg_Proxies cfg)"

definition proxy_Get :: "('r, 'h) AEnv \<Rightarrow> Client \<Rightarrow> string \<Rightarrow> (('r, 'h) Agent, 'e, BResult \<times> geterr option) step" where
  "proxy_Get env client key a =
     (case Get (e_url env) (e_http env) client key (ag_net a) of (x, h) \<Rightarrow> (Inr x, a\<lparr>ag_net := h\<rparr>))"

text \<open>A partial failure of Get is logged and the result used; any other failure ends the cycle.\<close>

definition get_values :: "('r, 'h) AEnv \<Rightarrow> Client \<Rightarrow> string \<Rightarrow> (('r, 'h) Agent, ferr, string list) step" where
  "get_values env client key =
     andThen (proxy_Get env client key) (\<lambda>(result, err).
     andThen (case err of None \<Rightarrow> ret () | Some (GPartial es) \<Rightarrow> say (LPartial es) | Some e \<Rightarrow> fail_with (FGet e)) (\<lambda>_.
     andThen (only_if (0 < br_Dropped result) (say (LDropped (br_Dropped result)))) (\<lambda>_.
     andThen (only_if (0 < br_Skipped result) (say (LSkipped (br_Skipped result)))) (\<lambda>_.
     ret (br_Values result)))))"

definition select_value :: "('r, 'h) AEnv \<Rightarrow> Config \<Rightarrow> Key \<Rightarrow> Key \<Rightarrow> string list \<Rightarrow> (('r, 'h) Agent, ferr, Bundle option) step" where
  "select_value env cfg pub priv values =
     (if values = [] then andThen (say LNoValue) (\<lambda>_. ret None)
      else (case decryptAndSelect (e_w env) (e_open env) values pub priv (cfg_Namespace cfg) (cfg_NodeID cfg) of
          (None, stats) \<Rightarrow> andThen (say (LNoneUsable (length values) stats)) (\<lambda>_. ret None)
        | (Some b, _) \<Rightarrow> ret (Some b)))"

text \<open>The first half of runFetchApply: the newest usable bundle, if there is one.\<close>

definition fetch_bundle :: "('r, 'h) AEnv \<Rightarrow> Config \<Rightarrow> (('r, 'h) Agent, ferr, Bundle option) step" where
  "fetch_bundle env cfg =
     andThen (wrap FIdentity (on_fs (loadIdentityKey (cfg_IdentityKeyPath cfg)))) (\<lambda>priv.
     andThen (of_sum (\<lambda>_. FPubkey) (ParseKey (cfg_ControllerPubkey cfg))) (\<lambda>pub.
     andThen (of_sum FKey (dht_Key (cfg_Namespace cfg) (cfg_NodeID cfg))) (\<lambda>key.
     andThen (of_sum FDial (newBackend env cfg)) (\<lambda>client.
     andThen (get_values env client key) (\<lambda>values.
     select_value env cfg pub priv values)))))"

definition checkAndApply :: "('r, 'h) AEnv \<Rightarrow> Config \<Rightarrow> Bundle \<Rightarrow> bool \<Rightarrow> (('r, 'h) Agent, ferr, fetchOutcome) step" where
  "checkAndApply env cfg b forceAll =
     andThen (wrap FLast (on_fs (Read (e_w env) (cfg_LastPath cfg)))) (\<lambda>state.
     andThen (if forceAll then ret False else of_sum (\<lambda>_. FCompare) (sameContent state b)) (\<lambda>equal.
     if equal then andThen (say LNoChange) (\<lambda>_. ret no_outcome)
     else andThen (of_sum (\<lambda>_. FDiff) (computeDiff b state forceAll)) (\<lambda>diff.
       andThen (wrap FApply (on_sys (applyDiff (e_runner env) (sc_WritePath (cfg_Stunmesh cfg)) (cfg_LastPath cfg) diff state)))
         (\<lambda>_. ret \<lparr>fo_Applied = True, fo_Diff = Some diff\<rparr>))))"

definition runFetchApply :: "('r, 'h) AEnv \<Rightarrow> Config \<Rightarrow> bool \<Rightarrow> (('r, 'h) Agent, ferr, fetchOutcome) step" where
  "runFetchApply env cfg forceAll =
     andThen (fetch_bundle env cfg) (\<lambda>best.
       case best of None \<Rightarrow> ret no_outcome | Some b \<Rightarrow> checkAndApply env cfg b forceAll)"

section \<open>What a cycle leaves alone\<close>

text \<open>Two worlds with the same router and the same files; the file system's record of calls may differ.\<close>

definition same_sys :: "'r World \<Rightarrow> 'r World \<Rightarrow> bool" where
  "same_sys s t \<longleftrightarrow> w_run s = w_run t \<and> fs_files (w_fs s) = fs_files (w_fs t)
     \<and> (fs_faults (w_fs s) = [] \<longrightarrow> fs_faults (w_fs t) = []) \<and> fs_seed (w_fs s) = fs_seed (w_fs t)"

lemma same_sys_refl [simp]: "same_sys s s"
  by (simp add: same_sys_def)

lemma same_sys_trans: "same_sys s t \<Longrightarrow> same_sys t u \<Longrightarrow> same_sys s u"
  by (simp add: same_sys_def)

lemma os_ReadFile_same:
  "os_ReadFile p f = (x, f') \<Longrightarrow> fs_files f' = fs_files f \<and> (fs_faults f = [] \<longrightarrow> fs_faults f' = []) \<and> fs_seed f' = fs_seed f"
  by (auto simp: os_ReadFile_def syscall_def Let_def split: option.splits list.splits if_splits)

lemma on_fs_same:
  assumes "on_fs m a = (x, a')" and "\<And>f y f'. m f = (y, f') \<Longrightarrow> fs_files f' = fs_files f \<and> (fs_faults f = [] \<longrightarrow> fs_faults f' = []) \<and> fs_seed f' = fs_seed f"
  shows "same_sys (ag_sys a) (ag_sys a')"
proof -
  obtain y f' where m: "m (w_fs (ag_sys a)) = (y, f')" by fastforce
  show ?thesis using assms(1) assms(2) [OF m] m by (auto simp: on_fs_def same_sys_def)
qed

lemma loadIdentityKey_same:
  "loadIdentityKey p f = (y, f') \<Longrightarrow> fs_files f' = fs_files f \<and> (fs_faults f = [] \<longrightarrow> fs_faults f' = []) \<and> fs_seed f' = fs_seed f"
  by (cases "os_ReadFile p f") (auto simp: loadIdentityKey_def dest!: os_ReadFile_same split: sum.splits)

lemma Read_same:
  "Read w p f = (y, f') \<Longrightarrow> fs_files f' = fs_files f \<and> (fs_faults f = [] \<longrightarrow> fs_faults f' = []) \<and> fs_seed f' = fs_seed f"
  by (cases "os_ReadFile p f") (auto simp: Read_def dest!: os_ReadFile_same split: sum.splits oserr.splits)

lemma andThenE:
  assumes "andThen m f s = (r, s')"
  obtains (fails) e where "m s = (Inl e, s')" "r = Inl e"
  | (goes) x s1 where "m s = (Inr x, s1)" "f x s1 = (r, s')"
  using assms by (auto simp: andThen_def split: prod.splits sum.splits)

lemma get_values_sys: "get_values env client key a = (r, a') \<Longrightarrow> ag_sys a' = ag_sys a"
  by (auto simp: get_values_def proxy_Get_def say_def ret_def fail_with_def only_if_def elim!: andThenE
      split: prod.splits option.splits geterr.splits if_splits)

lemma select_value_sys:
  assumes "select_value env cfg pub priv values a = (r, a')"
  shows "ag_sys a' = ag_sys a"
    and "r = Inr (Some b) \<Longrightarrow> \<exists>v \<in> set values. \<exists>plain. Open (e_open env) v pub priv = Some plain
      \<and> Parse (e_w env) plain = Inr b \<and> Validate (cfg_Namespace cfg) (cfg_NodeID cfg) b = None"
  using assms decryptAndSelect_ok [of "e_w env" "e_open env" "values" pub priv "cfg_Namespace cfg" "cfg_NodeID cfg" b]
  by (auto simp: select_value_def say_def ret_def elim!: andThenE split: if_splits prod.splits option.splits)

lemma select_value_both:
  assumes "select_value env cfg pub priv values a = (r, a')"
  shows "ag_sys a' = ag_sys a \<and> (\<forall>b. r = Inr (Some b) \<longrightarrow>
      fst (decryptAndSelect (e_w env) (e_open env) values pub priv (cfg_Namespace cfg) (cfg_NodeID cfg)) = Some b
      \<and> (\<exists>v \<in> set values. \<exists>plain. Open (e_open env) v pub priv = Some plain
      \<and> Parse (e_w env) plain = Inr b \<and> Validate (cfg_Namespace cfg) (cfg_NodeID cfg) b = None))"
proof -
  have "r = Inr (Some b) \<Longrightarrow> fst (decryptAndSelect (e_w env) (e_open env) values pub priv (cfg_Namespace cfg) (cfg_NodeID cfg)) = Some b" for b
    using assms by (auto simp: select_value_def say_def ret_def elim!: andThenE split: if_splits prod.splits option.splits)
  then show ?thesis using select_value_sys [OF assms] by blast
qed

text \<open>The values the proxies answer when the cycle asks them for its node, in the network's state at that moment.\<close>

definition answered :: "('r, 'h) AEnv \<Rightarrow> Config \<Rightarrow> ('r, 'h) Agent \<Rightarrow> string list" where
  "answered env cfg a =
     (case dht_Key (cfg_Namespace cfg) (cfg_NodeID cfg) of Inl _ \<Rightarrow> []
      | Inr key \<Rightarrow> (case newBackend env cfg of Inl _ \<Rightarrow> []
        | Inr client \<Rightarrow> br_Values (fst (fst (Get (e_url env) (e_http env) client key (ag_net a))))))"

lemma get_values_answered:
  assumes "get_values env client key a = (Inr vs, a')"
  shows "vs = br_Values (fst (fst (Get (e_url env) (e_http env) client key (ag_net a))))"
  using assms by (auto simp: get_values_def proxy_Get_def say_def ret_def fail_with_def only_if_def elim!: andThenE
      split: prod.splits option.splits geterr.splits if_splits)

text \<open>
  A bundle that the controller sealed for this node and that passed every check: one of the values the
  proxies answered opens with the identity key and the controller's key to it, and it is the one that is
  selected among those values.
\<close>

definition authentic :: "('r, 'h) AEnv \<Rightarrow> Config \<Rightarrow> ('r, 'h) Agent \<Rightarrow> Bundle \<Rightarrow> bool" where
  "authentic env cfg a b = (\<exists>f priv pub. fs_files (w_fs (ag_sys a)) (cfg_IdentityKeyPath cfg) = Some f
     \<and> ParseKey (f_data f) = Inr priv \<and> ParseKey (cfg_ControllerPubkey cfg) = Inr pub
     \<and> fst (decryptAndSelect (e_w env) (e_open env) (answered env cfg a) pub priv (cfg_Namespace cfg) (cfg_NodeID cfg)) = Some b
     \<and> (\<exists>v \<in> set (answered env cfg a). \<exists>plain. Open (e_open env) v pub priv = Some plain \<and> Parse (e_w env) plain = Inr b
         \<and> Validate (cfg_Namespace cfg) (cfg_NodeID cfg) b = None))"

lemma on_fsE:
  assumes "on_fs m a = (x, a')"
  obtains f where "m (w_fs (ag_sys a)) = (x, f)" "a' = a\<lparr>ag_sys := (ag_sys a)\<lparr>w_fs := f\<rparr>\<rparr>"
  using assms by (cases "m (w_fs (ag_sys a))") (auto simp: on_fs_def)

lemma loadIdentityKey_Inr:
  assumes "loadIdentityKey p f = (Inr k, f')"
  obtains d where "fs_files f p = Some d" "ParseKey (f_data d) = Inr k"
  using assms by (auto simp: loadIdentityKey_def os_ReadFile_def syscall_def Let_def
      split: option.splits sum.splits prod.splits list.splits if_splits)

lemma wrapE:
  assumes "wrap g m s = (r, s')"
  obtains e where "m s = (Inl e, s')" "r = Inl (g e)" | x where "m s = (Inr x, s')" "r = Inr x"
  using assms by (auto simp: wrap_def split: prod.splits sum.splits)

lemma of_sumE:
  assumes "of_sum g x s = (r, s')"
  obtains e where "x = Inl e" "r = Inl (g e)" "s' = s" | y where "x = Inr y" "r = Inr y" "s' = s"
  using assms by (auto simp: of_sum_def fail_with_def ret_def split: sum.splits)

lemma fetch_bundle_sys:
  assumes "fetch_bundle env cfg a = (r, a')"
  shows "same_sys (ag_sys a) (ag_sys a') \<and> (\<forall>b. r = Inr (Some b) \<longrightarrow> authentic env cfg a b)"
proof -
  let ?id = "wrap FIdentity (on_fs (loadIdentityKey (cfg_IdentityKeyPath cfg))) a"
  obtain i a1 where i: "?id = (i, a1)" by fastforce
  have same: "same_sys (ag_sys a) (ag_sys a1)"
    using i by (auto elim!: wrapE intro: on_fs_same [OF _ loadIdentityKey_same])
  show ?thesis
  proof (cases i)
    case (Inl e)
    then show ?thesis using assms i same by (auto simp: fetch_bundle_def andThen_def)
  next
    case (Inr priv)
    then obtain d where d: "fs_files (w_fs (ag_sys a)) (cfg_IdentityKeyPath cfg) = Some d" "ParseKey (f_data d) = Inr priv"
      using i by (auto elim!: wrapE on_fsE loadIdentityKey_Inr)
    have rest: "andThen (of_sum (\<lambda>_. FPubkey) (ParseKey (cfg_ControllerPubkey cfg))) (\<lambda>pub.
     andThen (of_sum FKey (dht_Key (cfg_Namespace cfg) (cfg_NodeID cfg))) (\<lambda>key.
     andThen (of_sum FDial (newBackend env cfg)) (\<lambda>client.
     andThen (get_values env client key) (\<lambda>values.
     select_value env cfg pub priv values)))) a1 = (r, a')"
      using assms i Inr by (simp add: fetch_bundle_def andThen_def)
    have net: "ag_net a1 = ag_net a" using i Inr by (auto elim!: wrapE on_fsE)
    consider e where "r = Inl e" "ag_sys a' = ag_sys a1"
      | pub key client vs a2 where "ParseKey (cfg_ControllerPubkey cfg) = Inr pub"
        "dht_Key (cfg_Namespace cfg) (cfg_NodeID cfg) = Inr key" "newBackend env cfg = Inr client"
        "get_values env client key a1 = (Inr vs, a2)" "select_value env cfg pub priv vs a2 = (r, a')"
      using rest by (auto elim!: andThenE of_sumE intro: get_values_sys)
    then show ?thesis
    proof cases
      case 1
      then show ?thesis using same by simp
    next
      case 2
      have vs: "vs = answered env cfg a" using get_values_answered [OF 2(4)] 2(2, 3) net by (simp add: answered_def)
      note sel = select_value_both [OF 2(5)] get_values_sys [OF 2(4)]
      have "authentic env cfg a b" if "r = Inr (Some b)" for b
        unfolding authentic_def using d 2(1) sel(1) that vs by blast
      then show ?thesis using same sel by simp
    qed
  qed
qed

text \<open>The apply half: nothing happens, or one difference is applied.\<close>

lemma checkAndApply_cases:
  assumes "checkAndApply env cfg b forceAll a = (r, a')"
  obtains (quiet) "same_sys (ag_sys a) (ag_sys a')" "\<And>o'. r = Inr o' \<Longrightarrow> o' = no_outcome"
  | (applied) st d s x where "same_sys (ag_sys a) s" "fst (Read (e_w env) (cfg_LastPath cfg) (w_fs (ag_sys a))) = Inr st"
      "computeDiff b st forceAll = Inr d"
      "applyDiff (e_runner env) (sc_WritePath (cfg_Stunmesh cfg)) (cfg_LastPath cfg) d st s = (x, ag_sys a')"
      "r = (case x of Inl e \<Rightarrow> Inl (FApply e) | Inr _ \<Rightarrow> Inr \<lparr>fo_Applied = True, fo_Diff = Some d\<rparr>)"
      "ag_net a' = ag_net a"
proof -
  obtain i a1 where i: "wrap FLast (on_fs (Read (e_w env) (cfg_LastPath cfg))) a = (i, a1)" by fastforce
  have same: "same_sys (ag_sys a) (ag_sys a1)"
    using i by (auto elim!: wrapE intro: on_fs_same [OF _ Read_same])
  have net: "ag_net a1 = ag_net a" using i by (auto elim!: wrapE on_fsE)
  show ?thesis
  proof (cases i)
    case (Inl e)
    then show ?thesis using assms i same by (intro quiet) (auto simp: checkAndApply_def andThen_def)
  next
    case (Inr st)
    then have st: "fst (Read (e_w env) (cfg_LastPath cfg) (w_fs (ag_sys a))) = Inr st" using i by (auto elim!: wrapE on_fsE)
    have rest: "andThen (if forceAll then ret False else of_sum (\<lambda>_. FCompare) (sameContent st b)) (\<lambda>equal.
     if equal then andThen (say LNoChange) (\<lambda>_. ret no_outcome)
     else andThen (of_sum (\<lambda>_. FDiff) (computeDiff b st forceAll)) (\<lambda>diff.
       andThen (wrap FApply (on_sys (applyDiff (e_runner env) (sc_WritePath (cfg_Stunmesh cfg)) (cfg_LastPath cfg) diff st)))
         (\<lambda>_. ret \<lparr>fo_Applied = True, fo_Diff = Some diff\<rparr>))) a1 = (r, a')"
      using assms i Inr by (simp add: checkAndApply_def andThen_def)
    consider "same_sys (ag_sys a1) (ag_sys a')" "\<And>o'. r = Inr o' \<Longrightarrow> o' = no_outcome"
      | d x where "computeDiff b st forceAll = Inr d"
        "applyDiff (e_runner env) (sc_WritePath (cfg_Stunmesh cfg)) (cfg_LastPath cfg) d st (ag_sys a1) = (x, ag_sys a')"
        "r = (case x of Inl e \<Rightarrow> Inl (FApply e) | Inr _ \<Rightarrow> Inr \<lparr>fo_Applied = True, fo_Diff = Some d\<rparr>)" "ag_net a' = ag_net a1"
      using rest
      by (auto simp: say_def ret_def fail_with_def on_sys_def elim!: andThenE of_sumE wrapE split: if_splits prod.splits)
    then show ?thesis
    proof cases
      case 1
      then show ?thesis using quiet same_sys_trans [OF same] by blast
    next
      case 2
      then show ?thesis using applied [OF same st] net by simp
    qed
  qed
qed

lemma runFetchApply_cases:
  assumes "runFetchApply env cfg forceAll a = (r, a')"
  obtains (quiet) "same_sys (ag_sys a) (ag_sys a')" "\<And>o'. r = Inr o' \<Longrightarrow> o' = no_outcome"
  | (applied) b st d s x f where "authentic env cfg a b" "same_sys (ag_sys a) s" "fs_files f = fs_files (w_fs (ag_sys a))"
      "fst (Read (e_w env) (cfg_LastPath cfg) f) = Inr st" "computeDiff b st forceAll = Inr d"
      "applyDiff (e_runner env) (sc_WritePath (cfg_Stunmesh cfg)) (cfg_LastPath cfg) d st s = (x, ag_sys a')"
      "r = (case x of Inl e \<Rightarrow> Inl (FApply e) | Inr _ \<Rightarrow> Inr \<lparr>fo_Applied = True, fo_Diff = Some d\<rparr>)"
proof -
  obtain y a1 where fb: "fetch_bundle env cfg a = (y, a1)" by fastforce
  note same = fetch_bundle_sys [OF fb, THEN conjunct1]
  show ?thesis
  proof (cases "\<exists>b. y = Inr (Some b)")
    case False
    then show ?thesis using assms fb same
      by (intro quiet) (auto simp: runFetchApply_def andThen_def ret_def split: sum.splits option.splits)
  next
    case True
    then obtain b where b: "y = Inr (Some b)" by blast
    have auth: "authentic env cfg a b" using fetch_bundle_sys [OF fb] b by blast
    have ca: "checkAndApply env cfg b forceAll a1 = (r, a')" using assms fb b by (simp add: runFetchApply_def andThen_def)
    have files: "fs_files (w_fs (ag_sys a1)) = fs_files (w_fs (ag_sys a))" using same by (simp add: same_sys_def)
    from ca show ?thesis
    proof (cases rule: checkAndApply_cases)
      case quiet
      then show ?thesis using that(1) same_sys_trans [OF same] by blast
    next
      case (applied st d s x)
      then show ?thesis using that(2) [OF auth same_sys_trans [OF same applied(1)] files applied(2-5)] by blast
    qed
  qed
qed

end
