(* ===== verification/Fetch_Example.thy ===== *)
theory Fetch_Example
  imports Fetch Bundle_Props
begin

text \<open>
  A concrete node for the witnesses: one proxy that stores one value, a box that opens to a
  small bundle, a router on which every command succeeds, and no last.json yet.
\<close>

definition ex_key :: Key where
  "ex_key = replicate 32 (CHR ''k'')"

definition ex_sealed :: string where
  "ex_sealed = replicate 24 (CHR ''n'') @ ''box''"

definition ex_open :: opener where
  "ex_open box nonce pub priv = (if box = ''box'' \<and> pub = ex_key \<and> priv = ex_key then Some (marshal_bundle ex_empty) else None)"

definition ex_answer :: "Request \<Rightarrow> Response option" where
  "ex_answer req = Some \<lparr>rsp_Status = 200, rsp_Body = (stored_body [ex_sealed], True)\<rparr>"

definition ex_env :: "(unit, Request list) AEnv" where
  "ex_env = \<lparr>e_w = 64, e_url = (\<lambda>_. Some (''https'', ''proxy'')), e_http = logged ex_answer, e_open = ex_open, e_runner = ex_run\<rparr>"

definition ex_id :: string where
  "ex_id = ''/etc/stunmesh/agent/identity.key''"

definition ex_cfg :: Config where
  "ex_cfg = \<lparr>cfg_Namespace = ''ns'', cfg_NodeID = ''alpha'', cfg_ControllerPubkey = Key_String ex_key,
     cfg_RefreshInterval = 1, cfg_FullApplyInterval = 0, cfg_IdentityKeyPath = ex_id, cfg_LastPath = ex_path,
     cfg_LockPath = ''/lock'', cfg_Backend = TypeDHTProxy, cfg_Proxies = [''https://proxy''],
     cfg_Stunmesh = \<lparr>sc_WritePath = ex_wp, sc_AppOptions = \<lparr>ao_ConfigFile = ex_wp, ao_ConfigDir = []\<rparr>\<rparr>\<rparr>"

definition ex_agent :: "(unit, Request list) Agent" where
  "ex_agent = \<lparr>ag_sys = \<lparr>w_run = (), w_fs = \<lparr>fs_files = [ex_id \<mapsto> \<lparr>f_data = Key_String ex_key, f_mode = 384\<rparr>],
     fs_faults = [], fs_seed = 1, fs_hist = []\<rparr>\<rparr>, ag_net = [], ag_log = []\<rparr>"

lemma ex_key_parses: "ParseKey (Key_String ex_key) = Inr ex_key"
  using ParseKey_encoded [of ex_key "[]" "[]"] by (simp add: ex_key_def)

lemma ex_parses: "Parse 64 (marshal_bundle ex_empty) = Inr ex_empty"
  and ex_valid: "Validate ''ns'' ''alpha'' ex_empty = None"
  and ex_empty_ok: "new_ok 64 ex_empty"
proof -
  show v: "Validate ''ns'' ''alpha'' ex_empty = None" by (simp add: Validate_None valid_bundle_def ex_empty_def)
  have wf: "bundle_wf 64 ex_empty" by (simp add: bundle_wf_def ex_empty_def map_wf_def gm_ok_def fits_def)
  have "norm_bundle ex_empty = ex_empty" by (simp add: norm_bundle_def ex_empty_def norm_map_def sort_map_def)
  then show "Parse 64 (marshal_bundle ex_empty) = Inr ex_empty" using Parse_marshal_eq [OF v wf] by simp
  show "new_ok 64 ex_empty" using wf v by (simp add: new_ok_def Validate_None ex_empty_def)
qed

lemma ex_select:
  "decryptAndSelect 64 ex_open [ex_sealed] ex_key ex_key ''ns'' ''alpha'' = (Some ex_empty, no_stats)"
  by (simp add: decryptAndSelect_def Open_def ex_sealed_def nonceSize_def ex_open_def ex_parses ex_valid)

lemma ex_payload_short: "length (put_payload ex_sealed) \<le> maxLineSize"
  using payload_length [of ex_sealed] by (simp add: ex_sealed_def maxLineSize_def)

lemma ex_get_answer: "get_answer pu \<lparr>c_baseURLs = bs, c_maxValues = 64, c_maxLineSize = maxLineSize\<rparr> b (ex_answer req)
    = Found \<lparr>br_Values = [ex_sealed], br_Skipped = 0, br_Dropped = 0, br_URL = b\<rparr>"
  using parse_stored [of "\<lparr>c_baseURLs = bs, c_maxValues = 64, c_maxLineSize = maxLineSize\<rparr>" "[ex_sealed]" b] ex_payload_short
  by (simp add: get_answer_def ex_answer_def)

lemma ex_client:
  "newBackend ex_env ex_cfg = Inr \<lparr>c_baseURLs = [trim_slash ''https://proxy''], c_maxValues = 64, c_maxLineSize = maxLineSize\<rparr>"
  by (simp add: newBackend_def ex_env_def ex_cfg_def dial_New_def NewClient_def defaultMaxValues_def)

lemma ex_dht_key: obtains k where "dht_Key ''ns'' ''alpha'' = Inr k" "isHexKey k"
  using hex_isHex [OF sha1_length] by (simp add: Key_Inr validatePart_None)

lemma ex_env_sel: "e_w ex_env = 64" "e_http ex_env = logged ex_answer" "e_open ex_env = ex_open" "e_runner ex_env = ex_run"
  by (simp_all add: ex_env_def)

lemma ex_cfg_sel: "cfg_Namespace ex_cfg = ''ns''" "cfg_NodeID ex_cfg = ''alpha''"
  "cfg_ControllerPubkey ex_cfg = Key_String ex_key" "cfg_IdentityKeyPath ex_cfg = ex_id" "cfg_LastPath ex_cfg = ex_path"
  "cfg_FullApplyInterval ex_cfg = 0" "cfg_LockPath ex_cfg = ''/lock''" "sc_WritePath (cfg_Stunmesh ex_cfg) = ex_wp"
  by (simp_all add: ex_cfg_def)

lemma ex_fetch_bundle:
  assumes "ag_sys a = ag_sys ex_agent"
  shows "\<exists>a'. fetch_bundle ex_env ex_cfg a = (Inr (Some ex_empty), a')
    \<and> ag_sys a' = (ag_sys a)\<lparr>w_fs := (w_fs (ag_sys a))\<lparr>fs_hist := [fs_files (w_fs (ag_sys a))]\<rparr>\<rparr>"
proof -
  obtain k where k: "dht_Key ''ns'' ''alpha'' = Inr k" "isHexKey k" by (rule ex_dht_key)
  have r: "loadIdentityKey ex_id (w_fs (ag_sys a)) = (Inr ex_key, (w_fs (ag_sys a))\<lparr>fs_hist := [fs_files (w_fs (ag_sys a))]\<rparr>)"
    by (simp add: assms ex_agent_def loadIdentityKey_def os_ReadFile_def syscall_def Let_def ex_key_parses)
  show ?thesis
    using k(2)
    by (simp add: fetch_bundle_def andThen_def wrap_def on_fs_def ex_cfg_sel ex_env_sel r ex_key_parses of_sum_def ret_def k(1)
        ex_client get_values_def proxy_Get_def Get_def get_loop_step ex_get_answer only_if_def select_value_def ex_select
        del: get_loop.simps)
qed

lemma ex_id_not_temp:
  "\<not> has_prefix ex_id (temp_base (filepath_Dir ex_wp) ''.stunmesh-config.tmp-'')"
  "\<not> has_prefix ex_id (temp_base (filepath_Dir ex_path) ''.last.json.tmp-'')"
  by code_simp+

text \<open>The first cycle applies the bundle.\<close>

lemma ex_first_cycle:
  obtains a' d where "runFetchApply ex_env ex_cfg False ex_agent = (Inr \<lparr>fo_Applied = True, fo_Diff = Some d\<rparr>, a')"
    "fs_faults (w_fs (ag_sys a')) = []" "d_Stunmesh d = StunmeshChanged"
proof -
  obtain a1 where a1: "fetch_bundle ex_env ex_cfg ex_agent = (Inr (Some ex_empty), a1)"
    "fs_files (w_fs (ag_sys a1)) = [ex_id \<mapsto> \<lparr>f_data = Key_String ex_key, f_mode = 384\<rparr>]" "fs_faults (w_fs (ag_sys a1)) = []"
    using ex_fetch_bundle [of ex_agent] by (auto simp: ex_agent_def)
  have ne: "ex_path \<noteq> ex_id" by (simp add: ex_path_def ex_id_def)
  have st: "old_ok 64 emptyState"
    by (simp add: old_ok_def state_wf_def emptyState_def zero_state_def zero_firewall_def CurrentVersion_def map_wf_def gm_ok_def)
  have "sameContent emptyState ex_empty = Inr False"
  proof -
    obtain d where d: "computeDiff ex_empty emptyState False = Inr d" using computeDiff_eq [OF ex_empty_ok st] by blast
    have "d_StunmeshContent d = ''x''" using computeDiff_eq [OF ex_empty_ok st, of False] d by (auto simp: ex_empty_def of_opt_def)
    then show ?thesis using sameContent_diff [OF ex_empty_ok st d] by (simp add: emptyState_def zero_state_def)
  qed
  moreover obtain d where d: "computeDiff ex_empty emptyState False = Inr d" "d_Stunmesh d = StunmeshChanged"
    using computeDiff_eq [OF ex_empty_ok st, of False]
    by (auto simp: diffStunmesh_def ex_empty_def emptyState_def zero_state_def of_opt_def)
  moreover have read: "Read 64 ex_path (w_fs (ag_sys a1)) = (Inr emptyState, w_fs (ag_sys a1))"
    using ne a1(2) by (simp add: Read_def os_ReadFile_def)
  moreover have "\<exists>w'. applyDiff ex_run ex_wp ex_path d emptyState (ag_sys a1) = (Inr (), w') \<and> fs_faults (w_fs w') = []"
  proof (rule applyDiff_ok [OF ex_reliable computeDiff_applies(1, 2) [OF ex_empty_ok st d(1)] ex_paths_ok a1(3)])
    show "no_temps ''.stunmesh-config.tmp-'' ex_wp (w_fs (ag_sys a1))" "no_temps ''.last.json.tmp-'' ex_path (w_fs (ag_sys a1))"
      using ex_id_not_temp a1(2) by (auto simp: no_temps_def)
  qed
  ultimately show ?thesis using that [of d] a1(1)
    by (auto simp: runFetchApply_def checkAndApply_def andThen_def wrap_def on_fs_def on_sys_def of_sum_def ret_def
        ex_env_sel ex_cfg_sel)
qed

end
