(* ===== verification/Fetch_Props.thy ===== *)
theory Fetch_Props
  imports Fetch_Example
begin

text \<open>
  What one cycle promises: it acts only on a bundle the controller sealed for this node, it keeps
  last.json well formed, and once it has applied a bundle the next cycle that finds the same values
  does nothing.
\<close>

section \<open>last.json from cycle to cycle\<close>

text \<open>The state last.json records, if any; \<open>last_ok\<close>: it is absent or one the agent can have written.\<close>

definition recorded_state :: "nat \<Rightarrow> (string \<Rightarrow> File option) \<Rightarrow> string \<Rightarrow> lerr + State" where
  "recorded_state w files lp = (case files lp of None \<Rightarrow> Inr emptyState | Some f \<Rightarrow> read_state w (f_data f))"

definition last_ok :: "nat \<Rightarrow> (string \<Rightarrow> File option) \<Rightarrow> string \<Rightarrow> bool" where
  "last_ok w files lp = (case recorded_state w files lp of Inl _ \<Rightarrow> True | Inr st \<Rightarrow> old_ok w st)"

lemma Read_recorded:
  assumes "fst (Read w lp f) = Inr st"
  shows "recorded_state w (fs_files f) lp = Inr st"
  using assms by (auto simp: Read_def os_ReadFile_def recorded_state_def syscall_def Let_def
      split: option.splits list.splits if_splits prod.splits)

lemma Read_no_fault:
  assumes "fs_faults f = []"
  shows "fst (Read w lp f) = recorded_state w (fs_files f) lp"
  using assms by (auto simp: Read_def os_ReadFile_def recorded_state_def syscall_def Let_def split: option.splits)

lemma last_ok_Read: "last_ok w (fs_files f) lp \<Longrightarrow> fst (Read w lp f) = Inr st \<Longrightarrow> old_ok w st"
  using Read_recorded by (fastforce simp: last_ok_def)

lemma authentic_ok:
  assumes "authentic env cfg a b" and "e_w env \<in> {32, 64}"
  shows "new_ok (e_w env) b" and "b_Namespace b = cfg_Namespace cfg \<and> b_NodeID b = cfg_NodeID cfg"
proof -
  obtain plain where p: "Parse (e_w env) plain = Inr b" "Validate (cfg_Namespace cfg) (cfg_NodeID cfg) b = None"
    using assms(1) unfolding authentic_def by blast
  note ok = Parse_Validate_ok [OF p assms(2)]
  show names: "b_Namespace b = cfg_Namespace cfg \<and> b_NodeID b = cfg_NodeID cfg"
    using ok by (simp add: valid_bundle_def)
  show "new_ok (e_w env) b" using ok names by (simp add: new_ok_def)
qed

abbreviation write_path :: "Config \<Rightarrow> string" where
  "write_path cfg \<equiv> sc_WritePath (cfg_Stunmesh cfg)"

text \<open>After a cycle that applied a bundle: last.json records it.\<close>

lemma cycle_recorded:
  assumes "runFetchApply env cfg forceAll a = (Inr out, a')" and "fo_Diff out = Some d"
    and "e_w env \<in> {32, 64}" and "paths_ok (write_path cfg) (cfg_LastPath cfg)"
    and "last_ok (e_w env) (fs_files (w_fs (ag_sys a))) (cfg_LastPath cfg)"
  obtains b st' where "authentic env cfg a b"
    "recorded_state (e_w env) (fs_files (w_fs (ag_sys a'))) (cfg_LastPath cfg) = Inr st'" "old_ok (e_w env) st'"
    "sameContent st' b = Inr True" "st_Stunmesh st' = of_opt (b_Stunmesh b)"
    "d_Stunmesh d = StunmeshEmpty \<longleftrightarrow> of_opt (b_Stunmesh b) = []"
  using assms(1)
proof (cases rule: runFetchApply_cases)
  case quiet
  then show ?thesis using assms(2) by (simp add: no_outcome_def)
next
  case (applied b st d' s x f)
  have d: "d' = d" "x = Inr ()" using applied(7) assms(2) by (cases x; simp)+
  have st: "old_ok (e_w env) st" using last_ok_Read applied(3, 4) assms(5) by metis
  note new = authentic_ok(1) [OF applied(1) assms(3)]
  obtain c st' where c: "fs_files (w_fs (ag_sys a')) (cfg_LastPath cfg) = Some c" "read_state (e_w env) (f_data c) = Inr st'"
    "old_ok (e_w env) st'" "sameContent st' b = Inr True" "st_Stunmesh st' = of_opt (b_Stunmesh b)"
    using applied_recorded [OF new st applied(5) assms(4) applied(6) [unfolded d(2)]] by blast
  have "d_Stunmesh d = diffStunmesh (of_opt (b_Stunmesh b)) (st_Stunmesh st) forceAll"
    using computeDiff_eq [OF new st, of forceAll] applied(5) d(1) by auto
  then have "d_Stunmesh d = StunmeshEmpty \<longleftrightarrow> of_opt (b_Stunmesh b) = []" by (auto simp: diffStunmesh_def)
  then show ?thesis using that [OF applied(1) _ c(3-5)] c(1, 2) by (simp add: recorded_state_def)
qed

lemma cycle_last_ok:
  assumes "runFetchApply env cfg forceAll a = (r, a')" and "e_w env \<in> {32, 64}"
    and "paths_ok (write_path cfg) (cfg_LastPath cfg)"
    and "last_ok (e_w env) (fs_files (w_fs (ag_sys a))) (cfg_LastPath cfg)"
  shows "last_ok (e_w env) (fs_files (w_fs (ag_sys a'))) (cfg_LastPath cfg)"
    and "(case r of Inl _ \<Rightarrow> True | Inr out \<Rightarrow> fo_Diff out = None) \<Longrightarrow>
      recorded_state (e_w env) (fs_files (w_fs (ag_sys a'))) (cfg_LastPath cfg)
        = recorded_state (e_w env) (fs_files (w_fs (ag_sys a))) (cfg_LastPath cfg)"
proof -
  have unchanged: "recorded_state (e_w env) (fs_files (w_fs (ag_sys a'))) (cfg_LastPath cfg)
        = recorded_state (e_w env) (fs_files (w_fs (ag_sys a))) (cfg_LastPath cfg)"
    if nd: "case r of Inl _ \<Rightarrow> True | Inr out \<Rightarrow> fo_Diff out = None"
    using assms(1)
  proof (cases rule: runFetchApply_cases)
    case quiet
    then show ?thesis by (simp add: same_sys_def)
  next
    case (applied b st d s x f)
    then obtain e where "x = Inl e" using nd by (cases x) auto
    then have "fs_files (w_fs (ag_sys a')) (cfg_LastPath cfg) = fs_files (w_fs s) (cfg_LastPath cfg)"
      using applyDiff_files [OF applied(6) assms(3)] by blast
    then show ?thesis using applied(2) by (simp add: recorded_state_def same_sys_def)
  qed
  show "(case r of Inl _ \<Rightarrow> True | Inr out \<Rightarrow> fo_Diff out = None) \<Longrightarrow>
      recorded_state (e_w env) (fs_files (w_fs (ag_sys a'))) (cfg_LastPath cfg)
        = recorded_state (e_w env) (fs_files (w_fs (ag_sys a))) (cfg_LastPath cfg)" by (rule unchanged)
  show "last_ok (e_w env) (fs_files (w_fs (ag_sys a'))) (cfg_LastPath cfg)"
  proof (cases "case r of Inl _ \<Rightarrow> True | Inr out \<Rightarrow> fo_Diff out = None")
    case True
    then show ?thesis using unchanged assms(4) by (simp add: last_ok_def)
  next
    case False
    then obtain out d where r: "r = Inr out" and d: "fo_Diff out = Some d" by (cases r) auto
    have "runFetchApply env cfg forceAll a = (Inr out, a')" using assms(1) r by simp
    then show ?thesis by (rule cycle_recorded [OF _ d assms(2-4)]) (simp add: last_ok_def)
  qed
qed

section \<open>The next cycle\<close>

text \<open>The value a table of answers gives, as fetch_bundle sees it once the identity key is read.\<close>

definition fetched :: "('r, 'h) AEnv \<Rightarrow> (Request \<Rightarrow> Response option) \<Rightarrow> Config \<Rightarrow> Key \<Rightarrow> ferr + Bundle option" where
  "fetched env answer cfg priv =
     (case ParseKey (cfg_ControllerPubkey cfg) of Inl _ \<Rightarrow> Inl FPubkey
      | Inr pub \<Rightarrow> (case dht_Key (cfg_Namespace cfg) (cfg_NodeID cfg) of Inl e \<Rightarrow> Inl (FKey e)
        | Inr key \<Rightarrow> (case newBackend env cfg of Inl e \<Rightarrow> Inl (FDial e)
          | Inr client \<Rightarrow> (case fst (Get (e_url env) (logged answer) client key []) of (result, err) \<Rightarrow>
              (if err = Some GBadKey then Inl (FGet GBadKey)
               else case err of Some (GAllFailed es) \<Rightarrow> Inl (FGet (GAllFailed es))
               | _ \<Rightarrow> Inr (fst (decryptAndSelect (e_w env) (e_open env) (br_Values result) pub priv
                   (cfg_Namespace cfg) (cfg_NodeID cfg))))))))"

lemma get_loop_log:
  "fst (get_loop pu (logged answer) c key errs emp bases lg) = fst (get_loop pu (logged answer) c key errs emp bases [])"
  unfolding get_loop_outcome by (simp split: list.split del: dropWhile_eq_Nil_conv)

lemma Get_log: "fst (Get pu (logged answer) c key lg) = fst (Get pu (logged answer) c key [])"
  using get_loop_log by (simp add: Get_def)

lemma andThen_goes: "m s = (Inr x, s1) \<Longrightarrow> andThen m f s = f x s1"
  by (simp add: andThen_def)

lemma get_values_fetched:
  assumes "e_http env = logged answer"
  shows "\<exists>a'. get_values env client key a = ((case fst (Get (e_url env) (logged answer) client key []) of (result, err) \<Rightarrow>
      (if err = Some GBadKey then Inl (FGet GBadKey)
       else case err of Some (GAllFailed es) \<Rightarrow> Inl (FGet (GAllFailed es)) | _ \<Rightarrow> Inr (br_Values result))), a')
     \<and> ag_sys a' = ag_sys a"
proof -
  obtain result err h where g: "Get (e_url env) (logged answer) client key (ag_net a) = ((result, err), h)"
    by (metis prod.collapse)
  then have "fst (Get (e_url env) (logged answer) client key []) = (result, err)" using Get_log by (metis fst_conv)
  then show ?thesis using g assms
    by (auto simp: get_values_def proxy_Get_def andThen_def say_def ret_def fail_with_def only_if_def
        split: option.split geterr.split)
qed

lemma select_value_fetched:
  "\<exists>a'. select_value env cfg pub priv vs a
     = (Inr (fst (decryptAndSelect (e_w env) (e_open env) vs pub priv (cfg_Namespace cfg) (cfg_NodeID cfg))), a')
     \<and> ag_sys a' = ag_sys a"
  by (auto simp: select_value_def andThen_def say_def ret_def decryptAndSelect_def split: prod.split option.split)

lemma fetch_bundle_fetched:
  assumes "e_http env = logged answer"
    and "wrap FIdentity (on_fs (loadIdentityKey (cfg_IdentityKeyPath cfg))) a = (Inr priv, a1)"
  shows "\<exists>a'. fetch_bundle env cfg a = (fetched env answer cfg priv, a') \<and> ag_sys a' = ag_sys a1"
proof -
  have fb: "fetch_bundle env cfg a = andThen (of_sum (\<lambda>_. FPubkey) (ParseKey (cfg_ControllerPubkey cfg))) (\<lambda>pub.
     andThen (of_sum FKey (dht_Key (cfg_Namespace cfg) (cfg_NodeID cfg))) (\<lambda>key.
     andThen (of_sum FDial (newBackend env cfg)) (\<lambda>client.
     andThen (get_values env client key) (\<lambda>values.
     select_value env cfg pub priv values)))) a1"
    unfolding fetch_bundle_def using assms(2) by (rule andThen_goes)
  consider "isl (ParseKey (cfg_ControllerPubkey cfg)) \<or> isl (dht_Key (cfg_Namespace cfg) (cfg_NodeID cfg)) \<or> isl (newBackend env cfg)"
    | pub key client where "ParseKey (cfg_ControllerPubkey cfg) = Inr pub" "dht_Key (cfg_Namespace cfg) (cfg_NodeID cfg) = Inr key"
      "newBackend env cfg = Inr client"
    by (cases "ParseKey (cfg_ControllerPubkey cfg)"; cases "dht_Key (cfg_Namespace cfg) (cfg_NodeID cfg)"; cases "newBackend env cfg") auto
  then show ?thesis
  proof cases
    case 1
    then show ?thesis unfolding fb fetched_def
      by (auto simp: andThen_def of_sum_def fail_with_def ret_def split: sum.split)
  next
    case 2
    obtain result err where g: "fst (Get (e_url env) (logged answer) client key []) = (result, err)" by fastforce
    obtain a2 where a2: "get_values env client key a1 = ((if err = Some GBadKey then Inl (FGet GBadKey)
       else case err of Some (GAllFailed es) \<Rightarrow> Inl (FGet (GAllFailed es)) | _ \<Rightarrow> Inr (br_Values result)), a2)"
      "ag_sys a2 = ag_sys a1"
      using get_values_fetched [OF assms(1), of client key a1] unfolding g by auto
    obtain a3 where a3: "select_value env cfg pub priv (br_Values result) a2
     = (Inr (fst (decryptAndSelect (e_w env) (e_open env) (br_Values result) pub priv (cfg_Namespace cfg) (cfg_NodeID cfg))), a3)"
     "ag_sys a3 = ag_sys a2"
      using select_value_fetched [of env cfg pub priv "br_Values result" a2] by auto
    show ?thesis using a2 a3 unfolding fb fetched_def 2
      by (auto simp: g andThen_def of_sum_def ret_def split: option.split geterr.split)
  qed
qed

text \<open>A file other than the two the apply writes keeps its content.\<close>

definition not_written :: "string \<Rightarrow> string \<Rightarrow> string \<Rightarrow> bool" where
  "not_written p wp lp \<longleftrightarrow> p \<noteq> wp \<and> p \<noteq> lp \<and> \<not> has_prefix p (temp_base (filepath_Dir wp) ''.stunmesh-config.tmp-'')
     \<and> \<not> has_prefix p (temp_base (filepath_Dir lp) ''.last.json.tmp-'')"

lemma os_Remove_other: "os_Remove p s = (x, s') \<Longrightarrow> q \<noteq> p \<Longrightarrow> fs_files s' q = fs_files s q"
  by (auto simp: os_Remove_def syscall_def Let_def split: if_splits option.splits list.splits)

lemma applyDiff_other:
  assumes "applyDiff run wp lp d st s = (x, s')" and "paths_ok wp lp" and "not_written p wp lp"
  shows "fs_files (w_fs s') p = fs_files (w_fs s) p"
proof -
  obtain y r where c: "apply_commands run d st (w_run s) = (y, r)" by fastforce
  obtain z f where z: "applyStunmeshConfig wp d (w_fs s) = (z, f)" by fastforce
  have f: "fs_files f p = fs_files (w_fs s) p"
  proof (cases "d_Stunmesh d")
    case StunmeshEmpty
    then show ?thesis using z assms(3) os_Remove_other [of wp "w_fs s" _ _ p]
      by (auto simp: applyStunmeshConfig_def not_written_def split: prod.splits sum.splits if_splits)
  next
    case StunmeshChanged
    then show ?thesis using z assms(2, 3) replace_file_other [where q = p and path = wp]
      by (auto simp: applyStunmeshConfig_def writeStunmeshConfigAtomic_def not_written_def paths_ok_def wrap_def
          split: prod.splits sum.splits)
  qed (use z in \<open>simp add: applyStunmeshConfig_def\<close>)
  have g: "fs_files f' p = fs_files f p" if "Write lp t f = (u, f')" for t u f'
    using replace_file_other [OF that [unfolded Write_def]] assms(2, 3) by (simp add: not_written_def paths_ok_def)
  show ?thesis using assms(1) c z f g
    by (auto simp: applyDiff_def apply_files_def andThen_def wrap_def fail_with_def split: sum.splits prod.splits option.splits)
qed

lemma cycle_other:
  assumes "runFetchApply env cfg forceAll a = (r, a')" and "paths_ok (write_path cfg) (cfg_LastPath cfg)"
    and "not_written p (write_path cfg) (cfg_LastPath cfg)"
  shows "fs_files (w_fs (ag_sys a')) p = fs_files (w_fs (ag_sys a)) p"
  using assms(1)
proof (cases rule: runFetchApply_cases)
  case (applied b st d s x f)
  then show ?thesis using applyDiff_other [OF applied(6) assms(2, 3)] by (simp add: same_sys_def)
qed (simp add: same_sys_def)

lemma loadIdentityKey_again:
  assumes "fs_files f p = Some d" and "ParseKey (f_data d) = Inr k" and "fs_faults f = []"
  shows "\<exists>f'. loadIdentityKey p f = (Inr k, f') \<and> fs_files f' = fs_files f \<and> fs_faults f' = []"
  using assms by (simp add: loadIdentityKey_def os_ReadFile_def syscall_def Let_def)

lemma wrap_on_fs:
  "m (w_fs (ag_sys a)) = (Inr x, f) \<Longrightarrow> wrap g (on_fs m) a = (Inr x, a\<lparr>ag_sys := (ag_sys a)\<lparr>w_fs := f\<rparr>\<rparr>)"
  by (simp add: wrap_def on_fs_def)

lemma Read_again:
  assumes "fs_faults f = []" and "recorded_state w (fs_files f) lp = Inr st"
  shows "\<exists>f'. Read w lp f = (Inr st, f') \<and> fs_files f' = fs_files f \<and> fs_faults f' = [] \<and> fs_seed f' = fs_seed f"
proof -
  obtain y f' where r: "Read w lp f = (y, f')" by fastforce
  then show ?thesis using Read_same [OF r] Read_no_fault [OF assms(1), of w lp] assms by simp
qed

lemma checkAndApply_same:
  assumes "fs_faults (w_fs (ag_sys a)) = []"
    and "recorded_state (e_w env) (fs_files (w_fs (ag_sys a))) (cfg_LastPath cfg) = Inr st" and "sameContent st b = Inr True"
  shows "\<exists>a'. checkAndApply env cfg b False a = (Inr no_outcome, a') \<and> same_sys (ag_sys a) (ag_sys a')
    \<and> ag_log a' = ag_log a @ [LNoChange]"
proof -
  obtain f where f: "Read (e_w env) (cfg_LastPath cfg) (w_fs (ag_sys a)) = (Inr st, f)"
    "fs_files f = fs_files (w_fs (ag_sys a))" "fs_faults f = []" "fs_seed f = fs_seed (w_fs (ag_sys a))"
    using Read_again [OF assms(1, 2)] by blast
  note r = wrap_on_fs [where m = "Read (e_w env) (cfg_LastPath cfg)" and g = FLast, OF f(1)]
  show ?thesis unfolding checkAndApply_def andThen_goes [where m = "wrap FLast (on_fs (Read (e_w env) (cfg_LastPath cfg)))", OF r] using assms(3) f(2-4)
    by (simp add: of_sum_def ret_def andThen_def say_def same_sys_def)
qed

lemma identity_again:
  assumes "wrap FIdentity (on_fs (loadIdentityKey p)) a = (Inr priv, a1)"
    and "fs_files (w_fs (ag_sys b)) p = fs_files (w_fs (ag_sys a)) p" and "fs_faults (w_fs (ag_sys b)) = []"
  obtains b1 where "wrap FIdentity (on_fs (loadIdentityKey p)) b = (Inr priv, b1)" "same_sys (ag_sys b) (ag_sys b1)"
proof -
  obtain d where d: "fs_files (w_fs (ag_sys a)) p = Some d" "ParseKey (f_data d) = Inr priv"
    using assms(1) by (auto elim!: wrapE on_fsE loadIdentityKey_Inr)
  have "fs_files (w_fs (ag_sys b)) p = Some d" using assms(2) d(1) by simp
  then obtain f where f: "loadIdentityKey p (w_fs (ag_sys b)) = (Inr priv, f)"
    using loadIdentityKey_again [OF _ d(2) assms(3)] by blast
  note w = wrap_on_fs [where m = "loadIdentityKey p" and g = FIdentity, OF f]
  have "same_sys (ag_sys b) (ag_sys (b\<lparr>ag_sys := (ag_sys b)\<lparr>w_fs := f\<rparr>\<rparr>))"
    using loadIdentityKey_same [OF f] by (simp add: same_sys_def)
  then show ?thesis using that w by blast
qed

section \<open>Properties\<close>

text \<open>C5: whatever the network answers, a cycle runs no command and changes no file, unless one of the values
  the proxies answered in this very cycle opens with the node's identity key and the configured controller's
  key to a bundle that parses, validates for this node and namespace, and is the one selected among those
  values; then all it does to the router and the files is one apply of the difference between that bundle
  and the state read from last.json, and its result is the result of that apply.\<close>

theorem runFetchApply_authentic:
  "case runFetchApply env cfg forceAll a of (r, a') \<Rightarrow>
    (same_sys (ag_sys a) (ag_sys a') \<and> (case r of Inl _ \<Rightarrow> True | Inr out \<Rightarrow> out = no_outcome))
    \<or> (\<exists>b st d s x. authentic env cfg a b \<and> same_sys (ag_sys a) s
        \<and> recorded_state (e_w env) (fs_files (w_fs (ag_sys a))) (cfg_LastPath cfg) = Inr st
        \<and> computeDiff b st forceAll = Inr d
        \<and> applyDiff (e_runner env) (write_path cfg) (cfg_LastPath cfg) d st s = (x, ag_sys a')
        \<and> r = (case x of Inl e \<Rightarrow> Inl (FApply e) | Inr _ \<Rightarrow> Inr \<lparr>fo_Applied = True, fo_Diff = Some d\<rparr>))"
proof -
  obtain r a' where r: "runFetchApply env cfg forceAll a = (r, a')" by fastforce
  then show ?thesis
  proof (cases rule: runFetchApply_cases)
    case quiet
    then show ?thesis using r by (auto split: sum.split)
  next
    case (applied b st d s x f)
    then show ?thesis using r Read_recorded [OF applied(4)] by auto
  qed
qed

text \<open>C9: an ordinary cycle is idempotent: after a cycle of any kind that applied a bundle, the next one that is
  not a full apply (forceAll is false: neither the full-apply tick nor a one-shot run, which run the commands
  again by design) and gets the same answers from the proxies finds no change since the last apply, runs no
  command and changes no file. Assumed: last.json was absent, unreadable or as the agent writes it before the
  first cycle; the apply does not write to the identity key's path; the two written paths are distinct and
  apart from each other's temporary files; and no file operation fails in the second cycle.\<close>

theorem second_cycle_idle:
  assumes "runFetchApply env cfg forceAll a = (Inr out, a1)" and "fo_Diff out = Some d"
    and "e_http env = logged answer" and "e_w env \<in> {32, 64}" and "paths_ok (write_path cfg) (cfg_LastPath cfg)"
    and "not_written (cfg_IdentityKeyPath cfg) (write_path cfg) (cfg_LastPath cfg)"
    and "last_ok (e_w env) (fs_files (w_fs (ag_sys a))) (cfg_LastPath cfg)" and "fs_faults (w_fs (ag_sys a1)) = []"
  shows "\<exists>a2. runFetchApply env cfg False a1 = (Inr no_outcome, a2) \<and> same_sys (ag_sys a1) (ag_sys a2)
    \<and> last (ag_log a2) = LNoChange"
proof -
  obtain y a0 where fb: "fetch_bundle env cfg a = (y, a0)" by fastforce
  obtain b where b: "y = Inr (Some b)"
    using assms(1, 2) fb by (cases y) (auto simp: runFetchApply_def andThen_def ret_def no_outcome_def split: option.splits)
  then have ca: "checkAndApply env cfg b forceAll a0 = (Inr out, a1)"
    using assms(1) fb by (simp add: runFetchApply_def andThen_def)
  note same = fetch_bundle_sys [OF fb]
  obtain priv a00 where idk: "wrap FIdentity (on_fs (loadIdentityKey (cfg_IdentityKeyPath cfg))) a = (Inr priv, a00)"
    using fb b by (auto simp: fetch_bundle_def elim!: andThenE)
  have val: "fetched env answer cfg priv = Inr (Some b)"
    using fetch_bundle_fetched [OF assms(3) idk] fb b by auto
  from ca show ?thesis
  proof (cases rule: checkAndApply_cases)
    case quiet
    then show ?thesis using assms(2) by (simp add: no_outcome_def)
  next
    case (applied st d' s x)
    have x: "x = Inr ()" "d' = d" using applied(5) assms(2) by (cases x; simp)+
    have ok: "old_ok (e_w env) st" using last_ok_Read [OF _ applied(2)] assms(7) same by (simp add: same_sys_def)
    have new: "new_ok (e_w env) b" using authentic_ok(1) [OF _ assms(4)] same b by blast
    obtain c st' where c: "fs_files (w_fs (ag_sys a1)) (cfg_LastPath cfg) = Some c"
      "read_state (e_w env) (f_data c) = Inr st'" "sameContent st' b = Inr True"
      using applied_recorded [OF new ok applied(3) assms(5) applied(4) [unfolded x(1)]] by blast
    have "fs_files (w_fs (ag_sys a1)) (cfg_IdentityKeyPath cfg) = fs_files (w_fs (ag_sys a)) (cfg_IdentityKeyPath cfg)"
      using applyDiff_other [OF applied(4) assms(5, 6)] applied(1) same by (simp add: same_sys_def)
    then obtain b1 where b1: "wrap FIdentity (on_fs (loadIdentityKey (cfg_IdentityKeyPath cfg))) a1 = (Inr priv, b1)"
      "same_sys (ag_sys a1) (ag_sys b1)"
      using identity_again [OF idk _ assms(8)] by blast
    obtain b2 where b2: "fetch_bundle env cfg a1 = (Inr (Some b), b2)" "ag_sys b2 = ag_sys b1"
      using fetch_bundle_fetched [OF assms(3) b1(1)] val by auto
    have "fs_faults (w_fs (ag_sys b2)) = []" "recorded_state (e_w env) (fs_files (w_fs (ag_sys b2))) (cfg_LastPath cfg) = Inr st'"
      using b2 b1(2) assms(8) c by (auto simp: same_sys_def recorded_state_def)
    then obtain a2 where a2: "checkAndApply env cfg b False b2 = (Inr no_outcome, a2)" "same_sys (ag_sys b2) (ag_sys a2)"
      "ag_log a2 = ag_log b2 @ [LNoChange]"
      using checkAndApply_same [OF _ _ c(3)] by blast
    have "runFetchApply env cfg False a1 = (Inr no_outcome, a2)"
      using b2(1) a2(1) by (simp add: runFetchApply_def andThen_def)
    moreover have "same_sys (ag_sys a1) (ag_sys a2)" using same_sys_trans [OF b1(2)] a2(2) b2(2) by simp
    ultimately show ?thesis using a2(3) by simp
  qed
qed

lemma ex_last_ok: "last_ok 64 (fs_files (w_fs (ag_sys ex_agent))) ex_path"
  by (simp add: last_ok_def recorded_state_def ex_agent_def ex_path_def ex_id_def old_ok_def state_wf_def emptyState_def
      zero_state_def zero_firewall_def CurrentVersion_def map_wf_def gm_ok_def)

lemma ex_not_written: "not_written ex_id ex_wp ex_path"
  using ex_id_not_temp by (simp add: not_written_def ex_id_def ex_wp_def ex_path_def)

theorem second_cycle_idle_witness:
  "case runFetchApply ex_env ex_cfg False ex_agent of (Inl _, _) \<Rightarrow> False
   | (Inr out, a1) \<Rightarrow> fo_Applied out \<and> (\<exists>a2. runFetchApply ex_env ex_cfg False a1 = (Inr no_outcome, a2)
       \<and> same_sys (ag_sys a1) (ag_sys a2))"
proof (rule ex_first_cycle)
  fix a1 d
  assume "runFetchApply ex_env ex_cfg False ex_agent = (Inr \<lparr>fo_Applied = True, fo_Diff = Some d\<rparr>, a1)"
    and "fs_faults (w_fs (ag_sys a1)) = []"
  then show ?thesis
    using second_cycle_idle [of ex_env ex_cfg False ex_agent _ a1 d ex_answer] ex_paths_ok ex_not_written ex_last_ok
    by (fastforce simp: ex_env_sel ex_cfg_sel)
qed

end
