(* ===== verification/Daemon.thy ===== *)
theory Daemon
  imports Fetch_Props
begin

text \<open>
  cmd/stunmesh-agent/lock.go, embedded.go and daemon.go: the lock, the embedded stunmesh-go app,
  the one-shot run and the daemon. The daemon is a step relation: it takes the lock, runs a first
  cycle, and then one cycle per tick until a signal; the app's own goroutine, the network and a
  crash are steps of the environment.
\<close>

section \<open>The lock\<close>

text \<open>Who holds the flock of each path. flock ties the lock to the open file, one per process.\<close>

type_synonym locks = "string \<Rightarrow> nat option"

datatype lockerr = LockOpen | LockHeld | LockFailed

text \<open>\<open>can_open\<close> and \<open>can_lock\<close>: whether open and flock, were the lock free, succeed.\<close>

definition acquireLock :: "bool \<Rightarrow> bool \<Rightarrow> nat \<Rightarrow> string \<Rightarrow> (locks, lockerr, unit) step" where
  "acquireLock can_open can_lock pid path l =
     (if \<not> can_open then (Inl LockOpen, l)
      else if l path \<noteq> None then (Inl LockHeld, l)
      else if \<not> can_lock then (Inl LockFailed, l)
      else (Inr (), l(path \<mapsto> pid)))"

definition Release :: "nat \<Rightarrow> string \<Rightarrow> locks \<Rightarrow> locks" where
  "Release pid path l = (if l path = Some pid then l(path := None) else l)"

definition ExitOK :: int where
  "ExitOK = 0"

definition ExitError :: int where
  "ExitError = 1"

definition lock_exit :: "lockerr \<Rightarrow> int" where
  "lock_exit e = (if e = LockHeld then ExitOK else ExitError)"

section \<open>The embedded app\<close>

text \<open>
  The apps by order of creation: running, returned from Run, or closed. \<open>factory\<close> answers whether
  the n-th call of app.New succeeds.
\<close>

datatype appstatus = AppRunning | AppReturned | AppClosed

record Apps =
  ap_calls :: nat
  ap_status :: "appstatus list"

type_synonym appFactory = "AppOptions \<Rightarrow> nat \<Rightarrow> bool"

definition startEmbedded :: "appFactory \<Rightarrow> AppOptions \<Rightarrow> (Apps, unit, nat) step" where
  "startEmbedded factory opts s =
     (if factory opts (ap_calls s)
      then (Inr (length (ap_status s)), s\<lparr>ap_calls := ap_calls s + 1, ap_status := ap_status s @ [AppRunning]\<rparr>)
      else (Inl (), s\<lparr>ap_calls := ap_calls s + 1\<rparr>))"

text \<open>stop cancels Run, waits until it has returned, and closes the app.\<close>

definition stop_app :: "nat \<Rightarrow> Apps \<Rightarrow> Apps" where
  "stop_app i s = s\<lparr>ap_status := (ap_status s)[i := AppClosed]\<rparr>"

definition stop :: "nat option \<Rightarrow> Apps \<Rightarrow> Apps" where
  "stop r s = (case r of None \<Rightarrow> s | Some i \<Rightarrow> stop_app i s)"

record ('r, 'h) Daemon =
  dm_agent :: "('r, 'h) Agent"
  dm_apps :: Apps
  dm_embedded :: "nat option"

definition dm_say :: "line \<Rightarrow> ('r, 'h) Daemon \<Rightarrow> ('r, 'h) Daemon" where
  "dm_say l dm = dm\<lparr>dm_agent := (dm_agent dm)\<lparr>ag_log := ag_log (dm_agent dm) @ [l]\<rparr>\<rparr>"

definition must_act :: "Diff option \<Rightarrow> bool \<Rightarrow> bool" where
  "must_act diff checkAlways =
     (checkAlways \<or> (case diff of None \<Rightarrow> False | Some d \<Rightarrow> d_Stunmesh d \<noteq> StunmeshUnchanged \<or> anyInterfaceChanged d))"

text \<open>Whether the app is to run: by this cycle's difference, or else by what last.json records.\<close>

definition want_running :: "('r, 'h) AEnv \<Rightarrow> Config \<Rightarrow> Diff option \<Rightarrow> ('r, 'h) Daemon \<Rightarrow> bool \<times> ('r, 'h) Daemon" where
  "want_running env cfg diff dm =
     (case diff of Some d \<Rightarrow> (d_Stunmesh d \<noteq> StunmeshEmpty, dm)
      | None \<Rightarrow> (case on_fs (Read (e_w env) (cfg_LastPath cfg)) (dm_agent dm) of
          (Inl _, a) \<Rightarrow> (False, dm\<lparr>dm_agent := a\<rparr>)
        | (Inr st, a) \<Rightarrow> (st_Stunmesh st \<noteq> [], dm\<lparr>dm_agent := a\<rparr>)))"

definition reconcileEmbedded :: "('r, 'h) AEnv \<Rightarrow> appFactory \<Rightarrow> Config \<Rightarrow> Diff option \<Rightarrow> bool
    \<Rightarrow> ('r, 'h) Daemon \<Rightarrow> ('r, 'h) Daemon" where
  "reconcileEmbedded env factory cfg diff checkAlways dm =
     (if \<not> must_act diff checkAlways then dm
      else (case want_running env cfg diff dm of (want, dm1) \<Rightarrow>
        (let dm2 = dm1\<lparr>dm_apps := stop (dm_embedded dm1) (dm_apps dm1), dm_embedded := None\<rparr> in
         if \<not> want then dm2
         else (case startEmbedded factory (sc_AppOptions (cfg_Stunmesh cfg)) (dm_apps dm2) of
             (Inl _, s) \<Rightarrow> dm_say LEmbeddedFailed (dm2\<lparr>dm_apps := s\<rparr>)
           | (Inr i, s) \<Rightarrow> dm_say LRestarted (dm2\<lparr>dm_apps := s, dm_embedded := Some i\<rparr>)))))"

definition runCycle :: "('r, 'h) AEnv \<Rightarrow> appFactory \<Rightarrow> Config \<Rightarrow> bool \<Rightarrow> bool \<Rightarrow> ('r, 'h) Daemon \<Rightarrow> ('r, 'h) Daemon" where
  "runCycle env factory cfg forceAll forceEmbeddedCheck dm =
     (case runFetchApply env cfg forceAll (dm_agent dm) of
        (Inl e, a) \<Rightarrow> dm_say (LFailed e) (dm\<lparr>dm_agent := a\<rparr>)
      | (Inr out, a) \<Rightarrow> reconcileEmbedded env factory cfg (fo_Diff out) forceEmbeddedCheck (dm\<lparr>dm_agent := a\<rparr>))"

section \<open>One shot\<close>

definition needsEmbeddedRun :: "Diff option \<Rightarrow> bool" where
  "needsEmbeddedRun diff =
     (case diff of None \<Rightarrow> False
      | Some d \<Rightarrow> d_Stunmesh d \<noteq> StunmeshEmpty \<and> (d_Stunmesh d = StunmeshChanged \<or> anyInterfaceChanged d))"

text \<open>What runOneshot does with the lock held; \<open>run_ok\<close> is what the app's RunOneshot answers.\<close>

definition oneshot_body :: "('r, 'h) AEnv \<Rightarrow> appFactory \<Rightarrow> bool \<Rightarrow> Config \<Rightarrow> ('r, 'h) Daemon \<Rightarrow> int \<times> ('r, 'h) Daemon" where
  "oneshot_body env factory run_ok cfg dm =
     (case runFetchApply env cfg True (dm_agent dm) of
        (Inl e, a) \<Rightarrow> (ExitError, dm_say (LFailed e) (dm\<lparr>dm_agent := a\<rparr>))
      | (Inr out, a) \<Rightarrow>
          (let dm1 = dm\<lparr>dm_agent := a\<rparr> in
           if fo_Applied out \<and> needsEmbeddedRun (fo_Diff out) then
             (case startEmbedded factory (sc_AppOptions (cfg_Stunmesh cfg)) (dm_apps dm1) of
                (Inl _, s) \<Rightarrow> (ExitError, dm_say LEmbeddedFailed (dm1\<lparr>dm_apps := s\<rparr>))
              | (Inr i, s) \<Rightarrow>
                  (let dm2 = dm1\<lparr>dm_apps := stop_app i s\<rparr> in
                   if run_ok then (ExitOK, dm2) else (ExitError, dm_say LEmbeddedFailed dm2)))
           else (ExitOK, dm1)))"

definition runOneshot :: "('r, 'h) AEnv \<Rightarrow> appFactory \<Rightarrow> bool \<Rightarrow> bool \<Rightarrow> bool \<Rightarrow> nat \<Rightarrow> Config
    \<Rightarrow> locks \<times> ('r, 'h) Daemon \<Rightarrow> int \<times> locks \<times> ('r, 'h) Daemon" where
  "runOneshot env factory run_ok can_open can_lock pid cfg = (\<lambda>(l, dm).
     (case acquireLock can_open can_lock pid (cfg_LockPath cfg) l of
        (Inl e, l') \<Rightarrow> (lock_exit e, l', dm_say LLocked dm)
      | (Inr _, l') \<Rightarrow> (case oneshot_body env factory run_ok cfg dm of
          (exit, dm') \<Rightarrow> (exit, Release pid (cfg_LockPath cfg) l', dm'))))"

section \<open>The app alone, and the choice of the command\<close>

text \<open>runStunmeshOnly; \<open>run_ok oneshot\<close>: whether RunOneshot, or Run before its context ends, gives no error.\<close>

definition runStunmeshOnly :: "(string \<Rightarrow> string option) \<Rightarrow> appFactory \<Rightarrow> (bool \<Rightarrow> bool) \<Rightarrow> string \<Rightarrow> string \<Rightarrow> bool
    \<Rightarrow> fs \<times> Apps \<Rightarrow> int \<times> fs \<times> Apps" where
  "runStunmeshOnly yaml factory run_ok configFile configDir oneshot = (\<lambda>(f, s).
     (case andThen (wrap (\<lambda>_. ()) (findConfigFile configFile configDir))
         (\<lambda>path. wrap (\<lambda>_. ()) (loadStunmeshOnlyConfig yaml path)) f of
        (Inl _, f') \<Rightarrow> (ExitError, f', s)
      | (Inr sc, f') \<Rightarrow>
          (case startEmbedded factory (sc_AppOptions sc) s of
             (Inl _, s') \<Rightarrow> (ExitError, f', s')
           | (Inr i, s') \<Rightarrow> (if run_ok oneshot then ExitOK else ExitError, f', stop_app i s'))))"

text \<open>What package flag makes of the arguments.\<close>

record Flags =
  fl_config :: string
  fl_configDir :: string
  fl_oneshot :: bool
  fl_stunmeshOnly :: bool
  fl_version :: bool
  fl_rest :: "string list"

datatype parsed = FlagHelp | FlagError | FlagsOk Flags

definition handleFlagError :: "bool \<Rightarrow> int" where
  "handleFlagError is_help = (if is_help then ExitOK else ExitError)"

text \<open>What runAgent does with them: end, or start one of the three modes.\<close>

datatype command = End int | StartOneshot Config | StartDaemon Config | StartOnly string string bool

definition runAgent :: "(string \<Rightarrow> string option) \<Rightarrow> parsed \<Rightarrow> fs \<Rightarrow> command \<times> fs" where
  "runAgent yaml args f =
     (case args of FlagHelp \<Rightarrow> (End (handleFlagError True), f)
      | FlagError \<Rightarrow> (End (handleFlagError False), f)
      | FlagsOk fl \<Rightarrow>
          if fl_rest fl \<noteq> [] then (End ExitError, f)
          else if fl_version fl then (End ExitOK, f)
          else if fl_stunmeshOnly fl then (StartOnly (fl_config fl) (fl_configDir fl) (fl_oneshot fl), f)
          else (case findConfigFile (fl_config fl) (fl_configDir fl) f of
              (Inl _, f') \<Rightarrow> (End ExitError, f')
            | (Inr path, f') \<Rightarrow>
                if path = [] then (End ExitError, f')
                else (case loadConfig yaml path f' of
                    (Inl _, f'') \<Rightarrow> (End ExitError, f'')
                  | (Inr cfg, f'') \<Rightarrow> (if fl_oneshot fl then StartOneshot cfg else StartDaemon cfg, f''))))"

section \<open>The daemon\<close>

datatype phase = Starting | Holding | Looping | Finished int | Crashed

record ('r, 'h) Proc =
  pr_phase :: phase
  pr_dm :: "('r, 'h) Daemon"

text \<open>The steps of the daemon of process \<open>pid\<close>, on the locks and its own state.\<close>

inductive daemon_step :: "('r, 'h) AEnv \<Rightarrow> appFactory \<Rightarrow> Config \<Rightarrow> nat
    \<Rightarrow> locks \<times> ('r, 'h) Proc \<Rightarrow> locks \<times> ('r, 'h) Proc \<Rightarrow> bool"
  for env factory cfg pid where
  locked_out: "acquireLock can_open can_lock pid (cfg_LockPath cfg) l = (Inl e, l') \<Longrightarrow>
    daemon_step env factory cfg pid (l, \<lparr>pr_phase = Starting, pr_dm = dm\<rparr>)
      (l', \<lparr>pr_phase = Finished (lock_exit e), pr_dm = dm_say LLocked dm\<rparr>)"
| locked: "acquireLock can_open can_lock pid (cfg_LockPath cfg) l = (Inr (), l') \<Longrightarrow>
    daemon_step env factory cfg pid (l, \<lparr>pr_phase = Starting, pr_dm = dm\<rparr>) (l', \<lparr>pr_phase = Holding, pr_dm = dm\<rparr>)"
| first_cycle:
    "daemon_step env factory cfg pid (l, \<lparr>pr_phase = Holding, pr_dm = dm\<rparr>)
      (l, \<lparr>pr_phase = Looping, pr_dm = runCycle env factory cfg False True dm\<rparr>)"
| refresh:
    "daemon_step env factory cfg pid (l, \<lparr>pr_phase = Looping, pr_dm = dm\<rparr>)
      (l, \<lparr>pr_phase = Looping, pr_dm = runCycle env factory cfg False False dm\<rparr>)"
| full_apply: "0 < cfg_FullApplyInterval cfg \<Longrightarrow>
    daemon_step env factory cfg pid (l, \<lparr>pr_phase = Looping, pr_dm = dm\<rparr>)
      (l, \<lparr>pr_phase = Looping, pr_dm = runCycle env factory cfg True False dm\<rparr>)"
| shutdown:
    "daemon_step env factory cfg pid (l, \<lparr>pr_phase = Looping, pr_dm = dm\<rparr>)
      (Release pid (cfg_LockPath cfg) l, \<lparr>pr_phase = Finished ExitOK,
         pr_dm = dm_say LShutdown (dm\<lparr>dm_apps := stop (dm_embedded dm) (dm_apps dm)\<rparr>)\<rparr>)"
| app_returns: "i < length (ap_status (dm_apps dm)) \<Longrightarrow> ap_status (dm_apps dm) ! i = AppRunning \<Longrightarrow>
    daemon_step env factory cfg pid (l, \<lparr>pr_phase = ph, pr_dm = dm\<rparr>)
      (l, \<lparr>pr_phase = ph, pr_dm = dm\<lparr>dm_apps := (dm_apps dm)\<lparr>ap_status := (ap_status (dm_apps dm))[i := AppReturned]\<rparr>\<rparr>\<rparr>)"
| outside: "w_fs (ag_sys a) = w_fs (ag_sys (dm_agent dm)) \<Longrightarrow> ag_log a = ag_log (dm_agent dm) \<Longrightarrow>
    daemon_step env factory cfg pid (l, \<lparr>pr_phase = ph, pr_dm = dm\<rparr>) (l, \<lparr>pr_phase = ph, pr_dm = dm\<lparr>dm_agent := a\<rparr>\<rparr>)"
| crash: "ph = Holding \<or> ph = Looping \<Longrightarrow>
    daemon_step env factory cfg pid (l, \<lparr>pr_phase = ph, pr_dm = dm\<rparr>)
      (Release pid (cfg_LockPath cfg) l, \<lparr>pr_phase = Crashed,
         pr_dm = dm\<lparr>dm_apps := (dm_apps dm)\<lparr>ap_status := map (\<lambda>_. AppClosed) (ap_status (dm_apps dm))\<rparr>\<rparr>\<rparr>)"

inductive_cases daemon_stepE: "daemon_step env factory cfg pid s t"

definition fresh_proc :: "('r, 'h) Agent \<Rightarrow> ('r, 'h) Proc" where
  "fresh_proc a = \<lparr>pr_phase = Starting, pr_dm = \<lparr>dm_agent = a, dm_apps = \<lparr>ap_calls = 0, ap_status = []\<rparr>, dm_embedded = None\<rparr>\<rparr>"

text \<open>The states a daemon reaches, with any locks of other processes at the start.\<close>

inductive daemon_reach :: "('r, 'h) AEnv \<Rightarrow> appFactory \<Rightarrow> Config \<Rightarrow> nat \<Rightarrow> locks \<times> ('r, 'h) Proc \<Rightarrow> locks \<times> ('r, 'h) Proc \<Rightarrow> bool"
  for env factory cfg pid where
  start: "daemon_reach env factory cfg pid s s"
| step: "daemon_reach env factory cfg pid s t \<Longrightarrow> daemon_step env factory cfg pid t u \<Longrightarrow> daemon_reach env factory cfg pid s u"

end
