(* ===== verification/Daemon_Props.thy ===== *)
theory Daemon_Props
  imports Daemon
begin

text \<open>
  What the daemon promises: one process at a time works under a lock path, at most one embedded
  app is alive and none outlives the daemon, an app runs only while last.json records a stunmesh
  text; and where the promise about the first cycle fails.
\<close>

section \<open>The embedded app\<close>

text \<open>Every app but the one the daemon holds is closed, and that one is not.\<close>

definition alive :: "Apps \<Rightarrow> nat \<Rightarrow> bool" where
  "alive s i \<longleftrightarrow> i < length (ap_status s) \<and> ap_status s ! i \<noteq> AppClosed"

definition apps_inv :: "nat option \<Rightarrow> Apps \<Rightarrow> bool" where
  "apps_inv e s \<longleftrightarrow> (\<forall>i. alive s i \<longleftrightarrow> e = Some i)"

lemma alive_stop_app: "alive (stop_app i s) j \<longleftrightarrow> alive s j \<and> j \<noteq> i"
  by (cases "j = i") (simp_all add: alive_def stop_app_def)

lemma apps_inv_stop: "apps_inv e s \<Longrightarrow> apps_inv None (stop e s)"
  by (cases e) (simp_all add: apps_inv_def stop_def alive_stop_app)

lemma apps_inv_start:
  assumes "apps_inv None s" and "startEmbedded factory opts s = (r, s')"
  shows "apps_inv (case r of Inl _ \<Rightarrow> None | Inr i \<Rightarrow> Some i) s'"
  using assms by (auto simp: apps_inv_def startEmbedded_def alive_def nth_append less_Suc_eq split: if_splits)

text \<open>The text last.json records, with \<open>None\<close> for a file that does not read.\<close>

definition recorded_text :: "('r, 'h) AEnv \<Rightarrow> Config \<Rightarrow> ('r, 'h) Agent \<Rightarrow> string option" where
  "recorded_text env cfg a =
     (case recorded_state (e_w env) (fs_files (w_fs (ag_sys a))) (cfg_LastPath cfg) of Inl _ \<Rightarrow> None | Inr st \<Rightarrow> Some (st_Stunmesh st))"

text \<open>The app is held only while a text that is not empty is recorded.\<close>

definition text_inv :: "('r, 'h) AEnv \<Rightarrow> Config \<Rightarrow> ('r, 'h) Daemon \<Rightarrow> bool" where
  "text_inv env cfg dm \<longleftrightarrow> (dm_embedded dm \<noteq> None \<longrightarrow>
     (case recorded_text env cfg (dm_agent dm) of None \<Rightarrow> False | Some t \<Rightarrow> t \<noteq> []))"

definition daemon_ok :: "('r, 'h) AEnv \<Rightarrow> Config \<Rightarrow> bool" where
  "daemon_ok env cfg \<longleftrightarrow> e_w env \<in> {32, 64} \<and> paths_ok (write_path cfg) (cfg_LastPath cfg)"

definition cycle_inv :: "('r, 'h) AEnv \<Rightarrow> Config \<Rightarrow> ('r, 'h) Daemon \<Rightarrow> bool" where
  "cycle_inv env cfg dm \<longleftrightarrow> apps_inv (dm_embedded dm) (dm_apps dm) \<and> text_inv env cfg dm
     \<and> last_ok (e_w env) (fs_files (w_fs (ag_sys (dm_agent dm)))) (cfg_LastPath cfg)"

lemma recorded_text_files:
  "fs_files (w_fs (ag_sys a)) = fs_files (w_fs (ag_sys b)) \<Longrightarrow> recorded_text env cfg a = recorded_text env cfg b"
  by (simp add: recorded_text_def)

lemma dm_say_simps [simp]:
  "dm_apps (dm_say l dm) = dm_apps dm" "dm_embedded (dm_say l dm) = dm_embedded dm"
  "ag_sys (dm_agent (dm_say l dm)) = ag_sys (dm_agent dm)"
  by (simp_all add: dm_say_def)

text \<open>What reconcileEmbedded leaves: the app it was given, or none, or a new one.\<close>

lemma want_running_spec:
  assumes "want_running env cfg diff dm = (want, dm1)"
  shows "dm_apps dm1 = dm_apps dm \<and> dm_embedded dm1 = dm_embedded dm
    \<and> fs_files (w_fs (ag_sys (dm_agent dm1))) = fs_files (w_fs (ag_sys (dm_agent dm)))
    \<and> (case diff of Some d \<Rightarrow> want = (d_Stunmesh d \<noteq> StunmeshEmpty)
       | None \<Rightarrow> want \<longrightarrow> (case recorded_text env cfg (dm_agent dm) of None \<Rightarrow> False | Some t \<Rightarrow> t \<noteq> []))"
proof (cases diff)
  case None
  obtain y f where r: "Read (e_w env) (cfg_LastPath cfg) (w_fs (ag_sys (dm_agent dm))) = (y, f)" by fastforce
  have "fs_files f = fs_files (w_fs (ag_sys (dm_agent dm)))" using Read_same [OF r] by simp
  moreover have "recorded_text env cfg (dm_agent dm) = Some (st_Stunmesh st)" if "y = Inr st" for st
    using Read_recorded [of "e_w env" "cfg_LastPath cfg" "w_fs (ag_sys (dm_agent dm))" st] r that by (simp add: recorded_text_def)
  ultimately show ?thesis using assms None r by (auto simp: want_running_def on_fs_def split: sum.splits)
qed (use assms in \<open>auto simp: want_running_def\<close>)

lemma reconcile_spec:
  assumes "reconcileEmbedded env factory cfg diff check dm = dm'" and "apps_inv (dm_embedded dm) (dm_apps dm)"
  shows "apps_inv (dm_embedded dm') (dm_apps dm')
    \<and> fs_files (w_fs (ag_sys (dm_agent dm'))) = fs_files (w_fs (ag_sys (dm_agent dm)))
    \<and> (if must_act diff check
       then dm_embedded dm' \<noteq> None \<longrightarrow> fst (want_running env cfg diff dm)
       else dm' = dm)"
proof (cases "must_act diff check")
  case True
  obtain want dm1 where w: "want_running env cfg diff dm = (want, dm1)" by fastforce
  note sp = want_running_spec [OF w]
  have st: "apps_inv None (stop (dm_embedded dm1) (dm_apps dm1))" using apps_inv_stop assms(2) sp by metis
  obtain r s where se: "startEmbedded factory (sc_AppOptions (cfg_Stunmesh cfg)) (stop (dm_embedded dm1) (dm_apps dm1)) = (r, s)"
    by fastforce
  show ?thesis using assms(1) True w sp st apps_inv_start [OF st se] se
    by (cases want; cases r) (auto simp: reconcileEmbedded_def Let_def)
qed (use assms in \<open>simp add: reconcileEmbedded_def\<close>)

lemma runCycle_inv:
  assumes "daemon_ok env cfg" and "cycle_inv env cfg dm"
  shows "cycle_inv env cfg (runCycle env factory cfg forceAll check dm)"
proof -
  have ok: "e_w env \<in> {32, 64}" "paths_ok (write_path cfg) (cfg_LastPath cfg)" using assms(1) by (simp_all add: daemon_ok_def)
  have inv: "apps_inv (dm_embedded dm) (dm_apps dm)" "text_inv env cfg dm"
    and lo: "last_ok (e_w env) (fs_files (w_fs (ag_sys (dm_agent dm)))) (cfg_LastPath cfg)"
    using assms(2) by (simp_all add: cycle_inv_def)
  obtain r a where r: "runFetchApply env cfg forceAll (dm_agent dm) = (r, a)" by fastforce
  have la: "last_ok (e_w env) (fs_files (w_fs (ag_sys a))) (cfg_LastPath cfg)" by (rule cycle_last_ok(1) [OF r ok lo])
  have same: "recorded_text env cfg a = recorded_text env cfg (dm_agent dm)"
    if "case r of Inl _ \<Rightarrow> True | Inr out \<Rightarrow> fo_Diff out = None"
    using cycle_last_ok(2) [OF r ok lo that] by (simp add: recorded_text_def)
  show ?thesis
  proof (cases r)
    case (Inl e)
    then show ?thesis using r inv la same by (simp add: runCycle_def cycle_inv_def text_inv_def recorded_text_def)
  next
    case (Inr out)
    let ?dm = "dm\<lparr>dm_agent := a\<rparr>"
    obtain dm' where dm': "reconcileEmbedded env factory cfg (fo_Diff out) check ?dm = dm'" by simp
    note sp = reconcile_spec [OF dm', simplified, OF inv(1)]
    have rc: "runCycle env factory cfg forceAll check dm = dm'" using r Inr dm' by (simp add: runCycle_def)
    have files: "recorded_text env cfg (dm_agent dm') = recorded_text env cfg a"
      using sp by (intro recorded_text_files) simp
    have "text_inv env cfg dm'"
    proof (cases "fo_Diff out")
      case None
      show ?thesis
      proof (cases "must_act None check")
        case True
        obtain want dm1 where w: "want_running env cfg None ?dm = (want, dm1)" by fastforce
        show ?thesis using sp True None want_running_spec [OF w] w files by (auto simp: text_inv_def)
      next
        case False
        then show ?thesis using sp None inv(2) same Inr by (auto simp: text_inv_def)
      qed
    next
      case (Some d)
      have "runFetchApply env cfg forceAll (dm_agent dm) = (Inr out, a)" using r Inr by simp
      then obtain b :: Bundle and st' where b: "recorded_state (e_w env) (fs_files (w_fs (ag_sys a))) (cfg_LastPath cfg) = Inr st'"
        "st_Stunmesh st' = of_opt (b_Stunmesh b)" "d_Stunmesh d = StunmeshEmpty \<longleftrightarrow> of_opt (b_Stunmesh b) = []"
        by (rule cycle_recorded [OF _ Some ok lo]) blast
      have "dm_embedded dm' \<noteq> None \<longrightarrow> d_Stunmesh d \<noteq> StunmeshEmpty"
      proof (cases "must_act (Some d) check")
        case True
        obtain want dm1 where w: "want_running env cfg (Some d) ?dm = (want, dm1)" by fastforce
        show ?thesis using sp True Some want_running_spec [OF w] w by auto
      qed (simp add: must_act_def)
      then show ?thesis using b files by (auto simp: text_inv_def recorded_text_def)
    qed
    then show ?thesis using sp la rc by (simp add: cycle_inv_def)
  qed
qed

section \<open>Reachable states of one daemon\<close>

definition active :: "phase \<Rightarrow> bool" where
  "active ph \<longleftrightarrow> ph = Holding \<or> ph = Looping"

definition all_closed :: "Apps \<Rightarrow> bool" where
  "all_closed s \<longleftrightarrow> (\<forall>i. \<not> alive s i)"

definition proc_inv :: "('r, 'h) AEnv \<Rightarrow> Config \<Rightarrow> ('r, 'h) Proc \<Rightarrow> bool" where
  "proc_inv env cfg p = (case pr_phase p of
      Starting \<Rightarrow> dm_embedded (pr_dm p) = None \<and> cycle_inv env cfg (pr_dm p)
    | Holding \<Rightarrow> dm_embedded (pr_dm p) = None \<and> cycle_inv env cfg (pr_dm p)
    | Looping \<Rightarrow> cycle_inv env cfg (pr_dm p)
    | Finished _ \<Rightarrow> all_closed (dm_apps (pr_dm p)) | Crashed \<Rightarrow> all_closed (dm_apps (pr_dm p)))"

lemma all_closed_None: "apps_inv None s \<Longrightarrow> all_closed s"
  by (simp add: apps_inv_def all_closed_def)

lemma alive_returned: "i < length (ap_status s) \<Longrightarrow> ap_status s ! i = AppRunning \<Longrightarrow>
    alive (s\<lparr>ap_status := (ap_status s)[i := AppReturned]\<rparr>) j = alive s j"
  by (cases "j = i") (simp_all add: alive_def)

lemma cycle_inv_returned:
  assumes "i < length (ap_status (dm_apps dm))" and "ap_status (dm_apps dm) ! i = AppRunning"
  shows "cycle_inv env cfg (dm\<lparr>dm_apps := (dm_apps dm)\<lparr>ap_status := (ap_status (dm_apps dm))[i := AppReturned]\<rparr>\<rparr>) = cycle_inv env cfg dm"
  by (simp add: cycle_inv_def apps_inv_def text_inv_def alive_returned [OF assms])

lemma cycle_inv_outside:
  assumes "w_fs (ag_sys a) = w_fs (ag_sys (dm_agent dm))"
  shows "cycle_inv env cfg (dm\<lparr>dm_agent := a\<rparr>) = cycle_inv env cfg dm"
  using assms recorded_text_files [of a "dm_agent dm" env cfg] by (simp add: cycle_inv_def text_inv_def)

lemma daemon_step_inv:
  assumes "daemon_step env factory cfg pid s t" and "daemon_ok env cfg" and "proc_inv env cfg (snd s)"
  shows "proc_inv env cfg (snd t)"
  using assms(1)
proof cases
  case (app_returns i dm l ph)
  then show ?thesis using assms(3)
    by (cases ph) (simp_all add: proc_inv_def cycle_inv_returned all_closed_def alive_returned)
next
  case (outside a dm l ph)
  then show ?thesis using assms(3) by (cases ph) (simp_all add: proc_inv_def cycle_inv_outside)
next
  case (shutdown l dm)
  then have "apps_inv (dm_embedded dm) (dm_apps dm)" using assms(3) by (simp add: proc_inv_def cycle_inv_def)
  then show ?thesis using shutdown all_closed_None [OF apps_inv_stop] by (simp add: proc_inv_def)
next
  case (crash ph l dm)
  then show ?thesis by (simp add: proc_inv_def all_closed_def alive_def)
next
  case (locked_out can_open can_lock l e l' dm)
  then show ?thesis using assms(3) by (auto simp: proc_inv_def cycle_inv_def intro: all_closed_None)
qed (use assms(3) runCycle_inv [OF assms(2)] in \<open>simp_all add: proc_inv_def\<close>)

lemma daemon_reach_inv:
  assumes "daemon_reach env factory cfg pid s t" and "daemon_ok env cfg" and "proc_inv env cfg (snd s)"
  shows "proc_inv env cfg (snd t)"
  using assms by (induction rule: daemon_reach.induct) (auto intro: daemon_step_inv)

lemma fresh_proc_inv:
  assumes "last_ok (e_w env) (fs_files (w_fs (ag_sys a))) (cfg_LastPath cfg)"
  shows "proc_inv env cfg (fresh_proc a)"
  using assms by (simp add: proc_inv_def fresh_proc_def cycle_inv_def apps_inv_def alive_def text_inv_def)

text \<open>C8: in every state a daemon reaches, whatever ticks, signals, crashes and network answers come in
  whatever order and whatever calls fail: at most one embedded app is alive (running, or returned and not
  yet closed) and it is the one the daemon holds; none is alive once the daemon has ended; and one is held
  only while last.json records a stunmesh text that is not empty.\<close>

theorem daemon_invariant:
  assumes "daemon_reach env factory cfg pid (l0, fresh_proc a) (l, p)" and "e_w env \<in> {32, 64}"
    and "paths_ok (write_path cfg) (cfg_LastPath cfg)"
    and "last_ok (e_w env) (fs_files (w_fs (ag_sys a))) (cfg_LastPath cfg)"
  shows "(\<forall>i. alive (dm_apps (pr_dm p)) i \<longrightarrow> active (pr_phase p) \<and> dm_embedded (pr_dm p) = Some i)
    \<and> (\<forall>i. active (pr_phase p) \<longrightarrow> dm_embedded (pr_dm p) = Some i \<longrightarrow> alive (dm_apps (pr_dm p)) i
        \<and> (\<exists>t. recorded_text env cfg (dm_agent (pr_dm p)) = Some t \<and> t \<noteq> []))"
proof -
  have inv: "proc_inv env cfg p"
    using daemon_reach_inv [OF assms(1)] fresh_proc_inv [OF assms(4)] assms(2, 3) by (simp add: daemon_ok_def)
  show ?thesis
  proof (cases "active (pr_phase p)")
    case True
    then have "cycle_inv env cfg (pr_dm p)" using inv by (auto simp: proc_inv_def active_def)
    then have c: "apps_inv (dm_embedded (pr_dm p)) (dm_apps (pr_dm p))" "text_inv env cfg (pr_dm p)"
      by (simp_all add: cycle_inv_def)
    then show ?thesis using True by (auto simp: apps_inv_def text_inv_def split: option.splits)
  next
    case False
    then have "all_closed (dm_apps (pr_dm p))"
      using inv by (cases "pr_phase p") (auto simp: proc_inv_def cycle_inv_def active_def intro: all_closed_None)
    then show ?thesis using False by (simp add: all_closed_def)
  qed
qed

lemma ex_first_runCycle:
  "dm_embedded (runCycle ex_env (\<lambda>_ _. True) ex_cfg False True (pr_dm (fresh_proc ex_agent))) = Some 0"
proof (rule ex_first_cycle)
  fix a' d
  assume "runFetchApply ex_env ex_cfg False ex_agent = (Inr \<lparr>fo_Applied = True, fo_Diff = Some d\<rparr>, a')"
    and "d_Stunmesh d = StunmeshChanged"
  then show ?thesis
    by (simp add: runCycle_def fresh_proc_def reconcileEmbedded_def must_act_def want_running_def startEmbedded_def stop_def Let_def)
qed

theorem daemon_invariant_witness:
  "\<exists>l p. daemon_reach ex_env (\<lambda>_ _. True) ex_cfg 1 (\<lambda>_. None, fresh_proc ex_agent) (l, p)
     \<and> pr_phase p = Looping \<and> alive (dm_apps (pr_dm p)) 0 \<and> recorded_text ex_env ex_cfg (dm_agent (pr_dm p)) \<notin> {None, Some []}"
proof -
  let ?f = "\<lambda>_ _. True" and ?l = "[''/lock'' \<mapsto> (1::nat)]" and ?d = "pr_dm (fresh_proc ex_agent)"
  let ?p = "\<lparr>pr_phase = Looping, pr_dm = runCycle ex_env ?f ex_cfg False True ?d\<rparr>"
  have "daemon_step ex_env ?f ex_cfg 1 (\<lambda>_. None, \<lparr>pr_phase = Starting, pr_dm = ?d\<rparr>) (?l, \<lparr>pr_phase = Holding, pr_dm = ?d\<rparr>)"
    by (rule locked [of True True]) (simp add: acquireLock_def ex_cfg_sel)
  moreover have "fresh_proc ex_agent = \<lparr>pr_phase = Starting, pr_dm = ?d\<rparr>" by (simp add: fresh_proc_def)
  ultimately have r: "daemon_reach ex_env ?f ex_cfg 1 (\<lambda>_. None, fresh_proc ex_agent) (?l, ?p)"
    by (metis daemon_reach.start daemon_reach.step first_cycle)
  have "paths_ok (write_path ex_cfg) (cfg_LastPath ex_cfg)" by (simp add: ex_cfg_sel ex_paths_ok)
  from daemon_invariant [OF r _ this] ex_last_ok ex_first_runCycle
  have "alive (dm_apps (pr_dm ?p)) 0 \<and> (\<exists>t. recorded_text ex_env ex_cfg (dm_agent (pr_dm ?p)) = Some t \<and> t \<noteq> [])"
    by (simp add: ex_env_sel ex_cfg_sel active_def)
  then show ?thesis using r by (intro exI [of _ ?l] exI [of _ ?p]) auto
qed

section \<open>Several processes under one lock\<close>

text \<open>Processes share the locks and the router with its files; each has its own environment and configuration.\<close>

record ('r, 'h) System =
  sy_locks :: locks
  sy_world :: "'r World"
  sy_procs :: "nat \<Rightarrow> ('r, 'h) Proc"

definition with_world :: "'r World \<Rightarrow> ('r, 'h) Proc \<Rightarrow> ('r, 'h) Proc" where
  "with_world w p = p\<lparr>pr_dm := (pr_dm p)\<lparr>dm_agent := (dm_agent (pr_dm p))\<lparr>ag_sys := w\<rparr>\<rparr>\<rparr>"

inductive system_reach :: "(nat \<Rightarrow> ('r, 'h) AEnv) \<Rightarrow> (nat \<Rightarrow> appFactory) \<Rightarrow> (nat \<Rightarrow> Config) \<Rightarrow> ('r, 'h) System \<Rightarrow> ('r, 'h) System \<Rightarrow> bool"
  for env factory cfg where
  sys_start: "system_reach env factory cfg s s"
| sys_step: "system_reach env factory cfg s t \<Longrightarrow>
    daemon_step (env i) (factory i) (cfg i) i (sy_locks t, with_world (sy_world t) (sy_procs t i)) (l, p) \<Longrightarrow>
    system_reach env factory cfg s
      \<lparr>sy_locks = l, sy_world = ag_sys (dm_agent (pr_dm p)), sy_procs = (sy_procs t)(i := p)\<rparr>"

text \<open>A process is between taking the lock and ending exactly when the lock is its own.\<close>

definition lock_inv :: "(nat \<Rightarrow> Config) \<Rightarrow> ('r, 'h) System \<Rightarrow> bool" where
  "lock_inv cfg s \<longleftrightarrow> (\<forall>i. active (pr_phase (sy_procs s i)) \<longleftrightarrow> sy_locks s (cfg_LockPath (cfg i)) = Some i)"

lemma daemon_step_lock:
  assumes "daemon_step env factory cfg i s t"
    and "active (pr_phase (snd s)) \<longleftrightarrow> fst s (cfg_LockPath cfg) = Some i"
  shows "(active (pr_phase (snd t)) \<longleftrightarrow> fst t (cfg_LockPath cfg) = Some i)
    \<and> (\<forall>q j. j \<noteq> i \<longrightarrow> (fst t q = Some j \<longleftrightarrow> fst s q = Some j))"
  using assms by cases (auto simp: acquireLock_def Release_def active_def split: if_splits)

lemma with_world_phase [simp]: "pr_phase (with_world w p) = pr_phase p"
  by (simp add: with_world_def)

lemma system_reach_lock:
  assumes "system_reach env factory cfg s t" and "lock_inv cfg s"
  shows "lock_inv cfg t"
  using assms
proof (induction rule: system_reach.induct)
  case (sys_step s t i l p)
  have inv: "lock_inv cfg t" by (rule sys_step.IH [OF sys_step.prems])
  have own: "active (pr_phase (with_world (sy_world t) (sy_procs t i))) \<longleftrightarrow> sy_locks t (cfg_LockPath (cfg i)) = Some i"
    using inv by (simp add: lock_inv_def)
  note st = daemon_step_lock [OF sys_step.hyps(2), unfolded fst_conv snd_conv, OF own]
  show ?case unfolding lock_inv_def
  proof (intro allI)
    fix j
    show "active (pr_phase (sy_procs \<lparr>sy_locks = l, sy_world = ag_sys (dm_agent (pr_dm p)), sy_procs = (sy_procs t)(i := p)\<rparr> j))
      \<longleftrightarrow> sy_locks \<lparr>sy_locks = l, sy_world = ag_sys (dm_agent (pr_dm p)), sy_procs = (sy_procs t)(i := p)\<rparr> (cfg_LockPath (cfg j)) = Some j"
      using st inv by (cases "j = i") (auto simp: lock_inv_def)
  qed
qed simp

lemma daemon_step_inactive:
  assumes "daemon_step env factory cfg i s u" and "\<not> active (pr_phase (snd s))" and "fst s (cfg_LockPath cfg) \<noteq> None"
  shows "\<not> active (pr_phase (snd u))"
  using assms by cases (auto simp: acquireLock_def active_def split: if_splits)

text \<open>C10: of any number of daemons started on one router, at most one with a given lock path is between taking
  the lock and ending at any moment, whatever the order of their steps: while one is, no other is, nor
  does any step of another bring it there, so no two run a cycle at once.\<close>

theorem one_daemon_per_lock:
  assumes "system_reach env factory cfg s t"
    and "sy_locks s = (\<lambda>_. None)" and "\<And>k. pr_phase (sy_procs s k) = Starting"
    and "cfg_LockPath (cfg i) = cfg_LockPath (cfg j)" and "i \<noteq> j" and "active (pr_phase (sy_procs t j))"
  shows "\<not> active (pr_phase (sy_procs t i))
    \<and> (\<forall>w u. daemon_step (env i) (factory i) (cfg i) i (sy_locks t, with_world w (sy_procs t i)) u
        \<longrightarrow> \<not> active (pr_phase (snd u)))"
proof -
  have "lock_inv cfg s" using assms(2, 3) by (simp add: lock_inv_def active_def)
  then have inv: "lock_inv cfg t" by (rule system_reach_lock [OF assms(1)])
  then have held: "sy_locks t (cfg_LockPath (cfg i)) = Some j" using assms(4, 6) by (simp add: lock_inv_def)
  then have out: "\<not> active (pr_phase (sy_procs t i))" using inv assms(5) by (simp add: lock_inv_def)
  then show ?thesis
    using daemon_step_inactive [of "env i" "factory i" "cfg i" i "(sy_locks t, with_world w (sy_procs t i))" for w] held
    by simp
qed

definition ex_system :: "(unit, Request list) System" where
  "ex_system = \<lparr>sy_locks = (\<lambda>_. None), sy_world = ag_sys ex_agent, sy_procs = (\<lambda>_. fresh_proc ex_agent)\<rparr>"

theorem one_daemon_per_lock_witness:
  "\<exists>t. system_reach (\<lambda>_. ex_env) (\<lambda>_ _ _. True) (\<lambda>_. ex_cfg) ex_system t
     \<and> active (pr_phase (sy_procs t 1)) \<and> \<not> active (pr_phase (sy_procs t 2))"
proof -
  let ?d = "pr_dm (fresh_proc ex_agent)"
  let ?p = "\<lparr>pr_phase = Holding, pr_dm = ?d\<rparr>"
  let ?t = "\<lparr>sy_locks = [''/lock'' \<mapsto> 1], sy_world = ag_sys (dm_agent (pr_dm ?p)), sy_procs = (sy_procs ex_system)(1 := ?p)\<rparr>"
  have "daemon_step ex_env (\<lambda>_ _. True) ex_cfg 1 (\<lambda>_. None, \<lparr>pr_phase = Starting, pr_dm = ?d\<rparr>) ([''/lock'' \<mapsto> 1], ?p)"
    by (rule locked [of True True]) (simp add: acquireLock_def ex_cfg_sel)
  moreover have "with_world (sy_world ex_system) (sy_procs ex_system 1) = \<lparr>pr_phase = Starting, pr_dm = ?d\<rparr>"
    by (simp add: ex_system_def with_world_def fresh_proc_def)
  moreover have "sy_locks ex_system = (\<lambda>_. None)" by (simp add: ex_system_def)
  ultimately have "daemon_step ex_env (\<lambda>_ _. True) ex_cfg 1 (sy_locks ex_system, with_world (sy_world ex_system) (sy_procs ex_system 1))
      ([''/lock'' \<mapsto> 1], ?p)" by simp
  from sys_step [OF sys_start, where env = "\<lambda>_. ex_env" and factory = "\<lambda>_ _ _. True" and cfg = "\<lambda>_. ex_cfg" and i = 1, OF this]
  have r: "system_reach (\<lambda>_. ex_env) (\<lambda>_ _ _. True) (\<lambda>_. ex_cfg) ex_system ?t" .
  have "active (pr_phase (sy_procs ?t 1))" by (simp add: active_def)
  moreover have "\<not> active (pr_phase (sy_procs ?t 2))"
    using one_daemon_per_lock [OF r, of 2 1] calculation by (simp add: ex_system_def fresh_proc_def)
  ultimately show ?thesis using r by blast
qed

end
