(* ===== verification/Daemon_Runs.thy ===== *)
theory Daemon_Runs
  imports Daemon_Props
begin

text \<open>
  Runs: the one-shot run's exit code and what it leaves, and a daemon whose first cycle fails.
\<close>

section \<open>One shot\<close>

lemma alive_append:
  "alive (s\<lparr>ap_calls := c, ap_status := ap_status s @ [AppRunning]\<rparr>) j \<longleftrightarrow> alive s j \<or> j = length (ap_status s)"
  "alive (s\<lparr>ap_calls := c\<rparr>) j = alive s j"
  by (auto simp: alive_def nth_append)

lemma alive_start_stop:
  assumes "startEmbedded factory opts s = (r, s')"
  shows "case r of Inl _ \<Rightarrow> \<forall>j. alive s' j = alive s j | Inr i \<Rightarrow> \<forall>j. alive (stop_app i s') j = alive s j"
  using assms by (auto simp: startEmbedded_def alive_stop_app alive_append split: if_splits) (simp add: alive_def)

definition oneshot_exit :: "('r, 'h) AEnv \<Rightarrow> appFactory \<Rightarrow> bool \<Rightarrow> Config \<Rightarrow> ('r, 'h) Daemon \<Rightarrow> int" where
  "oneshot_exit env factory run_ok cfg dm =
     (case fst (runFetchApply env cfg True (dm_agent dm)) of Inl _ \<Rightarrow> ExitError
      | Inr out \<Rightarrow> if fo_Applied out \<and> needsEmbeddedRun (fo_Diff out)
            \<and> \<not> (factory (sc_AppOptions (cfg_Stunmesh cfg)) (ap_calls (dm_apps dm)) \<and> run_ok)
          then ExitError else ExitOK)"

lemma oneshot_body_spec:
  "fst (oneshot_body env factory run_ok cfg dm) = oneshot_exit env factory run_ok cfg dm"
  "alive (dm_apps (snd (oneshot_body env factory run_ok cfg dm))) j = alive (dm_apps dm) j"
proof -
  obtain r a where r: "runFetchApply env cfg True (dm_agent dm) = (r, a)" by fastforce
  obtain st s where st: "startEmbedded factory (sc_AppOptions (cfg_Stunmesh cfg)) (dm_apps dm) = (st, s)" by fastforce
  have f: "factory (sc_AppOptions (cfg_Stunmesh cfg)) (ap_calls (dm_apps dm)) = (\<not> isl st)"
    using st by (auto simp: startEmbedded_def split: if_splits)
  note alive = alive_start_stop [OF st]
  have "fst (oneshot_body env factory run_ok cfg dm) = oneshot_exit env factory run_ok cfg dm
    \<and> alive (dm_apps (snd (oneshot_body env factory run_ok cfg dm))) j = alive (dm_apps dm) j"
  proof (cases r)
    case (Inl e)
    then show ?thesis using r by (simp add: oneshot_body_def oneshot_exit_def)
  next
    case (Inr out)
    show ?thesis
    proof (cases "fo_Applied out \<and> needsEmbeddedRun (fo_Diff out)")
      case True
      then show ?thesis using Inr r st f alive
        by (cases st; cases run_ok) (simp_all add: oneshot_body_def oneshot_exit_def Let_def)
    next
      case False
      then show ?thesis using Inr r by (auto simp: oneshot_body_def oneshot_exit_def Let_def)
    qed
  qed
  then show "fst (oneshot_body env factory run_ok cfg dm) = oneshot_exit env factory run_ok cfg dm"
    "alive (dm_apps (snd (oneshot_body env factory run_ok cfg dm))) j = alive (dm_apps dm) j" by simp_all
qed

text \<open>C35: a one-shot run gives the lock back and leaves no app alive whatever happens. It ends with 0 when
  another process holds the lock (and then does nothing), and when its full cycle gives no error and, if
  something was applied that the app needs to know, the app starts and runs without error; otherwise it
  ends with 1.\<close>

theorem runOneshot_exit:
  "case runOneshot env factory run_ok can_open can_lock pid cfg (l, dm) of (exit, l', dm') \<Rightarrow>
     l' = l \<and> alive (dm_apps dm') = alive (dm_apps dm)
     \<and> exit = (if \<not> can_open then ExitError else if l (cfg_LockPath cfg) \<noteq> None then ExitOK
          else if \<not> can_lock then ExitError else oneshot_exit env factory run_ok cfg dm)
     \<and> (if can_open \<and> l (cfg_LockPath cfg) = None \<and> can_lock then True else ag_sys (dm_agent dm') = ag_sys (dm_agent dm))"
proof (cases "can_open \<and> l (cfg_LockPath cfg) = None \<and> can_lock")
  case True
  obtain exit dm' where b: "oneshot_body env factory run_ok cfg dm = (exit, dm')" by fastforce
  have "exit = oneshot_exit env factory run_ok cfg dm" "alive (dm_apps dm') = alive (dm_apps dm)"
    using oneshot_body_spec [of env factory run_ok cfg dm] b by (simp_all add: fun_eq_iff)
  then show ?thesis using True b by (auto simp: runOneshot_def acquireLock_def Release_def fun_upd_idem)
qed (auto simp: runOneshot_def acquireLock_def lock_exit_def)

section \<open>A first cycle that fails\<close>

text \<open>A cycle that gives no difference: it fails, or finds nothing to apply.\<close>

definition no_diff :: "('r, 'h) AEnv \<Rightarrow> Config \<Rightarrow> ('r, 'h) Daemon \<Rightarrow> bool" where
  "no_diff env cfg dm = (case fst (runFetchApply env cfg False (dm_agent dm)) of Inl _ \<Rightarrow> True | Inr out \<Rightarrow> fo_Diff out = None)"

fun refreshes :: "nat \<Rightarrow> ('r, 'h) AEnv \<Rightarrow> appFactory \<Rightarrow> Config \<Rightarrow> ('r, 'h) Daemon \<Rightarrow> ('r, 'h) Daemon" where
  "refreshes 0 env factory cfg dm = dm"
| "refreshes (Suc n) env factory cfg dm = runCycle env factory cfg False False (refreshes n env factory cfg dm)"

lemma no_diff_keeps: "no_diff env cfg dm \<Longrightarrow> dm_embedded (runCycle env factory cfg False False dm) = dm_embedded dm"
  by (auto simp: no_diff_def runCycle_def reconcileEmbedded_def must_act_def split: prod.splits sum.splits)

text \<open>C36: the first cycle is the only one that starts the app for a text recorded earlier; when it fails (no
  proxy answers yet, say), the app is not started, and no later refresh that finds nothing to apply starts
  it, however many there are and although every proxy answers: not until the bundle changes or a full
  apply is due.\<close>

theorem failed_first_cycle_no_app:
  assumes "fst (runFetchApply env cfg False (dm_agent dm)) = Inl e" and "dm_embedded dm = None"
    and "\<And>k. k < n \<Longrightarrow> no_diff env cfg (refreshes k env factory cfg (runCycle env factory cfg False True dm))"
  shows "dm_embedded (refreshes n env factory cfg (runCycle env factory cfg False True dm)) = None"
  using assms(3)
proof (induction n)
  case 0
  show ?case using assms(1, 2) by (auto simp: runCycle_def split: prod.splits)
next
  case (Suc n)
  have "dm_embedded (refreshes n env factory cfg (runCycle env factory cfg False True dm)) = None"
    by (rule Suc.IH) (simp add: Suc.prems)
  then show ?case using no_diff_keeps [OF Suc.prems [of n]] by simp
qed

text \<open>A network that fails the first request and then answers.\<close>

definition ex_late :: "Request list transport" where
  "ex_late req lg = (if lg = [] then None else ex_answer req, lg @ [req])"

definition ex_late_env :: "(unit, Request list) AEnv" where
  "ex_late_env = ex_env\<lparr>e_http := ex_late\<rparr>"

lemma ex_late_sel: "e_w ex_late_env = 64" "e_http ex_late_env = ex_late" "e_open ex_late_env = ex_open" "e_runner ex_late_env = ex_run"
  "newBackend ex_late_env ex_cfg = newBackend ex_env ex_cfg"
  by (simp_all add: ex_late_env_def ex_env_sel newBackend_def)

lemma ex_late_found:
  "get_loop pu ex_late \<lparr>c_baseURLs = bs, c_maxValues = 64, c_maxLineSize = maxLineSize\<rparr> key errs emp [b] lg =
     (if lg = [] then get_end (errs @ [HostFailed (hostOf pu b)]) emp []
      else (\<lparr>br_Values = [ex_sealed], br_Skipped = 0, br_Dropped = 0, br_URL = b\<rparr>, None), lg @ [GetReq (b @ ''/'' @ key)])"
proof -
  have "parseValues \<lparr>c_baseURLs = bs, c_maxValues = 64, c_maxLineSize = maxLineSize\<rparr> (stored_body [ex_sealed], True) b
      = Some \<lparr>br_Values = [ex_sealed], br_Skipped = 0, br_Dropped = 0, br_URL = b\<rparr>"
    using parse_stored [of "\<lparr>c_baseURLs = bs, c_maxValues = 64, c_maxLineSize = maxLineSize\<rparr>" "[ex_sealed]" b] ex_payload_short
    by simp
  then show ?thesis
    by (simp add: ex_late_def ex_answer_def get_end_def map_filter_simps split: option.split)
qed

lemma ex_late_fetch:
  assumes "fs_files (w_fs (ag_sys a)) ex_id = Some \<lparr>f_data = Key_String ex_key, f_mode = 384\<rparr>" and "fs_faults (w_fs (ag_sys a)) = []"
  shows "\<exists>e a'. fetch_bundle ex_late_env ex_cfg a = (if ag_net a = [] then Inl e else Inr (Some ex_empty), a')
    \<and> same_sys (ag_sys a) (ag_sys a') \<and> ag_net a' \<noteq> []"
proof -
  obtain k where k: "dht_Key ''ns'' ''alpha'' = Inr k" "isHexKey k" by (rule ex_dht_key)
  obtain f where r: "loadIdentityKey ex_id (w_fs (ag_sys a)) = (Inr ex_key, f)"
    using loadIdentityKey_again [OF assms(1) _ assms(2)] ex_key_parses by auto
  obtain y a' where fb: "fetch_bundle ex_late_env ex_cfg a = (y, a')" by fastforce
  let ?e = "FGet (GAllFailed [HostFailed (hostOf (e_url ex_late_env) (trim_slash ''https://proxy''))])"
  have "y = (if ag_net a = [] then Inl ?e else Inr (Some ex_empty)) \<and> ag_net a' \<noteq> []"
    using fb k(2)
    by (auto simp: fetch_bundle_def andThen_def wrap_def on_fs_def ex_cfg_sel ex_late_sel r ex_key_parses of_sum_def ret_def k(1)
        ex_client get_values_def proxy_Get_def Get_def ex_late_found get_end_def map_filter_simps fail_with_def only_if_def
        select_value_def ex_select simp del: get_loop.simps split: if_splits)
  then show ?thesis using fb fetch_bundle_sys [OF fb] by (intro exI [of _ ?e] exI [of _ a']) simp
qed

text \<open>A node whose last.json records the bundle, as its first apply left it, started again.\<close>

lemma ex_restart:
  obtains a :: "(unit, Request list) Agent" and st where "fs_files (w_fs (ag_sys a)) ex_id = Some \<lparr>f_data = Key_String ex_key, f_mode = 384\<rparr>"
    "fs_faults (w_fs (ag_sys a)) = []" "ag_net a = []"
    "recorded_state 64 (fs_files (w_fs (ag_sys a))) ex_path = Inr st" "sameContent st ex_empty = Inr True" "st_Stunmesh st = ''x''"
proof (rule ex_first_cycle)
  fix a1 d
  assume run: "runFetchApply ex_env ex_cfg False ex_agent = (Inr \<lparr>fo_Applied = True, fo_Diff = Some d\<rparr>, a1)"
    and nf: "fs_faults (w_fs (ag_sys a1)) = []"
  have paths: "paths_ok (write_path ex_cfg) (cfg_LastPath ex_cfg)" by (simp add: ex_cfg_sel ex_paths_ok)
  have "last_ok (e_w ex_env) (fs_files (w_fs (ag_sys ex_agent))) (cfg_LastPath ex_cfg)" "e_w ex_env \<in> {32, 64}"
    by (simp_all add: ex_last_ok ex_env_sel ex_cfg_sel)
  from cycle_recorded [where d = d, OF run _ this(2) paths this(1)] obtain b st where
    b: "authentic ex_env ex_cfg ex_agent b" "recorded_state 64 (fs_files (w_fs (ag_sys a1))) ex_path = Inr st"
      "sameContent st b = Inr True" "st_Stunmesh st = of_opt (b_Stunmesh b)"
    unfolding ex_env_sel ex_cfg_sel fetchOutcome.select_convs by blast
  have "b = ex_empty"
    using b(1) ex_parses by (auto simp: authentic_def ex_env_sel Open_def ex_open_def split: if_splits)
  moreover have "fs_files (w_fs (ag_sys a1)) ex_id = Some \<lparr>f_data = Key_String ex_key, f_mode = 384\<rparr>"
    using cycle_other [OF run paths, of ex_id] ex_not_written by (simp add: ex_cfg_sel ex_agent_def)
  ultimately show ?thesis using that [of "a1\<lparr>ag_net := []\<rparr>" st] nf b(2-4) by (simp add: ex_empty_def of_opt_def)
qed

theorem failed_first_cycle_no_app_witness:
  "\<exists>dm. recorded_text ex_late_env ex_cfg (dm_agent dm) = Some ''x'' \<and> dm_embedded dm = None
     \<and> fst (runFetchApply ex_late_env ex_cfg False (dm_agent (runCycle ex_late_env (\<lambda>_ _. True) ex_cfg False True dm))) = Inr no_outcome
     \<and> dm_embedded (refreshes 1 ex_late_env (\<lambda>_ _. True) ex_cfg (runCycle ex_late_env (\<lambda>_ _. True) ex_cfg False True dm)) = None"
proof (rule ex_restart)
  fix a :: "(unit, Request list) Agent" and st
  assume a: "fs_files (w_fs (ag_sys a)) ex_id = Some \<lparr>f_data = Key_String ex_key, f_mode = 384\<rparr>"
    "fs_faults (w_fs (ag_sys a)) = []" "ag_net a = []"
    "recorded_state 64 (fs_files (w_fs (ag_sys a))) ex_path = Inr st" "sameContent st ex_empty = Inr True" "st_Stunmesh st = ''x''"
  let ?dm = "\<lparr>dm_agent = a, dm_apps = \<lparr>ap_calls = 0, ap_status = []\<rparr>, dm_embedded = None\<rparr>"
  let ?dm1 = "runCycle ex_late_env (\<lambda>_ _. True) ex_cfg False True ?dm"
  obtain e a1 where a1: "fetch_bundle ex_late_env ex_cfg a = (Inl e, a1)" "same_sys (ag_sys a) (ag_sys a1)" "ag_net a1 \<noteq> []"
    using ex_late_fetch [OF a(1, 2)] a(3) by auto
  have first: "runFetchApply ex_late_env ex_cfg False a = (Inl e, a1)" using a1(1) by (simp add: runFetchApply_def andThen_def)
  let ?a = "dm_agent ?dm1"
  have d1: "ag_sys ?a = ag_sys a1" "ag_net ?a = ag_net a1" using first by (simp_all add: runCycle_def dm_say_def)
  have same: "fs_files (w_fs (ag_sys ?a)) = fs_files (w_fs (ag_sys a))" "fs_faults (w_fs (ag_sys ?a)) = []"
    using d1 a1(2) a(2) by (simp_all add: same_sys_def)
  obtain a2 where a2: "fetch_bundle ex_late_env ex_cfg ?a = (Inr (Some ex_empty), a2)" "same_sys (ag_sys ?a) (ag_sys a2)"
    using ex_late_fetch [of ?a] same a(1) a1(3) d1(2) by auto
  have "recorded_state (e_w ex_late_env) (fs_files (w_fs (ag_sys a2))) (cfg_LastPath ex_cfg) = Inr st"
    "fs_faults (w_fs (ag_sys a2)) = []"
    using a2(2) same a(4) by (simp_all add: same_sys_def ex_late_sel ex_cfg_sel)
  then obtain a3 where "checkAndApply ex_late_env ex_cfg ex_empty False a2 = (Inr no_outcome, a3)"
    using checkAndApply_same [OF _ _ a(5)] by blast
  then have second: "fst (runFetchApply ex_late_env ex_cfg False ?a) = Inr no_outcome"
    using a2(1) by (simp add: runFetchApply_def andThen_def)
  have "recorded_text ex_late_env ex_cfg (dm_agent ?dm) = Some ''x''"
    using a(4, 6) by (simp add: recorded_text_def ex_late_sel ex_cfg_sel)
  moreover have "dm_embedded (refreshes 1 ex_late_env (\<lambda>_ _. True) ex_cfg ?dm1) = None"
    using failed_first_cycle_no_app [of ex_late_env ex_cfg ?dm e 1 "\<lambda>_ _. True"] first second
    by (simp add: no_diff_def no_outcome_def)
  ultimately show ?thesis using second by (intro exI [of _ ?dm]) simp
qed

end
