(* ===== verification/Keygen.thy ===== *)
theory Keygen
  imports Last Select AgentConfig
begin

text \<open>
  cmd/stunmesh-agent/keygen_cmd.go: the keygen subcommand. An existing identity key is reused
  and its mode tightened; a new one is written to a temporary file and linked into place.
  Proved: the key file never holds anything but its old content or the complete new key, and
  keygen run again answers with the same public key.
\<close>

section \<open>The program\<close>

datatype kgerr = KGRead | KGInvalid | KGChmod | KGGenerate | KGMkdir | KGFile werr | KGExists | KGLink

definition identityKeyMode :: nat where
  "identityKeyMode = 384"

text \<open>os.MkdirAll: directories are not part of the files; it may fail.\<close>

definition os_MkdirAll :: "string \<Rightarrow> nat \<Rightarrow> (fs, oserr, unit) step" where
  "os_MkdirAll dir mode s = syscall OSErr (\<lambda>_. fs_files s) (fs_files s) () s"

definition link_key :: "string \<Rightarrow> string \<Rightarrow> (fs, kgerr, unit) step" where
  "link_key tmp path = wrap (\<lambda>e. if e = Exist then KGExists else KGLink) (os_Link tmp path)"

text \<open>The temporary file is removed on every return after its creation.\<close>

definition writeIdentityKeyAtomic :: "string \<Rightarrow> Key \<Rightarrow> (fs, kgerr, unit) step" where
  "writeIdentityKeyAtomic path priv s =
     (case os_MkdirAll (filepath_Dir path) 493 s of (Inl _, s1) \<Rightarrow> (Inl KGMkdir, s1)
      | (Inr _, s1) \<Rightarrow> (case os_CreateTemp (filepath_Dir path) ''.identity.key.tmp-'' s1 of
          (Inl _, s2) \<Rightarrow> (Inl (KGFile WCreate), s2)
        | (Inr tmp, s2) \<Rightarrow>
            (let (r, s3) = andThen (wrap KGFile (fill tmp (Key_String priv @ [newline]))) (\<lambda>_. link_key tmp path) s2
             in (r, snd (os_Remove tmp s3)))))"

text \<open>\<open>generate\<close> and \<open>rand\<close>: box.GenerateKey and the random source it reads.\<close>

definition loadOrCreateIdentityKey :: "('r \<Rightarrow> (Key \<times> Key) option) \<Rightarrow> 'r \<Rightarrow> string \<Rightarrow> (fs, kgerr, Key) step" where
  "loadOrCreateIdentityKey generate rand path s =
     (case os_ReadFile path s of
        (Inr data, s1) \<Rightarrow>
          (case ParseKey data of Inl _ \<Rightarrow> (Inl KGInvalid, s1)
           | Inr key \<Rightarrow>
               (case os_Chmod path identityKeyMode s1 of (Inl _, s2) \<Rightarrow> (Inl KGChmod, s2)
                | (Inr _, s2) \<Rightarrow> (Inr key, s2)))
      | (Inl NotExist, s1) \<Rightarrow>
          (case Keygen generate rand of None \<Rightarrow> (Inl KGGenerate, s1)
           | Some (priv, _) \<Rightarrow>
               (case writeIdentityKeyAtomic path priv s1 of (Inl e, s2) \<Rightarrow> (Inl e, s2)
                | (Inr _, s2) \<Rightarrow> (Inr priv, s2)))
      | (Inl _, s1) \<Rightarrow> (Inl KGRead, s1))"

text \<open>How keygen ends: with an exit code and what it printed, or with the panic of Public.\<close>

datatype kgend = KGExit int string | KGPanic

definition doKeygen :: "(Key \<Rightarrow> Key option) \<Rightarrow> ('r \<Rightarrow> (Key \<times> Key) option) \<Rightarrow> 'r \<Rightarrow> string \<Rightarrow> fs \<Rightarrow> kgend \<times> fs" where
  "doKeygen x25519_base generate rand path s =
     (case loadOrCreateIdentityKey generate rand path s of
        (Inl _, s') \<Rightarrow> (KGExit 1 [], s')
      | (Inr priv, s') \<Rightarrow>
          (case Public x25519_base priv of None \<Rightarrow> (KGPanic, s')
           | Some pub \<Rightarrow> (KGExit 0 (Key_String pub @ [newline]), s')))"

text \<open>What package flag makes of keygen's arguments: help, an error, or the directory and the rest.\<close>

datatype kgargs = KGHelp | KGBad | KGArgs string "string list"

definition runKeygen :: "(Key \<Rightarrow> Key option) \<Rightarrow> ('r \<Rightarrow> (Key \<times> Key) option) \<Rightarrow> 'r \<Rightarrow> kgargs \<Rightarrow> fs \<Rightarrow> kgend \<times> fs" where
  "runKeygen x25519_base generate rand args s =
     (case args of KGHelp \<Rightarrow> (KGExit 0 [], s)
      | KGBad \<Rightarrow> (KGExit 1 [], s)
      | KGArgs configDir rest \<Rightarrow>
          if rest \<noteq> [] then (KGExit 1 [], s)
          else if configDir = [] then (KGExit 1 [], s)
          else doKeygen x25519_base generate rand (filepath_Join configDir ''identity.key'') s)"

section \<open>Lemmas\<close>

text \<open>Steps that leave the file at \<open>path\<close> absent, or put the complete \<open>new\<close> file there.\<close>

definition creates :: "string \<Rightarrow> File \<Rightarrow> fs \<Rightarrow> 'e + unit \<Rightarrow> fs \<Rightarrow> bool" where
  "creates path new s r s' =
     ((r = Inr () \<longrightarrow> fs_files s path = None \<and> fs_files s' path = Some new)
      \<and> (\<forall>e. r = Inl e \<longrightarrow> fs_files s' path = fs_files s path)
      \<and> (\<forall>f \<in> set (fs_hist s'). f \<in> set (fs_hist s) \<or> f path = fs_files s path
           \<or> (fs_files s path = None \<and> f path = Some new)))"

lemma creates_only: "only tmp s s' \<Longrightarrow> tmp \<noteq> path \<Longrightarrow> creates path new s (Inl e) s'"
  unfolding only_def creates_def by fastforce

lemma creates_before: "only tmp s s1 \<Longrightarrow> tmp \<noteq> path \<Longrightarrow> creates path new s1 r s2 \<Longrightarrow> creates path new s r s2"
  unfolding only_def creates_def by (metis (no_types, lifting))

lemma creates_after:
  assumes "creates path new s r s1" and "only tmp s1 s2" and "tmp \<noteq> path"
  shows "creates path new s r s2"
proof -
  have same: "fs_files s2 path = fs_files s1 path" using assms(2, 3) by (simp add: only_def)
  have "fs_files s1 path = fs_files s path \<or> (fs_files s path = None \<and> fs_files s1 path = Some new)"
    using assms(1) by (cases r) (simp_all add: creates_def)
  moreover have "f \<in> set (fs_hist s1) \<or> f path = fs_files s1 path" if "f \<in> set (fs_hist s2)" for f
    using that assms(2, 3) unfolding only_def by auto
  ultimately have "\<forall>f \<in> set (fs_hist s2). f \<in> set (fs_hist s) \<or> f path = fs_files s path
      \<or> (fs_files s path = None \<and> f path = Some new)"
    using assms(1) unfolding creates_def by metis
  then show ?thesis using assms(1) same unfolding creates_def by simp
qed

lemma link_key_creates:
  assumes "link_key tmp path s = (r, s')" and "fs_files s tmp = Some new"
  shows "creates path new s r s'"
proof (cases "fs_files s path")
  case None
  obtain r0 s0 where 0: "os_Link tmp path s = (r0, s0)" by fastforce
  then have "syscall OSErr (\<lambda>_. fs_files s) ((fs_files s)(path := Some new)) () s = (r0, s0)"
    using assms(2) None by (simp add: os_Link_def)
  then show ?thesis
    by (rule syscall_cases)
      (use assms(1) 0 None in \<open>auto simp: link_key_def wrap_def creates_def split: if_splits\<close>)
next
  case (Some f)
  then show ?thesis using assms by (auto simp: link_key_def wrap_def os_Link_def creates_def)
qed

lemma os_MkdirAll_only: "os_MkdirAll dir mode s = (r, s') \<Longrightarrow> only tmp s s'"
  unfolding os_MkdirAll_def by (erule only_syscall) simp_all

lemma writeIdentityKeyAtomic_creates:
  assumes "writeIdentityKeyAtomic path priv s = (r, s')" and "not_temp ''.identity.key.tmp-'' path"
  shows "creates path (new_file (Key_String priv @ [newline])) s r s'"
proof -
  let ?new = "new_file (Key_String priv @ [newline])"
  note w = assms(1) [unfolded writeIdentityKeyAtomic_def]
  obtain r1 s1 where 1: "os_MkdirAll (filepath_Dir path) 493 s = (r1, s1)" by fastforce
  obtain r2 s2 where 2: "os_CreateTemp (filepath_Dir path) ''.identity.key.tmp-'' s1 = (r2, s2)" by fastforce
  note on1 = os_MkdirAll_only [OF 1]
  have other: "path @ ''x'' \<noteq> path" by simp
  show ?thesis
  proof (cases r1)
    case (Inl e)
    then show ?thesis using w 1 creates_only [OF on1 other] by auto
  next
    case r1: (Inr u)
    from 2 show ?thesis
    proof (rule CreateTemp_cases [where tmp = "path @ ''x''"])
      fix e assume "r2 = Inl e" and "only (path @ ''x'') s1 s2"
      then show ?thesis using w 1 2 r1 creates_only [OF only_trans [OF on1] other] by auto
    next
      fix tmp
      assume r2: "r2 = Inr tmp" and p: "has_prefix tmp (temp_base (filepath_Dir path) ''.identity.key.tmp-'')"
        and f2: "fs_files s2 = (fs_files s1)(tmp \<mapsto> new_file [])" and h2: "fs_hist s2 = fs_hist s1 @ [fs_files s2]"
      have ne: "tmp \<noteq> path" using p assms(2) by (auto simp: not_temp_def)
      have on2: "only tmp s s2" by (rule only_trans [OF os_MkdirAll_only [OF 1]]) (use f2 h2 in \<open>auto simp: only_def\<close>)
      obtain r3 s3 where 3: "fill tmp (Key_String priv @ [newline]) s2 = (r3, s3)" by fastforce
      have t: "fs_files s2 tmp = Some (new_file [])" using f2 by simp
      from 3 t show ?thesis
      proof (rule fill_cases)
        fix e assume r3: "r3 = Inl e" and on3: "only tmp s2 s3"
        have "r = Inl (KGFile e)" "s' = snd (os_Remove tmp s3)"
          using w 1 2 3 r1 r2 r3 by (auto simp: andThen_def wrap_def)
        then show ?thesis using creates_only [OF only_trans [OF only_trans [OF on2 on3] only_Remove] ne] by simp
      next
        assume r3: "r3 = Inr ()" and on3: "only tmp s2 s3" and t3: "fs_files s3 tmp = Some ?new"
        obtain r4 s4 where 4: "link_key tmp path s3 = (r4, s4)" by fastforce
        have "r = r4" "s' = snd (os_Remove tmp s4)"
          using w 1 2 3 4 r1 r2 r3 by (auto simp: andThen_def wrap_def)
        then show ?thesis
          using creates_after [OF creates_before [OF only_trans [OF on2 on3] ne link_key_creates [OF 4 t3]] only_Remove ne]
          by simp
      qed
    qed
  qed
qed

section \<open>Properties\<close>

text \<open>The content of a file, whatever its mode.\<close>

definition content :: "(string \<Rightarrow> File option) \<Rightarrow> string \<Rightarrow> string option" where
  "content files path = map_option f_data (files path)"

lemma os_ReadFile_cases:
  assumes "os_ReadFile path s = (r, s')"
  obtains "r = Inl NotExist" "s' = s" "fs_files s path = None"
  | e where "r = Inl OSErr" "fs_files s' = fs_files s" "fs_hist s' = fs_hist s @ [fs_files s]"
  | f where "r = Inr (f_data f)" "fs_files s path = Some f" "fs_files s' = fs_files s" "fs_hist s' = fs_hist s @ [fs_files s]"
proof (cases "fs_files s path")
  case None
  then show ?thesis using assms that(1) by (simp add: os_ReadFile_def)
next
  case (Some f)
  then have "syscall OSErr (\<lambda>_. fs_files s) (fs_files s) (f_data f) s = (r, s')"
    using assms by (simp add: os_ReadFile_def)
  then show ?thesis by (rule syscall_cases) (use that Some in auto)
qed

text \<open>How the key file stands after the attempt to load or create the key.\<close>

definition key_kept :: "string \<Rightarrow> string option \<Rightarrow> fs \<Rightarrow> fs \<Rightarrow> bool" where
  "key_kept path data s s' =
     (\<forall>f \<in> set (fs_hist s') - set (fs_hist s) \<union> {fs_files s'}.
        content f path = content (fs_files s) path
        \<or> (fs_files s path = None \<and> (\<exists>d. data = Some d \<and> f path = Some (new_file d))))"

lemma key_kept_trans:
  "key_kept path data s s1 \<Longrightarrow> fs_files s1 path = fs_files s path \<Longrightarrow> key_kept path data s1 s2 \<Longrightarrow> key_kept path data s s2"
  unfolding key_kept_def content_def by (auto; metis)

lemma key_kept_creates: "creates path (new_file d) s r s' \<Longrightarrow> key_kept path (Some d) s s'"
  by (cases r) (fastforce simp: creates_def key_kept_def content_def)+

definition new_text :: "(Key \<times> Key) option \<Rightarrow> string option" where
  "new_text made = map_option (\<lambda>(pub, priv). Key_String priv @ [newline]) made"

definition key_length :: "('r \<Rightarrow> (Key \<times> Key) option) \<Rightarrow> bool" where
  "key_length generate = (\<forall>r pub priv. generate r = Some (pub, priv) \<longrightarrow> length priv = 32)"

text \<open>The key file of mode 0600 with the text of a key.\<close>

definition key_file :: "string \<Rightarrow> Key \<Rightarrow> fs \<Rightarrow> bool" where
  "key_file path k s = (\<exists>f. fs_files s path = Some f \<and> f_mode f = 384 \<and> ParseKey (f_data f) = Inr k)"

lemma os_Chmod_cases:
  assumes "os_Chmod path m s = (r, s')"
  shows "key_kept path data s s'"
    and "r = Inr u \<Longrightarrow> fs_files s' path = map_option (f_mode_update (\<lambda>_. m)) (fs_files s path)"
  by (rule syscall_cases [OF assms [unfolded os_Chmod_def]];
      auto simp: key_kept_def content_def option.map_comp comp_def)+

lemma key_kept_same: "fs_files s' = fs_files s \<Longrightarrow> fs_hist s' = fs_hist s @ [fs_files s] \<Longrightarrow> key_kept path data s s'"
  by (auto simp: key_kept_def)

lemma load_kept:
  assumes "loadOrCreateIdentityKey generate rand path s = (r, s')" and "not_temp ''.identity.key.tmp-'' path"
  shows "key_kept path (new_text (generate rand)) s s'
    \<and> (key_length generate \<longrightarrow> (\<forall>k. r = Inr k \<longrightarrow> key_file path k s'))"
proof -
  note l = assms(1) [unfolded loadOrCreateIdentityKey_def]
  obtain r1 s1 where 1: "os_ReadFile path s = (r1, s1)" by fastforce
  from 1 show ?thesis
  proof (rule os_ReadFile_cases)
    assume "r1 = Inl NotExist" and "s1 = s" and none: "fs_files s path = None"
    then have l': "(case Keygen generate rand of None \<Rightarrow> (Inl KGGenerate, s)
       | Some (priv, _) \<Rightarrow> (case writeIdentityKeyAtomic path priv s of (Inl e, s2) \<Rightarrow> (Inl e, s2)
            | (Inr _, s2) \<Rightarrow> (Inr priv, s2))) = (r, s')" using l 1 by simp
    show ?thesis
    proof (cases "generate rand")
      case None
      then show ?thesis using l' by (auto simp: Keygen_def key_kept_def)
    next
      case (Some pp)
      then obtain pub priv where g: "generate rand = Some (pub, priv)" by (cases pp) auto
      obtain r2 s2 where 2: "writeIdentityKeyAtomic path priv s = (r2, s2)" by fastforce
      have c: "creates path (new_file (Key_String priv @ [newline])) s r2 s2"
        by (rule writeIdentityKeyAtomic_creates [OF 2 assms(2)])
      have "key_length generate \<Longrightarrow> ParseKey (Key_String priv @ [newline]) = Inr priv"
        using ParseKey_encoded [of priv "[]" "[newline]"] g by (auto simp: key_length_def ascii_space_def)
      then show ?thesis
        using l' g 2 c key_kept_creates [OF c]
        by (cases r2) (auto simp: Keygen_def new_text_def key_file_def creates_def new_file_def)
    qed
  next
    fix e assume "r1 = Inl OSErr" and "fs_files s1 = fs_files s" and "fs_hist s1 = fs_hist s @ [fs_files s]"
    then show ?thesis using l 1 key_kept_same by auto
  next
    fix f
    assume r1: "r1 = Inr (f_data f)" and f: "fs_files s path = Some f" and same: "fs_files s1 = fs_files s"
      and h: "fs_hist s1 = fs_hist s @ [fs_files s]"
    have k1: "key_kept path d s s1" for d using same h by (rule key_kept_same)
    show ?thesis
    proof (cases "ParseKey (f_data f)")
      case (Inl e)
      then show ?thesis using l 1 r1 k1 by auto
    next
      case (Inr k)
      obtain r2 s2 where 2: "os_Chmod path identityKeyMode s1 = (r2, s2)" by fastforce
      have "key_kept path (new_text (generate rand)) s s2"
        by (rule key_kept_trans [OF k1 _ os_Chmod_cases(1) [OF 2]]) (simp add: same)
      then show ?thesis
        using l 1 r1 Inr 2 os_Chmod_cases(2) [OF 2] f same
        by (cases r2) (auto simp: key_file_def identityKeyMode_def)
    qed
  qed
qed

text \<open>C27: keygen never destroys an identity. Whatever fails or is cut short, at every moment of a run
  the key file has its old content, or, if there was none, is absent or the complete new key with mode
  0600; and exit status 0 means the file is there with mode 0600 and holds the key whose public key was
  printed.\<close>

theorem keygen_keeps_key:
  assumes "doKeygen x25519_base generate rand path s = (e, s')" and "not_temp ''.identity.key.tmp-'' path"
    and "key_length generate"
  shows "(\<forall>f \<in> set (fs_hist s') - set (fs_hist s) \<union> {fs_files s'}.
        content f path = content (fs_files s) path
        \<or> (fs_files s path = None \<and> (\<exists>pub priv. generate rand = Some (pub, priv)
            \<and> f path = Some (new_file (Key_String priv @ [newline])))))
    \<and> (\<forall>out. e = KGExit 0 out \<longrightarrow> (\<exists>k pub. key_file path k s' \<and> x25519_base k = Some pub
         \<and> out = Key_String pub @ [newline]))"
proof -
  obtain r s1 where 1: "loadOrCreateIdentityKey generate rand path s = (r, s1)" by fastforce
  note l = load_kept [OF 1 assms(2)]
  have s1: "s1 = s'" using assms(1) 1 by (auto simp: doKeygen_def split: sum.splits option.splits)
  have "\<exists>k pub. r = Inr k \<and> x25519_base k = Some pub \<and> out = Key_String pub @ [newline]"
    if "e = KGExit 0 out" for out
    using assms(1) 1 that by (auto simp: doKeygen_def Public_def split: sum.splits option.splits)
  then show ?thesis
    using l assms(3) unfolding s1 key_kept_def new_text_def by (fastforce split: prod.splits)
qed

text \<open>Reading and loading the key again, when no call fails.\<close>

lemma load_again:
  assumes "key_file path k s" and "fs_faults s = []"
  shows "fst (loadOrCreateIdentityKey generate rand path s) = Inr k" and "fst (loadIdentityKey path s) = Inr k"
  using assms by (auto simp: key_file_def loadOrCreateIdentityKey_def os_ReadFile_def os_Chmod_def loadIdentityKey_def)

text \<open>Keygen run again keeps the node's identity: after a run that exited 0, another run, with
  whatever random source, prints the same public key again, and the agent loads the private key of that
  public key from the file.\<close>

theorem keygen_again:
  assumes "doKeygen x25519_base generate rand path s = (KGExit 0 out, s')"
    and "not_temp ''.identity.key.tmp-'' path" and "key_length generate" and "fs_faults s' = []"
  shows "fst (doKeygen x25519_base generate rand' path s') = KGExit 0 out
    \<and> (\<exists>k pub. fst (loadIdentityKey path s') = Inr k \<and> Public x25519_base k = Some pub
         \<and> out = Key_String pub @ [newline])"
proof -
  obtain k where 1: "loadOrCreateIdentityKey generate rand path s = (Inr k, s')"
    using assms(1) by (auto simp: doKeygen_def split: prod.splits sum.splits option.splits)
  obtain pub where pub: "Public x25519_base k = Some pub" "out = Key_String pub @ [newline]"
    using assms(1) 1 by (auto simp: doKeygen_def split: option.splits)
  have "key_file path k s'" using load_kept [OF 1 assms(2)] assms(3) by blast
  note again = load_again [OF this assms(4)]
  obtain s2 where "loadOrCreateIdentityKey generate rand' path s' = (Inr k, s2)"
    using again(1) [of generate rand'] by (metis prod.collapse)
  then show ?thesis using pub again(2) by (simp add: doKeygen_def)
qed

section \<open>A run\<close>

definition ex_generate :: "unit \<Rightarrow> (Key \<times> Key) option" where
  "ex_generate r = Some (replicate 32 (CHR ''P''), replicate 32 (CHR ''s''))"

definition ex_base :: "Key \<Rightarrow> Key option" where
  "ex_base k = Some (map (\<lambda>c. if c = CHR ''s'' then CHR ''P'' else c) k)"

text \<open>An existing key of mode 0644 with a blank after it.\<close>

definition ex_key_path :: string where
  "ex_key_path = ''/etc/stunmesh/agent/identity.key''"

definition ex_key_fs :: fs where
  "ex_key_fs = \<lparr>fs_files = (\<lambda>_. None)(ex_key_path \<mapsto>
       \<lparr>f_data = Key_String (replicate 32 (CHR ''s'')) @ '' '', f_mode = 420\<rparr>),
     fs_faults = [], fs_seed = 0, fs_hist = []\<rparr>"

lemma ex_key_path: "not_temp ''.identity.key.tmp-'' ex_key_path"
  by code_simp

lemma ex_key_length: "key_length ex_generate"
  by (simp add: key_length_def ex_generate_def)

lemma ex_keygen: "\<exists>s'. doKeygen ex_base ex_generate () ex_key_path ex_key_fs
    = (KGExit 0 (Key_String (replicate 32 (CHR ''P'')) @ [newline]), s') \<and> fs_faults s' = []"
  using ParseKey_encoded [of "replicate 32 (CHR ''s'')" "[]" "'' ''"]
  by (simp add: doKeygen_def loadOrCreateIdentityKey_def os_ReadFile_def ex_key_fs_def os_Chmod_def
      Public_def ex_base_def ascii_space_def)

theorem keygen_keeps_key_witness:
  "\<exists>s'. doKeygen ex_base ex_generate () ex_key_path ex_key_fs
      = (KGExit 0 (Key_String (replicate 32 (CHR ''P'')) @ [newline]), s')
    \<and> content (fs_files s') ex_key_path = Some (Key_String (replicate 32 (CHR ''s'')) @ '' '')"
proof -
  obtain s' where run: "doKeygen ex_base ex_generate () ex_key_path ex_key_fs
      = (KGExit 0 (Key_String (replicate 32 (CHR ''P'')) @ [newline]), s')" using ex_keygen by blast
  have "content (fs_files ex_key_fs) ex_key_path = Some (Key_String (replicate 32 (CHR ''s'')) @ '' '')"
    by (simp add: content_def ex_key_fs_def)
  then show ?thesis
    using run keygen_keeps_key [OF run ex_key_path ex_key_length] by (auto simp: ex_key_fs_def)
qed

theorem keygen_again_witness:
  "fst (doKeygen ex_base ex_generate () ex_key_path (snd (doKeygen ex_base ex_generate () ex_key_path ex_key_fs)))
     = KGExit 0 (Key_String (replicate 32 (CHR ''P'')) @ [newline])"
proof -
  obtain s' where "doKeygen ex_base ex_generate () ex_key_path ex_key_fs
      = (KGExit 0 (Key_String (replicate 32 (CHR ''P'')) @ [newline]), s')" "fs_faults s' = []"
    using ex_keygen by blast
  then show ?thesis using keygen_again [OF _ ex_key_path ex_key_length] by auto
qed

end
