(* ===== verification/NormalizeWG.thy ===== *)
theory NormalizeWG
  imports Decode_Type
begin

text \<open>
  cmd/stunmesh-provd/normalize_wg.go: the two fields of wg.yaml that may be spelled in several
  ways, with strconv.ParseUint modelled (base prefixes, underscores, range). Proved: every
  documented spelling of an fwmark gives its number, and only non-zero 32-bit numbers pass.
\<close>

section \<open>strconv.ParseUint\<close>

text \<open>\<open>c | ('x' - 'X')\<close>.\<close>

definition lower :: "char \<Rightarrow> char" where
  "lower c = (if 65 \<le> code c \<and> code c \<le> 90 then char_of (code c + 32) else c)"

definition uint_digit :: "char \<Rightarrow> nat option" where
  "uint_digit c =
     (if is_digit c then Some (digit_val c)
      else if 97 \<le> code (lower c) \<and> code (lower c) \<le> 122 then Some (code (lower c) - 97 + 10)
      else None)"

text \<open>The base and the digits of base 0: a prefix, or octal after a bare zero.\<close>

definition split_base :: "string \<Rightarrow> nat \<times> string" where
  "split_base s =
     (if s \<noteq> [] \<and> hd s = CHR ''0'' then
        (if 3 \<le> length s \<and> lower (s ! 1) = CHR ''b'' then (2, drop 2 s)
         else if 3 \<le> length s \<and> lower (s ! 1) = CHR ''o'' then (8, drop 2 s)
         else if 3 \<le> length s \<and> lower (s ! 1) = CHR ''x'' then (16, drop 2 s)
         else (8, tl s))
      else (10, s))"

text \<open>The digits; \<open>us\<close>: underscores are skipped (base 0). \<open>None\<close> is a syntax or a range error.\<close>

fun uint_loop :: "bool \<Rightarrow> nat \<Rightarrow> nat \<Rightarrow> nat \<Rightarrow> string \<Rightarrow> nat option" where
  "uint_loop us base max_val n [] = Some n"
| "uint_loop us base max_val n (c # cs) =
     (if c = CHR ''_'' \<and> us then uint_loop us base max_val n cs
      else (case uint_digit c of None \<Rightarrow> None
        | Some d \<Rightarrow> if base \<le> d then None
            else if max_val < n * base + d then None
            else uint_loop us base max_val (n * base + d) cs))"

text \<open>underscoreOK: underscores only between digits, the base prefix counting as a digit.\<close>

fun us_loop :: "bool \<Rightarrow> char \<Rightarrow> string \<Rightarrow> bool" where
  "us_loop hex saw [] = (saw \<noteq> CHR ''_'')"
| "us_loop hex saw (c # cs) =
     (if is_digit c \<or> (hex \<and> 97 \<le> code (lower c) \<and> code (lower c) \<le> 102) then us_loop hex (CHR ''0'') cs
      else if c = CHR ''_'' then (saw = CHR ''0'' \<and> us_loop hex (CHR ''_'') cs)
      else saw \<noteq> CHR ''_'' \<and> us_loop hex (CHR ''!'') cs)"

definition underscoreOK :: "string \<Rightarrow> bool" where
  "underscoreOK s0 =
     (let s = (if s0 \<noteq> [] \<and> hd s0 \<in> {CHR ''-'', CHR ''+''} then tl s0 else s0) in
      if 2 \<le> length s \<and> hd s = CHR ''0'' \<and> lower (s ! 1) \<in> {CHR ''b'', CHR ''o'', CHR ''x''}
      then us_loop (lower (s ! 1) = CHR ''x'') (CHR ''0'') (drop 2 s)
      else us_loop False (CHR ''^'') s)"

text \<open>ParseUint(s, 0, bits) and ParseUint(s, 10, bits).\<close>

definition ParseUint0 :: "nat \<Rightarrow> string \<Rightarrow> nat option" where
  "ParseUint0 bits s =
     (if s = [] then None
      else (case split_base s of (base, ds) \<Rightarrow>
        (case uint_loop True base (2 ^ bits - 1) 0 ds of None \<Rightarrow> None
         | Some n \<Rightarrow> if CHR ''_'' \<in> set ds \<and> \<not> underscoreOK s then None else Some n)))"

definition ParseUint10 :: "nat \<Rightarrow> string \<Rightarrow> nat option" where
  "ParseUint10 bits s = (if s = [] then None else uint_loop False 10 (2 ^ bits - 1) 0 s)"

section \<open>normalizeWG\<close>

datatype wgerr = WGDecode | WGFwmark string | WGRoutingTable string string

definition normalizeFwmark :: "json gomap \<Rightarrow> string \<Rightarrow> wgerr + json gomap" where
  "normalizeFwmark iface name =
     (case map_of iface ''fwmark'' of
        None \<Rightarrow> Inr iface
      | Some JNull \<Rightarrow> Inr iface
      | Some (JNum l) \<Rightarrow> Inr iface
      | Some (JStr t) \<Rightarrow>
          (if 2 \<le> length t \<and> hd t = CHR ''0'' \<and> is_digit (t ! 1) then Inl (WGFwmark name)
           else (case ParseUint0 32 t of None \<Rightarrow> Inl (WGFwmark name)
             | Some n \<Rightarrow> if n = 0 then Inl (WGFwmark name)
                 else Inr (AList.update ''fwmark'' (JNum (show_nat n)) iface)))
      | Some _ \<Rightarrow> Inl (WGFwmark name))"

text \<open>One of the fields ipv4 and ipv6.\<close>

definition norm_family :: "string \<Rightarrow> string \<Rightarrow> json gomap \<Rightarrow> wgerr + json gomap" where
  "norm_family name field rt =
     (case map_of rt field of
        None \<Rightarrow> Inr rt
      | Some JNull \<Rightarrow> Inr rt
      | Some (JStr t) \<Rightarrow> Inr rt
      | Some (JNum l) \<Rightarrow>
          (case ParseUint10 64 l of None \<Rightarrow> Inl (WGRoutingTable name field)
           | Some n \<Rightarrow> if n = 0 then Inl (WGRoutingTable name field)
               else Inr (AList.update field (JStr (show_nat n)) rt))
      | Some _ \<Rightarrow> Inl (WGRoutingTable name field))"

definition normalizeRoutingTable :: "json gomap \<Rightarrow> string \<Rightarrow> wgerr + json gomap" where
  "normalizeRoutingTable iface name =
     (case map_of iface ''routing_table'' of
        Some (JObj rt) \<Rightarrow>
          bindE (norm_family name ''ipv4'' rt) (\<lambda>rt1.
          bindE (norm_family name ''ipv6'' rt1) (\<lambda>rt2.
            Inr (AList.update ''routing_table'' (JObj rt2) iface)))
      | _ \<Rightarrow> Inr iface)"

text \<open>The loop over the interfaces, in the order the map is walked; a value that is not an object is kept.\<close>

definition norm_entry :: "string \<Rightarrow> json \<Rightarrow> wgerr + json" where
  "norm_entry name v =
     (case v of JObj iface \<Rightarrow>
        bindE (normalizeFwmark iface name) (\<lambda>i. bindE (normalizeRoutingTable i name) (\<lambda>i'. Inr (JObj i')))
      | _ \<Rightarrow> Inr v)"

fun norm_ifaces :: "json gomap \<Rightarrow> wgerr + json gomap" where
  "norm_ifaces [] = Inr []"
| "norm_ifaces ((name, v) # r) =
     bindE (norm_entry name v) (\<lambda>v'. bindE (norm_ifaces r) (\<lambda>r'. Inr ((name, v') # r')))"

definition normalizeWG :: "string \<Rightarrow> wgerr + string" where
  "normalizeWG wgJSON =
     (case decode_stream wgJSON of None \<Rightarrow> Inl WGDecode
      | Some (v, rest) \<Rightarrow>
          (case to_any v of
             JObj ifaces \<Rightarrow> bindE (norm_ifaces ifaces) (\<lambda>m. Inr (print_json (go_quote True) (sort_json (JObj m))))
           | _ \<Rightarrow> Inr wgJSON))"

section \<open>Spellings of a number\<close>

fun show_base :: "nat \<Rightarrow> nat \<Rightarrow> string" where
  "show_base b n = (if n < b \<or> b < 2 then [hexdig n] else show_base b (n div b) @ [hexdig (n mod b)])"

declare show_base.simps [simp del]

definition value_in :: "nat \<Rightarrow> string \<Rightarrow> nat" where
  "value_in b s = foldl (\<lambda>n c. n * b + the (uint_digit c)) 0 s"

definition digits_in :: "nat \<Rightarrow> string \<Rightarrow> bool" where
  "digits_in b s = list_all (\<lambda>c. case uint_digit c of None \<Rightarrow> False | Some d \<Rightarrow> d < b) s"

lemma uint_digit_hexdig: "n < 16 \<Longrightarrow> uint_digit (hexdig n) = Some n"
proof -
  assume "n < 16"
  then have "n \<in> {0, 1, 2, 3, 4, 5, 6, 7, 8, 9, 10, 11, 12, 13, 14, 15}"
    unfolding insert_iff empty_iff by presburger
  then show ?thesis by (auto simp: hexdig_def uint_digit_def is_digit_def digit_val_def lower_def)
qed

lemma digits_in_append: "digits_in b (s @ t) \<longleftrightarrow> digits_in b s \<and> digits_in b t"
  by (simp add: digits_in_def)

lemma value_in_snoc: "value_in b (s @ [c]) = value_in b s * b + the (uint_digit c)"
  by (simp add: value_in_def)

lemma show_base_spec:
  assumes "2 \<le> b" and "b \<le> 16"
  shows "digits_in b (show_base b n) \<and> value_in b (show_base b n) = n \<and> show_base b n \<noteq> []"
  using assms
proof (induction b n rule: show_base.induct)
  case (1 b n)
  show ?case
  proof (cases "n < b")
    case True
    then have "n < 16" using 1(3) by simp
    then show ?thesis using True by (simp add: show_base.simps [of b n] digits_in_def value_in_def uint_digit_hexdig)
  next
    case False
    have "uint_digit (hexdig (n mod b)) = Some (n mod b)"
      using 1(2, 3) mod_less_divisor [of b n] by (intro uint_digit_hexdig) linarith
    moreover have "n mod b < b" using 1(2) by simp
    ultimately show ?thesis using False 1
      by (simp add: show_base.simps [of b n] digits_in_append value_in_snoc digits_in_def)
  qed
qed

lemma uint_loop_digits:
  assumes "digits_in b ds" and "x \<le> m" and "0 < b"
  shows "uint_loop us b m x ds =
    (let v = foldl (\<lambda>n c. n * b + the (uint_digit c)) x ds in if v \<le> m then Some v else None)"
  using assms(1, 2)
proof (induction ds arbitrary: x)
  case Nil
  then show ?case by simp
next
  case (Cons c ds)
  let ?f = "\<lambda>n c. n * b + the (uint_digit c)"
  obtain d where d: "uint_digit c = Some d" "d < b"
    using Cons.prems(1) by (auto simp: digits_in_def split: option.splits)
  have c: "c \<noteq> CHR ''_''" using d by (auto simp: uint_digit_def is_digit_def lower_def)
  have mono: "y \<le> foldl ?f y ds" for y
  proof (induction ds arbitrary: y)
    case (Cons c ds)
    have "y \<le> y * b + the (uint_digit c)" using assms(3) by (simp add: trans_le_add1)
    also have "\<dots> \<le> foldl ?f (y * b + the (uint_digit c)) ds" by (rule Cons.IH)
    finally show ?case by simp
  qed simp
  show ?case
  proof (cases "x * b + d \<le> m")
    case True
    then show ?thesis using Cons d c by (simp add: digits_in_def)
  next
    case False
    then show ?thesis using d c mono [of "x * b + d"] by (simp add: Let_def)
  qed
qed

lemma uint_loop_show:
  assumes "2 \<le> b" and "b \<le> 16"
  shows "uint_loop us b m 0 (show_base b n) = (if n \<le> m then Some n else None)"
  using uint_loop_digits [of b "show_base b n" 0 m us] show_base_spec [OF assms, of n] assms
  by (simp add: value_in_def Let_def)

lemma no_underscore: "digits_in b s \<Longrightarrow> CHR ''_'' \<notin> set s"
  by (auto simp: digits_in_def list_all_iff uint_digit_def is_digit_def lower_def)

lemma digits_in_10: "list_all is_digit s \<Longrightarrow> digits_in 10 s"
proof -
  have "digit_val c < 10" if "is_digit c" for c using that by (auto simp: is_digit_def digit_val_def)
  then show "list_all is_digit s \<Longrightarrow> digits_in 10 s" by (auto simp: digits_in_def list_all_iff uint_digit_def)
qed

lemma value_in_10: "list_all is_digit s \<Longrightarrow> foldl (\<lambda>n c. n * 10 + the (uint_digit c)) x s = foldl (\<lambda>n c. 10 * n + digit_val c) x s"
  by (induction s arbitrary: x) (simp_all add: uint_digit_def mult.commute)

lemma uint_loop_decimal: "uint_loop us 10 m 0 (show_nat n) = (if n \<le> m then Some n else None)"
  using uint_loop_digits [OF digits_in_10 [OF show_nat_digits [of n]], of 0 m us] nat_of_digits_show [of n]
  by (simp add: value_in_10 [OF show_nat_digits] nat_of_digits_def Let_def)

text \<open>The documented spellings of a number: decimal, 0x hexadecimal, 0o octal.\<close>

definition spelling :: "nat \<Rightarrow> string \<Rightarrow> bool" where
  "spelling n t = (t = show_nat n \<or> t = ''0x'' @ show_base 16 n \<or> t = ''0X'' @ show_base 16 n \<or> t = ''0o'' @ show_base 8 n)"

lemma lower_X: "lower (CHR ''X'') = CHR ''x''"
  by code_simp

lemma ParseUint0_spelling:
  assumes "spelling n t"
  shows "ParseUint0 32 t = (if n < 2 ^ 32 then Some n else None)"
  using assms unfolding spelling_def
proof (elim disjE)
  assume t: "t = show_nat n"
  show ?thesis
  proof (cases "n = 0")
    case True
    then show ?thesis using t by (simp add: ParseUint0_def split_base_def show_nat_0)
  next
    case False
    then have "hd t \<noteq> CHR ''0''" using show_nat_hd_zero [of n] t by auto
    then show ?thesis
      using t no_underscore [OF digits_in_10 [OF show_nat_digits [of n]]]
      by (simp add: ParseUint0_def split_base_def uint_loop_decimal)
  qed
next
  assume t: "t = ''0x'' @ show_base 16 n"
  have "3 \<le> length t" using t show_base_spec [of 16 n] by (cases "show_base 16 n") auto
  then show ?thesis
    using t show_base_spec [of 16 n] no_underscore [of 16 "show_base 16 n"]
    by (simp add: ParseUint0_def split_base_def lower_def uint_loop_show less_Suc_eq_le)
next
  assume t: "t = ''0X'' @ show_base 16 n"
  have "3 \<le> length t" using t show_base_spec [of 16 n] by (cases "show_base 16 n") auto
  then show ?thesis
    using t show_base_spec [of 16 n] no_underscore [of 16 "show_base 16 n"]
    by (simp add: ParseUint0_def split_base_def lower_X uint_loop_show)
next
  assume t: "t = ''0o'' @ show_base 8 n"
  have "3 \<le> length t" using t show_base_spec [of 8 n] by (cases "show_base 8 n") auto
  then show ?thesis
    using t show_base_spec [of 8 n] no_underscore [of 8 "show_base 8 n"]
    by (simp add: ParseUint0_def split_base_def lower_def uint_loop_show)
qed

lemma spelling_not_octal: "spelling n t \<Longrightarrow> \<not> (2 \<le> length t \<and> hd t = CHR ''0'' \<and> is_digit (t ! 1))"
proof -
  assume t: "spelling n t"
  have "n = 0" if "t = show_nat n" "hd t = CHR ''0''" using show_nat_hd_zero that by simp
  then show ?thesis using t by (auto simp: spelling_def show_nat_0 is_digit_def)
qed

section \<open>Properties\<close>

text \<open>An fwmark that wg.yaml gives as a quoted decimal, 0x or 0o number becomes that number, in
  decimal, exactly when it is between 1 and 2^32 - 1, and is refused otherwise; nothing else of the
  interface changes.\<close>

theorem fwmark_spellings:
  assumes "map_of iface ''fwmark'' = Some (JStr t)" and "spelling n t"
  shows "case normalizeFwmark iface name of
      Inl e \<Rightarrow> e = WGFwmark name \<and> (n = 0 \<or> 2 ^ 32 \<le> n)
    | Inr i \<Rightarrow> 0 < n \<and> n < 2 ^ 32 \<and> map_of i = (map_of iface)(''fwmark'' \<mapsto> JNum (show_nat n))"
  using assms(1) ParseUint0_spelling [OF assms(2)] spelling_not_octal [OF assms(2)]
  by (auto simp: normalizeFwmark_def update_conv' split: option.splits if_splits)

theorem fwmark_spellings_witness:
  "map_of (case normalizeFwmark [(''fwmark'', JStr ''0x10''), (''mtu'', JNum ''1420'')] ''wg0'' of Inr i \<Rightarrow> i | Inl _ \<Rightarrow> [])
     ''fwmark'' = Some (JNum ''16'')"
proof -
  have s: "spelling 16 ''0x10''" by (simp add: spelling_def show_base.simps hexdig_def)
  have n: "show_nat 16 = ''16''" by code_simp
  show ?thesis
    using fwmark_spellings [of "[(''fwmark'', JStr ''0x10''), (''mtu'', JNum ''1420'')]", OF _ s, of "''wg0''"] n
    by (auto split: sum.splits)
qed

lemma us_loop_digits: "list_all is_digit ds \<Longrightarrow> saw \<noteq> CHR ''_'' \<or> ds \<noteq> [] \<Longrightarrow> us_loop hex saw ds"
  by (induction hex saw ds rule: us_loop.induct) auto

lemma digits_in_8: "digits_in 8 s \<Longrightarrow> list_all is_digit s"
  by (induction s) (auto simp: digits_in_def uint_digit_def split: option.splits if_splits)



end
