(* ===== verification/BuildBundle.thy ===== *)
theory BuildBundle
  imports NormalizeWG Bundle_Props Select Dhtproxy_Props
begin

text \<open>
  cmd/stunmesh-provd/build_bundle.go: assembling a node's bundle from its files. Proved: a bundle
  that is built fits in one DHT value, and the agent that gets it sealed from a proxy selects
  exactly this bundle; and a node whose files spell a valid bundle gets that bundle.
\<close>

section \<open>json.RawMessage\<close>

text \<open>compact with HTML escaping: space outside strings is dropped. \<open>str\<close>: inside a string; \<open>esc\<close>: after
  a backslash there.\<close>

function compact :: "bool \<Rightarrow> bool \<Rightarrow> string \<Rightarrow> string" where
  "compact str esc [] = []"
| "compact str esc (c # cs) =
     (if c \<in> {CHR ''<'', CHR ''>'', CHR ''&''} then
        bslash # ''u00'' @ [hexdig (code c div 16), hexdig (code c mod 16)] @ compact str False cs
      else if take 3 (c # cs) = u2028 then bslash # ''u2028'' @ compact str False (drop 2 cs)
      else if take 3 (c # cs) = u2029 then bslash # ''u2029'' @ compact str False (drop 2 cs)
      else if str then c # compact (c \<noteq> dquote \<or> esc) (c = bslash \<and> \<not> esc) cs
      else if is_ws c then compact False False cs
      else c # compact (c = dquote) False cs)"
  by pat_completeness auto
termination
  by (relation "measure (\<lambda>(a, b, s). length s)") auto

declare compact.simps(2) [simp del]

definition compact_raw :: "string \<Rightarrow> string option" where
  "compact_raw s = (if unmarshal s = None then None else Some (compact False False s))"

section \<open>A raw value that was marshalled is copied as it is\<close>

definition special :: "char \<Rightarrow> bool" where
  "special c = (c \<in> {CHR ''<'', CHR ''>'', CHR ''&''} \<or> c = CHR 0xE2)"

lemma compact_in_string:
  "\<not> special c \<Longrightarrow> compact True e (c # cs) = c # compact (c \<noteq> dquote \<or> e) (c = bslash \<and> \<not> e) cs"
  by (simp add: compact.simps(2) special_def u2028_def u2029_def)

lemma compact_outside:
  "\<not> special c \<Longrightarrow> \<not> is_ws c \<Longrightarrow> compact False e (c # cs) = c # compact (c = dquote) False cs"
  by (simp add: compact.simps(2) special_def u2028_def u2029_def)

lemma hexdig_not_special: "n < 16 \<Longrightarrow> \<not> special (hexdig n) \<and> hexdig n \<noteq> dquote \<and> hexdig n \<noteq> bslash"
proof -
  assume "n < 16"
  then have "n \<in> {0, 1, 2, 3, 4, 5, 6, 7, 8, 9, 10, 11, 12, 13, 14, 15}"
    unfolding insert_iff empty_iff by presburger
  then show ?thesis by (auto simp: hexdig_def special_def)
qed

lemma compact_plain_bytes:
  "list_all (\<lambda>c. \<not> special c \<and> c \<noteq> dquote \<and> c \<noteq> bslash) bs \<Longrightarrow> compact True False (bs @ t) = bs @ compact True False t"
  by (induction bs) (simp_all add: compact_in_string)

lemma compact_escape:
  "\<not> special x \<Longrightarrow> list_all (\<lambda>c. \<not> special c \<and> c \<noteq> dquote \<and> c \<noteq> bslash) bs \<Longrightarrow>
   compact True False (bslash # x # bs @ t) = bslash # x # bs @ compact True False t"
  using compact_plain_bytes [of bs t] by (simp add: compact_in_string special_def)

lemma compact_ascii: "code c < 128 \<Longrightarrow> compact True False (esc_ascii True c @ t) = esc_ascii True c @ compact True False t"
proof -
  assume c: "code c < 128"
  have hex: "code c div 16 < 16" "code c mod 16 < 16" using c by simp_all
  have e2: "c \<noteq> CHR 0xE2" using c by auto
  consider (two) x where "esc_ascii True c = [bslash, x]" "\<not> special x"
    | (six) "esc_ascii True c = bslash # CHR ''u'' # ''00'' @ [hexdig (code c div 16), hexdig (code c mod 16)]"
    | (one) "esc_ascii True c = [c]" "\<not> special c" "c \<noteq> dquote" "c \<noteq> bslash"
    using e2 by (fastforce simp: esc_ascii_def special_def split: if_splits)
  then show ?thesis
  proof cases
    case two
    then show ?thesis using compact_escape [of x "[]" t] by simp
  next
    case six
    then show ?thesis
      using compact_escape [of "CHR ''u''" "''00'' @ [hexdig (code c div 16), hexdig (code c mod 16)]" t]
        hexdig_not_special [OF hex(1)] hexdig_not_special [OF hex(2)] by (simp add: special_def)
  next
    case one
    then show ?thesis using compact_plain_bytes [of "[c]" t] by simp
  qed
qed

definition ordinary :: "char \<Rightarrow> bool" where
  "ordinary c = (\<not> special c \<and> c \<noteq> dquote \<and> c \<noteq> bslash)"

lemma high_byte: "128 \<le> code c \<Longrightarrow> c \<noteq> CHR 0xE2 \<Longrightarrow> ordinary c"
  by (auto simp: ordinary_def special_def)

lemma compact_ordinary: "list_all ordinary bs \<Longrightarrow> compact True False (bs @ t) = bs @ compact True False t"
  by (rule compact_plain_bytes) (simp add: ordinary_def list_all_iff)

lemma continuation: "in_range lo hi c \<Longrightarrow> 128 \<le> lo \<Longrightarrow> hi < 0xE2 \<Longrightarrow> ordinary c"
  by (rule high_byte) (auto simp: in_range_def)

lemma multi_cases:
  assumes "rune_wf (Multi bs)"
  obtains a b where "bs = [a, b]" "valid2 [a, b]" | a b c where "bs = [a, b, c]" "valid3 [a, b, c]"
  | a b c d where "bs = [a, b, c, d]" "valid4 [a, b, c, d]"
proof -
  have "valid2 bs \<and> length bs = 2 \<or> valid3 bs \<and> length bs = 3 \<or> valid4 bs \<and> length bs = 4"
    using assms by (auto simp: rune_len_def split: if_splits)
  then consider "valid2 bs" "length bs = Suc (Suc 0)" | "valid3 bs" "length bs = Suc (Suc (Suc 0))"
    | "valid4 bs" "length bs = Suc (Suc (Suc (Suc 0)))" by (simp add: numeral_eq_Suc) blast
  then show ?thesis
  proof cases
    case 1
    then obtain a b where "bs = [a, b]" by (auto simp: length_Suc_conv)
    then show ?thesis using 1 that(1) by simp
  next
    case 2
    then obtain a b c where "bs = [a, b, c]" by (auto simp: length_Suc_conv)
    then show ?thesis using 2 that(2) by simp
  next
    case 3
    then obtain a b c d where "bs = [a, b, c, d]" by (auto simp: length_Suc_conv)
    then show ?thesis using 3 that(3) by simp
  qed
qed

lemma valid2_ordinary: "valid2 [a, b] \<Longrightarrow> ordinary a \<and> ordinary b"
  using continuation [of "0xC2" "0xDF" a] continuation [of "0x80" "0xBF" b] by simp

lemma valid3_ordinary:
  assumes "valid3 [a, b, c]"
  shows "128 \<le> code a" and "ordinary b" and "ordinary c"
proof -
  have "128 \<le> code b" "code b \<le> 0xBF" "128 \<le> code a" using assms by (auto simp: in_range_def)
  then show "128 \<le> code a" "ordinary b" by (auto intro: high_byte)
  show "ordinary c" using assms continuation [of "0x80" "0xBF" c] by simp
qed

lemma valid4_ordinary:
  assumes "valid4 [a, b, c, d]"
  shows "ordinary a" and "ordinary b" and "ordinary c" and "ordinary d"
proof -
  have a: "0xF0 \<le> code a" and b: "128 \<le> code b" "code b \<le> 0xBF" using assms by (auto simp: in_range_def)
  show "ordinary a" using a by (intro high_byte) auto
  show "ordinary b" using b by (intro high_byte) auto
  show "ordinary c" "ordinary d"
    using assms continuation [of "0x80" "0xBF" c] continuation [of "0x80" "0xBF" d] by simp_all
qed

lemma compact_multi:
  assumes "rune_wf (Multi bs)" and "bs \<noteq> u2028" and "bs \<noteq> u2029"
  shows "compact True False (bs @ t) = bs @ compact True False t"
  using assms(1)
proof (cases rule: multi_cases)
  case (1 a b)
  then show ?thesis using compact_ordinary [of "[a, b]" t] valid2_ordinary [OF 1(2)] by simp
next
  case (2 a b c)
  note o = valid3_ordinary [OF 2(2)]
  show ?thesis
  proof (cases "a = CHR 0xE2")
    case True
    have "compact True False (a # b # c # t) = a # compact True False (b # c # t)"
      using assms(2, 3) 2 True by (simp add: compact.simps(2) [of True False "CHR 0xE2"])
    then show ?thesis using compact_ordinary [of "[b, c]" t] o 2 by simp
  next
    case False
    then show ?thesis using compact_ordinary [of "[a, b, c]" t] o high_byte [OF o(1)] 2 by simp
  qed
next
  case (3 a b c d)
  then show ?thesis using compact_ordinary [of "[a, b, c, d]" t] valid4_ordinary [OF 3(2)] by simp
qed

lemma compact_rune:
  assumes "rune_wf r \<or> (\<exists>c. r = Bad c)"
  shows "compact True False (quote_rune True r @ t) = quote_rune True r @ compact True False t"
proof (cases r)
  case (Asc c)
  then show ?thesis using assms compact_ascii by auto
next
  case (Multi bs)
  have esc: "compact True False (bslash # CHR ''u'' # s @ t) = bslash # CHR ''u'' # s @ compact True False t"
    if "s \<in> {''2028'', ''2029''}" for s
    using that by (intro compact_escape) (auto simp: special_def)
  show ?thesis using Multi assms compact_multi esc [of "''2028''"] esc [of "''2029''"] by auto
next
  case (Bad c)
  then show ?thesis using compact_escape [of "CHR ''u''" "''fffd''" t] by (simp add: special_def)
qed

lemma compact_quote: "compact True False (go_quote True s @ dquote # t) = go_quote True s @ dquote # compact False False t"
proof -
  have "compact True False (concat (map (quote_rune True) rs) @ dquote # t)
      = concat (map (quote_rune True) rs) @ dquote # compact False False t"
    if "\<forall>r \<in> set rs. rune_wf r \<or> (\<exists>c. r = Bad c)" for rs
    using that by (induction rs) (simp_all add: compact_rune compact_in_string special_def)
  moreover have "rune_wf r \<or> (\<exists>c. r = Bad c)" if "r \<in> set (runes s)" for r
    using runes_wf [OF that] by (cases r) (auto simp: is_good_def)
  ultimately show ?thesis by (simp add: go_quote_def)
qed

text \<open>A tree whose numbers are integers.\<close>

definition copied :: "string \<Rightarrow> bool" where
  "copied s = (\<forall>t. compact False False (s @ t) = s @ compact False False t)"

lemma copied_append: "copied s \<Longrightarrow> copied t \<Longrightarrow> copied (s @ t)"
  by (simp add: copied_def)

lemma copied_Cons: "\<not> special c \<Longrightarrow> \<not> is_ws c \<Longrightarrow> c \<noteq> dquote \<Longrightarrow> copied t \<Longrightarrow> copied (c # t)"
  by (simp add: copied_def compact_outside)

lemma copied_Nil: "copied []"
  by (simp add: copied_def)

lemma copied_bytes: "list_all (\<lambda>c. \<not> special c \<and> \<not> is_ws c \<and> c \<noteq> dquote) bs \<Longrightarrow> copied bs"
  by (induction bs) (simp_all add: copied_Cons copied_Nil)

lemma copied_string: "copied t \<Longrightarrow> copied (dquote # go_quote True s @ dquote # t)"
  by (simp add: copied_def compact_outside special_def is_ws_def compact_quote)

lemma copied_punct:
  "copied t \<Longrightarrow> c \<in> {CHR '','', CHR '':'', CHR ''{'', CHR ''}'', CHR ''['', CHR '']''} \<Longrightarrow> copied (c # t)"
  by (rule copied_Cons) (auto simp: special_def is_ws_def)

lemma copied_lit: "is_int_lit l \<Longrightarrow> copied l"
proof (rule copied_bytes)
  assume "is_int_lit l"
  then obtain i where l: "l = show_int i" by (auto simp: is_int_lit_def split: option.splits)
  have plain: "\<not> special c \<and> \<not> is_ws c \<and> c \<noteq> dquote" if "is_digit c \<or> c = CHR ''-''" for c
    using that by (auto simp: special_def is_ws_def is_digit_def)
  show "list_all (\<lambda>c. \<not> special c \<and> \<not> is_ws c \<and> c \<noteq> dquote) l"
    unfolding l list_all_iff by (intro ballI plain show_int_chars)
qed

lemma copied_words: "copied ''null''" "copied ''true''" "copied ''false''"
  by (rule copied_bytes; simp add: special_def is_ws_def)+

lemma copied_print:
  "json_wf v \<Longrightarrow> copied (print_json (go_quote True) v)"
  "list_all json_wf vs \<Longrightarrow> copied (print_elems (go_quote True) vs)"
  "list_all (\<lambda>kv. valid_utf8 (fst kv) \<and> json_wf (snd kv)) kvs \<Longrightarrow> copied (print_members (go_quote True) kvs)"
proof (induction "go_quote True" v and "go_quote True" vs and "go_quote True" kvs
    rule: print_json_print_elems_print_members.induct)
  case (8 v vs)
  then have "copied (if vs = [] then '']'' else CHR '','' # print_elems (go_quote True) vs)"
    by (auto intro!: copied_punct copied_Nil)
  then show ?case using 8 by (auto intro: copied_append)
next
  case (10 k v kvs)
  then have "copied (if kvs = [] then ''}'' else CHR '','' # print_members (go_quote True) kvs)"
    by (auto intro!: copied_punct copied_Nil)
  then have "copied (CHR '':'' # print_json (go_quote True) v
      @ (if kvs = [] then ''}'' else CHR '','' # print_members (go_quote True) kvs))"
    using 10 by (intro copied_punct copied_append) simp_all
  then show ?case using copied_string [of _ k] by simp
qed (simp_all add: copied_words copied_lit copied_punct copied_Nil copied_string)

lemma compact_raw_print:
  assumes "json_wf v" and "depth v \<le> max_depth"
  shows "compact_raw (print_json (go_quote True) v) = Some (print_json (go_quote True) v)"
  using copied_print(1) [OF assms(1), unfolded copied_def, rule_format, of "[]"] html.unmarshal_print [OF assms]
  by (simp add: compact_raw_def)

section \<open>buildBundle\<close>

record Node =
  nd_NodeID :: string
  nd_IdentityPublicKey :: Key
  nd_WG :: string
  nd_Stunmesh :: string

definition maxDHTValueSize :: nat where
  "maxDHTValueSize = 56 * 1024"

definition naclBoxOverhead :: nat where
  "naclBoxOverhead = 24 + 16"

definition maxInnerBundleSize :: nat where
  "maxInnerBundleSize = 3 * (maxDHTValueSize div 4) - naclBoxOverhead"

definition trimJSONWhitespace :: "string \<Rightarrow> string" where
  "trimJSONWhitespace raw = rev (dropWhile is_ws (rev (dropWhile is_ws raw)))"

definition isJSONNull :: "string \<Rightarrow> bool" where
  "isJSONNull raw = (trimJSONWhitespace raw = ''null'')"

definition json_string :: "string \<Rightarrow> string" where
  "json_string s = dquote # go_quote True s @ [dquote]"

text \<open>json.Marshal of assembledBundle; the raw wg is copied in.\<close>

definition assembledBundle :: "string \<Rightarrow> string \<Rightarrow> int \<Rightarrow> string \<Rightarrow> string \<Rightarrow> string" where
  "assembledBundle namespace nodeID timestamp wg stunmesh =
     CHR ''{'' # json_string ''version'' @ CHR '':'' # ''1,'' @ json_string ''namespace'' @ CHR '':'' # json_string namespace
     @ CHR '','' # json_string ''node_id'' @ CHR '':'' # json_string nodeID
     @ CHR '','' # json_string ''timestamp'' @ CHR '':'' # show_int timestamp
     @ CHR '','' # json_string ''wg'' @ CHR '':'' # wg
     @ CHR '','' # json_string ''stunmesh'' @ CHR '':'' # json_string stunmesh @ ''}''"

datatype berr = BUnedited | BWG wgerr | BAssemble | BParse perr | BValidate verr | BTooBig nat

definition buildBundle :: "nat \<Rightarrow> string \<Rightarrow> Node \<Rightarrow> int \<Rightarrow> berr + Bundle" where
  "buildBundle w namespace node now =
     (if isJSONNull (nd_WG node) then Inl BUnedited
      else (case normalizeWG (nd_WG node) of Inl e \<Rightarrow> Inl (BWG e)
      | Inr wg \<Rightarrow> (case compact_raw wg of None \<Rightarrow> Inl BAssemble
      | Some raw \<Rightarrow>
          (case Parse w (assembledBundle namespace (nd_NodeID node) now raw (nd_Stunmesh node)) of Inl e \<Rightarrow> Inl (BParse e)
          | Inr b \<Rightarrow> (case Validate namespace (nd_NodeID node) b of Some e \<Rightarrow> Inl (BValidate e)
          | None \<Rightarrow>
              (let wire = marshal_bundle b in
               if length wire > maxInnerBundleSize then Inl (BTooBig (length wire)) else Inr b))))))"

section \<open>What a built bundle is\<close>

lemma buildBundle_Inr:
  assumes "buildBundle w ns node now = Inr b"
  shows "\<exists>data. Parse w data = Inr b" and "Validate ns (nd_NodeID node) b = None"
    and "length (marshal_bundle b) \<le> maxInnerBundleSize"
  using assms by (auto simp: buildBundle_def Let_def split: if_splits sum.splits option.splits)

lemma buildBundle_wf:
  assumes "buildBundle w ns node now = Inr b" and "w \<in> {32, 64}"
  shows "bundle_wf w b" and "valid_bundle ns (nd_NodeID node) b"
  using buildBundle_Inr [OF assms(1)] Parse_Validate_ok assms(2) by blast+

lemma norm_iface_valid: "valid_iface i \<Longrightarrow> valid_iface (norm_iface i)"
  by (auto simp: valid_iface_def norm_iface_def norm_map_def valid_peer_def norm_peer_def)

lemma valid_bundle_norm: "valid_bundle ns nid b \<Longrightarrow> valid_bundle ns nid (norm_bundle b)"
  by (auto simp: valid_bundle_def norm_bundle_def norm_map_def norm_iface_valid)

text \<open>The integers of a valid bundle fit every platform.\<close>

lemma fits_range: "w \<in> {32, 64} \<Longrightarrow> 0 \<le> i \<Longrightarrow> i \<le> 65535 \<Longrightarrow> fits w i"
  by (auto simp: fits_def)

lemma peer_wf_width: "peer_wf w p \<Longrightarrow> valid_peer p \<Longrightarrow> w' \<in> {32, 64} \<Longrightarrow> peer_wf w' p"
  by (auto simp: peer_wf_def valid_peer_def in_opt_def opt_all_def fits_def split: option.splits)

lemma iface_wf_width:
  assumes "iface_wf w i" and "valid_iface i" and "w' \<in> {32, 64}"
  shows "iface_wf w' i"
proof -
  obtain ps where ps: "if_Peers i = Some ps" "\<forall>p \<in> snd ` set ps. valid_peer p"
    using assms(2) by (auto simp: valid_iface_def)
  have "map_wf (peer_wf w) ps" using assms(1) ps(1) by (simp add: iface_wf_def)
  then have "map_wf (peer_wf w') ps" by (rule map_wf_mono) (use ps(2) peer_wf_width assms(3) in blast)
  moreover have "opt_all (fits w') (if_ListenPort i)" "opt_all (fits w') (if_MTU i)"
    using assms(2, 3) by (auto simp: valid_iface_def in_opt_def opt_all_def fits_def split: option.splits)
  ultimately show ?thesis using assms(1) ps(1) by (simp add: iface_wf_def)
qed

lemma bundle_wf_width:
  assumes "bundle_wf w b" and "valid_bundle ns nid b" and "w' \<in> {32, 64}"
  shows "bundle_wf w' b"
proof -
  obtain m where m: "b_WG b = Some m" "\<forall>i \<in> snd ` set m. valid_iface i"
    using assms(2) by (auto simp: valid_bundle_def)
  have "map_wf (iface_wf w) m" using assms(1) m(1) by (simp add: bundle_wf_def)
  then have "map_wf (iface_wf w') m" by (rule map_wf_mono) (use m(2) iface_wf_width assms(3) in blast)
  moreover have "fits w' (b_Version b)" using assms(2, 3) by (auto simp: valid_bundle_def fits_def)
  ultimately show ?thesis using assms(1, 3) m(1) by (simp add: bundle_wf_def)
qed

text \<open>Its size once sealed and in base64.\<close>

definition box_overhead :: "(string \<Rightarrow> string \<Rightarrow> Key \<Rightarrow> Key \<Rightarrow> string) \<Rightarrow> bool" where
  "box_overhead box_seal = (\<forall>n m r s. length (box_seal n m r s) = length m + 16)"

lemma b64_encode_size: "length (b64_encode s) = 4 * ((length s + 2) div 3)"
proof (induction s rule: b64_encode.induct)
  case (4 a b c r)
  then show ?case by (simp add: Let_def) presburger
qed (simp_all add: Let_def)

lemma sealed_size:
  assumes "box_overhead box_seal" and "Seal box_seal (Some nonce) plain rpub spriv = Some sealed"
    and "length nonce = nonceSize" and "length plain \<le> maxInnerBundleSize"
  shows "length sealed \<le> 43008" and "length (b64_encode sealed) \<le> maxDHTValueSize"
proof -
  have l: "length sealed = length plain + naclBoxOverhead"
    using assms(1-3) by (auto simp: Seal_def sealWithNonce_def box_overhead_def nonceSize_def naclBoxOverhead_def)
  then show s: "length sealed \<le> 43008"
    using assms(4) by (simp add: maxInnerBundleSize_def maxDHTValueSize_def naclBoxOverhead_def)
  have "(length sealed + 2) div 3 \<le> 14336" using s by linarith
  then show "length (b64_encode sealed) \<le> maxDHTValueSize"
    by (simp add: b64_encode_size maxDHTValueSize_def)
qed

lemma sealed_payload: "length sealed \<le> 43008 \<Longrightarrow> length (put_payload sealed) \<le> maxLineSize"
  using payload_length [of sealed] by (simp add: maxLineSize_def)

text \<open>C40: a bundle that is built, once sealed with a box whose overhead is that of nacl/box, is a DHT value
  of at most 56 KiB in base64, as the format asks.\<close>

theorem built_value_fits:
  assumes "buildBundle w ns node now = Inr b" and "box_overhead box_seal"
    and "Seal box_seal (Some nonce) (marshal_bundle b) rpub spriv = Some sealed" and "length nonce = nonceSize"
  shows "length (b64_encode sealed) \<le> maxDHTValueSize"
  using sealed_size(2) [OF assms(2-4) buildBundle_Inr(3) [OF assms(1)]] .

text \<open>A sealed bundle is selected by the agent whose key it was sealed for.\<close>

lemma select_single:
  assumes "acceptable w op spub rpriv ns nid v = Some b"
  shows "decryptAndSelect w op [v] spub rpriv ns nid = (Some b, no_stats)"
  using assms by (auto simp: decryptAndSelect_def acceptable_def split: option.splits sum.splits if_splits)

lemma built_acceptable:
  assumes "buildBundle w ns node now = Inr b" and "w \<in> {32, 64}" and "w' \<in> {32, 64}"
    and "box_law box_seal box_open pub" and "length nonce = nonceSize"
    and "Seal box_seal (Some nonce) (marshal_bundle b) (pub rpriv) spriv = Some sealed"
  shows "acceptable w' box_open (pub spriv) rpriv ns (nd_NodeID node) sealed = Some (norm_bundle b)"
proof -
  have v: "valid_bundle ns (nd_NodeID node) b" and wf: "bundle_wf w b"
    using buildBundle_wf [OF assms(1, 2)] by simp_all
  have "Open box_open sealed (pub spriv) rpriv = Some (marshal_bundle b)"
    using assms(4-6) by (auto simp: Open_def Seal_def sealWithNonce_def nonceSize_def box_law_def)
  moreover have "Parse w' (marshal_bundle b) = Inr (norm_bundle b)"
    using Parse_marshal_eq bundle_wf_width [OF wf v assms(3)] v by (simp add: Validate_None)
  moreover have "Validate ns (nd_NodeID node) (norm_bundle b) = None"
    using valid_bundle_norm [OF v] by (simp add: Validate_None)
  ultimately show ?thesis by (simp add: acceptable_def)
qed

text \<open>C3: what the controller publishes is what the node gets: a bundle that is built, sealed for a node
  and stored by a proxy is read back from the proxy's answer whole, opened by that node, and selected as
  the very bundle that was built (its maps in key order), also when controller and router have ints of
  different width; the line it takes in the answer is never too long.\<close>

theorem published_selected:
  assumes "buildBundle w ns node now = Inr b" and "w \<in> {32, 64}" and "w' \<in> {32, 64}"
    and "box_law box_seal box_open pub" and "box_overhead box_seal" and "length nonce = nonceSize"
    and "Seal box_seal (Some nonce) (marshal_bundle b) (pub rpriv) spriv = Some sealed"
    and "c_maxLineSize c = maxLineSize" and "1 \<le> c_maxValues c"
  shows "\<exists>r. parseValues c (stored_body [sealed], True) base = Some r \<and> br_Values r = [sealed]
    \<and> decryptAndSelect w' box_open (br_Values r) (pub spriv) rpriv ns (nd_NodeID node) = (Some (norm_bundle b), no_stats)"
proof -
  have "length sealed \<le> 43008"
    using sealed_size(1) [OF assms(5, 7, 6) buildBundle_Inr(3) [OF assms(1)]] .
  then have "list_all (\<lambda>d. length (put_payload d) \<le> c_maxLineSize c) [sealed]"
    using sealed_payload assms(8) by simp
  from parse_stored [OF this] have "parseValues c (stored_body [sealed], True) base
      = Some \<lparr>br_Values = [sealed], br_Skipped = 0, br_Dropped = 0, br_URL = base\<rparr>"
    using assms(9) by simp
  then show ?thesis
    using select_single [OF built_acceptable [OF assms(1-4, 6, 7)]] by simp
qed

section \<open>A node whose files spell a valid bundle\<close>

text \<open>The document that is assembled, as a tree.\<close>

definition assembled_members :: "string \<Rightarrow> string \<Rightarrow> int \<Rightarrow> json \<Rightarrow> string \<Rightarrow> (string \<times> json) list" where
  "assembled_members ns nid now wg text = [(''version'', JNum ''1''), (''namespace'', JStr ns), (''node_id'', JStr nid),
     (''timestamp'', json_int now), (''wg'', wg), (''stunmesh'', JStr text)]"

lemma assembledBundle_print:
  "assembledBundle ns nid now (print_json (go_quote True) wg) text
     = print_json (go_quote True) (JObj (assembled_members ns nid now wg text))"
  by (simp add: assembledBundle_def assembled_members_def json_string_def json_int_def)

lemma show_int_1: "show_int 1 = ''1''"
  by code_simp

lemma assembled_canon:
  assumes "valid_utf8 ns" "valid_utf8 nid" "\<bar>now\<bar> < 2 ^ 53" "canon_tree wg" "valid_utf8 text"
  shows "list_all (\<lambda>kv. valid_utf8 (fst kv) \<and> canon_tree (snd kv)) (assembled_members ns nid now wg text)"
  using assms canon_tree_int [of 1] canon_tree_int [OF assms(3)]
  by (simp add: assembled_members_def json_int_def show_int_1)

lemma checkSurrogates_members:
  assumes "list_all (\<lambda>kv. valid_utf8 (fst kv) \<and> canon_tree (snd kv)) kvs"
  shows "checkSurrogates (print_json (go_quote True) (JObj kvs)) = None"
proof -
  have "list_all chunk_ok (chunks (JObj kvs))" using chunks_ok(3) [OF assms] by simp
  then show ?thesis
    using print_chunks(1) [of "quote_rune True" "JObj kvs"] scan_back_chunks [of "chunks (JObj kvs)" "[]" True]
    by (simp add: checkSurrogates_scan go_quote_def [abs_def])
qed

lemma to_any_members:
  assumes "list_all (\<lambda>kv. valid_utf8 (fst kv) \<and> canon_tree (snd kv)) kvs" and "distinct (map fst kvs)"
  shows "to_any (JObj kvs) = JObj kvs"
proof -
  have "map (\<lambda>kv. (fst kv, to_any (snd kv))) kvs = kvs"
    using assms(1) by (intro map_id_on) (auto simp: list_all_iff to_any_canon)
  then show ?thesis using assms(2) by (simp add: dedup_id gm_ok_def)
qed

text \<open>normalizeWG leaves what MarshalJSON writes of a valid wg as it is.\<close>

lemma update_same: "map_of m k = Some v \<Longrightarrow> distinct (map fst m) \<Longrightarrow> AList.update k v m = m"
  by (induction m) (auto dest: map_of_SomeD)

lemma map_of_opt_member: "map_of (opt_member k f x @ r) j = (if j = k \<and> x \<noteq> None then map_option f x else map_of r j)"
  by (cases x) (simp_all add: opt_member_def)

lemma norm_family_rtab:
  "norm_family name ''ipv4'' (opt_member ''ipv4'' JStr x @ opt_member ''ipv6'' JStr y)
     = Inr (opt_member ''ipv4'' JStr x @ opt_member ''ipv6'' JStr y)"
  "norm_family name ''ipv6'' (opt_member ''ipv4'' JStr x @ opt_member ''ipv6'' JStr y)
     = Inr (opt_member ''ipv4'' JStr x @ opt_member ''ipv6'' JStr y)"
  by (cases x; cases y; simp add: norm_family_def opt_member_def)+

lemma map_of_opt_last: "map_of (opt_member k f x) j = (if j = k then map_option f x else None)"
  by (cases x) (simp_all add: opt_member_def)

lemma iface_member_lookup:
  "map_of (iface_members i) ''fwmark'' = map_option json_int (if_Fwmark i)"
  "map_of (iface_members i) ''routing_table'' = map_option rtab_json (if_RoutingTable i)"
  unfolding iface_members_def by (simp_all add: map_of_opt_member map_of_opt_last del: map_of_append)

lemma norm_entry_iface: "norm_entry name (iface_json i) = Inr (iface_json i)"
proof -
  have d: "distinct (map fst (iface_members i))"
    using key_ordered_gm_ok [OF iface_members_ordered] by (simp add: gm_ok_def)
  have fw: "normalizeFwmark (iface_members i) name = Inr (iface_members i)"
    by (cases "if_Fwmark i") (simp_all add: normalizeFwmark_def iface_member_lookup json_int_def)
  have "normalizeRoutingTable (iface_members i) name = Inr (iface_members i)"
  proof (cases "if_RoutingTable i")
    case None
    then show ?thesis by (simp add: normalizeRoutingTable_def iface_member_lookup)
  next
    case (Some t)
    let ?rt = "opt_member ''ipv4'' JStr (rtab_IPv4 t) @ opt_member ''ipv6'' JStr (rtab_IPv6 t)"
    have l: "map_of (iface_members i) ''routing_table'' = Some (JObj ?rt)"
      using Some by (simp add: iface_member_lookup rtab_json_def)
    show ?thesis
      using update_same [OF l d] by (simp add: normalizeRoutingTable_def l norm_family_rtab)
  qed
  then show ?thesis using fw by (simp add: norm_entry_def iface_json_members)
qed

lemma norm_ifaces_map: "norm_ifaces (map (\<lambda>kv. (fst kv, iface_json (snd kv))) m) = Inr (map (\<lambda>kv. (fst kv, iface_json (snd kv))) m)"
  by (induction m) (simp_all add: norm_entry_iface)

lemma isJSONNull_brace: "CHR ''{'' \<in> set s \<Longrightarrow> \<not> isJSONNull s"
proof -
  assume s: "CHR ''{'' \<in> set s"
  have keep: "x \<in> set (dropWhile is_ws t)" if "x \<in> set t" "\<not> is_ws x" for x t
    using that by (induction t) auto
  have "CHR ''{'' \<in> set (trimJSONWhitespace s)"
    using s by (simp add: trimJSONWhitespace_def keep is_ws_def)
  then show ?thesis by (auto simp: isJSONNull_def)
qed

lemma normalizeWG_marshalled:
  assumes "canon_tree (json_map iface_json m)" and "depth (json_map iface_json m) \<le> max_depth"
  shows "normalizeWG (print_json (go_quote True) (json_map iface_json m)) = Inr (print_json (go_quote True) (json_map iface_json m))"
proof -
  obtain kvs where kvs: "json_map iface_json m = JObj kvs" "norm_ifaces kvs = Inr kvs"
    using norm_ifaces_map by (simp add: json_map_def)
  show ?thesis
    using html.decode_stream_print [OF canon_tree_wf [OF assms(1)] assms(2), of "[]"]
      to_any_canon [OF assms(1)] sort_json_canon [OF assms(1)] kvs
    by (simp add: normalizeWG_def)
qed

lemma depth_assembled: "depth wg \<le> 5 \<Longrightarrow> depth (JObj (assembled_members ns nid now wg text)) \<le> max_depth"
  by (simp add: assembled_members_def json_int_def max_depth_def depth_JObj)

lemma dec_assembled:
  assumes "bundle_wf w b" and "b_WG b = Some m" and "b_Stunmesh b = Some text" and "b_Version b = 1"
  shows "dec_bundle w (JObj (assembled_members (b_Namespace b) (b_NodeID b) (b_Timestamp b) (json_map iface_json m) text))
    zero_bundle = Inr (norm_bundle b)"
proof -
  note w = assms(1) [unfolded bundle_wf_def]
  have wg: "dec_map (dec_iface w) zero_iface (json_map iface_json m) None = Inr (Some (norm_map norm_iface m))"
    by (rule dec_json_map) (use w assms(2) in \<open>auto simp: map_wf_def list_all_iff dec_iface_json\<close>)
  have one: "dec_int w (JNum ''1'') 0 = Inr 1"
    using dec_int_show [of w 1 0] w assms(4) by (simp add: json_int_def show_int_1)
  show ?thesis
    unfolding dec_bundle_def assembled_members_def dec_struct.simps
    by (rule dec_req, rule dec_req, rule dec_req, rule dec_req, rule dec_req, rule dec_req)
      (use w assms(2-4) wg one in \<open>auto simp: zero_bundle_def norm_bundle_def dec_ptr_def\<close>)
qed

lemma Parse_steps:
  "decode_stream d = Some (v, r) \<Longrightarrow> checkRaw (to_any v) = None \<Longrightarrow> checkSurrogates d = None \<Longrightarrow>
   dec_bundle w v zero_bundle = Inr b \<Longrightarrow> \<not> dec_more r \<Longrightarrow> Parse w d = Inr b"
  by (simp add: Parse_def)

lemma build_complete:
  assumes "Validate ns (nd_NodeID node) b = None" and "bundle_wf w b"
    and "b_WG b = Some m" and "b_Stunmesh b = Some (nd_Stunmesh node)"
    and "nd_WG node = print_json (go_quote True) (json_map iface_json m)"
    and "length (marshal_bundle (norm_bundle b)) \<le> maxInnerBundleSize"
  shows "buildBundle w ns node (b_Timestamp b) = Inr (norm_bundle b)"
proof -
  let ?wg = "json_map iface_json m" and ?text = "nd_Stunmesh node"
  let ?kvs = "assembled_members ns (nd_NodeID node) (b_Timestamp b) ?wg ?text"
  let ?doc = "print_json (go_quote True) (JObj ?kvs)"
  have v: "valid_bundle ns (nd_NodeID node) b" using assms(1) by (simp add: Validate_None)
  then have f: "b_Namespace b = ns" "b_NodeID b = nd_NodeID node" "b_Version b = 1" "\<bar>b_Timestamp b\<bar> < 2 ^ 53"
    by (auto simp: valid_bundle_def)
  note wf = assms(2) [unfolded bundle_wf_def]
  have wg: "canon_tree ?wg"
    by (rule canon_json_map [of "iface_wf w"]) (use v wf assms(3) in \<open>auto simp: valid_bundle_def intro: canon_iface\<close>)
  have d5: "depth ?wg \<le> 5" using depth_json_map [of iface_json 4 m] depth_iface by (simp add: numeral_eq_Suc)
  then have dm: "depth ?wg \<le> max_depth" by (simp add: max_depth_def)
  have canon: "list_all (\<lambda>kv. valid_utf8 (fst kv) \<and> canon_tree (snd kv)) ?kvs"
    by (rule assembled_canon) (use wf f wg assms(4) in \<open>auto simp: opt_all_def\<close>)
  have jwf: "json_wf (JObj ?kvs)" using canon by (auto simp: list_all_iff intro: canon_tree_wf)
  have dec: "decode_stream ?doc = Some (JObj ?kvs, [])"
    using html.decode_stream_print [OF jwf depth_assembled [OF d5], of "[]"] by simp
  have raw: "checkRaw (to_any (JObj ?kvs)) = None"
  proof -
    have "to_any (JObj ?kvs) = JObj ?kvs" by (rule to_any_members [OF canon]) (simp add: assembled_members_def)
    moreover have "checkRaw (JObj ?kvs) = None" using canon by (auto simp: list_all_iff checkRaw_canon)
    ultimately show ?thesis by (simp only:)
  qed
  have "Parse w ?doc = Inr (norm_bundle b)"
    by (rule Parse_steps [OF dec raw checkSurrogates_members [OF canon]])
      (use dec_assembled [OF assms(2-4) f(3)] f(1, 2) in \<open>simp_all add: dec_more_def skip_ws_def\<close>)
  moreover have "\<not> isJSONNull (nd_WG node)"
    unfolding assms(5) by (rule isJSONNull_brace) (simp add: json_map_def)
  moreover have "Validate ns (nd_NodeID node) (norm_bundle b) = None"
    using valid_bundle_norm [OF v] by (simp add: Validate_None)
  ultimately show ?thesis
    using normalizeWG_marshalled [OF wg dm] compact_raw_print [OF canon_tree_wf [OF wg] dm] assms(5, 6)
    by (simp add: buildBundle_def assembledBundle_print)
qed

text \<open>The nodes of the witnesses.\<close>

definition ex_node :: Node where
  "ex_node = \<lparr>nd_NodeID = ''alpha'', nd_IdentityPublicKey = replicate 32 (CHR ''P''), nd_WG = ''{}'', nd_Stunmesh = ''x''\<rparr>"

lemma ex_facts:
  "Validate ''ns'' ''alpha'' ex_empty = None" "bundle_wf 64 ex_empty" "norm_bundle ex_empty = ex_empty"
  "print_json (go_quote True) (json_map iface_json []) = ''{}''"
  by (simp_all add: Validate_None valid_bundle_def ex_empty_def bundle_wf_def map_wf_def gm_ok_def fits_def norm_bundle_def
    norm_map_def sort_map_def json_map_def)

lemma ex_marshal_size: "length (marshal_bundle (norm_bundle ex_empty)) \<le> maxInnerBundleSize"
proof -
  have "length (marshal_bundle ex_empty) \<le> 200" by code_simp
  then show ?thesis by (simp add: ex_facts(3) maxInnerBundleSize_def maxDHTValueSize_def naclBoxOverhead_def)
qed

lemma ex_build: "buildBundle 64 ''ns'' ex_node 5 = Inr ex_empty"
  using build_complete [of "''ns''" ex_node ex_empty 64 "[]"] ex_facts ex_marshal_size
  by (simp add: ex_node_def) (simp add: ex_empty_def)

text \<open>C30: a node whose wg.yaml converts to the wg section of a valid bundle, with that bundle's stunmesh text
  and time, is given exactly that bundle (its maps in key order), unless it is too large.\<close>

theorem buildBundle_complete:
  assumes "Validate ns (nd_NodeID node) b = None" and "bundle_wf w b"
    and "b_WG b = Some m" and "b_Stunmesh b = Some (nd_Stunmesh node)"
    and "nd_WG node = print_json (go_quote True) (json_map iface_json m)"
    and "length (marshal_bundle (norm_bundle b)) \<le> maxInnerBundleSize"
  shows "buildBundle w ns node (b_Timestamp b) = Inr (norm_bundle b)"
  by (rule build_complete [OF assms])

theorem buildBundle_complete_witness:
  "buildBundle 64 ''ns'' ex_node 5 = Inr ex_empty"
  using buildBundle_complete [of "''ns''" ex_node ex_empty 64 "[]"] ex_facts ex_marshal_size
  by (simp add: ex_node_def) (simp add: ex_empty_def)

text \<open>A box with the overhead of nacl/box, for the witnesses.\<close>

definition pad_seal :: "string \<Rightarrow> string \<Rightarrow> Key \<Rightarrow> Key \<Rightarrow> string" where
  "pad_seal n m r s = replicate 16 (CHR ''x'') @ m"

definition pad_open :: "string \<Rightarrow> string \<Rightarrow> Key \<Rightarrow> Key \<Rightarrow> string option" where
  "pad_open c n s r = Some (drop 16 c)"

lemma pad_laws: "box_law pad_seal pad_open pub" "box_overhead pad_seal"
  by (simp_all add: box_law_def box_overhead_def pad_seal_def pad_open_def)

definition ex_sealed :: string where
  "ex_sealed = replicate 24 (CHR ''n'') @ replicate 16 (CHR ''x'') @ marshal_bundle ex_empty"

lemma ex_Seal: "Seal pad_seal (Some (replicate 24 (CHR ''n''))) (marshal_bundle ex_empty) rp sp = Some ex_sealed"
  by (simp add: Seal_def sealWithNonce_def pad_seal_def ex_sealed_def)

theorem built_value_fits_witness:
  "length (b64_encode ex_sealed) \<le> maxDHTValueSize"
  using built_value_fits [OF ex_build pad_laws(2) ex_Seal] by (simp add: nonceSize_def)

definition ex_client :: Client where
  "ex_client = \<lparr>c_baseURLs = [''u''], c_maxValues = 1, c_maxLineSize = maxLineSize\<rparr>"

theorem published_selected_witness:
  "\<exists>r. parseValues ex_client (stored_body [ex_sealed], True) ''u'' = Some r
    \<and> decryptAndSelect 32 pad_open (br_Values r) ''S'' ''R'' ''ns'' ''alpha'' = (Some ex_empty, no_stats)"
  using published_selected [OF ex_build, of 32 pad_seal pad_open id "replicate 24 (CHR ''n'')" "''R''" "''S''" ex_sealed
      "ex_client" "''u''"] pad_laws ex_Seal ex_facts(3)
  by (auto simp: nonceSize_def ex_node_def ex_client_def)

end
