(* ===== verification/ProvTree.thy ===== *)
theory ProvTree
  imports AgentConfig "HOL-Library.Word"
begin

text \<open>
  The provisioning tree as the controller sees it: the files of Effects together with the
  directories and the umask, the calls of package os on them, and what filepath.Join makes
  of a single name. A file's path is always a cleaned one (the code joins its paths).
\<close>

unbundle bit_operations_syntax

section \<open>The state\<close>

record tree =
  tr_fs :: fs
  tr_dirs :: "(string \<times> nat) list"
  tr_umask :: nat

abbreviation files_of :: "tree \<Rightarrow> string \<Rightarrow> File option" where
  "files_of t \<equiv> fs_files (tr_fs t)"

abbreviation hist_of :: "tree \<Rightarrow> (string \<Rightarrow> File option) list" where
  "hist_of t \<equiv> fs_hist (tr_fs t)"

text \<open>The directories are keyed by their cleaned path; / and . are among them.\<close>

definition is_dir :: "tree \<Rightarrow> string \<Rightarrow> bool" where
  "is_dir t p = (map_of (tr_dirs t) (filepath_Clean p) \<noteq> None)"

definition path_parents :: "string \<Rightarrow> string list" where
  "path_parents p = filter (\<lambda>q. q \<noteq> []) (map (\<lambda>i. take i p) (filter (\<lambda>i. p ! i = CHR ''/'') [0..<length p]))"

text \<open>Why a path does not exist: an ancestor is a file (ENOTDIR), or not (ENOENT).\<close>

definition missing_err :: "tree \<Rightarrow> string \<Rightarrow> oserr" where
  "missing_err t p =
     (if list_ex (\<lambda>q. files_of t q \<noteq> None) (path_parents p) then OSErr else NotExist)"

text \<open>The permission bits the umask leaves.\<close>

definition masked :: "tree \<Rightarrow> nat \<Rightarrow> nat" where
  "masked t mode = mode AND (511 XOR (tr_umask t AND 511))"

definition base_name :: "string \<Rightarrow> string" where
  "base_name p = rev (takeWhile (\<lambda>c. c \<noteq> CHR ''/'') (rev p))"

section \<open>Calls\<close>

definition on_files :: "(fs, 'e, 'a) step \<Rightarrow> (tree, 'e, 'a) step" where
  "on_files m t = (case m (tr_fs t) of (r, s) \<Rightarrow> (r, t\<lparr>tr_fs := s\<rparr>))"

definition touch :: "'a \<Rightarrow> (fs, oserr, 'a) step" where
  "touch x s = syscall OSErr (\<lambda>_. fs_files s) (fs_files s) x s"

definition t_ReadFile :: "string \<Rightarrow> (tree, oserr, string) step" where
  "t_ReadFile p t =
     (if is_dir t p then (Inl OSErr, t)
      else if files_of t p = None then (Inl (missing_err t p), t)
      else on_files (os_ReadFile p) t)"

text \<open>os.ReadDir, restricted to the entries that are directories (the callers drop the others).\<close>

definition subdirs :: "tree \<Rightarrow> string \<Rightarrow> string list" where
  "subdirs t dir = sort (filter (\<lambda>n. n \<notin> {[], ''.'', ''..''} \<and> map_of (tr_dirs t) (filepath_Join dir n) \<noteq> None)
     (map (base_name \<circ> fst) (filter (\<lambda>(p, _). filepath_Join dir (base_name p) = p) (tr_dirs t))))"

definition t_ReadDir :: "string \<Rightarrow> (tree, oserr, string list) step" where
  "t_ReadDir dir t =
     (if is_dir t dir then on_files (touch (subdirs t dir)) t
      else if files_of t (filepath_Clean dir) \<noteq> None then (Inl OSErr, t)
      else (Inl (missing_err t dir), t))"

text \<open>os.Stat: whether the path is a directory.\<close>

definition t_Stat :: "string \<Rightarrow> (tree, oserr, bool) step" where
  "t_Stat p t =
     (if is_dir t p then on_files (touch True) t
      else if files_of t (filepath_Clean p) \<noteq> None then on_files (touch False) t
      else (Inl (missing_err t p), t))"

text \<open>os.OpenFile with O_CREATE and O_EXCL.\<close>

definition t_OpenExcl :: "string \<Rightarrow> nat \<Rightarrow> (tree, oserr, unit) step" where
  "t_OpenExcl p mode t =
     (if files_of t p \<noteq> None \<or> is_dir t p then (Inl Exist, t)
      else if \<not> is_dir t (filepath_Dir p) then (Inl (missing_err t p), t)
      else on_files (\<lambda>s. syscall OSErr (\<lambda>_. fs_files s)
             ((fs_files s)(p \<mapsto> \<lparr>f_data = [], f_mode = masked t mode\<rparr>)) () s) t)"

definition t_Mkdir :: "string \<Rightarrow> nat \<Rightarrow> (tree, oserr, unit) step" where
  "t_Mkdir p mode t =
     (if files_of t p \<noteq> None \<or> is_dir t p then (Inl Exist, t)
      else if \<not> is_dir t (filepath_Dir p) then (Inl (missing_err t p), t)
      else (case on_files (touch ()) t of (Inl e, t') \<Rightarrow> (Inl e, t')
        | (Inr _, t') \<Rightarrow> (Inr (), t'\<lparr>tr_dirs := (p, masked t mode) # tr_dirs t'\<rparr>)))"

text \<open>os.MkdirAll: the missing directories from the top.\<close>

fun mkdirs :: "nat \<Rightarrow> string list \<Rightarrow> (tree, oserr, unit) step" where
  "mkdirs mode [] t = (Inr (), t)"
| "mkdirs mode (q # qs) t =
     (if is_dir t q then mkdirs mode qs t else andThen (t_Mkdir q mode) (\<lambda>_. mkdirs mode qs) t)"

definition t_MkdirAll :: "string \<Rightarrow> nat \<Rightarrow> (tree, oserr, unit) step" where
  "t_MkdirAll p mode = mkdirs mode (path_parents (filepath_Clean p) @ [filepath_Clean p])"

definition t_ChmodDir :: "string \<Rightarrow> nat \<Rightarrow> (tree, oserr, unit) step" where
  "t_ChmodDir p mode t =
     (case on_files (touch ()) t of (Inl e, t') \<Rightarrow> (Inl e, t')
      | (Inr _, t') \<Rightarrow> (Inr (), t'\<lparr>tr_dirs := AList.update (filepath_Clean p) mode (tr_dirs t')\<rparr>))"

section \<open>Joining one name\<close>

lemma split_on_append: "split_on c (a @ c # b) = split_on c a @ split_on c b"
proof (induction a)
  case (Cons x a)
  have "split_on c s \<noteq> []" for s by (cases s) (auto split: list.splits)
  then show ?case using Cons by (cases "split_on c a") auto
qed simp

lemma split_on_none: "c \<notin> set s \<Longrightarrow> split_on c s = [s]"
  by (induction s) auto

lemma clean_comps_append: "clean_comps r st (xs @ ys) = clean_comps r (clean_comps r st xs) ys"
  by (induction r st xs rule: clean_comps.induct) auto

lemma join_with_append: "xs \<noteq> [] \<Longrightarrow> join_with s (xs @ [x]) = join_with s xs @ s @ x"
  by (induction s xs rule: join_with.induct) auto

text \<open>A name that is one component: not empty, not . or .., no slash.\<close>

definition plain_name :: "string \<Rightarrow> bool" where
  "plain_name n = (n \<notin> {[], ''.'', ''..''} \<and> CHR ''/'' \<notin> set n)"

text \<open>The directory with its separator.\<close>

definition under :: "string \<Rightarrow> string" where
  "under base = (let d = filepath_Clean base in
     if d = ''/'' then ''/'' else if d = ''.'' then [] else d @ ''/'')"

lemma join_with_Nil: "join_with s xs = [] \<Longrightarrow> [] \<notin> set xs \<Longrightarrow> xs = []"
  by (induction s xs rule: join_with.induct) auto

text \<open>What holds of every component that Clean keeps.\<close>

lemma tl_all: "\<forall>x \<in> set xs. P x \<Longrightarrow> \<forall>x \<in> set (tl xs). P x"
  by (cases xs) auto

lemma clean_comps_all:
  assumes "\<forall>x \<in> set st. P x" and "\<forall>x \<in> set cs. x \<noteq> [] \<longrightarrow> x \<noteq> ''.'' \<longrightarrow> P x"
  shows "\<forall>x \<in> set (clean_comps r st cs). P x"
  using assms
proof (induction r st cs rule: clean_comps.induct)
  case (2 r st c cs)
  have tl: "\<forall>x \<in> set (tl st). P x" using 2(6) by (rule tl_all)
  show ?case using 2 tl by auto
qed simp

lemma join_dot: "join_with ''/'' xs = ''.'' \<Longrightarrow> [] \<notin> set xs \<Longrightarrow> xs = [''.'']"
  by (induction "''/''" xs rule: join_with.induct) (auto simp: append_eq_Cons_conv)

lemma join_slash: "join_with ''/'' xs = ''/'' \<Longrightarrow> [] \<notin> set xs \<Longrightarrow> xs = [''/'']"
  by (induction "''/''" xs rule: join_with.induct) (auto simp: append_eq_Cons_conv)

lemma split_on_parts: "x \<in> set (split_on c s) \<Longrightarrow> c \<notin> set x"
  by (induction s arbitrary: x) (auto split: list.splits if_splits)

lemma under_cases:
  "j = (if r then CHR ''/'' # q @ ''/'' @ n else q @ ''/'' @ n) \<Longrightarrow> filepath_Clean base = (if r then CHR ''/'' # q else q) \<Longrightarrow>
   q \<noteq> [] \<Longrightarrow> q \<noteq> ''.'' \<Longrightarrow> q \<noteq> ''/'' \<Longrightarrow> j = under base @ n"
  by (auto simp: under_def Let_def)

lemma Join_plain:
  assumes "plain_name n"
  shows "filepath_Join base n = under base @ n"
proof (cases "base = []")
  case True
  then show ?thesis using assms
    by (simp add: filepath_Join_def under_def filepath_Clean_def plain_name_def split_on_none Let_def has_prefix_def)
      (cases n; auto)
next
  case False
  let ?r = "has_prefix base ''/''" and ?st = "clean_comps (has_prefix base ''/'') [] (split_on (CHR ''/'') base)"
  have p: "has_prefix (base @ ''/'' @ n) ''/'' = ?r" using False by (cases base) (simp_all add: has_prefix_def)
  have c: "clean_comps ?r [] (split_on (CHR ''/'') (base @ ''/'' @ n)) = n # ?st"
    using assms split_on_append [of "CHR ''/''" base n] by (simp add: clean_comps_append plain_name_def split_on_none)
  have "\<forall>x \<in> set ?st. x \<noteq> [] \<and> x \<noteq> ''.'' \<and> CHR ''/'' \<notin> set x"
    by (rule clean_comps_all) (auto dest: split_on_parts)
  then have ne: "[] \<notin> set ?st" and dot: "''.'' \<notin> set ?st" and sl: "''/'' \<notin> set ?st" by auto
  show ?thesis
  proof (cases "?st = []")
    case True
    then show ?thesis using False p c assms
      by (auto simp: filepath_Join_def under_def filepath_Clean_def Let_def plain_name_def)
  next
    case st: False
    let ?q = "join_with ''/'' (rev ?st)"
    have q: "?q \<noteq> []" using join_with_Nil [of "''/''" "rev ?st"] ne st by auto
    have qd: "?q \<noteq> ''.''" using join_dot [of "rev ?st"] ne dot st by auto
    have qs: "?q \<noteq> ''/''" using join_slash [of "rev ?st"] ne sl st by auto
    have j: "join_with ''/'' (rev (n # ?st)) = ?q @ ''/'' @ n" using st by (simp add: join_with_append)
    have "filepath_Join base n = (if ?r then CHR ''/'' # ?q @ ''/'' @ n else ?q @ ''/'' @ n)"
      using False unfolding filepath_Join_def filepath_Clean_def Let_def p c j by simp
    moreover have "filepath_Clean base = (if ?r then CHR ''/'' # ?q else ?q)"
      using q by (cases ?r) (simp_all add: filepath_Clean_def Let_def)
    ultimately show ?thesis by (rule under_cases [OF _ _ q qd qs])
  qed
qed

lemma Join_inj: "plain_name m \<Longrightarrow> plain_name n \<Longrightarrow> filepath_Join d m = filepath_Join d n \<longleftrightarrow> m = n"
  by (simp add: Join_plain)

section \<open>What holds of the files at every moment\<close>

type_synonym files = "string \<Rightarrow> File option"

text \<open>Every state of the files from \<open>t\<close> to \<open>t'\<close>, the last one included, is related to the first one.\<close>

definition during :: "(files \<Rightarrow> files \<Rightarrow> bool) \<Rightarrow> tree \<Rightarrow> tree \<Rightarrow> bool" where
  "during R t t' = (\<exists>added. hist_of t' = hist_of t @ added \<and> (\<forall>f \<in> set added \<union> {files_of t'}. R (files_of t) f))"

lemma during_last: "during R t t' \<Longrightarrow> R (files_of t) (files_of t')"
  by (auto simp: during_def)

lemma during_seen: "during R t t' \<Longrightarrow> f \<in> set (hist_of t') - set (hist_of t) \<union> {files_of t'} \<Longrightarrow> R (files_of t) f"
  by (auto simp: during_def)

text \<open>The contract of the steps on the tree: a preorder that all their states respect.\<close>

locale file_order =
  fixes R :: "files \<Rightarrow> files \<Rightarrow> bool"
  assumes refl [simp]: "R f f" and trans: "R f g \<Longrightarrow> R g h \<Longrightarrow> R f h"
begin

definition every :: "(tree, 'e, 'a) step \<Rightarrow> bool" where
  "every m = (\<forall>t r t'. m t = (r, t') \<longrightarrow> during R t t')"

lemma everyI: "(\<And>t r t'. m t = (r, t') \<Longrightarrow> during R t t') \<Longrightarrow> every m"
  by (simp add: every_def)

lemma everyD: "every m \<Longrightarrow> m t = (r, t') \<Longrightarrow> during R t t'"
  by (auto simp: every_def)

lemma during_refl [simp]: "during R t t"
  by (simp add: during_def)

lemma during_trans:
  assumes "during R t u" and "during R u v"
  shows "during R t v"
proof -
  obtain a where a: "hist_of u = hist_of t @ a" "\<forall>f \<in> set a \<union> {files_of u}. R (files_of t) f"
    using assms(1) by (auto simp: during_def)
  obtain b where b: "hist_of v = hist_of u @ b" "\<forall>f \<in> set b \<union> {files_of v}. R (files_of u) f"
    using assms(2) by (auto simp: during_def)
  have "R (files_of t) f" if "f \<in> set b \<union> {files_of v}" for f
    using a(2) b(2) that trans by blast
  then show ?thesis using a b by (auto simp: during_def)
qed

lemma every_ret [intro, simp]: "every (Pair z)" "every (ret x)" "every (fail_with e)"
  by (auto intro: everyI)

lemma every_andThen [intro]:
  assumes "every m" and "\<And>x. every (f x)"
  shows "every (andThen m f)"
proof (rule everyI)
  fix t r t' assume "andThen m f t = (r, t')"
  then show "during R t t'"
    using assms by (auto simp: andThen_def split: prod.splits sum.splits intro: during_trans everyD)
qed

lemma every_wrap [intro]: "every m \<Longrightarrow> every (wrap g m)"
  by (rule everyI) (auto simp: wrap_def split: prod.splits sum.splits intro: everyD)

text \<open>A call whose outcomes are all related to the state it started from.\<close>

lemma during_syscall:
  assumes "on_files (\<lambda>s. syscall e bad good x s) t = (r, t')"
    and "R (files_of t) good" and "\<And>n. R (files_of t) (bad n)"
  shows "during R t t'"
proof -
  obtain s where s: "syscall e bad good x (tr_fs t) = (r, s)" "t' = t\<lparr>tr_fs := s\<rparr>"
    using assms(1) by (auto simp: on_files_def split: prod.splits)
  from s(1) show ?thesis by (rule syscall_cases) (use s(2) assms(2, 3) in \<open>auto simp: during_def\<close>)
qed

lemma every_touch [intro]: "every (on_files (touch x))"
proof (rule everyI)
  fix t r t' assume "on_files (touch x) t = (r, t')"
  then have "on_files (\<lambda>s. syscall OSErr (\<lambda>_. fs_files (tr_fs t)) (fs_files (tr_fs t)) x s) t = (r, t')"
    by (simp add: on_files_def touch_def)
  then show "during R t t'" by (rule during_syscall) simp_all
qed

lemma every_ReadFile [intro]: "every (t_ReadFile p)"
proof (rule everyI)
  fix t r t' assume a: "t_ReadFile p t = (r, t')"
  show "during R t t'"
  proof (cases "is_dir t p \<or> files_of t p = None")
    case False
    then obtain f where "files_of t p = Some f" by auto
    then have "on_files (touch (f_data f)) t = (r, t')"
      using a False by (simp add: t_ReadFile_def on_files_def os_ReadFile_def touch_def)
    then show ?thesis using every_touch everyD by blast
  qed (use a in \<open>auto simp: t_ReadFile_def split: if_splits\<close>)
qed

lemma every_ReadDir [intro]: "every (t_ReadDir p)"
  using everyD [OF every_touch] by (intro everyI) (auto simp: t_ReadDir_def split: if_splits)

lemma every_Stat [intro]: "every (t_Stat p)"
  using everyD [OF every_touch] by (intro everyI) (auto simp: t_Stat_def split: if_splits)

lemma during_dirs [simp]: "during R t (t'\<lparr>tr_dirs := d\<rparr>) = during R t t'" "during R (t\<lparr>tr_dirs := d\<rparr>) t' = during R t t'"
  by (simp_all add: during_def)

lemma every_Mkdir [intro]: "every (t_Mkdir p mode)"
proof (rule everyI)
  fix t r t' assume a: "t_Mkdir p mode t = (r, t')"
  obtain r1 t1 where 1: "on_files (touch ()) t = (r1, t1)" by fastforce
  then have "during R t t1" using every_touch everyD by blast
  then show "during R t t'" using a 1 by (auto simp: t_Mkdir_def split: if_splits sum.splits)
qed

lemma every_mkdirs [intro]: "every (mkdirs mode qs)"
proof (induction qs)
  case Nil
  show ?case by (rule everyI) simp
next
  case (Cons q qs)
  have "every (andThen (t_Mkdir q mode) (\<lambda>_. mkdirs mode qs))" using Cons by blast
  then show ?case using Cons by (intro everyI) (auto split: if_splits intro: everyD)
qed

lemma every_MkdirAll [intro]: "every (t_MkdirAll p mode)"
  unfolding t_MkdirAll_def by (rule every_mkdirs)

lemma every_ChmodDir [intro]: "every (t_ChmodDir p mode)"
proof (rule everyI)
  fix t r t' assume a: "t_ChmodDir p mode t = (r, t')"
  obtain r1 t1 where 1: "on_files (touch ()) t = (r1, t1)" by fastforce
  then have "during R t t1" using every_touch everyD by blast
  then show "during R t t'" using a 1 by (auto simp: t_ChmodDir_def split: sum.splits)
qed

end

end
