(* ===== verification/Store.thy ===== *)
theory Store
  imports ProvTree BuildBundle
begin

text \<open>
  internal/store: reading the provisioning tree (deployments and nodes) and the two write
  primitives that never overwrite. The conversion of YAML to JSON is the parameter \<open>yaml\<close>, as in
  AgentConfig. Every path an error names is kept, the texts are dropped.
\<close>

datatype serr = ErrNotExist string | ErrMalformed string | ErrInvalidKey string | ErrInvalidName string
  | ErrExists string | ErrIO string

definition of_result :: "'e + 'a \<Rightarrow> ('s, 'e, 'a) step" where
  "of_result r s = (r, s)"

section \<open>Names\<close>

definition filepath_Base :: "string \<Rightarrow> string" where
  "filepath_Base p =
     (if p = [] then ''.''
      else (let q = rev (dropWhile (\<lambda>c. c = CHR ''/'') (rev p)) in if q = [] then ''/'' else base_name q))"

definition ResolveName :: "string \<Rightarrow> string \<Rightarrow> serr + string" where
  "ResolveName base name =
     (if name = [] \<or> name = ''.'' \<or> name = ''..'' \<or> has_prefix name ''.'' then Inl (ErrInvalidName name)
      else if CHR ''/'' \<in> set name then Inl (ErrInvalidName name)
      else if filepath_Base name \<noteq> name then Inl (ErrInvalidName name)
      else Inr (filepath_Join base name))"

section \<open>Listing\<close>

definition listDirs :: "string \<Rightarrow> (tree, serr, string list) step" where
  "listDirs dir =
     andThen (wrap (\<lambda>e. if e = NotExist then ErrNotExist dir else ErrIO dir) (t_ReadDir dir))
       (\<lambda>names. ret (filter (\<lambda>n. \<not> has_prefix n ''.'') names))"

definition Namespaces :: "string \<Rightarrow> (tree, serr, string list) step" where
  "Namespaces base = listDirs base"

definition Nodes :: "string \<Rightarrow> string \<Rightarrow> (tree, serr, string list) step" where
  "Nodes base namespace =
     andThen (of_result (ResolveName base namespace)) (\<lambda>nsDir. listDirs (filepath_Join nsDir ''nodes''))"

section \<open>Reading a file and a key\<close>

definition readFile :: "string \<Rightarrow> (tree, serr, string) step" where
  "readFile path = wrap (\<lambda>e. if e = NotExist then ErrNotExist path else ErrIO path) (t_ReadFile path)"

definition readKey :: "string \<Rightarrow> (tree, serr, Key) step" where
  "readKey path =
     andThen (readFile path)
       (\<lambda>data. case ParseKey data of Inl _ \<Rightarrow> fail_with (ErrInvalidKey path) | Inr key \<Rightarrow> ret key)"

section \<open>Deployments\<close>

record BackendConfig =
  bc_Type :: string
  bc_Proxies :: "string list"

record Deployment =
  dp_Namespace :: string
  dp_Backend :: BackendConfig
  dp_RepublishInterval :: int
  dp_ControllerPrivateKey :: Key
  dp_ControllerPublicKey :: Key

record provdYAML =
  py_Proxies :: "string list option"
  py_Plugins :: "PluginSpec gomap option"
  py_UsePlugin :: string
  py_RepublishInterval :: string

text \<open>json.Unmarshal into a struct: a key that names no field is skipped.\<close>

fun dec_members_any :: "string list \<Rightarrow> (string \<Rightarrow> 'r decoder) \<Rightarrow> (string \<times> json) list \<Rightarrow> 'r \<Rightarrow> derr + 'r" where
  "dec_members_any names set_field [] r = Inr r"
| "dec_members_any names set_field ((k, v) # kvs) r =
     (case find_field names k of None \<Rightarrow> dec_members_any names set_field kvs r
      | Some f \<Rightarrow> bindE (set_field f v r) (dec_members_any names set_field kvs))"

fun dec_struct_any :: "string list \<Rightarrow> (string \<Rightarrow> 'r decoder) \<Rightarrow> 'r decoder" where
  "dec_struct_any names set_field JNull r = Inr r"
| "dec_struct_any names set_field (JObj kvs) r = dec_members_any names set_field kvs r"
| "dec_struct_any names set_field v r = Inl DType"

definition dec_plugin_any :: "PluginSpec decoder" where
  "dec_plugin_any = dec_struct_any [''type'', ''proxies''] (\<lambda>f v r.
     if f = ''type'' then bindE (dec_string v (pl_Type r)) (\<lambda>x. Inr (r\<lparr>pl_Type := x\<rparr>))
     else bindE (dec_slice dec_string [] v (pl_Proxies r)) (\<lambda>x. Inr (r\<lparr>pl_Proxies := x\<rparr>)))"

definition dec_provdYAML :: "provdYAML decoder" where
  "dec_provdYAML = dec_struct_any [''proxies'', ''plugins'', ''use_plugin'', ''republish_interval''] (\<lambda>f v r.
     if f = ''proxies'' then bindE (dec_slice dec_string [] v (py_Proxies r)) (\<lambda>x. Inr (r\<lparr>py_Proxies := x\<rparr>))
     else if f = ''plugins'' then
       bindE (dec_map dec_plugin_any \<lparr>pl_Type = [], pl_Proxies = None\<rparr> v (py_Plugins r)) (\<lambda>x. Inr (r\<lparr>py_Plugins := x\<rparr>))
     else if f = ''use_plugin'' then bindE (dec_string v (py_UsePlugin r)) (\<lambda>x. Inr (r\<lparr>py_UsePlugin := x\<rparr>))
     else bindE (dec_string v (py_RepublishInterval r)) (\<lambda>x. Inr (r\<lparr>py_RepublishInterval := x\<rparr>)))"

definition zero_provdYAML :: provdYAML where
  "zero_provdYAML = \<lparr>py_Proxies = None, py_Plugins = None, py_UsePlugin = [], py_RepublishInterval = []\<rparr>"

definition backendConfig :: "provdYAML \<Rightarrow> string \<Rightarrow> serr + BackendConfig" where
  "backendConfig p provdPath =
     (case Resolve \<lparr>sel_Plugins = py_Plugins p, sel_UsePlugin = py_UsePlugin p, sel_Proxies = py_Proxies p\<rparr> of
        Inl _ \<Rightarrow> Inl (ErrMalformed provdPath)
      | Inr resolved \<Rightarrow> Inr \<lparr>bc_Type = res_Type resolved, bc_Proxies = res_Proxies resolved\<rparr>)"

text \<open>What ReadDeployment makes of the bytes of provd.yaml: the backend and the interval.\<close>

definition provd_settings :: "(string \<Rightarrow> string option) \<Rightarrow> string \<Rightarrow> string \<Rightarrow> serr + BackendConfig \<times> int" where
  "provd_settings yaml provdPath data =
     (case yaml data of None \<Rightarrow> Inl (ErrMalformed provdPath)
      | Some j \<Rightarrow> (case unmarshal j of None \<Rightarrow> Inl (ErrMalformed provdPath)
      | Some v \<Rightarrow> (case dec_provdYAML v zero_provdYAML of Inl _ \<Rightarrow> Inl (ErrMalformed provdPath)
      | Inr p \<Rightarrow> (case backendConfig p provdPath of Inl e \<Rightarrow> Inl e
      | Inr b \<Rightarrow> (case ParseDuration (py_RepublishInterval p) of None \<Rightarrow> Inl (ErrMalformed provdPath)
      | Some interval \<Rightarrow> if interval \<le> 0 then Inl (ErrMalformed provdPath) else Inr (b, interval))))))"

definition ReadDeployment :: "(string \<Rightarrow> string option) \<Rightarrow> string \<Rightarrow> string \<Rightarrow> (tree, serr, Deployment) step" where
  "ReadDeployment yaml base namespace =
     andThen (of_result (ResolveName base namespace)) (\<lambda>nsDir.
     andThen (readFile (filepath_Join nsDir ''provd.yaml'')) (\<lambda>data.
     andThen (of_result (provd_settings yaml (filepath_Join nsDir ''provd.yaml'') data)) (\<lambda>(b, interval).
     andThen (readKey (filepath_Join nsDir ''controller.key'')) (\<lambda>priv.
     andThen (readKey (filepath_Join nsDir ''controller.pub'')) (\<lambda>pub.
     ret \<lparr>dp_Namespace = namespace, dp_Backend = b, dp_RepublishInterval = interval,
          dp_ControllerPrivateKey = priv, dp_ControllerPublicKey = pub\<rparr>)))))"

section \<open>Nodes\<close>

definition ReadNode :: "(string \<Rightarrow> string option) \<Rightarrow> string \<Rightarrow> string \<Rightarrow> string \<Rightarrow> (tree, serr, Node) step" where
  "ReadNode yaml base namespace nodeID =
     andThen (of_result (ResolveName base namespace)) (\<lambda>nsDir.
     andThen (of_result (ResolveName (filepath_Join nsDir ''nodes'') nodeID)) (\<lambda>nodeDir.
     andThen (readKey (filepath_Join nodeDir ''identity.pub'')) (\<lambda>identity.
     andThen (readFile (filepath_Join nodeDir ''wg.yaml'')) (\<lambda>wgYAML.
     andThen (of_result (case yaml wgYAML of None \<Rightarrow> Inl (ErrMalformed (filepath_Join nodeDir ''wg.yaml''))
                         | Some j \<Rightarrow> Inr j)) (\<lambda>wgJSON.
     andThen (readFile (filepath_Join nodeDir ''stunmesh.yaml'')) (\<lambda>stunmesh.
     ret \<lparr>nd_NodeID = nodeID, nd_IdentityPublicKey = identity, nd_WG = wgJSON, nd_Stunmesh = stunmesh\<rparr>))))))"

section \<open>Write primitives\<close>

text \<open>The calls on the file that WriteFile has created: write and close, then chmod; it is removed when one fails.\<close>

definition fill_new :: "string \<Rightarrow> string \<Rightarrow> nat \<Rightarrow> (tree, serr, unit) step" where
  "fill_new path data mode t =
     (case on_files (os_Write path data) t of (rw, t1) \<Rightarrow>
      (case on_files (os_Close path) t1 of (rc, t2) \<Rightarrow>
         if \<not> is_ok rw \<or> \<not> is_ok rc then (Inl (ErrIO path), snd (on_files (os_Remove path) t2))
         else (case on_files (os_Chmod path mode) t2 of
             (Inl _, t3) \<Rightarrow> (Inl (ErrIO path), snd (on_files (os_Remove path) t3))
           | (Inr _, t3) \<Rightarrow> (Inr (), t3))))"

definition WriteFile :: "string \<Rightarrow> string \<Rightarrow> nat \<Rightarrow> (tree, serr, unit) step" where
  "WriteFile path data mode =
     andThen (wrap (\<lambda>e. if e = Exist then ErrExists path else ErrIO path) (t_OpenExcl path mode))
       (\<lambda>_. fill_new path data mode)"

definition CreateDir :: "string \<Rightarrow> nat \<Rightarrow> (tree, serr, unit) step" where
  "CreateDir path mode t =
     (case t_Stat path t of
        (Inr d, t1) \<Rightarrow> (if d then Inr () else Inl (ErrIO path), t1)
      | (Inl e, t1) \<Rightarrow>
          if e \<noteq> NotExist then (Inl (ErrIO path), t1)
          else andThen (wrap (\<lambda>_. ErrIO path) (t_MkdirAll path mode))
                 (\<lambda>_. wrap (\<lambda>_. ErrIO path) (t_ChmodDir path mode)) t1)"

section \<open>Names: which are accepted, and where they lead\<close>

lemma base_name_plain: "CHR ''/'' \<notin> set n \<Longrightarrow> base_name n = n"
proof -
  assume "CHR ''/'' \<notin> set n"
  then have eq: "takeWhile (\<lambda>c. c \<noteq> CHR ''/'') (rev n) = rev n" by (subst takeWhile_eq_all_conv) auto
  show ?thesis unfolding base_name_def eq by simp
qed

lemma filepath_Base_plain: "n \<noteq> [] \<Longrightarrow> CHR ''/'' \<notin> set n \<Longrightarrow> filepath_Base n = n"
proof -
  assume n: "n \<noteq> []" "CHR ''/'' \<notin> set n"
  then have "dropWhile (\<lambda>c. c = CHR ''/'') (rev n) = rev n" by (cases "rev n") auto
  then show ?thesis using n by (simp add: filepath_Base_def base_name_plain)
qed

definition visible_name :: "string \<Rightarrow> bool" where
  "visible_name n = (n \<noteq> [] \<and> hd n \<noteq> CHR ''.'' \<and> CHR ''/'' \<notin> set n)"

lemma has_prefix_dot: "has_prefix n ''.'' \<longleftrightarrow> n \<noteq> [] \<and> hd n = CHR ''.''"
  by (cases n) (auto simp: has_prefix_def)

lemma visible_plain: "visible_name n \<Longrightarrow> plain_name n"
  by (auto simp: visible_name_def plain_name_def)

lemma ResolveName_eq:
  "ResolveName base n = (if visible_name n then Inr (under base @ n) else Inl (ErrInvalidName n))"
proof (cases "visible_name n")
  case True
  then show ?thesis using Join_plain [OF visible_plain [OF True]] filepath_Base_plain [of n]
    by (auto simp: ResolveName_def visible_name_def has_prefix_dot)
qed (auto simp: ResolveName_def visible_name_def has_prefix_dot)

lemma ResolveName_Inr: "ResolveName base n = Inr p \<longleftrightarrow> visible_name n \<and> p = filepath_Join base n"
  using Join_plain [OF visible_plain, of n base] by (auto simp: ResolveName_eq)

text \<open>A namespace or node name is accepted exactly when it is not empty, not hidden and has no slash;
  the path is then the name directly under the (cleaned) directory, so no name leads out of the tree and
  two names never share a path.\<close>

theorem ResolveName_child:
  "ResolveName base n = (if n \<noteq> [] \<and> hd n \<noteq> CHR ''.'' \<and> CHR ''/'' \<notin> set n
     then Inr (under base @ n) else Inl (ErrInvalidName n))"
  using ResolveName_eq [of base n] by (simp add: visible_name_def)

section \<open>Reading leaves the tree alone\<close>

definition quiet :: "tree \<Rightarrow> tree \<Rightarrow> bool" where
  "quiet t t' = (files_of t' = files_of t \<and> tr_dirs t' = tr_dirs t \<and> tr_umask t' = tr_umask t
     \<and> (fs_faults (tr_fs t) = [] \<longrightarrow> fs_faults (tr_fs t') = []))"

text \<open>Two trees with the same directories whose files agree on a set of paths.\<close>

definition agree :: "string set \<Rightarrow> tree \<Rightarrow> tree \<Rightarrow> bool" where
  "agree A t u = ((\<forall>p \<in> A. files_of t p = files_of u p) \<and> tr_dirs t = tr_dirs u
     \<and> fs_faults (tr_fs t) = [] \<and> fs_faults (tr_fs u) = [])"

text \<open>A step that changes nothing and whose result, when no call fails, depends only on the files of \<open>A\<close>
  and on the directories.\<close>

definition reads_on :: "string set \<Rightarrow> (tree, 'e, 'a) step \<Rightarrow> bool" where
  "reads_on A m = ((\<forall>t. quiet t (snd (m t))) \<and> (\<forall>t u. agree A t u \<longrightarrow> fst (m t) = fst (m u)))"

lemma quiet_refl [simp]: "quiet t t"
  by (simp add: quiet_def)

lemma quiet_trans: "quiet t u \<Longrightarrow> quiet u v \<Longrightarrow> quiet t v"
  by (simp add: quiet_def)

lemma agree_quiet: "agree A t u \<Longrightarrow> quiet t t' \<Longrightarrow> quiet u u' \<Longrightarrow> agree A t' u'"
  by (simp add: agree_def quiet_def)

lemma reads_quiet: "reads_on A m \<Longrightarrow> m t = (r, t') \<Longrightarrow> quiet t t'"
  unfolding reads_on_def by (metis snd_conv)

lemma reads_same: "reads_on A m \<Longrightarrow> agree A t u \<Longrightarrow> m t = (r, t') \<Longrightarrow> m u = (r', u') \<Longrightarrow> r = r'"
  unfolding reads_on_def by (metis fst_conv)

lemma reads_onI:
  assumes "\<And>t r t'. m t = (r, t') \<Longrightarrow> quiet t t'"
    and "\<And>t u r t' r' u'. agree A t u \<Longrightarrow> m t = (r, t') \<Longrightarrow> m u = (r', u') \<Longrightarrow> r = r'"
  shows "reads_on A m"
  unfolding reads_on_def using assms by (metis prod.collapse)

lemma reads_ret [intro, simp]: "reads_on A (Pair z)" "reads_on A (ret x)" "reads_on A (fail_with e)" "reads_on A (of_result y)"
  by (auto intro: reads_onI simp: of_result_def)

lemma reads_wrap [intro]: "reads_on A m \<Longrightarrow> reads_on A (wrap g m)"
  by (rule reads_onI) (auto simp: wrap_def split: prod.splits sum.splits dest: reads_quiet reads_same)

lemma reads_andThen [intro]:
  assumes "reads_on A m" and "\<And>x. reads_on A (f x)"
  shows "reads_on A (andThen m f)"
proof (rule reads_onI)
  fix t r t' assume "andThen m f t = (r, t')"
  then show "quiet t t'"
    by (auto simp: andThen_def split: prod.splits sum.splits
        intro: quiet_trans reads_quiet [OF assms(1)] reads_quiet [OF assms(2)])
next
  fix t u r t' r' u' assume ag: "agree A t u" and run: "andThen m f t = (r, t')" "andThen m f u = (r', u')"
  obtain x t1 y u1 where 1: "m t = (x, t1)" "m u = (y, u1)" by fastforce
  have "x = y" using reads_same [OF assms(1) ag 1] .
  moreover have "agree A t1 u1" using agree_quiet [OF ag] reads_quiet [OF assms(1)] 1 by blast
  ultimately show "r = r'"
    using run 1 reads_same [OF assms(2)] by (auto simp: andThen_def split: sum.splits)
qed

lemma touch_quiet: "on_files (touch x) t = (r, t') \<Longrightarrow> quiet t t' \<and> (fs_faults (tr_fs t) = [] \<longrightarrow> r = Inr x)"
  by (auto simp: on_files_def touch_def quiet_def syscall_def Let_def split: prod.splits list.splits option.splits if_splits)

lemmas touch_still = touch_quiet [THEN conjunct1]

lemma ReadFile_touch:
  "t_ReadFile p t = (r, t') \<Longrightarrow> \<not> is_dir t p \<Longrightarrow> files_of t p = Some f \<Longrightarrow> on_files (touch (f_data f)) t = (r, t')"
  by (simp add: t_ReadFile_def on_files_def os_ReadFile_def touch_def)

lemma reads_ReadFile [intro]:
  assumes "insert p (set (path_parents p)) \<subseteq> A"
  shows "reads_on A (t_ReadFile p)"
proof (rule reads_onI)
  fix t r t' assume run: "t_ReadFile p t = (r, t')"
  show "quiet t t'"
  proof (cases "is_dir t p \<or> files_of t p = None")
    case False
    then show ?thesis using touch_still [OF ReadFile_touch [OF run]] by auto
  qed (use run in \<open>auto simp: t_ReadFile_def split: if_splits\<close>)
next
  fix t u r t' r' u' assume ag: "agree A t u" and run: "t_ReadFile p t = (r, t')" "t_ReadFile p u = (r', u')"
  have f: "files_of t p = files_of u p" and d: "is_dir t p = is_dir u p" and m: "missing_err t p = missing_err u p"
    using ag assms by (auto simp: agree_def is_dir_def missing_err_def list_ex_iff subset_iff)
  show "r = r'"
  proof (cases "is_dir t p \<or> files_of t p = None")
    case True
    then show ?thesis using run f d m by (auto simp: t_ReadFile_def split: if_splits)
  next
    case False
    then obtain x where x: "files_of t p = Some x" by auto
    then have "r = Inr (f_data x)" "r' = Inr (f_data x)"
      using touch_quiet [OF ReadFile_touch [OF run(1)]] touch_quiet [OF ReadFile_touch [OF run(2)]] False f d ag
      by (auto simp: agree_def)
    then show ?thesis by simp
  qed
qed

lemma reads_readFile [intro]: "insert p (set (path_parents p)) \<subseteq> A \<Longrightarrow> reads_on A (readFile p)"
  unfolding readFile_def by blast

lemma reads_readKey [intro]: "insert p (set (path_parents p)) \<subseteq> A \<Longrightarrow> reads_on A (readKey p)"
  unfolding readKey_def by (intro reads_andThen reads_readFile) (auto split: sum.splits)

lemma reads_listDirs [intro]:
  assumes "insert (filepath_Clean d) (set (path_parents d)) \<subseteq> A"
  shows "reads_on A (listDirs d)"
proof -
  have "reads_on A (t_ReadDir d)"
  proof (rule reads_onI)
    fix t r t' assume "t_ReadDir d t = (r, t')"
    then show "quiet t t'" by (auto simp: t_ReadDir_def intro: touch_still split: if_splits)
  next
    fix t u r t' r' u' assume ag: "agree A t u" and run: "t_ReadDir d t = (r, t')" "t_ReadDir d u = (r', u')"
    have e: "is_dir t d = is_dir u d" "subdirs t d = subdirs u d" "missing_err t d = missing_err u d"
      "files_of t (filepath_Clean d) = files_of u (filepath_Clean d)"
      using ag assms by (auto simp: agree_def is_dir_def subdirs_def missing_err_def list_ex_iff subset_iff)
    then show "r = r'"
      using run ag touch_quiet [of "subdirs u d" t r t'] touch_quiet [of "subdirs u d" u r' u']
      by (auto simp: t_ReadDir_def agree_def split: if_splits)
  qed
  then show ?thesis unfolding listDirs_def by blast
qed

text \<open>The paths a node's or a namespace's files are read from.\<close>

definition own_paths :: "string \<Rightarrow> string set" where
  "own_paths p = insert p (set (path_parents p))"

lemma of_result_then [simp]: "andThen (of_result (Inr x)) f = f x" "andThen (of_result (Inl e)) f = fail_with e"
  by (auto simp: andThen_def of_result_def)

lemma reads_ReadDeployment:
  assumes "\<And>d f. ResolveName base ns = Inr d \<Longrightarrow> f \<in> {''provd.yaml'', ''controller.key'', ''controller.pub''}
      \<Longrightarrow> own_paths (filepath_Join d f) \<subseteq> A"
  shows "reads_on A (ReadDeployment yaml base ns)"
proof (cases "ResolveName base ns")
  case (Inr d)
  then show ?thesis using assms [OF Inr, unfolded own_paths_def]
    by (auto simp: ReadDeployment_def intro!: reads_andThen reads_readFile reads_readKey split: prod.splits)
qed (auto simp: ReadDeployment_def)

lemma reads_ReadNode:
  assumes "\<And>d e f. ResolveName base ns = Inr d \<Longrightarrow> ResolveName (filepath_Join d ''nodes'') nid = Inr e \<Longrightarrow>
      f \<in> {''identity.pub'', ''wg.yaml'', ''stunmesh.yaml''} \<Longrightarrow> own_paths (filepath_Join e f) \<subseteq> A"
  shows "reads_on A (ReadNode yaml base ns nid)"
proof (cases "ResolveName base ns")
  case (Inr d)
  show ?thesis
  proof (cases "ResolveName (filepath_Join d ''nodes'') nid")
    case (Inl e)
    then show ?thesis using \<open>ResolveName base ns = Inr d\<close> by (auto simp: ReadNode_def)
  next
    case e: (Inr e)
    then show ?thesis using assms [OF Inr e, unfolded own_paths_def] Inr
      by (auto simp: ReadNode_def intro!: reads_andThen reads_readFile reads_readKey)
  qed
qed (auto simp: ReadNode_def)

lemma reads_Nodes:
  assumes "\<And>d. ResolveName base ns = Inr d \<Longrightarrow>
      insert (filepath_Clean (filepath_Join d ''nodes'')) (own_paths (filepath_Join d ''nodes'')) \<subseteq> A"
  shows "reads_on A (Nodes base ns)"
proof (cases "ResolveName base ns")
  case (Inr d)
  then show ?thesis using assms [OF Inr, unfolded own_paths_def] by (auto simp: Nodes_def intro!: reads_listDirs)
qed (auto simp: Nodes_def)

text \<open>What ReadDeployment accepts can be published: the interval is positive and fits a time.Duration, the
  backend is of the one known type with at least one proxy, and both keys have 32 bytes.\<close>

theorem ReadDeployment_valid:
  assumes "ReadDeployment yaml base ns t = (Inr d, t')"
  shows "dp_Namespace d = ns \<and> 0 < dp_RepublishInterval d \<and> dp_RepublishInterval d < 2 ^ 63
    \<and> bc_Type (dp_Backend d) = TypeDHTProxy \<and> bc_Proxies (dp_Backend d) \<noteq> []
    \<and> length (dp_ControllerPrivateKey d) = 32 \<and> length (dp_ControllerPublicKey d) = 32"
proof -
  have key: "length k = 32" if "readKey p u = (Inr k, u')" for p k u u'
    using that by (auto simp: readKey_def andThen_Inr ParseKey_def Let_def split: sum.splits option.splits if_splits)
  have "0 < i \<and> i < 2 ^ 63 \<and> bc_Type b = TypeDHTProxy \<and> bc_Proxies b \<noteq> []" if "provd_settings yaml p data = Inr (b, i)" for p data b i
    using that by (auto simp: provd_settings_def backendConfig_def dest!: Resolve_Inr ParseDuration_Some split: option.splits sum.splits if_splits)
  then show ?thesis
    using assms key by (fastforce simp: ReadDeployment_def andThen_Inr of_result_def)
qed

section \<open>WriteFile\<close>

text \<open>The states WriteFile may leave or pass: the files it found, or these with the new file, its data
  possibly cut short, in the mode asked for or what the umask leaves of it.\<close>

definition new_states :: "string \<Rightarrow> string \<Rightarrow> nat \<Rightarrow> nat \<Rightarrow> files \<Rightarrow> files \<Rightarrow> bool" where
  "new_states path data m1 m2 f g = (g = f \<or> (f path = None \<and> (\<exists>d m. prefix d data \<and> m \<in> {m1, m2}
     \<and> g = f(path \<mapsto> \<lparr>f_data = d, f_mode = m\<rparr>))))"

text \<open>From \<open>t\<close> to \<open>t'\<close> only files change, and every state is in \<open>S\<close>.\<close>

definition confined :: "(files \<Rightarrow> bool) \<Rightarrow> tree \<Rightarrow> tree \<Rightarrow> bool" where
  "confined S t t' = ((\<exists>added. hist_of t' = hist_of t @ added \<and> list_all S added) \<and> S (files_of t')
     \<and> tr_dirs t' = tr_dirs t \<and> tr_umask t' = tr_umask t)"

lemma confined_trans: "confined S t u \<Longrightarrow> confined S u v \<Longrightarrow> confined S t v"
  by (fastforce simp: confined_def)

lemma confined_call:
  assumes "on_files m t = (r, t')" and "m (tr_fs t) = syscall e bad good x (tr_fs t)"
    and "S good" and "\<And>n. S (bad n)"
  shows "confined S t t'" and "r = Inr x \<and> files_of t' = good \<or> (\<exists>n. r = Inl e \<and> files_of t' = bad n)"
proof -
  obtain s where s: "syscall e bad good x (tr_fs t) = (r, s)" "t' = t\<lparr>tr_fs := s\<rparr>"
    using assms(1, 2) by (auto simp: on_files_def split: prod.splits)
  from s(1) show "confined S t t'" by (rule syscall_cases) (use s(2) assms(3, 4) in \<open>auto simp: confined_def\<close>)
  from s(1) show "r = Inr x \<and> files_of t' = good \<or> (\<exists>n. r = Inl e \<and> files_of t' = bad n)"
    by (rule syscall_cases) (use s(2) in auto)
qed

lemma fill_new_states:
  assumes run: "fill_new p data mode t = (r, t')" and "F p = None"
    and t: "files_of t = F(p \<mapsto> \<lparr>f_data = [], f_mode = m\<rparr>)"
    and S: "S = new_states p data m mode F"
  shows "confined S t t'" and "r = Inr () \<Longrightarrow> files_of t' = F(p \<mapsto> \<lparr>f_data = data, f_mode = mode\<rparr>)"
    and "r = Inr () \<or> r = Inl (ErrIO p)"
proof -
  have Sn: "S (F(p \<mapsto> \<lparr>f_data = d, f_mode = k\<rparr>))" if "prefix d data" "k = m \<or> k = mode" for d k
    using that assms(2) unfolding S new_states_def by blast
  have Sn': "S (F(p \<mapsto> \<lparr>f_data = take n data, f_mode = k\<rparr>))" "S (F(p \<mapsto> \<lparr>f_data = data, f_mode = k\<rparr>))"
    if "k = m \<or> k = mode" for n k
    using Sn [of "take n data"] Sn [of data] that by (auto simp: take_is_prefix)
  have SF: "S F" unfolding S new_states_def by blast
  obtain rw t1 where 1: "on_files (os_Write p data) t = (rw, t1)" by fastforce
  obtain rc t2 where 2: "on_files (os_Close p) t1 = (rc, t2)" by fastforce
  obtain rm t3 where 3: "on_files (os_Chmod p mode) t2 = (rm, t3)" by fastforce
  have w: "confined S t t1" "rw = Inr () \<and> files_of t1 = F(p \<mapsto> \<lparr>f_data = data, f_mode = m\<rparr>)
      \<or> (\<exists>n. rw = Inl OSErr \<and> files_of t1 = F(p \<mapsto> \<lparr>f_data = take n data, f_mode = m\<rparr>))"
    using confined_call [OF 1, of OSErr "\<lambda>n. F(p \<mapsto> \<lparr>f_data = take n data, f_mode = m\<rparr>)"
        "F(p \<mapsto> \<lparr>f_data = data, f_mode = m\<rparr>)" "()" S] Sn'
    by (simp_all add: os_Write_def Let_def t)
  obtain d where d: "files_of t1 = F(p \<mapsto> \<lparr>f_data = d, f_mode = m\<rparr>)" "S (files_of t1)" "rw = Inr () \<longrightarrow> d = data"
    using w Sn' by fastforce
  have c: "confined S t1 t2" "(rc = Inr () \<or> rc = Inl OSErr) \<and> files_of t2 = files_of t1"
    using confined_call [OF 2, of OSErr "\<lambda>_. files_of t1" "files_of t1" "()" S] d(2) by (auto simp: os_Close_def)
  have rem: "confined S u (snd (on_files (os_Remove p) u))"
    if "files_of u = F(p \<mapsto> \<lparr>f_data = d', f_mode = k\<rparr>)" "S (files_of u)" for u d' k
  proof -
    obtain rr v where v: "on_files (os_Remove p) u = (rr, v)" by fastforce
    have "(files_of u)(p := None) = F" using that(1) assms(2) by auto
    then have "confined S u v"
      using confined_call(1) [OF v, of OSErr "\<lambda>_. files_of u" F "()" S] that SF by (simp add: os_Remove_def)
    then show ?thesis using v by simp
  qed
  show "confined S t t'" "r = Inr () \<Longrightarrow> files_of t' = F(p \<mapsto> \<lparr>f_data = data, f_mode = mode\<rparr>)" "r = Inr () \<or> r = Inl (ErrIO p)"
  proof -
    have close: "confined S t t2" using confined_trans [OF w(1) c(1)] .
    have f2: "files_of t2 = F(p \<mapsto> \<lparr>f_data = d, f_mode = m\<rparr>)" using c(2) d(1) by simp
    have undo: "confined S t (snd (on_files (os_Remove p) t2))"
      using confined_trans [OF close rem [OF f2]] c(2) d(2) by simp
    have chmod: "confined S t2 t3" "rm = Inr () \<and> files_of t3 = F(p \<mapsto> \<lparr>f_data = d, f_mode = mode\<rparr>)
        \<or> (\<exists>n::nat. rm = Inl OSErr \<and> files_of t3 = files_of t2)" if "d = data"
      using confined_call [OF 3, of OSErr "\<lambda>_. files_of t2" "F(p \<mapsto> \<lparr>f_data = d, f_mode = mode\<rparr>)" "()" S] Sn' d(2) c(2)
      by (simp_all add: os_Chmod_def f2 that)
    have "confined S t t' \<and> (r = Inr () \<longrightarrow> files_of t' = F(p \<mapsto> \<lparr>f_data = data, f_mode = mode\<rparr>)) \<and> (r = Inr () \<or> r = Inl (ErrIO p))"
    proof (cases "is_ok rw \<and> is_ok rc")
      case False
      then show ?thesis using run 1 2 undo by (auto simp: fill_new_def)
    next
      case ok: True
      then have dd: "d = data" using w(2) d(3) by auto
      have t3: "confined S t t3" using confined_trans [OF close chmod(1) [OF dd]] .
      show ?thesis
      proof (cases rm)
        case (Inl e)
        then have "files_of t3 = F(p \<mapsto> \<lparr>f_data = data, f_mode = m\<rparr>)" using chmod(2) [OF dd] f2 dd by simp
        then have "confined S t (snd (on_files (os_Remove p) t3))"
          using confined_trans [OF t3 rem] Sn' by metis
        then show ?thesis using run 1 2 3 ok Inl by (auto simp: fill_new_def)
      next
        case (Inr u)
        then show ?thesis using run 1 2 3 ok t3 chmod(2) [OF dd] dd by (auto simp: fill_new_def)
      qed
    qed
    then show "confined S t t'" "r = Inr () \<Longrightarrow> files_of t' = F(p \<mapsto> \<lparr>f_data = data, f_mode = mode\<rparr>)" "r = Inr () \<or> r = Inl (ErrIO p)"
      by blast+
  qed
qed

lemma confined_refl: "S (files_of t) \<Longrightarrow> confined S t t"
  by (simp add: confined_def)

lemma new_states_refl [simp]: "new_states p data m1 m2 f f"
  by (simp add: new_states_def)

lemma new_states_at:
  "f p = None \<Longrightarrow> prefix d data \<Longrightarrow> m = m1 \<or> m = m2 \<Longrightarrow> new_states p data m1 m2 f (f(p \<mapsto> \<lparr>f_data = d, f_mode = m\<rparr>))"
  unfolding new_states_def by blast

lemma confined_seen: "confined S t t' \<Longrightarrow> f \<in> set (hist_of t') - set (hist_of t) \<union> {files_of t'} \<Longrightarrow> S f"
  by (auto simp: confined_def list_all_iff)

lemma WriteFile_old:
  "files_of t p \<noteq> None \<or> is_dir t p \<Longrightarrow> WriteFile p data mode t = (Inl (ErrExists p), t)"
  by (simp add: WriteFile_def andThen_def wrap_def t_OpenExcl_def)

lemma WriteFile_new:
  assumes run: "WriteFile p data mode t = (r, t')" and new: "files_of t p = None" "\<not> is_dir t p"
  shows "confined (new_states p data (masked t mode) mode (files_of t)) t t'
    \<and> (r = Inr () \<longrightarrow> files_of t' = (files_of t)(p \<mapsto> \<lparr>f_data = data, f_mode = mode\<rparr>)) \<and> (r = Inr () \<or> r = Inl (ErrIO p))"
proof (cases "is_dir t (filepath_Dir p)")
  case False
  then have "t_OpenExcl p mode t = (Inl (missing_err t p), t)" "missing_err t p \<noteq> Exist"
    using new by (auto simp: t_OpenExcl_def missing_err_def)
  then have "t' = t \<and> r = Inl (ErrIO p)"
    using run by (auto simp: WriteFile_def andThen_def wrap_def)
  then show ?thesis using confined_refl by simp
next
  case True
  let ?S = "new_states p data (masked t mode) mode (files_of t)"
  obtain ro t1 where 1: "t_OpenExcl p mode t = (ro, t1)" by fastforce
  then have "on_files (\<lambda>s. syscall OSErr (\<lambda>_. fs_files s)
      ((fs_files s)(p \<mapsto> \<lparr>f_data = [], f_mode = masked t mode\<rparr>)) () s) t = (ro, t1)"
    using new True by (simp add: t_OpenExcl_def)
  note o = confined_call [OF this, of OSErr "\<lambda>_. files_of t"
      "(files_of t)(p \<mapsto> \<lparr>f_data = [], f_mode = masked t mode\<rparr>)" "()" ?S]
  have good: "?S ((files_of t)(p \<mapsto> \<lparr>f_data = [], f_mode = masked t mode\<rparr>))"
    by (rule new_states_at) (use new in simp_all)
  have o1: "confined ?S t t1" by (rule o(1)) (rule refl good new_states_refl)+
  have o2: "ro = Inr () \<and> files_of t1 = (files_of t)(p \<mapsto> \<lparr>f_data = [], f_mode = masked t mode\<rparr>) \<or> ro = Inl OSErr"
    using o(2) [OF refl good new_states_refl] by auto
  have run': "(case ro of Inl e \<Rightarrow> (Inl (if e = Exist then ErrExists p else ErrIO p), t1)
      | Inr _ \<Rightarrow> fill_new p data mode t1) = (r, t')"
    using run 1 by (cases ro) (simp_all add: WriteFile_def andThen_def wrap_def)
  show ?thesis
  proof (cases ro)
    case (Inl e)
    then show ?thesis using run' o1 o2 by auto
  next
    case (Inr u)
    then have f: "fill_new p data mode t1 = (r, t')" using run' by simp
    have t1: "files_of t1 = (files_of t)(p \<mapsto> \<lparr>f_data = [], f_mode = masked t mode\<rparr>)" using o2 Inr by simp
    note w = fill_new_states [OF f new(1) t1 refl]
    show ?thesis using confined_trans [OF o1 w(1)] w(2, 3) by blast
  qed
qed

lemma WriteFile_cases:
  assumes "WriteFile p data mode t = (r, t')"
  obtains (old) "files_of t p \<noteq> None \<or> is_dir t p" "r = Inl (ErrExists p)" "t' = t"
  | (new) "files_of t p = None" "\<not> is_dir t p" "confined (new_states p data (masked t mode) mode (files_of t)) t t'"
      "r = Inr () \<longrightarrow> files_of t' = (files_of t)(p \<mapsto> \<lparr>f_data = data, f_mode = mode\<rparr>)" "r = Inr () \<or> r = Inl (ErrIO p)"
proof (cases "files_of t p \<noteq> None \<or> is_dir t p")
  case True
  then show ?thesis using that(1) assms WriteFile_old [OF True] by simp
next
  case False
  then show ?thesis using that(2) WriteFile_new [OF assms] by simp
qed

lemma masked_within: "masked t mode AND mode = masked t mode"
  by (simp add: masked_def ac_simps)

text \<open>WriteFile never touches an existing file or any other path. It answers ErrExists and changes
  nothing when the path is taken; otherwise, at every moment, the new file is absent or holds a part of
  the data in a mode never wider than the one asked for, and success means the whole data in that mode.\<close>

theorem WriteFile_exclusive:
  assumes "WriteFile p data mode t = (r, t')"
  shows "if files_of t p \<noteq> None \<or> is_dir t p then r = Inl (ErrExists p) \<and> t' = t
    else (r = Inr () \<and> files_of t' = (files_of t)(p \<mapsto> \<lparr>f_data = data, f_mode = mode\<rparr>) \<or> r = Inl (ErrIO p))
      \<and> (\<forall>f \<in> set (hist_of t') - set (hist_of t) \<union> {files_of t'}. f = files_of t
          \<or> (\<exists>d m. f = (files_of t)(p \<mapsto> \<lparr>f_data = d, f_mode = m\<rparr>) \<and> prefix d data \<and> m AND mode = m))"
  using assms
proof (cases rule: WriteFile_cases)
  case new
  let ?ok = "\<lambda>f. f = files_of t \<or> (\<exists>d m. f = (files_of t)(p \<mapsto> \<lparr>f_data = d, f_mode = m\<rparr>) \<and> prefix d data \<and> m AND mode = m)"
  have "?ok f" if "new_states p data (masked t mode) mode (files_of t) f" for f
    using that masked_within [of t mode] unfolding new_states_def by (metis and.idem insertE singletonD)
  then have "\<forall>f \<in> set (hist_of t') - set (hist_of t) \<union> {files_of t'}. ?ok f"
    using confined_seen [OF new(3)] by blast
  then show ?thesis using new by auto
qed simp

text \<open>The contract of the tree's steps, for the operations of the store.\<close>

context file_order begin

lemma every_of_result [intro, simp]: "every (of_result x)"
  by (rule everyI) (simp add: of_result_def)

lemma every_readFile [intro]: "every (readFile p)"
  unfolding readFile_def by blast

lemma every_readKey [intro]: "every (readKey p)"
  unfolding readKey_def by (intro every_andThen every_readFile) (auto split: sum.splits)

lemma every_ReadDeployment [intro]: "every (ReadDeployment yaml base ns)"
  unfolding ReadDeployment_def
  by (intro every_andThen every_of_result every_readFile every_readKey)
    (auto intro!: every_andThen split: prod.splits)

lemma every_WriteFile:
  assumes "\<And>f g um. new_states p data (mode AND (511 XOR (um AND 511))) mode f g \<Longrightarrow> R f g"
  shows "every (WriteFile p data mode)"
proof (rule everyI)
  fix t r t' assume "WriteFile p data mode t = (r, t')"
  then show "during R t t'"
  proof (cases rule: WriteFile_cases)
    case new
    have "R (files_of t) g" if "new_states p data (masked t mode) mode (files_of t) g" for g
      using assms that unfolding masked_def by blast
    then show ?thesis using new(3) by (auto simp: confined_def during_def list_all_iff)
  qed simp
qed

lemma every_CreateDir [intro]: "every (CreateDir p mode)"
proof (rule everyI)
  fix t r t' assume run: "CreateDir p mode t = (r, t')"
  obtain d t1 where 1: "t_Stat p t = (d, t1)" by fastforce
  let ?make = "andThen (wrap (\<lambda>_. ErrIO p) (t_MkdirAll p mode)) (\<lambda>_. wrap (\<lambda>_. ErrIO p) (t_ChmodDir p mode))"
  have "every ?make" by blast
  moreover have "during R t t1" using every_Stat everyD 1 by blast
  ultimately show "during R t t'"
    using run 1 by (auto simp: CreateDir_def split: sum.splits if_splits intro: during_trans dest: everyD)
qed

end

end
