(* ===== verification/ProvdTexts.thy ===== *)
theory ProvdTexts
  imports Prelude
begin

text \<open>
  cmd/stunmesh-provd: the texts of the files that init and node add write, byte for byte.
\<close>

definition text_lines :: "string list \<Rightarrow> string" where
  "text_lines ls = concat (map (\<lambda>l. l @ [newline]) ls)"

abbreviation tick :: string where
  "tick \<equiv> [CHR 0x60]"

text \<open>The box-drawing characters of the layout, in UTF-8.\<close>

definition tee_mark :: string where
  "tee_mark = [CHR 0xE2, CHR 0x94, CHR 0x9C, CHR 0xE2, CHR 0x94, CHR 0x80, CHR 0xE2, CHR 0x94, CHR 0x80]"

definition ell_mark :: string where
  "ell_mark = [CHR 0xE2, CHR 0x94, CHR 0x94, CHR 0xE2, CHR 0x94, CHR 0x80, CHR 0xE2, CHR 0x94, CHR 0x80]"

definition rootReadme :: string where
  "rootReadme = text_lines
    [''# stunmesh-provd provisioning tree'',
     [],
     ''This directory holds the configuration for one or more stunmesh'',
     ''deployments. stunmesh-provd reads and writes the files under it.'',
     [],
     ''## Layout'',
     [],
     ''One subdirectory is one namespace. A namespace is one independent'',
     ''deployment:'',
     [],
     ''    <root>/'',
     ''    '' @ tee_mark @ '' README.md              this file'',
     ''    '' @ ell_mark @ '' <namespace>/'',
     ''        '' @ tee_mark @ '' provd.yaml         deployment settings: backend plugin, republish interval'',
     ''        '' @ tee_mark @ '' controller.key     controller private key (SECRET)'',
     ''        '' @ tee_mark @ '' controller.pub     controller public key'',
     ''        '' @ ell_mark @ '' nodes/'',
     ''            '' @ ell_mark @ '' <node_id>/'',
     ''                '' @ tee_mark @ '' identity.pub    node identity public key'',
     ''                '' @ tee_mark @ '' wg.yaml         WireGuard settings for this node (SECRET)'',
     ''                '' @ ell_mark @ '' stunmesh.yaml   stunmesh-go settings for this node'',
     [],
     ''## Secret files'',
     [],
     ''Some files hold private key material or other secrets. Protect them:'',
     [],
     ''- '' @ tick @ ''controller.key'' @ tick @ '' holds the controller private key. Every node in the'',
     ''  namespace trusts data signed with this key. Never copy it off the'',
     ''  controller. Never log it or paste it anywhere.'',
     ''- '' @ tick @ ''wg.yaml'' @ tick @ '' holds the node's WireGuard tunnel private key. Treat it'',
     ''  with the same care as '' @ tick @ ''controller.key'' @ tick @ ''.'',
     [],
     ''Every other file is safe to view, copy, or send over a plain channel.'',
     [],
     ''## Files the operator edits'',
     [],
     ''stunmesh-provd never edits an operator file after it first creates it.'',
     ''The operator is free to edit these files by hand between publish'',
     ''rounds:'',
     [],
     ''- '' @ tick @ ''provd.yaml'' @ tick @ '': change the backend plugin's proxy list or the republish interval.'',
     ''- '' @ tick @ ''wg.yaml'' @ tick @ '': change the WireGuard settings for one node.'',
     ''- '' @ tick @ ''stunmesh.yaml'' @ tick @ '': change the stunmesh-go settings for one node.'',
     [],
     ''Do not edit '' @ tick @ ''controller.key'' @ tick @ '', '' @ tick @ ''controller.pub'' @ tick @ '', or '' @ tick @ ''identity.pub'' @ tick @ '' by'',
     ''hand. stunmesh-provd generates the key files; the operator only'',
     ''copies '' @ tick @ ''identity.pub'' @ tick @ '' in from the node at node init.'']"

definition defaultProvdYAML :: string where
  "defaultProvdYAML = text_lines
    [''plugins:'',
     ''  dht:'',
     ''    type: dhtproxy'',
     ''    proxies:'',
     ''      - https://dhtproxy2.jami.net'',
     ''      - https://dhtproxy3.jami.net'',
     ''use_plugin: dht'',
     ''republish_interval: 5m'']"

definition wgYAMLTemplate :: string where
  "wgYAMLTemplate = text_lines
    [''# wg.yaml -- WireGuard settings for this node.'',
     ''#'',
     ''# This file becomes the '' @ [dquote] @ ''wg'' @ [dquote] @ '' section of the node's bundle. Uncomment'',
     ''# and fill in one block per WireGuard interface. Delete every '' @ [dquote] @ ''#'' @ [dquote] @ '' at'',
     ''# the start of a line you use.'',
     ''#'',
     ''# wg0:'',
     ''#   private_key: <this node's WireGuard tunnel private key, base64>'',
     ''#   addresses:'',
     ''#     - 10.0.0.1/24'',
     ''#   # listen_port, mtu, fwmark, routing_table, route_allowed_ips,'',
     ''#   # routes, and options are optional. See docs/format.md for their'',
     ''#   # rules.'',
     ''#   # listen_port: 51820'',
     ''#   # mtu: 1420'',
     ''#   # fwmark: 0xca6c'',
     ''#   # fwmark accepts decimal, 0x hex, or 0o octal.'',
     ''#   # routing_table:'',
     ''#   #   ipv4: 100'',
     ''#   #   ipv6: 100'',
     ''#   # route_allowed_ips: false'',
     ''#   # routes:'',
     ''#   #   - cidr: 10.20.0.0/16'',
     ''#   #     gateway: 10.0.0.2'',
     ''#   peers:'',
     ''#     bravo:'',
     ''#       public_key: <bravo tunnel public key, base64>'',
     ''#       allowed_ips:'',
     ''#         - 10.0.0.2/32'',
     ''#       # preshared_key, endpoint, and persistent_keepalive are'',
     ''#       # optional.'',
     ''#       # preshared_key: <psk, base64>'',
     ''#       # persistent_keepalive: 25'',
     ''#'',
     ''# An empty '' @ [dquote] @ ''wg: {}'' @ [dquote] @ '' is valid and means '' @ [dquote] @ ''no interfaces'' @ [dquote] @ '': it removes'',
     ''# every interface this node has. Write that explicitly if that is'',
     ''# really what you want; do not leave this file as-is by accident.'']"

definition stunmeshYAMLTemplate :: string where
  "stunmeshYAMLTemplate = []"

end
