(* ===== verification/ProvdInit.thy ===== *)
theory ProvdInit
  imports Store ProvdTexts Dhtkey
begin

text \<open>
  cmd/stunmesh-provd: the environment of the commands (env.go, cli.go) and the commands that
  create the tree, init (init_cmd.go) and node add (node_cmd.go).
\<close>

section \<open>Environment\<close>

text \<open>
  What Env gives a command: the root of the tree, and as parameters the YAML conversion, the
  curve25519 functions, the random source (the n-th key pair, the n-th read of bytes), the sealed
  box with the nonces, url.Parse, and the answers of the proxies to a request, given the requests
  before it. The state is the tree, the lines printed, the requests sent and how often the random
  source was read.
\<close>

record ProvEnv =
  pe_Dir :: string
  pe_yaml :: "string \<Rightarrow> string option"
  pe_base :: "Key \<Rightarrow> Key option"
  pe_generate :: "nat \<Rightarrow> (Key \<times> Key) option"
  pe_bytes :: "nat \<Rightarrow> nat \<Rightarrow> string option"
  pe_stdin :: "string option"
  pe_seal :: "string \<Rightarrow> string \<Rightarrow> Key \<Rightarrow> Key \<Rightarrow> string"
  pe_url :: url_parser
  pe_answer :: "Request list \<Rightarrow> Request \<Rightarrow> Response option"
  pe_width :: nat

text \<open>What can go wrong in a publish round: for the round, a namespace or a node.\<close>

datatype puberr = PubResolve serr | PubDeployment serr | PubNodes serr | PubBackend dialerr
  | PubReadNode serr | PubBuild berr | PubKey keyerr | PubSeal | PubPut puterr

text \<open>The lines that are printed, on standard output or standard error; a label names a namespace or a node.\<close>

datatype oline = Wrote string | Unchanged string | NamespaceAt string string | GeneratedKey Key | ExistingKey Key
  | NodeAt string string string | Constants string string Key "string list"
  | Published string string | Failed string puberr | RoundFailed puberr | FailedCount nat nat
  | NothingToPublish | NothingIn string "string list"

record Provd =
  pv_tree :: tree
  pv_out :: "oline list"
  pv_sent :: "Request list"
  pv_rand :: nat

definition on_tree :: "(tree, 'e, 'a) step \<Rightarrow> (Provd, 'e, 'a) step" where
  "on_tree m s = (case m (pv_tree s) of (r, t) \<Rightarrow> (r, s\<lparr>pv_tree := t\<rparr>))"

definition print :: "oline \<Rightarrow> (Provd, 'e, unit) step" where
  "print l s = (Inr (), s\<lparr>pv_out := pv_out s @ [l]\<rparr>)"

text \<open>One read of the random source.\<close>

definition draw :: "(nat \<Rightarrow> 'a option) \<Rightarrow> 'e \<Rightarrow> (Provd, 'e, 'a) step" where
  "draw f e s = (case f (pv_rand s) of None \<Rightarrow> Inl e | Some x \<Rightarrow> Inr x, s\<lparr>pv_rand := Suc (pv_rand s)\<rparr>)"

text \<open>A write that treats an existing file as success; the lines it prints.\<close>

definition keep_existing :: "(Provd, serr, unit) step \<Rightarrow> oline \<Rightarrow> oline \<Rightarrow> (Provd, serr, unit) step" where
  "keep_existing m wrote unchanged s =
     (case m s of (Inl (ErrExists p), s') \<Rightarrow> print unchanged s' | (Inl e, s') \<Rightarrow> (Inl e, s')
      | (Inr _, s') \<Rightarrow> print wrote s')"

section \<open>init\<close>

datatype rkerr = RKAbsent | RKRead | RKInvalid

datatype cmderr = CStore serr | CKeyFile rkerr | CGenerate | CRandom | CIdentity "kerr option" | CPanic

definition rootDirMode :: nat where
  "rootDirMode = 493"

definition namespaceDirMode :: nat where
  "namespaceDirMode = 448"

datatype keyStatus = keyStatusCreated | keyStatusAlreadyExisted

definition readControllerKey :: "string \<Rightarrow> (tree, rkerr, Key) step" where
  "readControllerKey path =
     andThen (wrap (\<lambda>e. if e = NotExist then RKAbsent else RKRead) (t_ReadFile path))
       (\<lambda>data. case ParseKey data of Inl _ \<Rightarrow> fail_with RKInvalid | Inr key \<Rightarrow> ret key)"

text \<open>controller.pub from the private key of record; an existing one is left as it is.\<close>

definition ensure_pub :: "ProvEnv \<Rightarrow> string \<Rightarrow> keyStatus \<Rightarrow> Key \<Rightarrow> (Provd, cmderr, Key \<times> keyStatus) step" where
  "ensure_pub env nsDir status priv s =
     (case Public (pe_base env) priv of None \<Rightarrow> (Inl CPanic, s)
      | Some pub \<Rightarrow>
          (case on_tree (WriteFile (filepath_Join nsDir ''controller.pub'') (Key_String pub @ [newline]) 420) s of
             (Inl (ErrExists p), s') \<Rightarrow> (Inr (pub, status), s')
           | (Inl e, s') \<Rightarrow> (Inl (CStore e), s')
           | (Inr _, s') \<Rightarrow> (Inr (pub, status), s')))"

definition ensureControllerKeyPair :: "ProvEnv \<Rightarrow> string \<Rightarrow> (Provd, cmderr, Key \<times> keyStatus) step" where
  "ensureControllerKeyPair env nsDir s =
     (case on_tree (readControllerKey (filepath_Join nsDir ''controller.key'')) s of
        (Inr priv, s1) \<Rightarrow> ensure_pub env nsDir keyStatusAlreadyExisted priv s1
      | (Inl e, s1) \<Rightarrow>
          if e \<noteq> RKAbsent then (Inl (CKeyFile e), s1)
          else andThen (draw (Keygen (pe_generate env)) CGenerate) (\<lambda>(priv, _).
            andThen (wrap CStore (on_tree (WriteFile (filepath_Join nsDir ''controller.key'') (Key_String priv @ [newline]) 384)))
              (\<lambda>_. ensure_pub env nsDir keyStatusCreated priv)) s1)"

definition randomNamespace :: "ProvEnv \<Rightarrow> (Provd, cmderr, string) step" where
  "randomNamespace env = andThen (draw (pe_bytes env 8) CRandom) (\<lambda>buf. ret (hex_EncodeToString buf))"

definition runInit_steps :: "ProvEnv \<Rightarrow> string \<Rightarrow> (Provd, cmderr, unit) step" where
  "runInit_steps env arg =
     andThen (wrap CStore (on_tree (CreateDir (pe_Dir env) rootDirMode))) (\<lambda>_.
     andThen (wrap CStore (keep_existing (on_tree (WriteFile (filepath_Join (pe_Dir env) ''README.md'') rootReadme 420))
       (Wrote (filepath_Join (pe_Dir env) ''README.md'')) (Unchanged ''README.md''))) (\<lambda>_.
     andThen (if arg = [] then randomNamespace env else ret arg) (\<lambda>namespace.
     andThen (wrap CStore (of_result (ResolveName (pe_Dir env) namespace))) (\<lambda>nsDir.
     andThen (wrap CStore (on_tree (CreateDir nsDir namespaceDirMode))) (\<lambda>_.
     andThen (print (NamespaceAt namespace nsDir)) (\<lambda>_.
     andThen (wrap CStore (keep_existing (on_tree (WriteFile (filepath_Join nsDir ''provd.yaml'') defaultProvdYAML 420))
       (Wrote (filepath_Join nsDir ''provd.yaml'')) (Unchanged ''provd.yaml''))) (\<lambda>_.
     andThen (ensureControllerKeyPair env nsDir) (\<lambda>(pub, status).
     print (case status of keyStatusCreated \<Rightarrow> GeneratedKey pub | keyStatusAlreadyExisted \<Rightarrow> ExistingKey pub)))))))))"

text \<open>The exit of a command: its code, or the panic of Public.\<close>

datatype cmdexit = CmdExit nat | CmdPanic

definition exit_of :: "cmderr + 'a \<Rightarrow> cmdexit" where
  "exit_of r = (case r of Inr _ \<Rightarrow> CmdExit 0 | Inl CPanic \<Rightarrow> CmdPanic | Inl _ \<Rightarrow> CmdExit 1)"

definition runInit :: "ProvEnv \<Rightarrow> string list \<Rightarrow> Provd \<Rightarrow> cmdexit \<times> Provd" where
  "runInit env args s =
     (if 1 < length args then (CmdExit 2, s)
      else (case runInit_steps env (case args of [] \<Rightarrow> [] | a # _ \<Rightarrow> a) s of (r, s') \<Rightarrow> (exit_of r, s')))"

section \<open>node add\<close>

definition nodesDirMode :: nat where
  "nodesDirMode = 493"

definition nodeDirMode :: nat where
  "nodeDirMode = 448"

text \<open>The key argument, or else standard input (\<open>None\<close>: it cannot be read).\<close>

definition readIdentityKey :: "ProvEnv \<Rightarrow> string list \<Rightarrow> cmderr + Key" where
  "readIdentityKey env args =
     (case (if length args = 3 then Some (args ! 2) else pe_stdin env) of
        None \<Rightarrow> Inl (CIdentity None)
      | Some raw \<Rightarrow>
          if length args \<noteq> 3 \<and> TrimSpace raw = [] then Inl (CIdentity None)
          else (case ParseKey raw of Inl e \<Rightarrow> Inl (CIdentity (Some e)) | Inr key \<Rightarrow> Inr key))"

definition writeNodeFile :: "string \<Rightarrow> string \<Rightarrow> nat \<Rightarrow> string \<Rightarrow> (Provd, cmderr, unit) step" where
  "writeNodeFile path data mode label =
     wrap CStore (keep_existing (on_tree (WriteFile path data mode)) (Wrote path) (Unchanged label))"

definition runNodeAdd_steps :: "ProvEnv \<Rightarrow> string list \<Rightarrow> (Provd, cmderr, unit) step" where
  "runNodeAdd_steps env args =
     (let namespace = args ! 0; nodeID = args ! 1 in
     andThen (wrap CStore (of_result (ResolveName (pe_Dir env) namespace))) (\<lambda>nsDir.
     andThen (wrap CStore (on_tree (ReadDeployment (pe_yaml env) (pe_Dir env) namespace))) (\<lambda>deployment.
     andThen (wrap CStore (of_result (ResolveName (filepath_Join nsDir ''nodes'') nodeID))) (\<lambda>nodeDir.
     andThen (of_result (readIdentityKey env args)) (\<lambda>identity.
     andThen (wrap CStore (on_tree (CreateDir (filepath_Join nsDir ''nodes'') nodesDirMode))) (\<lambda>_.
     andThen (wrap CStore (on_tree (CreateDir nodeDir nodeDirMode))) (\<lambda>_.
     andThen (print (NodeAt namespace nodeID nodeDir)) (\<lambda>_.
     andThen (writeNodeFile (filepath_Join nodeDir ''identity.pub'') (Key_String identity @ [newline]) 420 ''identity.pub'') (\<lambda>_.
     andThen (writeNodeFile (filepath_Join nodeDir ''wg.yaml'') wgYAMLTemplate 384 ''wg.yaml'') (\<lambda>_.
     andThen (writeNodeFile (filepath_Join nodeDir ''stunmesh.yaml'') stunmeshYAMLTemplate 420 ''stunmesh.yaml'') (\<lambda>_.
     print (Constants namespace nodeID (dp_ControllerPublicKey deployment) (bc_Proxies (dp_Backend deployment))))))))))))))"

definition runNodeAdd :: "ProvEnv \<Rightarrow> string list \<Rightarrow> Provd \<Rightarrow> cmdexit \<times> Provd" where
  "runNodeAdd env args s =
     (if length args < 2 \<or> 3 < length args then (CmdExit 2, s)
      else (case runNodeAdd_steps env args s of (r, s') \<Rightarrow> (exit_of r, s')))"

definition runNode :: "ProvEnv \<Rightarrow> string list \<Rightarrow> Provd \<Rightarrow> cmdexit \<times> Provd" where
  "runNode env args s =
     (case args of [] \<Rightarrow> (CmdExit 2, s)
      | a # rest \<Rightarrow> if a = ''add'' then runNodeAdd env rest s else (CmdExit 2, s))"

section \<open>What every moment of a command respects\<close>

text \<open>The files that hold a secret, by their name, are written with mode 0600.\<close>

definition secret_name :: "string \<Rightarrow> bool" where
  "secret_name n = (n \<in> {''controller.key'', ''wg.yaml''})"

definition writable :: "string \<Rightarrow> nat \<Rightarrow> bool" where
  "writable p mode = (secret_name (base_name p) \<longrightarrow> mode = 384)"

text \<open>A preorder that the creation of a file respects, whatever its data and the umask.\<close>

locale write_order = file_order +
  assumes creates_file: "writable p mode \<Longrightarrow> new_states p data (mode AND (511 XOR (um AND 511))) mode f g \<Longrightarrow> R f g"
begin

lemma every_write: "writable p mode \<Longrightarrow> every (WriteFile p data mode)"
  by (rule every_WriteFile) (rule creates_file)

definition obeys :: "(Provd, 'e, 'a) step \<Rightarrow> bool" where
  "obeys m = (\<forall>s r s'. m s = (r, s') \<longrightarrow> during R (pv_tree s) (pv_tree s'))"

lemma obeysI: "(\<And>s r s'. m s = (r, s') \<Longrightarrow> during R (pv_tree s) (pv_tree s')) \<Longrightarrow> obeys m"
  by (simp add: obeys_def)

lemma obeysD: "obeys m \<Longrightarrow> m s = (r, s') \<Longrightarrow> during R (pv_tree s) (pv_tree s')"
  by (auto simp: obeys_def)

lemma obeys_base [intro, simp]:
  "obeys (Pair z)" "obeys (ret x)" "obeys (fail_with e)" "obeys (of_result y)" "obeys (print l)" "obeys (draw f e)"
  by (auto intro!: obeysI simp: of_result_def print_def draw_def)

lemma obeys_on_tree [intro]: "every m \<Longrightarrow> obeys (on_tree m)"
  by (rule obeysI) (auto simp: on_tree_def split: prod.splits dest: everyD)

lemma obeys_andThen [intro]:
  assumes "obeys m" and "\<And>x. obeys (f x)"
  shows "obeys (andThen m f)"
  by (rule obeysI) (auto simp: andThen_def split: prod.splits sum.splits
      intro: during_trans obeysD [OF assms(1)] obeysD [OF assms(2)])

lemma obeys_wrap [intro]: "obeys m \<Longrightarrow> obeys (wrap g m)"
  by (rule obeysI) (auto simp: wrap_def split: prod.splits sum.splits dest: obeysD)

lemma obeys_keep_existing [intro]:
  assumes "obeys m"
  shows "obeys (keep_existing m a b)"
  by (rule obeysI) (use obeysD [OF assms] in
      \<open>auto simp: keep_existing_def print_def split: prod.splits sum.splits serr.splits\<close>)

lemma obeys_write [intro]: "writable p mode \<Longrightarrow> obeys (on_tree (WriteFile p data mode))"
  by (intro obeys_on_tree every_write)

lemma obeys_if [intro]: "(b \<Longrightarrow> obeys m) \<Longrightarrow> (\<not> b \<Longrightarrow> obeys m') \<Longrightarrow> obeys (if b then m else m')"
  by simp

end

text \<open>The names under which the commands write are the last components of the paths.\<close>

lemma base_name_under: "CHR ''/'' \<notin> set n \<Longrightarrow> base_name (under d @ n) = n"
proof -
  assume n: "CHR ''/'' \<notin> set n"
  have "under d = [] \<or> (\<exists>u. under d = u @ ''/'')" by (auto simp: under_def Let_def)
  then have u: "base_name (under d @ n) = base_name n \<or> (\<exists>u. under d @ n = u @ CHR ''/'' # n)" by auto
  have "base_name (u @ CHR ''/'' # n) = n" for u
    using n by (simp add: base_name_def takeWhile_append)
  then show ?thesis using u base_name_plain [OF n] by auto
qed

lemma base_name_Join: "plain_name n \<Longrightarrow> base_name (filepath_Join d n) = n"
  by (simp add: Join_plain base_name_under plain_name_def)

lemma plain_names [simp]:
  "plain_name ''README.md''" "plain_name ''provd.yaml''" "plain_name ''controller.key''" "plain_name ''controller.pub''"
  "plain_name ''identity.pub''" "plain_name ''wg.yaml''" "plain_name ''stunmesh.yaml''" "plain_name ''nodes''"
  by (simp_all add: plain_name_def)

lemma writable_files [simp]:
  "writable (filepath_Join d ''README.md'') m" "writable (filepath_Join d ''provd.yaml'') m"
  "writable (filepath_Join d ''controller.pub'') m" "writable (filepath_Join d ''identity.pub'') m"
  "writable (filepath_Join d ''stunmesh.yaml'') m" "writable (filepath_Join d ''controller.key'') 384"
  "writable (filepath_Join d ''wg.yaml'') 384"
  by (simp_all add: writable_def base_name_Join secret_name_def)

context write_order begin

lemma obeys_ensure_pub: "obeys (ensure_pub env d st priv)"
proof (rule obeysI)
  fix s r s' assume run: "ensure_pub env d st priv s = (r, s')"
  show "during R (pv_tree s) (pv_tree s')"
  proof (cases "Public (pe_base env) priv")
    case (Some pub)
    obtain w s1 where 1: "on_tree (WriteFile (filepath_Join d ''controller.pub'') (Key_String pub @ [newline]) 420) s = (w, s1)"
      by fastforce
    have "obeys (on_tree (WriteFile (filepath_Join d ''controller.pub'') (Key_String pub @ [newline]) 420))"
      by (intro obeys_write) simp
    moreover have "s' = s1" using run 1 Some by (auto simp: ensure_pub_def split: sum.splits serr.splits)
    ultimately show ?thesis using obeysD 1 by blast
  qed (use run in \<open>simp add: ensure_pub_def\<close>)
qed

lemma every_readControllerKey: "every (readControllerKey p)"
  unfolding readControllerKey_def by (intro every_andThen every_wrap every_ReadFile) (auto split: sum.splits)

lemma obeys_ensureControllerKeyPair: "obeys (ensureControllerKeyPair env d)"
proof (rule obeysI)
  fix s r s' assume run: "ensureControllerKeyPair env d s = (r, s')"
  obtain k s1 where 1: "on_tree (readControllerKey (filepath_Join d ''controller.key'')) s = (k, s1)" by fastforce
  have d1: "during R (pv_tree s) (pv_tree s1)"
    using obeysD [OF obeys_on_tree [OF every_readControllerKey] 1] .
  let ?make = "andThen (draw (Keygen (pe_generate env)) CGenerate) (\<lambda>(priv, _).
      andThen (wrap CStore (on_tree (WriteFile (filepath_Join d ''controller.key'') (Key_String priv @ [newline]) 384)))
        (\<lambda>_. ensure_pub env d keyStatusCreated priv))"
  have make: "obeys ?make"
    by (intro obeys_andThen obeys_base) (auto intro!: obeys_andThen obeys_wrap obeys_write obeys_ensure_pub split: prod.splits)
  show "during R (pv_tree s) (pv_tree s')"
  proof (cases k)
    case (Inl e)
    then show ?thesis using run 1 d1 during_trans [OF d1 obeysD [OF make]]
      by (auto simp: ensureControllerKeyPair_def split: if_splits)
  next
    case (Inr priv)
    then have "ensure_pub env d keyStatusAlreadyExisted priv s1 = (r, s')"
      using run 1 by (simp add: ensureControllerKeyPair_def)
    then show ?thesis using during_trans [OF d1 obeysD [OF obeys_ensure_pub]] by blast
  qed
qed

lemma obeys_runInit_steps: "obeys (runInit_steps env arg)"
  unfolding runInit_steps_def randomNamespace_def
  by (intro obeys_andThen obeys_wrap obeys_keep_existing obeys_on_tree every_write every_CreateDir
      obeys_base obeys_if obeys_ensureControllerKeyPair) (auto split: prod.splits)

lemma obeys_runNodeAdd_steps: "obeys (runNodeAdd_steps env args)"
  unfolding runNodeAdd_steps_def writeNodeFile_def Let_def
  by (intro obeys_andThen obeys_wrap obeys_keep_existing obeys_on_tree every_write every_CreateDir
      every_ReadDeployment obeys_base) auto

end

definition preserved :: "files \<Rightarrow> files \<Rightarrow> bool" where
  "preserved f g = (\<forall>p x. f p = Some x \<longrightarrow> g p = Some x)"

text \<open>No permission for group and others (63 is octal 077).\<close>

definition guarded :: "files \<Rightarrow> files \<Rightarrow> bool" where
  "guarded f g = (\<forall>p. secret_name (base_name p) \<longrightarrow> g p = f p \<or> (\<exists>x. g p = Some x \<and> f_mode x AND 63 = 0))"

interpretation pres: write_order preserved
  by unfold_locales (auto simp: preserved_def new_states_def)

lemma owner_mode: "(384 :: nat) AND 63 = 0" "(384 AND m) AND 63 = (0 :: nat)"
proof -
  show 1: "(384 :: nat) AND 63 = 0" by simp
  have "(384 AND m) AND 63 = (384 AND 63) AND m" by (simp only: ac_simps)
  then show "(384 AND m) AND 63 = (0 :: nat)" unfolding 1 by simp
qed

interpretation guard: write_order guarded
proof unfold_locales
  fix f g h assume "guarded f g" "guarded g h"
  then show "guarded f h" unfolding guarded_def by metis
next
  fix p mode um data f g
  assume "writable p mode" "new_states p data (mode AND (511 XOR (um AND 511))) mode f g"
  then show "guarded f g" by (auto simp: guarded_def new_states_def writable_def owner_mode)
qed (simp add: guarded_def)

lemma obeys_commands:
  assumes "runInit env args s = (e, s') \<or> runNode env args s = (e, s')"
  shows "during preserved (pv_tree s) (pv_tree s')" and "during guarded (pv_tree s) (pv_tree s')"
proof -
  have i: "s' = s \<or> (\<exists>a r. runInit_steps env a s = (r, s'))" if "runInit env args s = (e, s')"
    using that by (auto simp: runInit_def split: if_splits prod.splits)
  have n: "s' = s \<or> (\<exists>a r. runNodeAdd_steps env a s = (r, s'))" if "runNode env args s = (e, s')"
    using that by (auto simp: runNode_def runNodeAdd_def split: if_splits prod.splits list.splits)
  from assms i n have "s' = s \<or> (\<exists>a r. runInit_steps env a s = (r, s')) \<or> (\<exists>a r. runNodeAdd_steps env a s = (r, s'))"
    by blast
  then show "during preserved (pv_tree s) (pv_tree s')" "during guarded (pv_tree s) (pv_tree s')"
    using pres.obeysD [OF pres.obeys_runInit_steps] pres.obeysD [OF pres.obeys_runNodeAdd_steps]
      guard.obeysD [OF guard.obeys_runInit_steps] guard.obeysD [OF guard.obeys_runNodeAdd_steps] by auto
qed

text \<open>C18: init and node add never overwrite: whatever the arguments and whatever fails or is cut short, at every
  moment each file that existed has its old content and mode, and a new controller.key or wg.yaml gives no
  permission to group or others.\<close>

theorem commands_safe:
  assumes "runInit env args s = (e, s') \<or> runNode env args s = (e, s')"
  shows "\<forall>f \<in> set (hist_of (pv_tree s')) - set (hist_of (pv_tree s)) \<union> {files_of (pv_tree s')}. \<forall>p.
    (case files_of (pv_tree s) p of Some x \<Rightarrow> f p = Some x
     | None \<Rightarrow> (case f p of None \<Rightarrow> True
         | Some x \<Rightarrow> base_name p \<in> {''controller.key'', ''wg.yaml''} \<longrightarrow> f_mode x AND 63 = 0))"
proof (intro ballI allI)
  fix f p assume "f \<in> set (hist_of (pv_tree s')) - set (hist_of (pv_tree s)) \<union> {files_of (pv_tree s')}"
  then have "preserved (files_of (pv_tree s)) f" "guarded (files_of (pv_tree s)) f"
    using obeys_commands [OF assms] during_seen by blast+
  then show "case files_of (pv_tree s) p of Some x \<Rightarrow> f p = Some x
     | None \<Rightarrow> (case f p of None \<Rightarrow> True
         | Some x \<Rightarrow> base_name p \<in> {''controller.key'', ''wg.yaml''} \<longrightarrow> f_mode x AND 63 = 0)"
    unfolding preserved_def guarded_def secret_name_def by (fastforce split: option.splits)
qed

end
