(* ===== verification/Init_Props.thy ===== *)
theory Init_Props
  imports ProvdInit Keygen
begin

text \<open>
  What a successful init leaves behind: the key pair, and for a fresh namespace a deployment
  that can be read back.
\<close>

section \<open>Steps\<close>

interpretation same: file_order "(=)"
  by unfold_locales simp_all

lemma on_treeE: "on_tree m s = (r, s') \<Longrightarrow> (\<And>t. m (pv_tree s) = (r, t) \<Longrightarrow> s' = s\<lparr>pv_tree := t\<rparr> \<Longrightarrow> P) \<Longrightarrow> P"
  by (auto simp: on_tree_def split: prod.splits)

lemma CreateDir_files: "on_tree (CreateDir p m) s = (r, s') \<Longrightarrow> files_of (pv_tree s') = files_of (pv_tree s) \<and> pv_rand s' = pv_rand s \<and> pv_out s' = pv_out s"
  by (erule on_treeE) (use same.everyD [OF same.every_CreateDir, THEN during_last] in auto)

text \<open>A write that keeps an existing file: done, or nothing happened.\<close>

definition written :: "string \<Rightarrow> string \<Rightarrow> nat \<Rightarrow> tree \<Rightarrow> tree \<Rightarrow> bool" where
  "written p data m t t' = (tr_dirs t' = tr_dirs t \<and>
     files_of t' = (if files_of t p = None \<and> \<not> is_dir t p then (files_of t)(p \<mapsto> \<lparr>f_data = data, f_mode = m\<rparr>) else files_of t))"

lemma WriteFile_written:
  assumes "on_tree (WriteFile p data m) s = (r, s')" and "r = Inr () \<or> (\<exists>q. r = Inl (ErrExists q))"
  shows "written p data m (pv_tree s) (pv_tree s') \<and> pv_rand s' = pv_rand s \<and> pv_out s' = pv_out s"
  using assms(1)
proof (rule on_treeE)
  fix t assume "WriteFile p data m (pv_tree s) = (r, t)" "s' = s\<lparr>pv_tree := t\<rparr>"
  then show ?thesis
    by (cases rule: WriteFile_cases) (use assms(2) in \<open>auto simp: written_def confined_def\<close>)
qed

lemma keep_existing_written:
  assumes "keep_existing (on_tree (WriteFile p data m)) a b s = (Inr u, s')"
  shows "written p data m (pv_tree s) (pv_tree s') \<and> pv_rand s' = pv_rand s \<and> (\<exists>l. pv_out s' = pv_out s @ [l])"
proof -
  obtain r s1 where 1: "on_tree (WriteFile p data m) s = (r, s1)" by fastforce
  have "(r = Inr () \<or> (\<exists>q. r = Inl (ErrExists q))) \<and> pv_tree s' = pv_tree s1 \<and> pv_rand s' = pv_rand s1 \<and> (\<exists>l. pv_out s' = pv_out s1 @ [l])"
    using assms 1 by (auto simp: keep_existing_def print_def split: sum.splits serr.splits)
  then show ?thesis using WriteFile_written [OF 1] by auto
qed

lemma written_other: "written p data m t t' \<Longrightarrow> q \<noteq> p \<Longrightarrow> files_of t' q = files_of t q"
  by (simp add: written_def)

lemma written_at:
  "written p data m t t' \<Longrightarrow> files_of t p = None \<Longrightarrow> \<not> is_dir t p \<Longrightarrow> files_of t' p = Some \<lparr>f_data = data, f_mode = m\<rparr>"
  by (simp add: written_def)

lemma written_old: "written p data m t t' \<Longrightarrow> files_of t p = Some x \<Longrightarrow> files_of t' p = Some x"
  by (simp add: written_def)

lemma written_is_dir: "written p data m t t' \<Longrightarrow> is_dir t' q = is_dir t q"
  by (simp add: written_def is_dir_def)

section \<open>The key pair\<close>

text \<open>The key pair of a namespace after ensureControllerKeyPair.\<close>

definition key_pair :: "ProvEnv \<Rightarrow> string \<Rightarrow> nat \<Rightarrow> Key \<Rightarrow> Key \<Rightarrow> keyStatus \<Rightarrow> tree \<Rightarrow> tree \<Rightarrow> bool" where
  "key_pair env d n priv pub status t t' =
     (let key = filepath_Join d ''controller.key''; pubf = filepath_Join d ''controller.pub'' in
      Public (pe_base env) priv = Some pub
      \<and> (\<forall>q. q \<noteq> key \<and> q \<noteq> pubf \<longrightarrow> files_of t' q = files_of t q) \<and> tr_dirs t' = tr_dirs t \<and> \<not> is_dir t key
      \<and> (case status of keyStatusAlreadyExisted \<Rightarrow> \<exists>x. files_of t key = Some x \<and> files_of t' key = Some x \<and> ParseKey (f_data x) = Inr priv
         | keyStatusCreated \<Rightarrow> files_of t key = None \<and> (\<exists>p. Keygen (pe_generate env) n = Some (priv, p))
             \<and> files_of t' key = Some \<lparr>f_data = Key_String priv @ [newline], f_mode = 384\<rparr>)
      \<and> (if files_of t pubf = None \<and> \<not> is_dir t pubf
         then files_of t' pubf = Some \<lparr>f_data = Key_String pub @ [newline], f_mode = 420\<rparr>
         else files_of t' pubf = files_of t pubf))"

lemma key_files_differ [simp]:
  "filepath_Join d ''controller.key'' \<noteq> filepath_Join d ''controller.pub''"
  "filepath_Join d ''controller.pub'' \<noteq> filepath_Join d ''controller.key''"
  "filepath_Join d ''provd.yaml'' \<noteq> filepath_Join d ''controller.key''"
  "filepath_Join d ''provd.yaml'' \<noteq> filepath_Join d ''controller.pub''"
  by (simp_all add: Join_inj)

lemma ensure_pub_pair:
  assumes "ensure_pub env d st priv s = (Inr (pub, status), s')"
  shows "status = st \<and> Public (pe_base env) priv = Some pub \<and> pv_rand s' = pv_rand s \<and> pv_out s' = pv_out s
    \<and> written (filepath_Join d ''controller.pub'') (Key_String pub @ [newline]) 420 (pv_tree s) (pv_tree s')"
proof -
  obtain p where p: "Public (pe_base env) priv = Some p"
    using assms by (cases "Public (pe_base env) priv") (auto simp: ensure_pub_def)
  obtain r s1 where 1: "on_tree (WriteFile (filepath_Join d ''controller.pub'') (Key_String p @ [newline]) 420) s = (r, s1)"
    by fastforce
  have "p = pub \<and> status = st \<and> s1 = s' \<and> (r = Inr () \<or> (\<exists>q. r = Inl (ErrExists q)))"
    using assms p 1 by (auto simp: ensure_pub_def split: sum.splits serr.splits)
  then show ?thesis using p WriteFile_written [OF 1] by auto
qed

lemma readControllerKey_cases:
  assumes "on_tree (readControllerKey p) s = (r, s')"
  shows "files_of (pv_tree s') = files_of (pv_tree s) \<and> tr_dirs (pv_tree s') = tr_dirs (pv_tree s) \<and> pv_rand s' = pv_rand s
    \<and> pv_out s' = pv_out s
    \<and> (\<forall>k. r = Inr k \<longrightarrow> \<not> is_dir (pv_tree s) p \<and> (\<exists>x. files_of (pv_tree s) p = Some x \<and> ParseKey (f_data x) = Inr k))
    \<and> (r = Inl RKAbsent \<longrightarrow> files_of (pv_tree s) p = None \<and> \<not> is_dir (pv_tree s) p)"
  using assms
proof (rule on_treeE)
  fix t assume run: "readControllerKey p (pv_tree s) = (r, t)" and s': "s' = s\<lparr>pv_tree := t\<rparr>"
  have "reads_on UNIV (readControllerKey p)"
    unfolding readControllerKey_def by (intro reads_andThen reads_wrap reads_ReadFile) (auto split: sum.splits)
  then have q: "quiet (pv_tree s) t" using reads_quiet run by blast
  obtain x t1 where 1: "t_ReadFile p (pv_tree s) = (x, t1)" by fastforce
  have "x = Inl NotExist \<longrightarrow> files_of (pv_tree s) p = None \<and> \<not> is_dir (pv_tree s) p"
    "\<forall>d. x = Inr d \<longrightarrow> \<not> is_dir (pv_tree s) p \<and> (\<exists>f. files_of (pv_tree s) p = Some f \<and> f_data f = d)"
    using 1 by (auto simp: t_ReadFile_def on_files_def os_ReadFile_def syscall_def Let_def split: if_splits prod.splits option.splits list.splits)
  then show ?thesis
    using run 1 q s' by (auto simp: readControllerKey_def andThen_def wrap_def quiet_def split: sum.splits if_splits)
qed

lemma ensure_key_pair:
  assumes "ensureControllerKeyPair env d s = (Inr (pub, status), s')"
  shows "\<exists>priv. key_pair env d (pv_rand s) priv pub status (pv_tree s) (pv_tree s') \<and> pv_out s' = pv_out s"
proof -
  let ?key = "filepath_Join d ''controller.key''"
  obtain k s1 where 1: "on_tree (readControllerKey ?key) s = (k, s1)" by fastforce
  note rd = readControllerKey_cases [OF 1]
  show ?thesis
  proof (cases k)
    case (Inr priv)
    then have "ensure_pub env d keyStatusAlreadyExisted priv s1 = (Inr (pub, status), s')"
      using assms 1 by (simp add: ensureControllerKeyPair_def)
    note e = ensure_pub_pair [OF this]
    show ?thesis using rd e Inr by (intro exI [of _ priv]) (auto simp: key_pair_def Let_def written_def is_dir_def)
  next
    case (Inl e)
    then have abs: "e = RKAbsent" using assms 1 by (auto simp: ensureControllerKeyPair_def split: if_splits)
    obtain priv p s2 s3 where 2: "Keygen (pe_generate env) (pv_rand s1) = Some (priv, p)" "s2 = s1\<lparr>pv_rand := Suc (pv_rand s1)\<rparr>"
      and 3: "on_tree (WriteFile ?key (Key_String priv @ [newline]) 384) s2 = (Inr (), s3)"
      and 4: "ensure_pub env d keyStatusCreated priv s3 = (Inr (pub, status), s')"
      using assms 1 Inl abs by (auto simp: ensureControllerKeyPair_def andThen_Inr draw_def split: option.splits)
    have w: "written ?key (Key_String priv @ [newline]) 384 (pv_tree s2) (pv_tree s3) \<and> pv_out s3 = pv_out s2"
      using WriteFile_written [OF 3] by simp
    have n: "files_of (pv_tree s2) ?key = None" "\<not> is_dir (pv_tree s2) ?key" using rd Inl abs 2(2) by (auto simp: is_dir_def)
    show ?thesis using rd Inl abs 2 w n ensure_pub_pair [OF 4]
      by (intro exI [of _ priv]) (auto simp: key_pair_def Let_def written_def is_dir_def)
  qed
qed

lemma key_pairD:
  assumes "key_pair env d n priv pub status t t'"
  shows "Public (pe_base env) priv = Some pub"
    and "status = keyStatusAlreadyExisted \<Longrightarrow> \<exists>x. files_of t (filepath_Join d ''controller.key'') = Some x
        \<and> files_of t' (filepath_Join d ''controller.key'') = Some x \<and> ParseKey (f_data x) = Inr priv"
    and "status = keyStatusCreated \<Longrightarrow> \<exists>p. Keygen (pe_generate env) n = Some (priv, p)"
    and "status = keyStatusCreated \<Longrightarrow> files_of t (filepath_Join d ''controller.key'') = None
        \<and> files_of t' (filepath_Join d ''controller.key'') = Some \<lparr>f_data = Key_String priv @ [newline], f_mode = 384\<rparr>"
    and "files_of t (filepath_Join d ''controller.pub'') = None \<Longrightarrow> \<not> is_dir t (filepath_Join d ''controller.pub'') \<Longrightarrow>
        files_of t' (filepath_Join d ''controller.pub'') = Some \<lparr>f_data = Key_String pub @ [newline], f_mode = 420\<rparr>"
    and "is_dir t' q = is_dir t q" and "\<not> is_dir t (filepath_Join d ''controller.key'')"
    and "q \<noteq> filepath_Join d ''controller.key'' \<Longrightarrow> q \<noteq> filepath_Join d ''controller.pub'' \<Longrightarrow> files_of t' q = files_of t q"
  using assms by (simp_all add: key_pair_def Let_def is_dir_def)

section \<open>A successful init\<close>

definition key_line :: "keyStatus \<Rightarrow> Key \<Rightarrow> oline" where
  "key_line status pub = (case status of keyStatusCreated \<Rightarrow> GeneratedKey pub | keyStatusAlreadyExisted \<Rightarrow> ExistingKey pub)"

lemma init_result:
  assumes "runInit_steps env arg s = (Inr u, s')"
  obtains ns d s4 s5 n priv pub status where "ResolveName (pe_Dir env) ns = Inr d"
    and "if arg = [] then \<exists>buf. pe_bytes env 8 (pv_rand s) = Some buf \<and> ns = hex_EncodeToString buf else ns = arg"
    and "\<And>q. base_name q \<noteq> ''README.md'' \<Longrightarrow> files_of s4 q = files_of (pv_tree s) q"
    and "written (filepath_Join d ''provd.yaml'') defaultProvdYAML 420 s4 s5"
    and "key_pair env d n priv pub status s5 (pv_tree s')" and "last (pv_out s') = key_line status pub"
proof -
  obtain s1 s2 s3 s4 s5 s6 ns d l pub status where
    1: "on_tree (CreateDir (pe_Dir env) rootDirMode) s = (Inr (), s1)"
    and 2: "keep_existing (on_tree (WriteFile (filepath_Join (pe_Dir env) ''README.md'') rootReadme 420))
       (Wrote (filepath_Join (pe_Dir env) ''README.md'')) (Unchanged ''README.md'') s1 = (Inr (), s2)"
    and 3: "(if arg = [] then randomNamespace env else ret arg) s2 = (Inr ns, s3)"
    and 4: "ResolveName (pe_Dir env) ns = Inr d" "on_tree (CreateDir d namespaceDirMode) s3 = (Inr (), s4)"
    and 5: "keep_existing (on_tree (WriteFile (filepath_Join d ''provd.yaml'') defaultProvdYAML 420))
       (Wrote (filepath_Join d ''provd.yaml'')) (Unchanged ''provd.yaml'') (s4\<lparr>pv_out := pv_out s4 @ [l]\<rparr>) = (Inr (), s5)"
    and 6: "ensureControllerKeyPair env d s5 = (Inr (pub, status), s6)" "print (key_line status pub) s6 = (Inr u, s')"
    using assms unfolding runInit_steps_def
    by (auto simp: andThen_Inr of_result_def print_def key_line_def split: prod.splits)
  note w1 = CreateDir_files [OF 1] and w2 = keep_existing_written [OF 2]
    and w4 = CreateDir_files [OF 4(2)] and w5 = keep_existing_written [OF 5]
  have n: "(if arg = [] then \<exists>buf. pe_bytes env 8 (pv_rand s2) = Some buf \<and> ns = hex_EncodeToString buf else ns = arg) \<and> pv_tree s3 = pv_tree s2"
    using 3 by (auto simp: randomNamespace_def andThen_Inr draw_def split: if_splits option.splits)
  have r: "pv_rand s2 = pv_rand s" using w1 w2 by simp
  have f: "files_of (pv_tree s4) q = files_of (pv_tree s) q" if "base_name q \<noteq> ''README.md''" for q
    using w1 w2 w4 n that written_other [of _ _ _ "pv_tree s1" "pv_tree s2" q] base_name_Join [of "''README.md''" "pe_Dir env"]
    by auto
  obtain priv where k: "key_pair env d (pv_rand s5) priv pub status (pv_tree s5) (pv_tree s6)"
    using ensure_key_pair [OF 6(1)] by blast
  have k': "key_pair env d (pv_rand s5) priv pub status (pv_tree s5) (pv_tree s')" "last (pv_out s') = key_line status pub"
    using k 6(2) by (auto simp: print_def)
  show thesis
    using that [OF 4(1) conjunct1 [OF n [unfolded r]] f _ k'] w5 by simp
qed

lemma runInit_0:
  "runInit env args s = (CmdExit 0, s') \<Longrightarrow> \<exists>u. runInit_steps env (case args of [] \<Rightarrow> [] | a # _ \<Rightarrow> a) s = (Inr u, s')"
  by (auto simp: runInit_def exit_of_def split: if_splits prod.splits sum.splits cmderr.splits)

text \<open>Init succeeds only with a usable key pair: after exit 0 the namespace's controller.key holds a valid
  private key, the old one if there was one and else one from the random source, and the last line printed
  has its public key; a controller.pub that was missing now holds that public key.\<close>

theorem init_key_pair:
  assumes "runInit env [ns] s = (CmdExit 0, s')" and "ns \<noteq> []" and "key_length (pe_generate env)"
  shows "\<exists>d priv pub x. ResolveName (pe_Dir env) ns = Inr d
    \<and> files_of (pv_tree s') (filepath_Join d ''controller.key'') = Some x \<and> ParseKey (f_data x) = Inr priv
    \<and> Public (pe_base env) priv = Some pub
    \<and> (case files_of (pv_tree s) (filepath_Join d ''controller.key'') of
         Some y \<Rightarrow> x = y \<and> last (pv_out s') = ExistingKey pub
       | None \<Rightarrow> (\<exists>n p. Keygen (pe_generate env) n = Some (priv, p)) \<and> f_mode x = 384 \<and> last (pv_out s') = GeneratedKey pub)
    \<and> (files_of (pv_tree s) (filepath_Join d ''controller.pub'') = None \<and> \<not> is_dir (pv_tree s') (filepath_Join d ''controller.pub'') \<longrightarrow>
        files_of (pv_tree s') (filepath_Join d ''controller.pub'') = Some \<lparr>f_data = Key_String pub @ [newline], f_mode = 420\<rparr>)"
proof -
  obtain u where run: "runInit_steps env ns s = (Inr u, s')" using runInit_0 [OF assms(1)] by auto
  from run show ?thesis
  proof (rule init_result)
  fix ns' d s4 s5 n priv pub status
  assume d': "ResolveName (pe_Dir env) ns' = Inr d" "if ns = [] then \<exists>buf. pe_bytes env 8 (pv_rand s) = Some buf \<and> ns' = hex_EncodeToString buf else ns' = ns"
    and f: "\<And>q. base_name q \<noteq> ''README.md'' \<Longrightarrow> files_of s4 q = files_of (pv_tree s) q"
    and w: "written (filepath_Join d ''provd.yaml'') defaultProvdYAML 420 s4 s5"
    and k: "key_pair env d n priv pub status s5 (pv_tree s')" and l: "last (pv_out s') = key_line status pub"
  have d: "ResolveName (pe_Dir env) ns = Inr d" using d' assms(2) by simp
  have f5: "files_of s5 (filepath_Join d x) = files_of (pv_tree s) (filepath_Join d x)" if "x \<in> {''controller.key'', ''controller.pub''}" for x
    using that written_other [OF w] f by (auto simp: base_name_Join Join_inj)
  have new: "ParseKey (Key_String priv @ [newline]) = Inr priv" if "Keygen (pe_generate env) m = Some (priv, p)" for m p
    using that assms(3) ParseKey_encoded [of priv "[]" "[newline]"]
    by (auto simp: Keygen_def key_length_def ascii_space_def split: option.splits)
  note kd = key_pairD [OF k]
  have pubf: "files_of (pv_tree s) (filepath_Join d ''controller.pub'') = None \<and> \<not> is_dir (pv_tree s') (filepath_Join d ''controller.pub'') \<longrightarrow>
      files_of (pv_tree s') (filepath_Join d ''controller.pub'') = Some \<lparr>f_data = Key_String pub @ [newline], f_mode = 420\<rparr>"
    using kd(5) kd(6) f5 [of "''controller.pub''"] by simp
  show ?thesis
  proof (cases status)
    case keyStatusCreated
    obtain m p where g: "Keygen (pe_generate env) m = Some (priv, p)" using kd(3) keyStatusCreated by blast
    show ?thesis
      by (rule exI [of _ d], rule exI [of _ priv], rule exI [of _ pub], rule exI)
        (use d kd(1, 4) keyStatusCreated g new [OF g] l pubf f5 [of "''controller.key''"] in \<open>auto simp: key_line_def\<close>)
  next
    case keyStatusAlreadyExisted
    obtain x where x: "files_of s5 (filepath_Join d ''controller.key'') = Some x"
        "files_of (pv_tree s') (filepath_Join d ''controller.key'') = Some x" "ParseKey (f_data x) = Inr priv"
      using kd(2) keyStatusAlreadyExisted by blast
    show ?thesis
      by (rule exI [of _ d], rule exI [of _ priv], rule exI [of _ pub], rule exI [of _ x])
        (use d kd(1) keyStatusAlreadyExisted x l pubf f5 [of "''controller.key''"] in \<open>simp add: key_line_def\<close>)
  qed
  qed
qed

section \<open>Reading the deployment back\<close>

lemma readFile_Inr:
  assumes "readFile p t = (Inr data, t')"
  shows "\<exists>x. files_of t p = Some x \<and> f_data x = data" and "files_of t' = files_of t"
proof -
  have "t_ReadFile p t = (Inr data, t')" using assms by (simp add: readFile_def)
  then show "\<exists>x. files_of t p = Some x \<and> f_data x = data" "files_of t' = files_of t"
    by (auto simp: t_ReadFile_def on_files_def os_ReadFile_def syscall_def Let_def split: if_splits prod.splits option.splits list.splits)
qed

lemma readKey_Inr:
  assumes "readKey p t = (Inr k, t')"
  shows "\<exists>x. files_of t p = Some x \<and> ParseKey (f_data x) = Inr k" and "files_of t' = files_of t"
proof -
  obtain data t1 where r: "readFile p t = (Inr data, t1)"
    and c: "(case ParseKey data of Inl _ \<Rightarrow> fail_with (ErrInvalidKey p) | Inr key \<Rightarrow> ret key) t1 = (Inr k, t')"
    using assms by (auto simp: readKey_def andThen_Inr)
  have 1: "readFile p t = (Inr data, t')" and 2: "ParseKey data = Inr k"
    using r c by (cases "ParseKey data"; simp)+
  show "\<exists>x. files_of t p = Some x \<and> ParseKey (f_data x) = Inr k" "files_of t' = files_of t"
    using readFile_Inr [OF 1] 2 by auto
qed

lemma ReadDeployment_Inr:
  assumes "ReadDeployment yaml base ns t = (Inr dep, t')" and "ResolveName base ns = Inr d"
  shows "\<exists>x. files_of t (filepath_Join d ''controller.key'') = Some x \<and> ParseKey (f_data x) = Inr (dp_ControllerPrivateKey dep)"
    and "\<exists>x. files_of t (filepath_Join d ''controller.pub'') = Some x \<and> ParseKey (f_data x) = Inr (dp_ControllerPublicKey dep)"
    and "\<exists>x. files_of t (filepath_Join d ''provd.yaml'') = Some x
      \<and> provd_settings yaml (filepath_Join d ''provd.yaml'') (f_data x) = Inr (dp_Backend dep, dp_RepublishInterval dep)"
    and "files_of t' = files_of t"
proof -
  obtain data t1 t2 b i priv pub where 1: "readFile (filepath_Join d ''provd.yaml'') t = (Inr data, t1)"
    and b: "provd_settings yaml (filepath_Join d ''provd.yaml'') data = Inr (b, i)"
    and 2: "readKey (filepath_Join d ''controller.key'') t1 = (Inr priv, t2)"
    and 3: "readKey (filepath_Join d ''controller.pub'') t2 = (Inr pub, t')"
    and dep: "dep = \<lparr>dp_Namespace = ns, dp_Backend = b, dp_RepublishInterval = i, dp_ControllerPrivateKey = priv, dp_ControllerPublicKey = pub\<rparr>"
    using assms by (auto simp: ReadDeployment_def andThen_Inr of_result_def)
  show "\<exists>x. files_of t (filepath_Join d ''controller.key'') = Some x \<and> ParseKey (f_data x) = Inr (dp_ControllerPrivateKey dep)"
    using readKey_Inr [OF 2] readFile_Inr [OF 1] dep by simp
  show "\<exists>x. files_of t (filepath_Join d ''controller.pub'') = Some x \<and> ParseKey (f_data x) = Inr (dp_ControllerPublicKey dep)"
    using readKey_Inr [OF 3] readKey_Inr [OF 2] readFile_Inr [OF 1] dep by simp
  show "\<exists>x. files_of t (filepath_Join d ''provd.yaml'') = Some x
      \<and> provd_settings yaml (filepath_Join d ''provd.yaml'') (f_data x) = Inr (dp_Backend dep, dp_RepublishInterval dep)"
    using readFile_Inr [OF 1] b dep by auto
  show "files_of t' = files_of t" using readKey_Inr [OF 3] readKey_Inr [OF 2] readFile_Inr [OF 1] by simp
qed

text \<open>Reading succeeds when the files are there and no call fails.\<close>

lemma readFile_there:
  assumes "files_of t p = Some x" and "\<not> is_dir t p" and "fs_faults (tr_fs t) = []"
  shows "\<exists>t'. readFile p t = (Inr (f_data x), t') \<and> quiet t t'"
proof -
  obtain r t' where run: "t_ReadFile p t = (r, t')" by fastforce
  note tq = touch_quiet [OF ReadFile_touch [OF run assms(2, 1)]]
  then have "r = Inr (f_data x)" "quiet t t'" using assms(3) by blast+
  then show ?thesis using run by (auto simp: readFile_def)
qed

lemma quiet_there: "quiet t t' \<Longrightarrow> fs_faults (tr_fs t) = [] \<Longrightarrow>
   fs_faults (tr_fs t') = [] \<and> files_of t' = files_of t \<and> is_dir t' q = is_dir t q"
  by (simp add: quiet_def is_dir_def)

lemma readKey_there:
  assumes "files_of t p = Some x" and "\<not> is_dir t p" and "fs_faults (tr_fs t) = []" and "ParseKey (f_data x) = Inr k"
  shows "\<exists>t'. readKey p t = (Inr k, t') \<and> quiet t t'"
proof -
  obtain t' where "readFile p t = (Inr (f_data x), t')" "quiet t t'" using readFile_there [OF assms(1-3)] by blast
  then show ?thesis using assms(4) by (simp add: readKey_def andThen_def)
qed

lemma ReadDeployment_there:
  assumes "ResolveName base ns = Inr d" and "fs_faults (tr_fs t) = []"
    and "files_of t (filepath_Join d ''provd.yaml'') = Some a" and "\<not> is_dir t (filepath_Join d ''provd.yaml'')"
    and "provd_settings yaml (filepath_Join d ''provd.yaml'') (f_data a) = Inr (b, i)"
    and "files_of t (filepath_Join d ''controller.key'') = Some x" and "\<not> is_dir t (filepath_Join d ''controller.key'')"
    and "ParseKey (f_data x) = Inr priv"
    and "files_of t (filepath_Join d ''controller.pub'') = Some y" and "\<not> is_dir t (filepath_Join d ''controller.pub'')"
    and "ParseKey (f_data y) = Inr pub"
  shows "\<exists>t'. ReadDeployment yaml base ns t = (Inr \<lparr>dp_Namespace = ns, dp_Backend = b, dp_RepublishInterval = i,
    dp_ControllerPrivateKey = priv, dp_ControllerPublicKey = pub\<rparr>, t') \<and> quiet t t'"
proof -
  obtain t1 where 1: "readFile (filepath_Join d ''provd.yaml'') t = (Inr (f_data a), t1)" "quiet t t1"
    using readFile_there [OF assms(3, 4, 2)] by blast
  note q1 = quiet_there [OF 1(2) assms(2)]
  obtain t2 where 2: "readKey (filepath_Join d ''controller.key'') t1 = (Inr priv, t2)" "quiet t1 t2"
    using readKey_there [of t1] q1 assms(6-8) by metis
  note q2 = quiet_there [OF 2(2) conjunct1 [OF q1]]
  obtain t3 where 3: "readKey (filepath_Join d ''controller.pub'') t2 = (Inr pub, t3)" "quiet t2 t3"
    using readKey_there [of t2] q1 q2 assms(9-11) by metis
  have "quiet t t3" using 1(2) 2(2) 3(2) quiet_trans by blast
  then show ?thesis
    unfolding ReadDeployment_def assms(1) of_result_then by (simp add: andThen_def 1 2 3 assms(5) of_result_def)
qed

section \<open>A fresh deployment\<close>

text \<open>What the YAML parser makes of the default provd.yaml (maps are printed in key order).\<close>

definition default_proxies :: "string list" where
  "default_proxies = [''https://dhtproxy2.jami.net'', ''https://dhtproxy3.jami.net'']"

definition default_settings :: json where
  "default_settings = JObj [(''plugins'', JObj [(''dht'', JObj [(''proxies'', JArr (map JStr default_proxies)), (''type'', JStr ''dhtproxy'')])]),
     (''republish_interval'', JStr ''5m''), (''use_plugin'', JStr ''dht'')]"

definition reads_default :: "(string \<Rightarrow> string option) \<Rightarrow> bool" where
  "reads_default yaml = (yaml defaultProvdYAML = Some (print_json (go_quote True) default_settings))"

lemma ParseDuration_5m: "ParseDuration ''5m'' = Some 300000000000"
proof -
  have five: "''5m'' = show_nat 5 @ ''m''" by code_simp
  have "add_units 0 (show_nat 5 @ ''m'') = Some 300000000000"
    using one_unit_whole [of "''m''" 60000000000 5]
    by (simp add: add_units.simps [of 0 "show_nat 5 @ ''m''"] add_units.simps [of 300000000000 "[]"] unitMap_def Let_def)
  then show ?thesis unfolding five by (simp add: ParseDuration_def Let_def five [symmetric])
qed

lemma default_wf: "json_wf default_settings" "depth default_settings \<le> max_depth"
  by (simp_all add: default_settings_def default_proxies_def valid_utf8_printable max_depth_def depth_JObj depth_JArr del: depth.simps(2))

lemma default_read:
  assumes "reads_default yaml"
  shows "provd_settings yaml p defaultProvdYAML = Inr (\<lparr>bc_Type = TypeDHTProxy, bc_Proxies = default_proxies\<rparr>, 300000000000)"
proof -
  have "unmarshal (print_json (go_quote True) default_settings) = Some default_settings"
    using html.unmarshal_print [OF default_wf] .
  moreover have "dec_provdYAML default_settings zero_provdYAML = Inr \<lparr>py_Proxies = None,
      py_Plugins = Some [(''dht'', \<lparr>pl_Type = TypeDHTProxy, pl_Proxies = Some default_proxies\<rparr>)], py_UsePlugin = ''dht'',
      py_RepublishInterval = ''5m''\<rparr>"
    by (simp add: default_settings_def dec_provdYAML_def find_field_def zero_provdYAML_def dec_plugin_any_def dec_elems_map TypeDHTProxy_def)
  ultimately show ?thesis using assms
    by (simp add: provd_settings_def reads_default_def backendConfig_def Resolve_def ParseDuration_5m default_proxies_def)
qed

text \<open>The file paths of a namespace, where no directory may be.\<close>

definition no_dirs :: "tree \<Rightarrow> string \<Rightarrow> bool" where
  "no_dirs t d = (\<forall>n \<in> {''provd.yaml'', ''controller.key'', ''controller.pub''}. \<not> is_dir t (filepath_Join d n))"

text \<open>C29: a namespace that init creates can be published at once: when provd.yaml and controller.pub were missing
  and no read fails, ReadDeployment gives the default proxies, an interval of five minutes and a matching key
  pair.\<close>

theorem init_deploys:
  assumes "runInit env [ns] s = (CmdExit 0, s')" and "ns \<noteq> []" and "ResolveName (pe_Dir env) ns = Inr d"
    and "files_of (pv_tree s) (filepath_Join d ''provd.yaml'') = None" and "files_of (pv_tree s) (filepath_Join d ''controller.pub'') = None"
    and "no_dirs (pv_tree s') d" and "fs_faults (tr_fs (pv_tree s')) = []" and "reads_default (pe_yaml env)"
    and "key_length (pe_generate env)" and "\<And>k p. length k = 32 \<Longrightarrow> pe_base env k = Some p \<Longrightarrow> length p = 32"
  shows "\<exists>dep t. ReadDeployment (pe_yaml env) (pe_Dir env) ns (pv_tree s') = (Inr dep, t)
    \<and> dp_Backend dep = \<lparr>bc_Type = TypeDHTProxy, bc_Proxies = default_proxies\<rparr> \<and> dp_RepublishInterval dep = 300000000000
    \<and> Public (pe_base env) (dp_ControllerPrivateKey dep) = Some (dp_ControllerPublicKey dep)"
proof -
  obtain u where run: "runInit_steps env ns s = (Inr u, s')" using runInit_0 [OF assms(1)] by auto
  from run show ?thesis
  proof (rule init_result)
    fix ns' d' s4 s5 n priv pub status
    assume d': "ResolveName (pe_Dir env) ns' = Inr d'" "if ns = [] then \<exists>buf. pe_bytes env 8 (pv_rand s) = Some buf \<and> ns' = hex_EncodeToString buf else ns' = ns"
      and f: "\<And>q. base_name q \<noteq> ''README.md'' \<Longrightarrow> files_of s4 q = files_of (pv_tree s) q"
      and w: "written (filepath_Join d' ''provd.yaml'') defaultProvdYAML 420 s4 s5"
      and k: "key_pair env d' n priv pub status s5 (pv_tree s')"
    have dd: "d' = d" using d' assms(2, 3) by simp
    note kd = key_pairD [OF k [unfolded dd]]
    have nd: "\<not> is_dir (pv_tree s') (filepath_Join d n)" "\<not> is_dir s5 (filepath_Join d n)" "\<not> is_dir s4 (filepath_Join d n)"
      if "n \<in> {''provd.yaml'', ''controller.key'', ''controller.pub''}" for n
      using assms(6) that kd(6) written_is_dir [OF w] unfolding no_dirs_def by blast+
    have "files_of s5 (filepath_Join d ''provd.yaml'') = Some \<lparr>f_data = defaultProvdYAML, f_mode = 420\<rparr>"
      using written_at [OF w [unfolded dd]] f [of "filepath_Join d ''provd.yaml''"] assms(4) nd by (simp add: base_name_Join)
    then have a: "files_of (pv_tree s') (filepath_Join d ''provd.yaml'') = Some \<lparr>f_data = defaultProvdYAML, f_mode = 420\<rparr>"
      using kd(8) by simp
    have "files_of s5 (filepath_Join d ''controller.pub'') = None"
      using written_other [OF w [unfolded dd]] f [of "filepath_Join d ''controller.pub''"] assms(5) by (simp add: base_name_Join Join_inj)
    then have y: "files_of (pv_tree s') (filepath_Join d ''controller.pub'') = Some \<lparr>f_data = Key_String pub @ [newline], f_mode = 420\<rparr>"
      using kd(5) nd by simp
    have parse: "ParseKey (Key_String x @ [newline]) = Inr x" if "length x = 32" for x
      using ParseKey_encoded [of x "[]" "[newline]"] that by (simp add: ascii_space_def)
    obtain x where x: "files_of (pv_tree s') (filepath_Join d ''controller.key'') = Some x" "ParseKey (f_data x) = Inr priv"
    proof (cases status)
      case keyStatusCreated
      obtain p where "Keygen (pe_generate env) n = Some (priv, p)" using kd(3) keyStatusCreated by blast
      then have "length priv = 32" using assms(9) by (auto simp: Keygen_def key_length_def split: option.splits)
      then show ?thesis using that kd(4) [OF keyStatusCreated] parse by simp
    next
      case keyStatusAlreadyExisted
      then show ?thesis using that kd(2) by blast
    qed
    have "length priv = 32" using x(2) by (auto simp: ParseKey_def Let_def split: if_splits option.splits)
    then have pub: "ParseKey (Key_String pub @ [newline]) = Inr pub" using parse assms(10) kd(1) by (simp add: Public_def)
    have rs: "provd_settings (pe_yaml env) (filepath_Join d ''provd.yaml'') (f_data \<lparr>f_data = defaultProvdYAML, f_mode = 420\<rparr>)
        = Inr (\<lparr>bc_Type = TypeDHTProxy, bc_Proxies = default_proxies\<rparr>, 300000000000)"
      and pp: "ParseKey (f_data \<lparr>f_data = Key_String pub @ [newline], f_mode = 420\<rparr>) = Inr pub"
      by (simp_all add: default_read [OF assms(8)] pub)
    have nn: "\<not> is_dir (pv_tree s') (filepath_Join d ''provd.yaml'')" "\<not> is_dir (pv_tree s') (filepath_Join d ''controller.key'')"
      "\<not> is_dir (pv_tree s') (filepath_Join d ''controller.pub'')" using nd(1) by simp_all
    obtain t where t: "ReadDeployment (pe_yaml env) (pe_Dir env) ns (pv_tree s') = (Inr \<lparr>dp_Namespace = ns,
        dp_Backend = \<lparr>bc_Type = TypeDHTProxy, bc_Proxies = default_proxies\<rparr>, dp_RepublishInterval = 300000000000,
        dp_ControllerPrivateKey = priv, dp_ControllerPublicKey = pub\<rparr>, t)"
      using ReadDeployment_there [OF assms(3, 7) a nn(1) rs x(1) nn(2) x(2) y nn(3) pp] by auto
    show ?thesis by (rule exI, rule exI, rule conjI [OF t]) (simp add: kd(1))
  qed
qed

lemma runNodeAdd_prints:
  assumes "runNodeAdd env (ns # nid # rest) s = (CmdExit 0, s')"
    and "ReadDeployment (pe_yaml env) (pe_Dir env) ns (pv_tree s) = (Inr dep, t)"
  shows "last (pv_out s') = Constants ns nid (dp_ControllerPublicKey dep) (bc_Proxies (dp_Backend dep))"
proof -
  obtain u where "runNodeAdd_steps env (ns # nid # rest) s = (Inr u, s')"
    using assms(1) by (auto simp: runNodeAdd_def exit_of_def split: if_splits prod.splits sum.splits cmderr.splits)
  moreover have "s1 = s" if "wrap g (of_result r) s = (Inr x, s1)" for g :: "serr \<Rightarrow> cmderr" and r x s1
    using that by (auto simp: wrap_def of_result_def split: sum.splits)
  moreover have "fst (m (pv_tree s)) = Inr x" if "wrap g (on_tree m) s = (Inr x, s1)" for g :: "serr \<Rightarrow> cmderr" and m x s1
    using that by (auto simp: wrap_def on_tree_def split: sum.splits prod.splits)
  ultimately show ?thesis using assms(2)
    by (fastforce simp: runNodeAdd_steps_def Let_def andThen_Inr print_def simp del: wrap_Inr)
qed

text \<open>C38: init keeps a controller.pub that is there even when it has to generate a new controller.key: the
  deployment read afterwards pairs the new private key with the old public key, which belongs to it only if it
  happens to be the new key's own; and the old public key is the one that a successful node add in that
  namespace then prints for the agent's configuration.\<close>

theorem init_stale_pub:
  assumes "runInit env [ns] s = (CmdExit 0, s')" and "ns \<noteq> []" and "ResolveName (pe_Dir env) ns = Inr d"
    and "files_of (pv_tree s) (filepath_Join d ''controller.key'') = None"
    and "files_of (pv_tree s) (filepath_Join d ''controller.pub'') = Some x" and "ParseKey (f_data x) = Inr old"
    and "key_length (pe_generate env)" and "ReadDeployment (pe_yaml env) (pe_Dir env) ns (pv_tree s') = (Inr dep, t)"
  shows "dp_ControllerPublicKey dep = old
    \<and> (\<exists>n p q. Keygen (pe_generate env) n = Some (dp_ControllerPrivateKey dep, p)
        \<and> Public (pe_base env) (dp_ControllerPrivateKey dep) = Some q)
    \<and> (case runNodeAdd env (ns # nid # rest) s' of (exit, s'') \<Rightarrow>
        if exit = CmdExit 0 then last (pv_out s'') = Constants ns nid old (bc_Proxies (dp_Backend dep)) else True)"
proof -
  obtain u where run: "runInit_steps env ns s = (Inr u, s')" using runInit_0 [OF assms(1)] by auto
  note rd = ReadDeployment_Inr [OF assms(8, 3)]
  have "files_of (pv_tree s') (filepath_Join d ''controller.pub'') = Some x"
    using obeys_commands(1) [of env "[ns]" s "CmdExit 0" s'] assms(1, 5) during_last unfolding preserved_def by blast
  then have old: "dp_ControllerPublicKey dep = old" using rd(2) assms(6) by simp
  have add: "case runNodeAdd env (ns # nid # rest) s' of (exit, s'') \<Rightarrow>
      if exit = CmdExit 0 then last (pv_out s'') = Constants ns nid old (bc_Proxies (dp_Backend dep)) else True"
    using runNodeAdd_prints [OF _ assms(8)] old by (auto split: prod.split)
  from run show ?thesis
  proof (rule init_result)
    fix ns' d' s4 s5 n priv pub status
    assume d': "ResolveName (pe_Dir env) ns' = Inr d'" "if ns = [] then \<exists>buf. pe_bytes env 8 (pv_rand s) = Some buf \<and> ns' = hex_EncodeToString buf else ns' = ns"
      and f: "\<And>q. base_name q \<noteq> ''README.md'' \<Longrightarrow> files_of s4 q = files_of (pv_tree s) q"
      and w: "written (filepath_Join d' ''provd.yaml'') defaultProvdYAML 420 s4 s5"
      and k: "key_pair env d' n priv pub status s5 (pv_tree s')"
    have dd: "d' = d" using d' assms(2, 3) by simp
    note kd = key_pairD [OF k [unfolded dd]]
    have "files_of s5 (filepath_Join d ''controller.key'') = None"
      using written_other [OF w [unfolded dd]] f [of "filepath_Join d ''controller.key''"] assms(4) by (simp add: base_name_Join Join_inj)
    then have created: "status = keyStatusCreated" using kd(2) by (cases status) auto
    obtain p where g: "Keygen (pe_generate env) n = Some (priv, p)" using kd(3) [OF created] by blast
    then have "length priv = 32" using assms(7) by (auto simp: Keygen_def key_length_def split: option.splits)
    then have "ParseKey (Key_String priv @ [newline]) = Inr priv"
      using ParseKey_encoded [of priv "[]" "[newline]"] by (simp add: ascii_space_def)
    then have "dp_ControllerPrivateKey dep = priv" using rd(1) kd(4) [OF created] by simp
    then show ?thesis using old g kd(1) add by blast
  qed
qed

section \<open>A tree\<close>

definition ex_penv :: ProvEnv where
  "ex_penv = \<lparr>pe_Dir = ''/p'',
     pe_yaml = (\<lambda>s. if s = defaultProvdYAML then Some (print_json (go_quote True) default_settings)
                      else if s = wgYAMLTemplate then Some ''null'' else Some ''{}''),
     pe_base = ex_base, pe_generate = (\<lambda>_. ex_generate ()), pe_bytes = (\<lambda>n _. Some (replicate n (CHR ''r''))), pe_stdin = None,
     pe_seal = pad_seal, pe_url = (\<lambda>u. Some (''https'', u)),
     pe_answer = (\<lambda>_ _. Some \<lparr>rsp_Status = 200, rsp_Body = ([], True)\<rparr>), pe_width = 64\<rparr>"

text \<open>An empty root, and one whose namespace has lost its controller.key.\<close>

definition ex_prov :: Provd where
  "ex_prov = \<lparr>pv_tree = \<lparr>tr_fs = \<lparr>fs_files = (\<lambda>_. None), fs_faults = [], fs_seed = 0, fs_hist = []\<rparr>,
       tr_dirs = [(''/'', 493)], tr_umask = 18\<rparr>,
     pv_out = [], pv_sent = [], pv_rand = 0\<rparr>"

definition ex_old_pub :: string where
  "ex_old_pub = Key_String (replicate 32 (CHR ''O''))"

definition ex_prov_pub :: Provd where
  "ex_prov_pub = \<lparr>pv_tree = \<lparr>tr_fs = \<lparr>fs_files = (\<lambda>_. None)(''/p/ns/controller.pub'' \<mapsto> \<lparr>f_data = ex_old_pub, f_mode = 420\<rparr>),
         fs_faults = [], fs_seed = 0, fs_hist = []\<rparr>,
       tr_dirs = [(''/'', 493), (''/p'', 493), (''/p/ns'', 448)], tr_umask = 18\<rparr>,
     pv_out = [], pv_sent = [], pv_rand = 0\<rparr>"

lemma ex_paths:
  "filepath_Clean ''/p'' = ''/p''" "filepath_Clean ''/p/ns'' = ''/p/ns''" "filepath_Dir ''/p'' = ''/''" "filepath_Dir ''/p/ns'' = ''/p''"
  "filepath_Clean ''/'' = ''/''" "path_parents ''/p'' = []" "path_parents ''/p/ns'' = [''/p'']"
  "filepath_Join ''/p'' ''README.md'' = ''/p/README.md''" "filepath_Join ''/p/ns'' ''provd.yaml'' = ''/p/ns/provd.yaml''"
  "filepath_Join ''/p/ns'' ''controller.key'' = ''/p/ns/controller.key''" "filepath_Join ''/p/ns'' ''controller.pub'' = ''/p/ns/controller.pub''"
  "filepath_Dir ''/p/README.md'' = ''/p''" "filepath_Dir ''/p/ns/provd.yaml'' = ''/p/ns''"
  "filepath_Dir ''/p/ns/controller.key'' = ''/p/ns''" "filepath_Dir ''/p/ns/controller.pub'' = ''/p/ns''"
  "filepath_Clean ''/p/README.md'' = ''/p/README.md''" "filepath_Clean ''/p/ns/provd.yaml'' = ''/p/ns/provd.yaml''"
  "filepath_Clean ''/p/ns/controller.key'' = ''/p/ns/controller.key''" "filepath_Clean ''/p/ns/controller.pub'' = ''/p/ns/controller.pub''"
  "path_parents ''/p/ns/controller.key'' = [''/p'', ''/p/ns'']"
  "ResolveName ''/p'' ''ns'' = Inr ''/p/ns''"
  by code_simp+

lemmas tree_run = t_Stat_def t_MkdirAll_def t_Mkdir_def t_ChmodDir_def t_OpenExcl_def t_ReadFile_def on_files_def touch_def
  is_dir_def missing_err_def os_Write_def os_Close_def os_Chmod_def on_tree_def CreateDir_def WriteFile_def fill_new_def
  andThen_def wrap_def

lemma ex_key_text: "ParseKey (Key_String (replicate 32 (CHR ''s'')) @ [newline]) = Inr (replicate 32 (CHR ''s''))"
  using ParseKey_encoded [of "replicate 32 (CHR ''s'')" "[]" "[newline]"] by (simp add: ascii_space_def)

lemma ex_pub_run: "Public ex_base (replicate 32 (CHR ''s'')) = Some (replicate 32 (CHR ''P''))"
  by (simp add: Public_def ex_base_def)

lemma ex_gen_run: "Keygen (\<lambda>_. ex_generate ()) n = Some (replicate 32 (CHR ''s''), replicate 32 (CHR ''P''))"
  by (simp add: Keygen_def ex_generate_def)

lemma ex_init:
  "\<exists>s'. runInit ex_penv [''ns''] ex_prov = (CmdExit 0, s') \<and> no_dirs (pv_tree s') ''/p/ns'' \<and> fs_faults (tr_fs (pv_tree s')) = []"
  by (simp add: runInit_def runInit_steps_def ex_penv_def ex_prov_def tree_run keep_existing_def print_def ex_paths Let_def
      rootDirMode_def namespaceDirMode_def ensureControllerKeyPair_def readControllerKey_def draw_def ex_gen_run ensure_pub_def
      ex_pub_run of_result_def exit_of_def no_dirs_def)

lemma ex_init_pub:
  "\<exists>s'. runInit ex_penv [''ns''] ex_prov_pub = (CmdExit 0, s')
    \<and> files_of (pv_tree s') ''/p/ns/provd.yaml'' = Some \<lparr>f_data = defaultProvdYAML, f_mode = 420\<rparr>
    \<and> files_of (pv_tree s') ''/p/ns/controller.key'' = Some \<lparr>f_data = Key_String (replicate 32 (CHR ''s'')) @ [newline], f_mode = 384\<rparr>
    \<and> files_of (pv_tree s') ''/p/ns/controller.pub'' = Some \<lparr>f_data = ex_old_pub, f_mode = 420\<rparr> \<and> no_dirs (pv_tree s') ''/p/ns'' \<and> fs_faults (tr_fs (pv_tree s')) = []"
  by (simp add: runInit_def runInit_steps_def ex_penv_def ex_prov_pub_def tree_run keep_existing_def print_def ex_paths Let_def
      rootDirMode_def namespaceDirMode_def ensureControllerKeyPair_def readControllerKey_def draw_def ex_gen_run ensure_pub_def
      ex_pub_run of_result_def exit_of_def no_dirs_def)

lemma ex_resolve: "ResolveName (pe_Dir ex_penv) ''ns'' = Inr ''/p/ns''"
  using ex_paths by (simp add: ex_penv_def)

lemma ex_laws: "reads_default (pe_yaml ex_penv)" "key_length (pe_generate ex_penv)" "length k = 32 \<Longrightarrow> pe_base ex_penv k = Some p \<Longrightarrow> length p = 32"
  by (auto simp: reads_default_def ex_penv_def key_length_def ex_generate_def ex_base_def)

theorem commands_safe_witness:
  "\<exists>s'. runInit ex_penv [''ns''] ex_prov_pub = (CmdExit 0, s')
    \<and> files_of (pv_tree s') ''/p/ns/controller.pub'' = Some \<lparr>f_data = ex_old_pub, f_mode = 420\<rparr>"
proof -
  obtain s' where run: "runInit ex_penv [''ns''] ex_prov_pub = (CmdExit 0, s')" using ex_init_pub by blast
  have "files_of (pv_tree ex_prov_pub) ''/p/ns/controller.pub'' = Some \<lparr>f_data = ex_old_pub, f_mode = 420\<rparr>"
    by (simp add: ex_prov_pub_def)
  moreover have "\<forall>p. case files_of (pv_tree ex_prov_pub) p of Some x \<Rightarrow> files_of (pv_tree s') p = Some x
     | None \<Rightarrow> (case files_of (pv_tree s') p of None \<Rightarrow> True
         | Some x \<Rightarrow> base_name p \<in> {''controller.key'', ''wg.yaml''} \<longrightarrow> f_mode x AND 63 = 0)"
    by (rule bspec [OF commands_safe [OF disjI1 [OF run]]]) simp
  ultimately show ?thesis using run by (auto dest: spec [of _ "''/p/ns/controller.pub''"])
qed

theorem init_key_pair_witness:
  "\<exists>s' x. runInit ex_penv [''ns''] ex_prov = (CmdExit 0, s') \<and> files_of (pv_tree s') ''/p/ns/controller.key'' = Some x \<and> f_mode x = 384"
proof -
  obtain s' where run: "runInit ex_penv [''ns''] ex_prov = (CmdExit 0, s')" using ex_init by blast
  show ?thesis using init_key_pair [OF run _ ex_laws(2)] run ex_resolve ex_paths by (auto simp: ex_prov_def)
qed

theorem init_deploys_witness:
  "\<exists>s' dep t. runInit ex_penv [''ns''] ex_prov = (CmdExit 0, s') \<and> ReadDeployment (pe_yaml ex_penv) ''/p'' ''ns'' (pv_tree s') = (Inr dep, t)
    \<and> dp_RepublishInterval dep = 300000000000"
proof -
  obtain s' where run: "runInit ex_penv [''ns''] ex_prov = (CmdExit 0, s')" "no_dirs (pv_tree s') ''/p/ns''"
    "fs_faults (tr_fs (pv_tree s')) = []" using ex_init by blast
  have f: "files_of (pv_tree ex_prov) q = None" for q by (simp add: ex_prov_def)
  have "pe_Dir ex_penv = ''/p''" by (simp add: ex_penv_def)
  then show ?thesis
    using init_deploys [OF run(1) _ ex_resolve f f run(2, 3) ex_laws(1, 2) ex_laws(3)] run(1) by fastforce
qed

text \<open>A deployment with one node, alpha.\<close>

definition ex_file :: "string \<Rightarrow> File" where
  "ex_file d = \<lparr>f_data = d, f_mode = 384\<rparr>"

definition ex_tree :: tree where
  "ex_tree = \<lparr>tr_fs = \<lparr>fs_files = map_of [(''/p/ns/provd.yaml'', ex_file defaultProvdYAML),
         (''/p/ns/controller.key'', ex_file (Key_String (replicate 32 (CHR ''s'')) @ [newline])),
         (''/p/ns/controller.pub'', ex_file (Key_String (replicate 32 (CHR ''P'')) @ [newline])),
         (''/p/ns/nodes/alpha/identity.pub'', ex_file (Key_String (replicate 32 (CHR ''P'')) @ [newline])),
         (''/p/ns/nodes/alpha/wg.yaml'', ex_file ''wg''), (''/p/ns/nodes/alpha/stunmesh.yaml'', ex_file ''x'')],
       fs_faults = [], fs_seed = 0, fs_hist = []\<rparr>,
     tr_dirs = [(''/'', 493), (''/p'', 493), (''/p/ns'', 448), (''/p/ns/nodes'', 493), (''/p/ns/nodes/alpha'', 448)], tr_umask = 18\<rparr>"

lemma ex_key_texts: "ParseKey (Key_String (replicate 32 (CHR ''P'')) @ [newline]) = Inr (replicate 32 (CHR ''P''))"
  "ParseKey ex_old_pub = Inr (replicate 32 (CHR ''O''))"
  using ParseKey_encoded [of "replicate 32 (CHR ''P'')" "[]" "[newline]"] ParseKey_encoded [of "replicate 32 (CHR ''O'')" "[]" "[]"]
  by (simp_all add: ascii_space_def ex_old_pub_def)

lemma ex_deployment:
  "\<exists>t'. ReadDeployment (pe_yaml ex_penv) ''/p'' ''ns'' ex_tree = (Inr \<lparr>dp_Namespace = ''ns'',
     dp_Backend = \<lparr>bc_Type = TypeDHTProxy, bc_Proxies = default_proxies\<rparr>, dp_RepublishInterval = 300000000000,
     dp_ControllerPrivateKey = replicate 32 (CHR ''s''), dp_ControllerPublicKey = replicate 32 (CHR ''P'')\<rparr>, t') \<and> quiet ex_tree t'"
  by (rule ReadDeployment_there [OF ex_paths(21)])
    (simp_all add: ex_paths ex_tree_def is_dir_def ex_file_def,
      simp_all add: default_read [OF ex_laws(1)] ex_key_text ex_key_texts)

theorem ReadDeployment_valid_witness:
  "\<exists>dep t. ReadDeployment (pe_yaml ex_penv) ''/p'' ''ns'' ex_tree = (Inr dep, t) \<and> bc_Proxies (dp_Backend dep) \<noteq> []"
  using ex_deployment ReadDeployment_valid by blast

theorem WriteFile_exclusive_witness:
  "WriteFile ''/p/ns/provd.yaml'' ''x'' 420 ex_tree = (Inl (ErrExists ''/p/ns/provd.yaml''), ex_tree)"
  using WriteFile_exclusive [of "''/p/ns/provd.yaml''" "''x''" 420 ex_tree] by (cases "WriteFile ''/p/ns/provd.yaml'' ''x'' 420 ex_tree") (simp add: ex_tree_def)

theorem init_stale_pub_witness:
  "\<exists>s' dep t. runInit ex_penv [''ns''] ex_prov_pub = (CmdExit 0, s') \<and> ReadDeployment (pe_yaml ex_penv) ''/p'' ''ns'' (pv_tree s') = (Inr dep, t)
    \<and> Public (pe_base ex_penv) (dp_ControllerPrivateKey dep) \<noteq> Some (dp_ControllerPublicKey dep)"
proof -
  obtain s' where run: "runInit ex_penv [''ns''] ex_prov_pub = (CmdExit 0, s')"
    and f: "files_of (pv_tree s') ''/p/ns/provd.yaml'' = Some \<lparr>f_data = defaultProvdYAML, f_mode = 420\<rparr>"
      "files_of (pv_tree s') ''/p/ns/controller.key'' = Some \<lparr>f_data = Key_String (replicate 32 (CHR ''s'')) @ [newline], f_mode = 384\<rparr>"
      "files_of (pv_tree s') ''/p/ns/controller.pub'' = Some \<lparr>f_data = ex_old_pub, f_mode = 420\<rparr>"
    and n: "no_dirs (pv_tree s') ''/p/ns''" "fs_faults (tr_fs (pv_tree s')) = []" using ex_init_pub by blast
  have "\<exists>t. ReadDeployment (pe_yaml ex_penv) ''/p'' ''ns'' (pv_tree s') = (Inr \<lparr>dp_Namespace = ''ns'',
     dp_Backend = \<lparr>bc_Type = TypeDHTProxy, bc_Proxies = default_proxies\<rparr>, dp_RepublishInterval = 300000000000,
     dp_ControllerPrivateKey = replicate 32 (CHR ''s''), dp_ControllerPublicKey = replicate 32 (CHR ''O'')\<rparr>, t) \<and> quiet (pv_tree s') t"
    using n(1) unfolding no_dirs_def
    by (intro ReadDeployment_there [OF ex_paths(21) n(2)])
      (simp_all add: ex_paths f, simp_all add: default_read [OF ex_laws(1)] ex_key_text ex_key_texts)
  then obtain dep t where d: "ReadDeployment (pe_yaml ex_penv) (pe_Dir ex_penv) ''ns'' (pv_tree s') = (Inr dep, t)"
    by (auto simp: ex_penv_def)
  have "ParseKey ex_old_pub = Inr (replicate 32 (CHR ''O''))" by (simp add: ex_key_texts)
  then have "dp_ControllerPublicKey dep = replicate 32 (CHR ''O'')
      \<and> (\<exists>n p. Keygen (pe_generate ex_penv) n = Some (dp_ControllerPrivateKey dep, p))"
    using init_stale_pub [OF run _ ex_resolve _ _ _ ex_laws(2) d, of "\<lparr>f_data = ex_old_pub, f_mode = 420\<rparr>"]
    by (auto simp: ex_prov_pub_def ex_paths)
  then have "dp_ControllerPublicKey dep = replicate 32 (CHR ''O'')" "dp_ControllerPrivateKey dep = replicate 32 (CHR ''s'')"
    by (simp_all add: ex_penv_def ex_gen_run)
  then show ?thesis using run d by (auto simp: ex_penv_def ex_base_def Public_def)
qed

end
