(* ===== verification/Publish.thy ===== *)
theory Publish
  imports ProvdInit
begin

text \<open>
  cmd/stunmesh-provd/publish_cmd.go: one publish round over the tree. A node's bundle is built,
  sealed and put to every proxy; what fails is recorded in the node's report and never stops the
  round. The deadline of a put is part of the answers: a put that is cut short gets no answer.
\<close>

section \<open>Reports\<close>

record nodeReport =
  nr_Namespace :: string
  nr_NodeID :: string
  nr_Key :: string
  nr_Bundle :: "Bundle option"
  nr_IdentityPublicKey :: Key
  nr_Sealed :: "string option"
  nr_Err :: "puberr option"

definition new_report :: "string \<Rightarrow> string \<Rightarrow> nodeReport" where
  "new_report namespace nodeID = \<lparr>nr_Namespace = namespace, nr_NodeID = nodeID, nr_Key = [], nr_Bundle = None,
     nr_IdentityPublicKey = replicate 32 (CHR 0x00), nr_Sealed = None, nr_Err = None\<rparr>"

definition failed_report :: "string \<Rightarrow> puberr \<Rightarrow> nodeReport" where
  "failed_report namespace e = (new_report namespace [])\<lparr>nr_Err := Some e\<rparr>"

definition report_line :: "nodeReport \<Rightarrow> oline" where
  "report_line r =
     (let label = (if nr_NodeID r \<noteq> [] then nr_Namespace r @ ''/'' @ nr_NodeID r else nr_Namespace r) in
      case nr_Err r of Some e \<Rightarrow> Failed label e | None \<Rightarrow> Published label (nr_Key r))"

definition put_line :: "oline \<Rightarrow> Provd \<Rightarrow> Provd" where
  "put_line l s = s\<lparr>pv_out := pv_out s @ [l]\<rparr>"

definition printPublishReport :: "nodeReport \<Rightarrow> Provd \<Rightarrow> Provd" where
  "printPublishReport r s = put_line (report_line r) s"

text \<open>A loop that appends what each element gives.\<close>

fun collect :: "('x \<Rightarrow> 's \<Rightarrow> 'r \<times> 's) \<Rightarrow> 'x list \<Rightarrow> 's \<Rightarrow> 'r list \<times> 's" where
  "collect f [] s = ([], s)"
| "collect f (x # xs) s = (case f x s of (r, s1) \<Rightarrow> (case collect f xs s1 of (rs, s2) \<Rightarrow> (r # rs, s2)))"

section \<open>One node\<close>

definition prov_Backend :: "ProvEnv \<Rightarrow> BackendConfig \<Rightarrow> dialerr + Client" where
  "prov_Backend env cfg = dial_New (pe_url env) (bc_Type cfg) (bc_Proxies cfg)"

text \<open>The report, the node and the bundle's JSON; or the report of the failure.\<close>

definition prepareNode :: "ProvEnv \<Rightarrow> Deployment \<Rightarrow> string \<Rightarrow> int \<Rightarrow> (Provd, nodeReport, nodeReport \<times> Node \<times> string) step" where
  "prepareNode env deployment nodeID now =
     (let report = new_report (dp_Namespace deployment) nodeID in
      andThen (wrap (\<lambda>e. report\<lparr>nr_Err := Some (PubReadNode e)\<rparr>)
          (on_tree (ReadNode (pe_yaml env) (pe_Dir env) (dp_Namespace deployment) nodeID))) (\<lambda>node.
      (let report = report\<lparr>nr_IdentityPublicKey := nd_IdentityPublicKey node\<rparr> in
       case buildBundle (pe_width env) (dp_Namespace deployment) node (now div 1000000000) of
         Inl e \<Rightarrow> fail_with (report\<lparr>nr_Err := Some (PubBuild e)\<rparr>)
       | Inr b \<Rightarrow>
           (let report = report\<lparr>nr_Bundle := Some b\<rparr> in
            case dht_Key (dp_Namespace deployment) nodeID of
              Inl e \<Rightarrow> fail_with (report\<lparr>nr_Err := Some (PubKey e)\<rparr>)
            | Inr key \<Rightarrow> ret (report\<lparr>nr_Key := key\<rparr>, node, marshal_bundle b)))))"

text \<open>The requests of one put.\<close>

definition put_requests :: "Client \<Rightarrow> string \<Rightarrow> string \<Rightarrow> Request list" where
  "put_requests c key data = (if isHexKey key then map (\<lambda>base. put_request base key data) (c_baseURLs c) else [])"

definition putSealed :: "ProvEnv \<Rightarrow> Client \<Rightarrow> string \<Rightarrow> string \<Rightarrow> (Provd, puberr, unit) step" where
  "putSealed env proxy key sealed s =
     (case Put (pe_url env) proxy key (pe_answer env (pv_sent s)) sealed of None \<Rightarrow> Inr () | Some e \<Rightarrow> Inl (PubPut e),
      s\<lparr>pv_sent := pv_sent s @ put_requests proxy key sealed\<rparr>)"

text \<open>The put of a report whose value is sealed.\<close>

definition put_report :: "ProvEnv \<Rightarrow> Client \<Rightarrow> nodeReport \<Rightarrow> string \<Rightarrow> Provd \<Rightarrow> nodeReport \<times> Provd" where
  "put_report env proxy report sealed s =
     (case putSealed env proxy (nr_Key report) sealed s of
        (Inl e, s') \<Rightarrow> (report\<lparr>nr_Sealed := Some sealed, nr_Err := Some e\<rparr>, s')
      | (Inr _, s') \<Rightarrow> (report\<lparr>nr_Sealed := Some sealed\<rparr>, s'))"

definition sealAndPutNode :: "ProvEnv \<Rightarrow> Client \<Rightarrow> Deployment \<Rightarrow> Node \<Rightarrow> nodeReport \<Rightarrow> string \<Rightarrow> Provd \<Rightarrow> nodeReport \<times> Provd" where
  "sealAndPutNode env proxy deployment node report plain s =
     (case draw (\<lambda>n. Seal (pe_seal env) (pe_bytes env nonceSize n) plain (nd_IdentityPublicKey node)
            (dp_ControllerPrivateKey deployment)) () s of
        (Inl _, s') \<Rightarrow> (report\<lparr>nr_Err := Some PubSeal\<rparr>, s')
      | (Inr sealed, s') \<Rightarrow> put_report env proxy report sealed s')"

definition publishNode :: "ProvEnv \<Rightarrow> Client \<Rightarrow> Deployment \<Rightarrow> string \<Rightarrow> int \<Rightarrow> Provd \<Rightarrow> nodeReport \<times> Provd" where
  "publishNode env proxy deployment nodeID now s =
     (case prepareNode env deployment nodeID now s of
        (Inl report, s') \<Rightarrow> (report, s')
      | (Inr (report, node, plain), s') \<Rightarrow> sealAndPutNode env proxy deployment node report plain s')"

section \<open>A round\<close>

definition publishNamespace :: "ProvEnv \<Rightarrow> string \<Rightarrow> int \<Rightarrow> Provd \<Rightarrow> nodeReport list \<times> Provd" where
  "publishNamespace env namespace now s =
     (case on_tree (ReadDeployment (pe_yaml env) (pe_Dir env) namespace) s of
        (Inl e, s1) \<Rightarrow> ([failed_report namespace (PubDeployment e)], s1)
      | (Inr deployment, s1) \<Rightarrow>
          (case on_tree (Nodes (pe_Dir env) namespace) s1 of
             (Inl (ErrNotExist _), s2) \<Rightarrow> ([], s2)
           | (Inl e, s2) \<Rightarrow> ([failed_report namespace (PubNodes e)], s2)
           | (Inr nodeIDs, s2) \<Rightarrow>
               (case prov_Backend env (dp_Backend deployment) of
                  Inl e \<Rightarrow> ([failed_report namespace (PubBackend e)], s2)
                | Inr proxy \<Rightarrow> collect (\<lambda>nodeID. publishNode env proxy deployment nodeID now) nodeIDs s2)))"

definition resolveNamespaces :: "ProvEnv \<Rightarrow> string \<Rightarrow> (Provd, puberr, string list) step" where
  "resolveNamespaces env ns =
     wrap PubResolve
       (if ns = [] then on_tree (Namespaces (pe_Dir env))
        else andThen (on_tree (ReadDeployment (pe_yaml env) (pe_Dir env) ns)) (\<lambda>_. ret [ns]))"

definition publishRound :: "ProvEnv \<Rightarrow> string \<Rightarrow> int \<Rightarrow> (Provd, puberr, nodeReport list) step" where
  "publishRound env ns now =
     andThen (resolveNamespaces env ns) (\<lambda>namespaces s.
       (case collect (\<lambda>namespace. publishNamespace env namespace now) namespaces s of (rs, s') \<Rightarrow> (Inr (concat rs), s')))"

text \<open>publish --once: the exit code, after the report lines.\<close>

definition publish_once :: "ProvEnv \<Rightarrow> string \<Rightarrow> int \<Rightarrow> Provd \<Rightarrow> cmdexit \<times> Provd" where
  "publish_once env ns now s =
     (case publishRound env ns now s of
        (Inl e, s1) \<Rightarrow> (CmdExit 1, put_line (RoundFailed e) s1)
      | (Inr reports, s1) \<Rightarrow>
          (let n_failed = length (filter (\<lambda>r. nr_Err r \<noteq> None) reports); s2 = fold printPublishReport reports s1 in
           if n_failed > 0 then (CmdExit 1, put_line (FailedCount n_failed (length reports)) s2)
           else (CmdExit 0, if reports = [] then put_line NothingToPublish s2 else s2)))"

end
