(* ===== verification/Publish_Props.thy ===== *)
theory Publish_Props
  imports Publish Init_Props
begin

text \<open>
  What a publish round delivers: each node's report depends on that node's files alone, a report
  without error means that every proxy took a value from which the node selects its bundle, and
  publish --once exits with 0 only when that holds of every node.
\<close>

section \<open>What the reads find\<close>

text \<open>The files of a node, and the controller key of a namespace, as a tree holds them.\<close>

definition node_files :: "ProvEnv \<Rightarrow> string \<Rightarrow> tree \<Rightarrow> Node \<Rightarrow> bool" where
  "node_files env ns t node = (\<exists>d e x y z. ResolveName (pe_Dir env) ns = Inr d
     \<and> ResolveName (filepath_Join d ''nodes'') (nd_NodeID node) = Inr e
     \<and> files_of t (filepath_Join e ''identity.pub'') = Some x \<and> ParseKey (f_data x) = Inr (nd_IdentityPublicKey node)
     \<and> files_of t (filepath_Join e ''wg.yaml'') = Some y \<and> pe_yaml env (f_data y) = Some (nd_WG node)
     \<and> files_of t (filepath_Join e ''stunmesh.yaml'') = Some z \<and> f_data z = nd_Stunmesh node)"

definition controller_key :: "ProvEnv \<Rightarrow> string \<Rightarrow> tree \<Rightarrow> Key \<Rightarrow> bool" where
  "controller_key env ns t k = (\<exists>d x. ResolveName (pe_Dir env) ns = Inr d
     \<and> files_of t (filepath_Join d ''controller.key'') = Some x \<and> ParseKey (f_data x) = Inr k)"

lemma same_files: "files_of t' = files_of t \<Longrightarrow> node_files env ns t' node = node_files env ns t node"
  "files_of t' = files_of t \<Longrightarrow> controller_key env ns t' k = controller_key env ns t k"
  by (simp_all add: node_files_def controller_key_def)

lemma reads_tree: "reads_on UNIV (ReadDeployment yaml base ns)" "reads_on UNIV (ReadNode yaml base ns nid)" "reads_on UNIV (Nodes base ns)"
  "reads_on UNIV (listDirs base)"
  by (auto intro: reads_ReadDeployment reads_ReadNode reads_Nodes reads_listDirs)

lemma agree_refl: "fs_faults (tr_fs t) = [] \<Longrightarrow> agree UNIV t t"
  by (simp add: agree_def)

lemma agree_of_quiet: "quiet t t' \<Longrightarrow> fs_faults (tr_fs t) = [] \<Longrightarrow> agree UNIV t t'"
  by (simp add: agree_def quiet_def)

lemma reads_again:
  assumes "reads_on UNIV m" and "quiet t t'" and "fs_faults (tr_fs t) = []" and "m t = (r, t1)" and "m t' = (r', t2)"
  shows "r' = r" and "quiet t t2"
  using reads_same [OF assms(1) agree_of_quiet [OF assms(2, 3)] assms(4, 5)] reads_quiet [OF assms(1) assms(5)] quiet_trans assms(2)
  by blast+

lemma ReadDeployment_key:
  assumes "ReadDeployment yaml base ns t = (Inr dep, t')" and "yaml = pe_yaml env" and "base = pe_Dir env"
  shows "controller_key env ns t (dp_ControllerPrivateKey dep)" and "dp_Namespace dep = ns"
proof -
  obtain d where d: "ResolveName base ns = Inr d" and n: "dp_Namespace dep = ns"
    using assms(1) by (auto simp: ReadDeployment_def andThen_Inr of_result_def)
  show "controller_key env ns t (dp_ControllerPrivateKey dep)"
    using ReadDeployment_Inr(1) [OF assms(1) d] d assms(3) by (auto simp: controller_key_def)
  show "dp_Namespace dep = ns" by (rule n)
qed

lemma ReadNode_Inr:
  assumes "ReadNode yaml base ns nid t = (Inr node, t')" and "yaml = pe_yaml env" and "base = pe_Dir env"
  shows "nd_NodeID node = nid" and "node_files env ns t node"
proof -
  obtain d e i wy j s t1 t2 where d: "ResolveName base ns = Inr d" and e: "ResolveName (filepath_Join d ''nodes'') nid = Inr e"
    and 1: "readKey (filepath_Join e ''identity.pub'') t = (Inr i, t1)" and 2: "readFile (filepath_Join e ''wg.yaml'') t1 = (Inr wy, t2)"
    and j: "yaml wy = Some j" and 3: "readFile (filepath_Join e ''stunmesh.yaml'') t2 = (Inr s, t')"
    and n: "node = \<lparr>nd_NodeID = nid, nd_IdentityPublicKey = i, nd_WG = j, nd_Stunmesh = s\<rparr>"
    using assms(1) by (auto simp: ReadNode_def andThen_Inr of_result_def split: option.splits)
  show "nd_NodeID node = nid" by (simp add: n)
  show "node_files env ns t node"
    using d e readKey_Inr [OF 1] readFile_Inr [OF 2] readFile_Inr [OF 3] j assms(2, 3)
    by (auto simp: node_files_def n)
qed

section \<open>One node\<close>

text \<open>Everything but the tree stays as it is.\<close>

definition tree_only :: "Provd \<Rightarrow> Provd \<Rightarrow> bool" where
  "tree_only s s' = (quiet (pv_tree s) (pv_tree s') \<and> s' = s\<lparr>pv_tree := pv_tree s'\<rparr>)"

lemma tree_only_refl [simp]: "tree_only s s"
  by (simp add: tree_only_def)

lemma tree_only_trans: "tree_only s t \<Longrightarrow> tree_only t u \<Longrightarrow> tree_only s u"
  by (cases s; cases t; cases u) (auto simp: tree_only_def intro: quiet_trans)

lemma tree_onlyD: "tree_only s s' \<Longrightarrow> quiet (pv_tree s) (pv_tree s')" "tree_only s s' \<Longrightarrow> pv_sent s' = pv_sent s"
  "tree_only s s' \<Longrightarrow> pv_rand s' = pv_rand s" "tree_only s s' \<Longrightarrow> pv_out s' = pv_out s"
  by (auto simp: tree_only_def dest: arg_cong [of _ _ pv_sent] arg_cong [of _ _ pv_rand] arg_cong [of _ _ pv_out])

lemma on_tree_only: "reads_on UNIV m \<Longrightarrow> on_tree m s = (r, s') \<Longrightarrow> tree_only s s'"
  by (erule on_treeE) (auto simp: tree_only_def dest: reads_quiet)

text \<open>A node as prepared: its report before the value is sealed.\<close>

definition prepared :: "ProvEnv \<Rightarrow> string \<Rightarrow> Node \<Rightarrow> int \<Rightarrow> nodeReport \<Rightarrow> Bundle \<Rightarrow> bool" where
  "prepared env ns node now r b = (buildBundle (pe_width env) ns node (now div 1000000000) = Inr b
     \<and> dht_Key ns (nd_NodeID node) = Inr (nr_Key r)
     \<and> r = \<lparr>nr_Namespace = ns, nr_NodeID = nd_NodeID node, nr_Key = nr_Key r, nr_Bundle = Some b,
            nr_IdentityPublicKey = nd_IdentityPublicKey node, nr_Sealed = None, nr_Err = None\<rparr>)"

lemma prepareNode_cases:
  assumes "prepareNode env dep nid now s = (x, s')"
  obtains (bad) r where "x = Inl r" "nr_Err r \<noteq> None" "nr_NodeID r = nid" "nr_Namespace r = dp_Namespace dep" "tree_only s s'"
  | (good) r node b where "x = Inr (r, node, marshal_bundle b)" "prepared env (dp_Namespace dep) node now r b" "nd_NodeID node = nid"
      "node_files env (dp_Namespace dep) (pv_tree s) node" "tree_only s s'"
proof -
  obtain y s1 where 1: "on_tree (ReadNode (pe_yaml env) (pe_Dir env) (dp_Namespace dep) nid) s = (y, s1)" by fastforce
  have q: "tree_only s s1" by (rule on_tree_only [OF reads_tree(2) 1])
  show ?thesis
  proof (cases y)
    case (Inl e)
    then show ?thesis using assms 1 q bad by (auto simp: prepareNode_def Let_def andThen_def wrap_def new_report_def)
  next
    case (Inr node)
    obtain t where t: "ReadNode (pe_yaml env) (pe_Dir env) (dp_Namespace dep) nid (pv_tree s) = (Inr node, t)"
      using 1 Inr by (auto elim: on_treeE)
    note n = ReadNode_Inr [OF t refl refl]
    show ?thesis
    proof (cases "buildBundle (pe_width env) (dp_Namespace dep) node (now div 1000000000)")
      case (Inl e)
      then show ?thesis using assms 1 \<open>y = Inr node\<close> q bad
        by (auto simp: prepareNode_def Let_def andThen_def wrap_def new_report_def fail_with_def)
    next
      case b: (Inr b)
      show ?thesis
      proof (cases "dht_Key (dp_Namespace dep) nid")
        case (Inl e)
        then show ?thesis using assms 1 Inr b q bad
          by (auto simp: prepareNode_def Let_def andThen_def wrap_def new_report_def fail_with_def)
      next
        case k: (Inr key)
        show ?thesis
          by (rule good [OF _ _ n]) (use assms 1 Inr b k q n in
              \<open>auto simp: prepareNode_def Let_def andThen_def wrap_def new_report_def ret_def prepared_def\<close>)
      qed
    qed
  qed
qed

text \<open>A put: the value has been sent to every proxy; when there is no error each of them took it.\<close>

definition put_all :: "ProvEnv \<Rightarrow> Client \<Rightarrow> string \<Rightarrow> string \<Rightarrow> Request list \<Rightarrow> bool" where
  "put_all env c key v sent = (isHexKey key \<and> list_all (\<lambda>req. accepts (pe_answer env sent req)) (put_requests c key v))"

lemma put_report_result:
  assumes "put_report env c r v s = (r', s')"
  shows "r' = r\<lparr>nr_Sealed := Some v, nr_Err := nr_Err r'\<rparr>" and "s' = s\<lparr>pv_sent := pv_sent s @ put_requests c (nr_Key r) v\<rparr>"
    and "nr_Err r = None \<Longrightarrow> nr_Err r' = None \<longleftrightarrow> put_all env c (nr_Key r) v (pv_sent s)"
proof -
  have none: "Put (pe_url env) c (nr_Key r) (pe_answer env (pv_sent s)) v = None \<longleftrightarrow> put_all env c (nr_Key r) v (pv_sent s)"
    by (auto simp: Put_def Let_def put_all_def put_requests_def map_filter_Nil put_one_None list_all_iff)
  show "r' = r\<lparr>nr_Sealed := Some v, nr_Err := nr_Err r'\<rparr>" "s' = s\<lparr>pv_sent := pv_sent s @ put_requests c (nr_Key r) v\<rparr>"
    "nr_Err r = None \<Longrightarrow> nr_Err r' = None \<longleftrightarrow> put_all env c (nr_Key r) v (pv_sent s)"
    using assms none by (auto simp: put_report_def putSealed_def split: option.splits)
qed

text \<open>A value that the node with identity key \<open>ipub\<close> selects, as \<open>b\<close> with its maps in key order, once it has the
  public key of the controller key \<open>k\<close>: whatever box is in use, and whatever the width of the agent's int.\<close>

definition usable :: "ProvEnv \<Rightarrow> string \<Rightarrow> string \<Rightarrow> Key \<Rightarrow> Key \<Rightarrow> Bundle \<Rightarrow> string \<Rightarrow> bool" where
  "usable env ns nid k ipub b v = (\<forall>w box_open pub rpriv. w \<in> {32, 64} \<and> box_law (pe_seal env) box_open pub \<and> ipub = pub rpriv
     \<longrightarrow> decryptAndSelect w box_open [v] (pub k) rpriv ns nid = (Some (norm_bundle b), no_stats))"

text \<open>What is relied on of the environment: int has 32 or 64 bits, and a read of the random source is complete.\<close>

definition env_ok :: "ProvEnv \<Rightarrow> bool" where
  "env_ok env = (pe_width env \<in> {32, 64} \<and> (\<forall>n k x. pe_bytes env n k = Some x \<longrightarrow> length x = n))"

lemma Seal_usable:
  assumes "env_ok env" and "buildBundle (pe_width env) ns node now = Inr b"
    and "Seal (pe_seal env) (pe_bytes env nonceSize n) (marshal_bundle b) ipub k = Some v"
  shows "usable env ns (nd_NodeID node) k ipub b v"
proof -
  obtain nonce where nonce: "pe_bytes env nonceSize n = Some nonce" using assms(3) by (auto simp: Seal_def split: option.splits)
  then have len: "length nonce = nonceSize" and w: "pe_width env \<in> {32, 64}" using assms(1) by (auto simp: env_ok_def)
  have "decryptAndSelect w' op [v] (pub k) rpriv ns (nd_NodeID node) = (Some (norm_bundle b), no_stats)"
    if "w' \<in> {32, 64}" "box_law (pe_seal env) op pub" "ipub = pub rpriv" for w' op pub rpriv
    using select_single built_acceptable [OF assms(2) w that(1, 2) len] assms(3) nonce that(3) by simp
  then show ?thesis by (simp add: usable_def)
qed

text \<open>The outcomes of sealing and putting.\<close>

lemma sealAndPutNode_result:
  assumes "sealAndPutNode env c dep node r plain s = (r', s')" and "nr_Err r = None"
  shows "pv_tree s' = pv_tree s" and "pv_out s' = pv_out s" and "r' = r\<lparr>nr_Sealed := nr_Sealed r', nr_Err := nr_Err r'\<rparr>"
    and "nr_Err r' = None \<Longrightarrow> \<exists>v. nr_Sealed r' = Some v \<and> put_all env c (nr_Key r) v (pv_sent s)
      \<and> pv_sent s' = pv_sent s @ put_requests c (nr_Key r) v \<and> Seal (pe_seal env) (pe_bytes env nonceSize (pv_rand s)) plain
          (nd_IdentityPublicKey node) (dp_ControllerPrivateKey dep) = Some v"
    and "pv_sent s' = pv_sent s \<or> (\<exists>v. Seal (pe_seal env) (pe_bytes env nonceSize (pv_rand s)) plain
          (nd_IdentityPublicKey node) (dp_ControllerPrivateKey dep) = Some v \<and> pv_sent s' = pv_sent s @ put_requests c (nr_Key r) v)"
    and "nr_Err r' = None \<or> nr_Err r' = Some PubSeal \<or> (\<exists>e. nr_Err r' = Some (PubPut e))"
proof -
  let ?seal = "Seal (pe_seal env) (pe_bytes env nonceSize (pv_rand s)) plain (nd_IdentityPublicKey node) (dp_ControllerPrivateKey dep)"
  have "pv_tree s' = pv_tree s \<and> pv_out s' = pv_out s \<and> r' = r\<lparr>nr_Sealed := nr_Sealed r', nr_Err := nr_Err r'\<rparr>
    \<and> (nr_Err r' = None \<longrightarrow> (\<exists>v. nr_Sealed r' = Some v \<and> put_all env c (nr_Key r) v (pv_sent s)
        \<and> pv_sent s' = pv_sent s @ put_requests c (nr_Key r) v \<and> ?seal = Some v))
    \<and> (pv_sent s' = pv_sent s \<or> (\<exists>v. ?seal = Some v \<and> pv_sent s' = pv_sent s @ put_requests c (nr_Key r) v))
    \<and> (nr_Err r' = None \<or> nr_Err r' = Some PubSeal \<or> (\<exists>e. nr_Err r' = Some (PubPut e)))"
  proof (cases ?seal)
    case None
    then show ?thesis using assms by (auto simp: sealAndPutNode_def draw_def)
  next
    case (Some v)
    then have p: "put_report env c r v (s\<lparr>pv_rand := Suc (pv_rand s)\<rparr>) = (r', s')"
      using assms by (simp add: sealAndPutNode_def draw_def)
    have "nr_Err r' = None \<or> (\<exists>e. nr_Err r' = Some (PubPut e))"
      using p assms(2) by (auto simp: put_report_def putSealed_def split: option.splits)
    moreover have "nr_Sealed r' = Some v" using put_report_result(1) [OF p] by (cases r') simp
    ultimately show ?thesis using put_report_result [OF p] assms(2) Some by auto
  qed
  then show "pv_tree s' = pv_tree s" "pv_out s' = pv_out s" "r' = r\<lparr>nr_Sealed := nr_Sealed r', nr_Err := nr_Err r'\<rparr>"
    "nr_Err r' = None \<Longrightarrow> \<exists>v. nr_Sealed r' = Some v \<and> put_all env c (nr_Key r) v (pv_sent s)
      \<and> pv_sent s' = pv_sent s @ put_requests c (nr_Key r) v \<and> ?seal = Some v"
    "pv_sent s' = pv_sent s \<or> (\<exists>v. ?seal = Some v \<and> pv_sent s' = pv_sent s @ put_requests c (nr_Key r) v)"
    "nr_Err r' = None \<or> nr_Err r' = Some PubSeal \<or> (\<exists>e. nr_Err r' = Some (PubPut e))"
    by blast+
qed

section \<open>Loops\<close>

text \<open>What one pass over a list keeps, when every step does.\<close>

locale run_order =
  fixes P :: "'s \<Rightarrow> 's \<Rightarrow> bool"
  assumes refl: "P s s"
    and trans: "P s t \<Longrightarrow> P t u \<Longrightarrow> P s u"
begin

definition goes :: "('x \<Rightarrow> 's \<Rightarrow> 'r \<times> 's) \<Rightarrow> bool" where
  "goes f = (\<forall>x s r s'. f x s = (r, s') \<longrightarrow> P s s')"

lemma goesI: "(\<And>x s r s'. f x s = (r, s') \<Longrightarrow> P s s') \<Longrightarrow> goes f"
  by (simp add: goes_def)

lemma goesD: "goes f \<Longrightarrow> f x s = (r, s') \<Longrightarrow> P s s'"
  by (simp add: goes_def)

lemma goes_collect: "goes f \<Longrightarrow> collect f xs s = (rs, s') \<Longrightarrow> P s s'"
  by (induction xs arbitrary: s rs) (auto split: prod.splits intro: refl trans dest: goesD)

lemma collect_at:
  assumes "goes f" and "collect f xs s = (rs, s')"
  shows "length rs = length xs" and "\<forall>i < length xs. \<exists>s1 s2. f (xs ! i) s1 = (rs ! i, s2) \<and> P s s1 \<and> P s2 s'"
proof -
  have "length rs = length xs \<and> (\<forall>i < length xs. \<exists>s1 s2. f (xs ! i) s1 = (rs ! i, s2) \<and> P s s1 \<and> P s2 s')"
    using assms(2)
  proof (induction xs arbitrary: s rs)
    case (Cons x xs)
    obtain r s1 rs1 where 1: "f x s = (r, s1)" "collect f xs s1 = (rs1, s')" "rs = r # rs1"
      using Cons.prems by (auto split: prod.splits)
    note ih = Cons.IH [OF 1(2)]
    have p: "P s s1" "P s1 s'" using goesD [OF assms(1) 1(1)] goes_collect [OF assms(1) 1(2)] .
    show ?case
    proof (intro conjI allI impI)
      fix i assume i: "i < length (x # xs)"
      show "\<exists>s1 s2. f ((x # xs) ! i) s1 = (rs ! i, s2) \<and> P s s1 \<and> P s2 s'"
      proof (cases i)
        case 0
        then show ?thesis using 1 p refl by auto
      next
        case (Suc j)
        then have "j < length xs" using i by simp
        then obtain u v where "f (xs ! j) u = (rs1 ! j, v)" "P s1 u" "P v s'" using ih by blast
        then show ?thesis using 1(3) Suc trans [OF p(1)] by auto
      qed
    qed (use 1 ih in simp)
  qed simp
  then show "length rs = length xs" "\<forall>i < length xs. \<exists>s1 s2. f (xs ! i) s1 = (rs ! i, s2) \<and> P s s1 \<and> P s2 s'"
    by blast+
qed

lemma collect_in:
  assumes "goes f" and "collect f xs s = (rs, s')" and "x \<in> set xs"
  obtains s1 r s2 where "f x s1 = (r, s2)" "r \<in> set rs" "P s s1" "P s2 s'"
  using collect_at [OF assms(1, 2)] assms(3) by (metis in_set_conv_nth)

end

text \<open>A round only reads the tree, only adds requests and prints nothing before its end.\<close>

definition going :: "Provd \<Rightarrow> Provd \<Rightarrow> bool" where
  "going s s' = (quiet (pv_tree s) (pv_tree s') \<and> prefix (pv_sent s) (pv_sent s'))"

lemma going_refl [simp]: "going s s"
  by (simp add: going_def)

lemma going_trans: "going s t \<Longrightarrow> going t u \<Longrightarrow> going s u"
  using quiet_trans prefix_order.trans by (auto simp: going_def)

interpretation once: run_order going
  by unfold_locales (auto intro: going_trans)

lemma going_tree_only: "tree_only s s' \<Longrightarrow> going s s'"
  by (simp add: going_def tree_onlyD)

lemma going_put_line [simp]: "going s (put_line l s) = True" "pv_tree (put_line l s) = pv_tree s" "pv_sent (put_line l s) = pv_sent s"
  by (simp_all add: going_def put_line_def)

section \<open>What a report says\<close>

text \<open>The node \<open>nid\<close> has, from the files of \<open>t\<close>, been given a bundle: the value \<open>v\<close> under its key was taken by every proxy
  (the requests before it were \<open>sent\<close>), and the node selects the bundle from it.\<close>

definition delivery :: "ProvEnv \<Rightarrow> Client \<Rightarrow> string \<Rightarrow> string \<Rightarrow> tree \<Rightarrow> int \<Rightarrow> Key \<Rightarrow> Request list \<Rightarrow> bool" where
  "delivery env c ns nid t now k sent' = (\<exists>node b key v sent. node_files env ns t node \<and> nd_NodeID node = nid
     \<and> buildBundle (pe_width env) ns node (now div 1000000000) = Inr b \<and> dht_Key ns nid = Inr key
     \<and> put_all env c key v sent \<and> prefix (sent @ put_requests c key v) sent'
     \<and> usable env ns nid k (nd_IdentityPublicKey node) b v)"

lemma deliveryI:
  "node_files env ns t node \<Longrightarrow> nd_NodeID node = nid \<Longrightarrow> buildBundle (pe_width env) ns node (now div 1000000000) = Inr b \<Longrightarrow>
   dht_Key ns nid = Inr key \<Longrightarrow> put_all env c key v sent \<Longrightarrow> prefix (sent @ put_requests c key v) sent' \<Longrightarrow>
   usable env ns nid k (nd_IdentityPublicKey node) b v \<Longrightarrow> delivery env c ns nid t now k sent'"
  unfolding delivery_def by (intro exI conjI)

lemma deliveryE:
  assumes "delivery env c ns nid t now k sent'"
  obtains node b key v sent where "node_files env ns t node" "nd_NodeID node = nid"
    "buildBundle (pe_width env) ns node (now div 1000000000) = Inr b" "dht_Key ns nid = Inr key"
    "put_all env c key v sent" "prefix (sent @ put_requests c key v) sent'" "usable env ns nid k (nd_IdentityPublicKey node) b v"
  using assms unfolding delivery_def by (elim exE conjE) (rule that)

lemma delivery_later:
  assumes "delivery env c ns nid t now k sent" and "prefix sent sent'"
  shows "delivery env c ns nid t now k sent'"
  using assms(1)
proof (rule deliveryE)
  fix node b key v sent0
  assume d: "node_files env ns t node" "nd_NodeID node = nid" "buildBundle (pe_width env) ns node (now div 1000000000) = Inr b"
    "dht_Key ns nid = Inr key" "put_all env c key v sent0" "usable env ns nid k (nd_IdentityPublicKey node) b v"
    and p: "prefix (sent0 @ put_requests c key v) sent"
  show ?thesis by (rule deliveryI [OF d(1-5) prefix_order.trans [OF p assms(2)] d(6)])
qed

lemma delivery_files:
  assumes "files_of t' = files_of t"
  shows "delivery env c ns nid t' now k sent = delivery env c ns nid t now k sent"
  unfolding delivery_def same_files(1) [OF assms] ..

lemma publishNode_result:
  assumes "publishNode env c dep nid now s = (r, s')"
  shows "going s s'" and "nr_NodeID r = nid" and "nr_Namespace r = dp_Namespace dep"
    and "nr_Err r = None \<Longrightarrow> env_ok env \<Longrightarrow> delivery env c (dp_Namespace dep) nid (pv_tree s) now (dp_ControllerPrivateKey dep) (pv_sent s')"
    and "case fst (prepareNode env dep nid now s) of Inl r0 \<Rightarrow> r = r0
      | Inr (r0, _) \<Rightarrow> r = r0\<lparr>nr_Sealed := nr_Sealed r, nr_Err := nr_Err r\<rparr>
          \<and> (nr_Err r = None \<or> nr_Err r = Some PubSeal \<or> (\<exists>e. nr_Err r = Some (PubPut e)))"
proof -
  obtain x s1 where 1: "prepareNode env dep nid now s = (x, s1)" by fastforce
  have "going s s' \<and> nr_NodeID r = nid \<and> nr_Namespace r = dp_Namespace dep
    \<and> (nr_Err r = None \<longrightarrow> env_ok env \<longrightarrow>
        delivery env c (dp_Namespace dep) nid (pv_tree s) now (dp_ControllerPrivateKey dep) (pv_sent s'))
    \<and> (case x of Inl r0 \<Rightarrow> r = r0
      | Inr (r0, _) \<Rightarrow> r = r0\<lparr>nr_Sealed := nr_Sealed r, nr_Err := nr_Err r\<rparr>
          \<and> (nr_Err r = None \<or> nr_Err r = Some PubSeal \<or> (\<exists>e. nr_Err r = Some (PubPut e))))"
    using 1
  proof (cases rule: prepareNode_cases)
    case (bad r0)
    then show ?thesis using assms 1 going_tree_only by (auto simp: publishNode_def)
  next
    case (good r0 node b)
    have e: "nr_Err r0 = None" "nr_NodeID r0 = nid" "nr_Namespace r0 = dp_Namespace dep"
      using good(2, 3) by (auto simp: prepared_def dest: arg_cong [of _ _ nr_Err] arg_cong [of _ _ nr_NodeID] arg_cong [of _ _ nr_Namespace])
    have sp: "sealAndPutNode env c dep node r0 (marshal_bundle b) s1 = (r, s')"
      using assms 1 good(1) by (simp add: publishNode_def)
    note p = sealAndPutNode_result [OF sp e(1)]
    have g: "going s s'"
      using going_tree_only [OF good(5)] p(1, 5) by (auto simp: going_def)
    have "delivery env c (dp_Namespace dep) nid (pv_tree s) now (dp_ControllerPrivateKey dep) (pv_sent s')"
      if ok: "nr_Err r = None" "env_ok env"
    proof -
      obtain v where v: "put_all env c (nr_Key r0) v (pv_sent s1)" "pv_sent s' = pv_sent s1 @ put_requests c (nr_Key r0) v"
        "Seal (pe_seal env) (pe_bytes env nonceSize (pv_rand s1)) (marshal_bundle b) (nd_IdentityPublicKey node)
          (dp_ControllerPrivateKey dep) = Some v"
        using p(4) [OF ok(1)] by blast
      have b: "buildBundle (pe_width env) (dp_Namespace dep) node (now div 1000000000) = Inr b"
        "dht_Key (dp_Namespace dep) nid = Inr (nr_Key r0)" using good(2, 3) by (simp_all add: prepared_def)
      show ?thesis
        by (rule deliveryI [OF good(4, 3) b v(1)]) (use v(2) Seal_usable [OF ok(2) b(1) v(3)] good(3) in simp_all)
    qed
    moreover have "nr_NodeID r = nid" "nr_Namespace r = dp_Namespace dep"
      using e arg_cong [OF p(3), of nr_NodeID] arg_cong [OF p(3), of nr_Namespace] by simp_all
    ultimately show ?thesis using g p(3, 6) good(1) by auto
  qed
  then show "going s s'" "nr_NodeID r = nid" "nr_Namespace r = dp_Namespace dep"
    "nr_Err r = None \<Longrightarrow> env_ok env \<Longrightarrow> delivery env c (dp_Namespace dep) nid (pv_tree s) now (dp_ControllerPrivateKey dep) (pv_sent s')"
    "case fst (prepareNode env dep nid now s) of Inl r0 \<Rightarrow> r = r0
      | Inr (r0, _) \<Rightarrow> r = r0\<lparr>nr_Sealed := nr_Sealed r, nr_Err := nr_Err r\<rparr>
          \<and> (nr_Err r = None \<or> nr_Err r = Some PubSeal \<or> (\<exists>e. nr_Err r = Some (PubPut e)))"
    using 1 by simp_all
qed

lemma prepareNode_same:
  assumes "quiet (pv_tree s) (pv_tree s')" and "fs_faults (tr_fs (pv_tree s)) = []"
  shows "fst (prepareNode env dep nid now s') = fst (prepareNode env dep nid now s)"
proof -
  let ?m = "ReadNode (pe_yaml env) (pe_Dir env) (dp_Namespace dep) nid"
  obtain r t1 r' t2 where 1: "?m (pv_tree s) = (r, t1)" "?m (pv_tree s') = (r', t2)" by fastforce
  have "r' = r" using reads_again(1) [OF reads_tree(2) assms 1] .
  then show ?thesis using 1
    by (auto simp: prepareNode_def Let_def andThen_def wrap_def on_tree_def ret_def fail_with_def split: sum.splits)
qed

section \<open>A namespace\<close>

lemma goes_publishNode: "once.goes (\<lambda>nodeID. publishNode env c dep nodeID now)"
  by (rule once.goesI) (rule publishNode_result(1))

text \<open>The cases of publishNamespace.\<close>

lemma publishNamespace_cases:
  assumes "publishNamespace env ns now s = (rs, s')"
  obtains (fails) e where "rs = [failed_report ns e]" "going s s'"
  | (none) dep s1 p where "on_tree (ReadDeployment (pe_yaml env) (pe_Dir env) ns) s = (Inr dep, s1)"
      "on_tree (Nodes (pe_Dir env) ns) s1 = (Inl (ErrNotExist p), s')" "rs = []" "going s s'"
  | (nodes) dep s1 ids s2 c where "on_tree (ReadDeployment (pe_yaml env) (pe_Dir env) ns) s = (Inr dep, s1)"
      "on_tree (Nodes (pe_Dir env) ns) s1 = (Inr ids, s2)" "prov_Backend env (dp_Backend dep) = Inr c"
      "collect (\<lambda>nodeID. publishNode env c dep nodeID now) ids s2 = (rs, s')" "tree_only s s2" "dp_Namespace dep = ns" "going s s'"
proof -
  obtain d s1 where 1: "on_tree (ReadDeployment (pe_yaml env) (pe_Dir env) ns) s = (d, s1)" by fastforce
  obtain ids s2 where 2: "on_tree (Nodes (pe_Dir env) ns) s1 = (ids, s2)" by fastforce
  have q: "tree_only s s1" "tree_only s1 s2" by (rule on_tree_only [OF reads_tree(1) 1] on_tree_only [OF reads_tree(3) 2])+
  have t: "tree_only s s2" by (rule tree_only_trans [OF q])
  show ?thesis
  proof (cases d)
    case (Inl e)
    then show ?thesis using assms 1 q fails going_tree_only by (auto simp: publishNamespace_def)
  next
    case d: (Inr dep)
    have n: "dp_Namespace dep = ns" using 1 d ReadDeployment_key(2) by (auto elim!: on_treeE)
    show ?thesis
    proof (cases ids)
      case (Inl e)
      show ?thesis
      proof (cases "\<exists>p. e = ErrNotExist p")
        case True
        then show ?thesis using assms 1 2 d Inl none going_tree_only [OF t] by (auto simp: publishNamespace_def)
      next
        case False
        then have "rs = [failed_report ns (PubNodes e)]" "s' = s2"
          using assms 1 2 d Inl by (auto simp: publishNamespace_def split: serr.splits)
        then show ?thesis using fails going_tree_only [OF t] by blast
      qed
    next
      case i: (Inr nids)
      show ?thesis
      proof (cases "prov_Backend env (dp_Backend dep)")
        case (Inl e)
        then show ?thesis using assms 1 2 d i fails going_tree_only [OF t] by (auto simp: publishNamespace_def)
      next
        case (Inr c)
        then have c: "collect (\<lambda>nodeID. publishNode env c dep nodeID now) nids s2 = (rs, s')"
          using assms 1 2 d i by (simp add: publishNamespace_def)
        have "going s s'" using going_trans [OF going_tree_only [OF t] once.goes_collect [OF goes_publishNode c]] .
        then show ?thesis using nodes [OF _ _ Inr c t n] 1 2 d i by simp
      qed
    qed
  qed
qed

lemma goes_publishNamespace: "once.goes (\<lambda>namespace. publishNamespace env namespace now)"
  by (rule once.goesI) (erule publishNamespace_cases, assumption+)

lemma on_tree_run: "on_tree m s = (r, s') \<Longrightarrow> m (pv_tree s) = (r, pv_tree s')"
  by (auto simp: on_tree_def split: prod.splits)

lemma publishNamespace_delivers:
  assumes "publishNamespace env ns now s = (rs, s')" and "\<forall>r \<in> set rs. nr_Err r = None" and "env_ok env"
  obtains dep s1 where "on_tree (ReadDeployment (pe_yaml env) (pe_Dir env) ns) s = (Inr dep, s1)" "tree_only s s1"
    "\<And>ids s2 nid. on_tree (Nodes (pe_Dir env) ns) s1 = (Inr ids, s2) \<Longrightarrow> nid \<in> set ids \<Longrightarrow>
      \<exists>c. prov_Backend env (dp_Backend dep) = Inr c
        \<and> delivery env c ns nid (pv_tree s) now (dp_ControllerPrivateKey dep) (pv_sent s')"
  using assms(1)
proof (cases rule: publishNamespace_cases)
  case (fails e)
  then show ?thesis using assms(2) by (simp add: failed_report_def)
next
  case (none dep s1 p)
  then show ?thesis using that [OF none(1)] on_tree_only [OF reads_tree(1) none(1)] by simp
next
  case (nodes dep s1 ids s2 c)
  have "\<exists>c. prov_Backend env (dp_Backend dep) = Inr c \<and> delivery env c ns nid (pv_tree s) now (dp_ControllerPrivateKey dep) (pv_sent s')"
    if "nid \<in> set ids" for nid
    using goes_publishNode nodes(4) that
  proof (rule once.collect_in)
    fix u r v assume r: "publishNode env c dep nid now u = (r, v)" "r \<in> set rs" and g: "going s2 u" "going v s'"
    have "delivery env c ns nid (pv_tree u) now (dp_ControllerPrivateKey dep) (pv_sent v)"
      using publishNode_result(4) [OF r(1)] assms(2, 3) r(2) nodes(6) by simp
    moreover have "files_of (pv_tree u) = files_of (pv_tree s)"
      using nodes(5) g(1) by (simp add: tree_only_def going_def quiet_def)
    ultimately show ?thesis
      using delivery_files delivery_later g(2) nodes(3) by (metis going_def)
  qed
  then show ?thesis using that [OF nodes(1) on_tree_only [OF reads_tree(1) nodes(1)]] nodes(2) by auto
qed

section \<open>A round\<close>

lemma resolveNamespaces_Inr:
  assumes "resolveNamespaces env ns s = (Inr names, s')"
  shows "tree_only s s'" and "if ns = [] then Namespaces (pe_Dir env) (pv_tree s) = (Inr names, pv_tree s') else names = [ns]"
proof -
  have "tree_only s s' \<and> (if ns = [] then Namespaces (pe_Dir env) (pv_tree s) = (Inr names, pv_tree s') else names = [ns])"
  proof (cases "ns = []")
    case True
    then have 1: "on_tree (Namespaces (pe_Dir env)) s = (Inr names, s')" using assms by (simp add: resolveNamespaces_def)
    have "reads_on UNIV (Namespaces (pe_Dir env))" unfolding Namespaces_def by (rule reads_tree)
    then show ?thesis using on_tree_only [OF _ 1] on_tree_run [OF 1] True by simp
  next
    case False
    then obtain dep where 1: "on_tree (ReadDeployment (pe_yaml env) (pe_Dir env) ns) s = (Inr dep, s')" "names = [ns]"
      using assms by (auto simp: resolveNamespaces_def andThen_Inr ret_def)
    then show ?thesis using on_tree_only [OF reads_tree(1) 1(1)] False by simp
  qed
  then show "tree_only s s'" "if ns = [] then Namespaces (pe_Dir env) (pv_tree s) = (Inr names, pv_tree s') else names = [ns]"
    by blast+
qed

lemma fold_print [simp]: "pv_tree (fold printPublishReport rs s) = pv_tree s" "pv_sent (fold printPublishReport rs s) = pv_sent s"
  by (induction rs arbitrary: s) (simp_all add: printPublishReport_def)

lemma publish_once_0:
  assumes "publish_once env ns now s = (CmdExit 0, s')"
  obtains reports s1 where "publishRound env ns now s = (Inr reports, s1)" "\<forall>r \<in> set reports. nr_Err r = None" "pv_sent s' = pv_sent s1"
  using assms by (auto simp: publish_once_def Let_def filter_empty_conv split: sum.splits prod.splits if_splits)

lemma publishRound_Inr:
  assumes "publishRound env ns now s = (Inr reports, s')"
  obtains names s1 rss where "resolveNamespaces env ns s = (Inr names, s1)"
    "collect (\<lambda>namespace. publishNamespace env namespace now) names s1 = (rss, s')" "reports = concat rss"
proof -
  obtain names s1 where 1: "resolveNamespaces env ns s = (Inr names, s1)"
    "(case collect (\<lambda>namespace. publishNamespace env namespace now) names s1 of (rs, s') \<Rightarrow> ((Inr (concat rs) :: puberr + nodeReport list), s')) = (Inr reports, s')"
    using assms unfolding publishRound_def andThen_Inr by blast
  then show ?thesis using that [OF 1(1)] by (auto split: prod.splits)
qed

lemma publish_once_delivers:
  assumes "publish_once env ns now s = (CmdExit 0, s')" and "env_ok env" and "fs_faults (tr_fs (pv_tree s)) = []"
    and "if ns = [] then \<exists>names t. Namespaces (pe_Dir env) (pv_tree s) = (Inr names, t) \<and> n \<in> set names else n = ns"
  shows "\<exists>dep t. ReadDeployment (pe_yaml env) (pe_Dir env) n (pv_tree s) = (Inr dep, t)
    \<and> (\<forall>ids u nid. Nodes (pe_Dir env) n (pv_tree s) = (Inr ids, u) \<and> nid \<in> set ids \<longrightarrow>
        (\<exists>c. prov_Backend env (dp_Backend dep) = Inr c
          \<and> delivery env c n nid (pv_tree s) now (dp_ControllerPrivateKey dep) (pv_sent s')))"
proof -
  obtain reports s1 where 1: "publishRound env ns now s = (Inr reports, s1)" "\<forall>r \<in> set reports. nr_Err r = None" "pv_sent s' = pv_sent s1"
    using assms(1) by (rule publish_once_0)
  obtain names s0 rss where 2: "resolveNamespaces env ns s = (Inr names, s0)"
    "collect (\<lambda>namespace. publishNamespace env namespace now) names s0 = (rss, s1)" "reports = concat rss"
    using 1(1) by (rule publishRound_Inr)
  note r = resolveNamespaces_Inr [OF 2(1)]
  have "n \<in> set names" using r(2) assms(4) by (auto split: if_splits)
  from goes_publishNamespace 2(2) this show ?thesis
  proof (rule once.collect_in)
    fix u rs v assume p: "publishNamespace env n now u = (rs, v)" "rs \<in> set rss" and g: "going s0 u" "going v s1"
    have q: "quiet (pv_tree s) (pv_tree u)" using tree_onlyD(1) [OF r(1)] g(1) quiet_trans by (auto simp: going_def)
    have "\<forall>r \<in> set rs. nr_Err r = None" using 1(2) 2(3) p(2) by auto
    from p(1) this assms(2) show ?thesis
    proof (rule publishNamespace_delivers)
      fix dep u1
      assume d: "on_tree (ReadDeployment (pe_yaml env) (pe_Dir env) n) u = (Inr dep, u1)" "tree_only u u1"
        and del: "\<And>ids s2 nid. on_tree (Nodes (pe_Dir env) n) u1 = (Inr ids, s2) \<Longrightarrow> nid \<in> set ids \<Longrightarrow>
          \<exists>c. prov_Backend env (dp_Backend dep) = Inr c
            \<and> delivery env c n nid (pv_tree u) now (dp_ControllerPrivateKey dep) (pv_sent v)"
      obtain d0 t0 where d0: "ReadDeployment (pe_yaml env) (pe_Dir env) n (pv_tree s) = (d0, t0)" by fastforce
      have "d0 = Inr dep" using reads_again(1) [OF reads_tree(1) q assms(3) d0 on_tree_run [OF d(1)]] by simp
      moreover have "\<exists>c. prov_Backend env (dp_Backend dep) = Inr c
            \<and> delivery env c n nid (pv_tree s) now (dp_ControllerPrivateKey dep) (pv_sent s')"
        if nodes: "Nodes (pe_Dir env) n (pv_tree s) = (Inr ids, t1)" and nid: "nid \<in> set ids" for ids t1 nid
      proof -
        obtain x u2 where x: "on_tree (Nodes (pe_Dir env) n) u1 = (x, u2)" by fastforce
        have "x = Inr ids"
          using reads_again(1) [OF reads_tree(3) quiet_trans [OF q tree_onlyD(1) [OF d(2)]] assms(3) nodes on_tree_run [OF x]] .
        then obtain c where c: "prov_Backend env (dp_Backend dep) = Inr c"
          "delivery env c n nid (pv_tree u) now (dp_ControllerPrivateKey dep) (pv_sent v)" using del x nid by blast
        have "files_of (pv_tree u) = files_of (pv_tree s)" "prefix (pv_sent v) (pv_sent s')"
          using q g(2) 1(3) by (simp_all add: quiet_def going_def)
        then show ?thesis using c delivery_files delivery_later by metis
      qed
      ultimately show ?thesis using d0 by blast
    qed
  qed
qed


text \<open>C21: one bad node never stops the others: in a namespace that can be read, a round gives one report per node, in the
  order of the listing, and each is decided by that node's own files (it is what preparing the node alone
  gives), but for the sealing and the put.\<close>

theorem publishNamespace_isolates:
  assumes "publishNamespace env ns now s = (rs, s')" and "fs_faults (tr_fs (pv_tree s)) = []"
    and "ReadDeployment (pe_yaml env) (pe_Dir env) ns (pv_tree s) = (Inr dep, t1)"
    and "Nodes (pe_Dir env) ns (pv_tree s) = (Inr ids, t2)" and "prov_Backend env (dp_Backend dep) = Inr c"
  shows "map nr_NodeID rs = ids
    \<and> (\<forall>i < length ids. case fst (prepareNode env dep (ids ! i) now s) of Inl r0 \<Rightarrow> rs ! i = r0
        | Inr (r0, _) \<Rightarrow> rs ! i = r0\<lparr>nr_Sealed := nr_Sealed (rs ! i), nr_Err := nr_Err (rs ! i)\<rparr>
            \<and> (nr_Err (rs ! i) = None \<or> nr_Err (rs ! i) = Some PubSeal \<or> (\<exists>e. nr_Err (rs ! i) = Some (PubPut e))))"
proof -
  obtain s1 where 1: "on_tree (ReadDeployment (pe_yaml env) (pe_Dir env) ns) s = (Inr dep, s1)"
    using assms(3) by (simp add: on_tree_def)
  have q1: "quiet (pv_tree s) (pv_tree s1)" by (rule tree_onlyD(1) [OF on_tree_only [OF reads_tree(1) 1]])
  obtain x s2 where 2: "on_tree (Nodes (pe_Dir env) ns) s1 = (x, s2)" by fastforce
  have x: "x = Inr ids" by (rule reads_again(1) [OF reads_tree(3) q1 assms(2, 4) on_tree_run [OF 2]])
  have q2: "quiet (pv_tree s) (pv_tree s2)"
    by (rule quiet_trans [OF q1 tree_onlyD(1) [OF on_tree_only [OF reads_tree(3) 2]]])
  have "collect (\<lambda>nodeID. publishNode env c dep nodeID now) ids s2 = (rs, s')"
    using assms(1, 5) 1 2 x by (simp add: publishNamespace_def)
  note col = once.collect_at [OF goes_publishNode this]
  have at: "nr_NodeID (rs ! i) = ids ! i \<and> (case fst (prepareNode env dep (ids ! i) now s) of Inl r0 \<Rightarrow> rs ! i = r0
        | Inr (r0, _) \<Rightarrow> rs ! i = r0\<lparr>nr_Sealed := nr_Sealed (rs ! i), nr_Err := nr_Err (rs ! i)\<rparr>
            \<and> (nr_Err (rs ! i) = None \<or> nr_Err (rs ! i) = Some PubSeal \<or> (\<exists>e. nr_Err (rs ! i) = Some (PubPut e))))"
    if i: "i < length ids" for i
  proof -
    obtain u v where u: "publishNode env c dep (ids ! i) now u = (rs ! i, v)" "going s2 u" using col(2) i by blast
    have "fst (prepareNode env dep (ids ! i) now u) = fst (prepareNode env dep (ids ! i) now s)"
      by (rule prepareNode_same [OF quiet_trans [OF q2] assms(2)]) (use u(2) in \<open>simp add: going_def\<close>)
    then show ?thesis using publishNode_result(2, 5) [OF u(1)] by simp
  qed
  then have "map nr_NodeID rs = ids" using col(1) by (intro nth_equalityI) simp_all
  then show ?thesis using at by blast
qed

section \<open>A round over the example tree\<close>

definition ex_publisher :: Provd where
  "ex_publisher = ex_prov\<lparr>pv_tree := ex_tree\<rparr>"

lemma ex_node_paths:
  "filepath_Join ''/p/ns'' ''nodes'' = ''/p/ns/nodes''" "ResolveName ''/p/ns/nodes'' ''alpha'' = Inr ''/p/ns/nodes/alpha''"
  "filepath_Join ''/p/ns/nodes/alpha'' ''identity.pub'' = ''/p/ns/nodes/alpha/identity.pub''"
  "filepath_Join ''/p/ns/nodes/alpha'' ''wg.yaml'' = ''/p/ns/nodes/alpha/wg.yaml''"
  "filepath_Join ''/p/ns/nodes/alpha'' ''stunmesh.yaml'' = ''/p/ns/nodes/alpha/stunmesh.yaml''"
  "filepath_Clean ''/p/ns/nodes'' = ''/p/ns/nodes''" "filepath_Clean ''/p/ns/nodes/alpha/identity.pub'' = ''/p/ns/nodes/alpha/identity.pub''"
  "filepath_Clean ''/p/ns/nodes/alpha/wg.yaml'' = ''/p/ns/nodes/alpha/wg.yaml''"
  "filepath_Clean ''/p/ns/nodes/alpha/stunmesh.yaml'' = ''/p/ns/nodes/alpha/stunmesh.yaml''"
  "filepath_Dir ''/p/ns/nodes'' = ''/p/ns''" "filepath_Dir ''/p/ns/nodes/alpha'' = ''/p/ns/nodes''"
  by code_simp+

lemma ex_dirs: "tr_dirs ex_tree = [(''/'', 493), (''/p'', 493), (''/p/ns'', 448), (''/p/ns/nodes'', 493), (''/p/ns/nodes/alpha'', 448)]"
  and ex_faults: "fs_faults (tr_fs ex_tree) = []"
  by (simp_all add: ex_tree_def)

lemma ex_subdirs: "subdirs ex_tree ''/p/ns/nodes'' = [''alpha'']" "subdirs ex_tree ''/p'' = [''ns'']"
  unfolding subdirs_def ex_dirs by code_simp+

lemma ex_is_dir:
  "is_dir ex_tree ''/p''" "is_dir ex_tree ''/p/ns/nodes''" "\<not> is_dir ex_tree ''/p/ns/nodes/alpha/identity.pub''"
  "\<not> is_dir ex_tree ''/p/ns/nodes/alpha/wg.yaml''" "\<not> is_dir ex_tree ''/p/ns/nodes/alpha/stunmesh.yaml''"
  by (simp_all add: is_dir_def ex_dirs ex_node_paths ex_paths)

lemma listDirs_there:
  assumes "is_dir t d" and "fs_faults (tr_fs t) = []"
  shows "\<exists>t'. listDirs d t = (Inr (filter (\<lambda>n. \<not> has_prefix n ''.'') (subdirs t d)), t') \<and> quiet t t'"
proof -
  obtain r t1 where 1: "on_files (touch (subdirs t d)) t = (r, t1)" by fastforce
  have "r = Inr (subdirs t d)" "quiet t t1" using touch_quiet [OF 1] assms(2) by blast+
  then show ?thesis using 1 assms(1) by (simp add: listDirs_def t_ReadDir_def andThen_def wrap_def ret_def)
qed

lemma visible_example: "\<not> has_prefix ''alpha'' ''.''" "\<not> has_prefix ''ns'' ''.''"
  by (simp_all add: has_prefix_def)

lemma ex_nodes: "\<exists>t. Nodes ''/p'' ''ns'' ex_tree = (Inr [''alpha''], t) \<and> quiet ex_tree t"
  and ex_namespaces: "\<exists>t. Namespaces ''/p'' ex_tree = (Inr [''ns''], t) \<and> quiet ex_tree t"
  using listDirs_there [OF ex_is_dir(2) ex_faults] listDirs_there [OF ex_is_dir(1) ex_faults]
  by (simp_all add: Nodes_def Namespaces_def ex_paths ex_node_paths ex_subdirs visible_example)

lemma ReadNode_there:
  assumes "ResolveName base ns = Inr d" and "ResolveName (filepath_Join d ''nodes'') nid = Inr e" and "fs_faults (tr_fs t) = []"
    and "files_of t (filepath_Join e ''identity.pub'') = Some x" and "\<not> is_dir t (filepath_Join e ''identity.pub'')"
    and "ParseKey (f_data x) = Inr i"
    and "files_of t (filepath_Join e ''wg.yaml'') = Some y" and "\<not> is_dir t (filepath_Join e ''wg.yaml'')" and "yaml (f_data y) = Some j"
    and "files_of t (filepath_Join e ''stunmesh.yaml'') = Some z" and "\<not> is_dir t (filepath_Join e ''stunmesh.yaml'')"
  shows "\<exists>t'. ReadNode yaml base ns nid t
    = (Inr \<lparr>nd_NodeID = nid, nd_IdentityPublicKey = i, nd_WG = j, nd_Stunmesh = f_data z\<rparr>, t') \<and> quiet t t'"
proof -
  obtain t1 where 1: "readKey (filepath_Join e ''identity.pub'') t = (Inr i, t1)" "quiet t t1"
    using readKey_there [OF assms(4, 5, 3, 6)] by blast
  note q1 = quiet_there [OF 1(2) assms(3)]
  obtain t2 where 2: "readFile (filepath_Join e ''wg.yaml'') t1 = (Inr (f_data y), t2)" "quiet t1 t2"
    using readFile_there [of t1] q1 assms(7, 8) by metis
  note q2 = quiet_there [OF 2(2) conjunct1 [OF q1]]
  obtain t3 where 3: "readFile (filepath_Join e ''stunmesh.yaml'') t2 = (Inr (f_data z), t3)" "quiet t2 t3"
    using readFile_there [of t2] q1 q2 assms(10, 11) by metis
  have "quiet t t3" using quiet_trans 1(2) 2(2) 3(2) by blast
  then show ?thesis using 1(1) 2(1) 3(1) assms(1, 2, 9) by (simp add: ReadNode_def andThen_def of_result_def ret_def)
qed

lemma ex_ReadNode: "\<exists>t. ReadNode (pe_yaml ex_penv) ''/p'' ''ns'' ''alpha'' ex_tree = (Inr ex_node, t) \<and> quiet ex_tree t"
proof -
  have "''wg'' \<noteq> defaultProvdYAML" "''wg'' \<noteq> wgYAMLTemplate" by code_simp+
  then have y: "pe_yaml ex_penv ''wg'' = Some ''{}''" by (simp add: ex_penv_def)
  have f: "files_of ex_tree ''/p/ns/nodes/alpha/identity.pub'' = Some (ex_file (Key_String (replicate 32 (CHR ''P'')) @ [newline]))"
    "files_of ex_tree ''/p/ns/nodes/alpha/wg.yaml'' = Some (ex_file ''wg'')"
    "files_of ex_tree ''/p/ns/nodes/alpha/stunmesh.yaml'' = Some (ex_file ''x'')" by (simp_all add: ex_tree_def)
  have d: "f_data (ex_file s) = s" for s by (simp add: ex_file_def)
  have "\<exists>t. ReadNode (pe_yaml ex_penv) ''/p'' ''ns'' ''alpha'' ex_tree
      = (Inr \<lparr>nd_NodeID = ''alpha'', nd_IdentityPublicKey = replicate 32 (CHR ''P''), nd_WG = ''{}'', nd_Stunmesh = f_data (ex_file ''x'')\<rparr>, t)
      \<and> quiet ex_tree t"
    by (rule ReadNode_there [OF ex_paths(21), where e = "''/p/ns/nodes/alpha''" and x = "ex_file (Key_String (replicate 32 (CHR ''P'')) @ [newline])"
          and y = "ex_file ''wg''"])
      (simp_all only: ex_node_paths ex_is_dir ex_faults f d y ex_key_texts not_False_eq_True)
  then show ?thesis by (simp add: ex_node_def d)
qed

definition ex_dep :: Deployment where
  "ex_dep = \<lparr>dp_Namespace = ''ns'', dp_Backend = \<lparr>bc_Type = TypeDHTProxy, bc_Proxies = default_proxies\<rparr>,
     dp_RepublishInterval = 300000000000, dp_ControllerPrivateKey = replicate 32 (CHR ''s''),
     dp_ControllerPublicKey = replicate 32 (CHR ''P'')\<rparr>"

definition ex_proxies :: Client where
  "ex_proxies = \<lparr>c_baseURLs = default_proxies, c_maxValues = 64, c_maxLineSize = maxLineSize\<rparr>"

lemma ex_backend: "prov_Backend ex_penv (dp_Backend ex_dep) = Inr ex_proxies"
  by (simp add: prov_Backend_def dial_New_def NewClient_def ex_penv_def ex_dep_def ex_proxies_def default_proxies_def
      trim_slash_def defaultMaxValues_def Let_def)

lemma ex_env_ok: "env_ok ex_penv"
  by (simp add: env_ok_def ex_penv_def)

lemma ex_key: "\<exists>key. dht_Key ''ns'' ''alpha'' = Inr key \<and> isHexKey key"
  by (simp add: dht_Key_def validatePart_def hex_isHex sha1_length)

lemma ex_publishNode:
  assumes "quiet ex_tree (pv_tree s)"
  shows "nr_Err (fst (publishNode ex_penv ex_proxies ex_dep ''alpha'' 5000000000 s)) = None"
proof -
  obtain t where 0: "ReadNode (pe_yaml ex_penv) ''/p'' ''ns'' ''alpha'' ex_tree = (Inr ex_node, t)" using ex_ReadNode by blast
  obtain x u where 1: "ReadNode (pe_yaml ex_penv) ''/p'' ''ns'' ''alpha'' (pv_tree s) = (x, u)" by fastforce
  have x: "x = Inr ex_node" using reads_again(1) [OF reads_tree(2) assms ex_faults 0 1] .
  obtain key where key: "dht_Key ''ns'' ''alpha'' = Inr key" "isHexKey key" using ex_key by blast
  have seal: "Seal (pe_seal ex_penv) (pe_bytes ex_penv nonceSize n) m p k = Some (replicate 24 (CHR ''r'') @ pad_seal (replicate 24 (CHR ''r'')) m p k)"
    for n m p k by (simp add: Seal_def sealWithNonce_def ex_penv_def nonceSize_def)
  have ok: "put_one pu base (pe_answer ex_penv sent req) = None" for pu base sent req
    by (simp add: put_one_None accepts_def ex_penv_def)
  have [simp]: "pe_width ex_penv = 64" "pe_Dir ex_penv = ''/p''" by (simp_all add: ex_penv_def)
  have dn: "dp_Namespace ex_dep = ''ns''" by (simp add: ex_dep_def)
  have "Put pu ex_proxies key (pe_answer ex_penv sent) v = None" for pu sent v
    by (simp add: Put_def key(2) ok Let_def map_filter_Nil)
  then show ?thesis
    by (simp add: publishNode_def prepareNode_def dn on_tree_def 1 x ex_build andThen_def wrap_def key(1) ret_def sealAndPutNode_def
        draw_def seal put_report_def putSealed_def new_report_def Let_def)
qed

lemma ex_publishNamespace:
  assumes "quiet ex_tree (pv_tree s)"
  shows "\<exists>r s'. publishNamespace ex_penv ''ns'' 5000000000 s = ([r], s') \<and> nr_Err r = None"
proof -
  have [simp]: "pe_Dir ex_penv = ''/p''" by (simp add: ex_penv_def)
  obtain t where 0: "ReadDeployment (pe_yaml ex_penv) ''/p'' ''ns'' ex_tree = (Inr ex_dep, t)"
    using ex_deployment by (auto simp: ex_dep_def)
  obtain x s1 where 1: "on_tree (ReadDeployment (pe_yaml ex_penv) (pe_Dir ex_penv) ''ns'') s = (x, s1)" by fastforce
  have x: "x = Inr ex_dep" using reads_again(1) [OF reads_tree(1) assms ex_faults 0] on_tree_run [OF 1] by simp
  have q1: "quiet ex_tree (pv_tree s1)" by (rule quiet_trans [OF assms tree_onlyD(1) [OF on_tree_only [OF reads_tree(1) 1]]])
  obtain t' where n0: "Nodes ''/p'' ''ns'' ex_tree = (Inr [''alpha''], t')" using ex_nodes by blast
  obtain y s2 where 2: "on_tree (Nodes (pe_Dir ex_penv) ''ns'') s1 = (y, s2)" by fastforce
  have y: "y = Inr [''alpha'']" using reads_again(1) [OF reads_tree(3) q1 ex_faults n0] on_tree_run [OF 2] by simp
  have q2: "quiet ex_tree (pv_tree s2)" by (rule quiet_trans [OF q1 tree_onlyD(1) [OF on_tree_only [OF reads_tree(3) 2]]])
  show ?thesis using ex_publishNode [OF q2] 1 2 x y
    by (cases "publishNode ex_penv ex_proxies ex_dep ''alpha'' 5000000000 s2") (simp add: publishNamespace_def ex_backend)
qed

lemma ex_publish_once: "\<exists>s'. publish_once ex_penv [] 5000000000 ex_publisher = (CmdExit 0, s')"
proof -
  have [simp]: "pe_Dir ex_penv = ''/p''" by (simp add: ex_penv_def)
  obtain t where 0: "Namespaces ''/p'' ex_tree = (Inr [''ns''], t)" "quiet ex_tree t" using ex_namespaces by blast
  have 1: "resolveNamespaces ex_penv [] ex_publisher = (Inr [''ns''], ex_publisher\<lparr>pv_tree := t\<rparr>)"
    by (simp add: resolveNamespaces_def on_tree_def ex_publisher_def 0(1))
  obtain r s1 where 2: "publishNamespace ex_penv ''ns'' 5000000000 (ex_publisher\<lparr>pv_tree := t\<rparr>) = ([r], s1)" "nr_Err r = None"
    using ex_publishNamespace [of "ex_publisher\<lparr>pv_tree := t\<rparr>"] 0(2) by auto
  show ?thesis by (simp add: publish_once_def publishRound_def andThen_def 1 2 Let_def)
qed


theorem publishNamespace_isolates_witness:
  "\<exists>rs s'. publishNamespace ex_penv ''ns'' 5000000000 ex_publisher = (rs, s') \<and> map nr_NodeID rs = [''alpha'']"
proof -
  obtain rs s' where run: "publishNamespace ex_penv ''ns'' 5000000000 ex_publisher = (rs, s')" by fastforce
  have d: "pe_Dir ex_penv = ''/p''" "pv_tree ex_publisher = ex_tree" by (simp_all add: ex_penv_def ex_publisher_def)
  obtain u v where 0: "Nodes ''/p'' ''ns'' ex_tree = (Inr [''alpha''], u)"
    and dep: "ReadDeployment (pe_yaml ex_penv) ''/p'' ''ns'' ex_tree = (Inr ex_dep, v)"
    using ex_nodes ex_deployment by (auto simp: ex_dep_def)
  have "map nr_NodeID rs = [''alpha'']"
    by (rule conjunct1 [OF publishNamespace_isolates [OF run, unfolded d, OF ex_faults dep 0 ex_backend]])
  then show ?thesis using run by (intro exI conjI)
qed

end
