(* ===== verification/Republish.thy ===== *)
theory Republish
  imports Publish
begin

text \<open>
  cmd/stunmesh-provd/republish_loop.go: the rounds of publish without --once. Between two rounds
  the operator may change the tree in any way, so each round has the tree and the time it finds;
  the sleep is asked for and either ends or is cancelled.
\<close>

section \<open>The cache\<close>

record cacheEntry =
  ce_bundle :: Bundle
  ce_identityPub :: Key
  ce_sealed :: string

type_synonym cache = "string \<times> string \<Rightarrow> cacheEntry option"

text \<open>Whether the cached value is put again: the entry, when key and content match (a failed comparison is no match).\<close>

definition cached_value :: "cache \<Rightarrow> string \<times> string \<Rightarrow> nodeReport \<Rightarrow> string option" where
  "cached_value cache key report =
     (case cache key of None \<Rightarrow> None
      | Some prior \<Rightarrow>
          if ce_identityPub prior = nr_IdentityPublicKey report
            \<and> (case nr_Bundle report of None \<Rightarrow> False | Some b \<Rightarrow> Equal b (ce_bundle prior) = Inr True)
          then Some (ce_sealed prior) else None)"

definition publishNodeCached :: "ProvEnv \<Rightarrow> Client \<Rightarrow> Deployment \<Rightarrow> string \<Rightarrow> int \<Rightarrow> cache \<times> Provd \<Rightarrow> nodeReport \<times> cache \<times> Provd" where
  "publishNodeCached env proxy deployment nodeID now = (\<lambda>(cache, s).
     (case prepareNode env deployment nodeID now s of
        (Inl report, s1) \<Rightarrow> (report, cache, s1)
      | (Inr (report, node, plain), s1) \<Rightarrow>
          (let key = (dp_Namespace deployment, nodeID) in
           case cached_value cache key report of
             Some sealed \<Rightarrow> (case put_report env proxy report sealed s1 of (r, s2) \<Rightarrow> (r, cache, s2))
           | None \<Rightarrow>
               (case sealAndPutNode env proxy deployment node report plain s1 of
                  (r, s2) \<Rightarrow>
                    (r, if nr_Err r \<noteq> None then cache
                        else cache(key \<mapsto> \<lparr>ce_bundle = the (nr_Bundle r), ce_identityPub = nr_IdentityPublicKey r,
                          ce_sealed = the (nr_Sealed r)\<rparr>), s2)))))"

definition publishNamespaceCached :: "ProvEnv \<Rightarrow> Deployment \<Rightarrow> int \<Rightarrow> cache \<times> Provd \<Rightarrow> nodeReport list \<times> cache \<times> Provd" where
  "publishNamespaceCached env deployment now = (\<lambda>(cache, s).
     (case on_tree (Nodes (pe_Dir env) (dp_Namespace deployment)) s of
        (Inl (ErrNotExist _), s1) \<Rightarrow> ([], cache, s1)
      | (Inl e, s1) \<Rightarrow> ([failed_report (dp_Namespace deployment) (PubNodes e)], cache, s1)
      | (Inr nodeIDs, s1) \<Rightarrow>
          (case prov_Backend env (dp_Backend deployment) of
             Inl e \<Rightarrow> ([failed_report (dp_Namespace deployment) (PubBackend e)], cache, s1)
           | Inr proxy \<Rightarrow> collect (\<lambda>nodeID. publishNodeCached env proxy deployment nodeID now) nodeIDs (cache, s1))))"

definition pruneCache :: "string list \<Rightarrow> cache \<Rightarrow> cache" where
  "pruneCache namespaces cache = (\<lambda>(ns, nid). if ns \<in> set namespaces then cache (ns, nid) else None)"

section \<open>A round of the loop\<close>

definition fallbackPollInterval :: int where
  "fallbackPollInterval = 5 * 60 * 1000000000"

type_synonym schedule = "string \<Rightarrow> int option"

text \<open>What the loop over the namespaces of one round keeps; \<open>rd_ran\<close> is a ghost: the namespaces published.\<close>

record Round =
  rd_cache :: cache
  rd_prov :: Provd
  rd_nextDue :: schedule
  rd_wait :: int
  rd_haveNodes :: bool
  rd_empty :: "string list"
  rd_ran :: "string list"

text \<open>Whether a namespace is due.\<close>

definition due_now :: "schedule \<Rightarrow> int \<Rightarrow> string \<Rightarrow> bool" where
  "due_now due now namespace = (case due namespace of None \<Rightarrow> True | Some runsAt \<Rightarrow> \<not> now < runsAt)"

definition note_nodes :: "string \<Rightarrow> serr + string list \<Rightarrow> Round \<Rightarrow> Round" where
  "note_nodes namespace nodes rd =
     (case nodes of Inr (_ # _) \<Rightarrow> rd\<lparr>rd_haveNodes := True\<rparr>
      | Inr [] \<Rightarrow> rd\<lparr>rd_empty := rd_empty rd @ [namespace]\<rparr>
      | Inl (ErrNotExist _) \<Rightarrow> rd\<lparr>rd_empty := rd_empty rd @ [namespace]\<rparr>
      | Inl _ \<Rightarrow> rd\<lparr>rd_haveNodes := True\<rparr>)"

definition run_due :: "ProvEnv \<Rightarrow> int \<Rightarrow> schedule \<Rightarrow> Deployment \<Rightarrow> string \<Rightarrow> Round \<Rightarrow> int \<times> Round" where
  "run_due env now due deployment namespace rd =
     (if due_now due now namespace then
        (case publishNamespaceCached env deployment now (rd_cache rd, rd_prov rd) of (reports, cache, s) \<Rightarrow>
          (now + dp_RepublishInterval deployment,
           rd\<lparr>rd_cache := cache, rd_prov := fold printPublishReport reports s, rd_ran := rd_ran rd @ [namespace]\<rparr>))
      else (the (due namespace), rd))"

definition visit :: "ProvEnv \<Rightarrow> int \<Rightarrow> schedule \<Rightarrow> string \<Rightarrow> Round \<Rightarrow> Round" where
  "visit env now due namespace rd =
     (case on_tree (ReadDeployment (pe_yaml env) (pe_Dir env) namespace) (rd_prov rd) of
        (Inl e, s1) \<Rightarrow>
          rd\<lparr>rd_prov := put_line (Failed namespace (PubDeployment e)) s1,
             rd_nextDue := (rd_nextDue rd)(namespace \<mapsto> now + fallbackPollInterval)\<rparr>
      | (Inr deployment, s1) \<Rightarrow>
          (case on_tree (Nodes (pe_Dir env) namespace) s1 of (nodes, s2) \<Rightarrow>
          (case run_due env now due deployment namespace (note_nodes namespace nodes (rd\<lparr>rd_prov := s2\<rparr>)) of (runsAt, rd1) \<Rightarrow>
            (let remaining = runsAt - now in
             rd1\<lparr>rd_nextDue := (rd_nextDue rd1)(namespace \<mapsto> runsAt),
                 rd_wait := if remaining < rd_wait rd1 then remaining else rd_wait rd1\<rparr>))))"

definition nothingToPublishLine :: "string \<Rightarrow> string list \<Rightarrow> bool \<Rightarrow> string list \<Rightarrow> oline option" where
  "nothingToPublishLine dir namespaces haveNodes emptyNamespaces =
     (if namespaces = [] then Some (NothingIn dir [])
      else if \<not> haveNodes \<and> emptyNamespaces \<noteq> [] then Some (NothingIn dir emptyNamespaces)
      else None)"

text \<open>What the loop keeps from round to round.\<close>

record Loop =
  lp_cache :: cache
  lp_due :: schedule

definition first_loop :: Loop where
  "first_loop = \<lparr>lp_cache = Map.empty, lp_due = Map.empty\<rparr>"

definition start_round :: "Loop \<Rightarrow> Provd \<Rightarrow> Round" where
  "start_round lp s = \<lparr>rd_cache = lp_cache lp, rd_prov = s, rd_nextDue = Map.empty, rd_wait = fallbackPollInterval,
     rd_haveNodes = False, rd_empty = [], rd_ran = []\<rparr>"

text \<open>One round up to its sleep: the round's end, the loop's new state and the time to sleep; or the error that
  ends the loop.\<close>

definition loop_round :: "ProvEnv \<Rightarrow> string \<Rightarrow> int \<Rightarrow> Loop \<Rightarrow> (Provd, puberr, Round \<times> Loop \<times> int) step" where
  "loop_round env ns now lp =
     andThen (resolveNamespaces env ns) (\<lambda>namespaces s.
       (let rd = fold (visit env now (lp_due lp)) namespaces (start_round lp s);
            s1 = (case nothingToPublishLine (pe_Dir env) namespaces (rd_haveNodes rd) (rd_empty rd) of
                    None \<Rightarrow> rd_prov rd | Some l \<Rightarrow> put_line l (rd_prov rd))
        in (Inr (rd, \<lparr>lp_cache = pruneCache namespaces (rd_cache rd), lp_due = rd_nextDue rd\<rparr>,
                 if rd_wait rd < 0 then 0 else rd_wait rd), s1)))"

text \<open>
  The loop. \<open>wakes\<close> lists what each sleep that ends leads to: the tree as the operator has left
  it and the time then; the sleep after the last of them is cancelled. The sleeps asked for
  are returned with the exit code.
\<close>

fun runRepublishLoop :: "ProvEnv \<Rightarrow> string \<Rightarrow> (tree \<times> int) list \<Rightarrow> int \<Rightarrow> Loop \<Rightarrow> Provd \<Rightarrow> (cmdexit \<times> int list) \<times> Provd" where
  "runRepublishLoop env ns wakes now lp s =
     (case loop_round env ns now lp s of
        (Inl e, s1) \<Rightarrow> ((CmdExit 1, []), put_line (RoundFailed e) s1)
      | (Inr (rd, lp1, wait), s1) \<Rightarrow>
          (case wakes of [] \<Rightarrow> ((CmdExit 0, [wait]), s1)
           | (tree, now1) # rest \<Rightarrow>
               (case runRepublishLoop env ns rest now1 lp1 (s1\<lparr>pv_tree := tree\<rparr>) of
                  ((exit, waits), s2) \<Rightarrow> ((exit, wait # waits), s2))))"

declare runRepublishLoop.simps [simp del]

definition runPublishLoop :: "ProvEnv \<Rightarrow> string \<Rightarrow> (tree \<times> int) list \<Rightarrow> int \<Rightarrow> Provd \<Rightarrow> (cmdexit \<times> int list) \<times> Provd" where
  "runPublishLoop env ns wakes now s = runRepublishLoop env ns wakes now first_loop s"

end
