(* ===== verification/Republish_Props.thy ===== *)
theory Republish_Props
  imports Republish Publish_Props
begin

text \<open>
  The republish loop: its schedule (when a namespace is published, how long the loop sleeps, how
  it ends), and its cache (what is put again is what the node still expects).
\<close>

section \<open>One node of the loop\<close>

lemma publishNodeCached_cases:
  assumes "publishNodeCached env c dep nid now (cache, s) = (r, cache', s')"
  obtains (bad) "nr_Err r \<noteq> None" "cache' = cache" "tree_only s s'" "pv_rand s' = pv_rand s" "fst (prepareNode env dep nid now s) = Inl r"
  | (again) r0 node b e s1 where "prepared env (dp_Namespace dep) node now r0 b" "nd_NodeID node = nid"
      "node_files env (dp_Namespace dep) (pv_tree s) node" "tree_only s s1" "cache (dp_Namespace dep, nid) = Some e"
      "ce_identityPub e = nd_IdentityPublicKey node" "Equal b (ce_bundle e) = Inr True"
      "put_report env c r0 (ce_sealed e) s1 = (r, s')" "cache' = cache"
      "fst (prepareNode env dep nid now s) = Inr (r0, node, marshal_bundle b)"
  | (fresh) r0 node b s1 where "prepared env (dp_Namespace dep) node now r0 b" "nd_NodeID node = nid"
      "node_files env (dp_Namespace dep) (pv_tree s) node" "tree_only s s1"
      "\<forall>e. cache (dp_Namespace dep, nid) = Some e \<longrightarrow> ce_identityPub e = nd_IdentityPublicKey node \<longrightarrow> Equal b (ce_bundle e) \<noteq> Inr True"
      "sealAndPutNode env c dep node r0 (marshal_bundle b) s1 = (r, s')"
      "cache' = (if nr_Err r \<noteq> None then cache else cache((dp_Namespace dep, nid) \<mapsto> \<lparr>ce_bundle = b,
         ce_identityPub = nd_IdentityPublicKey node, ce_sealed = the (nr_Sealed r)\<rparr>))"
      "fst (prepareNode env dep nid now s) = Inr (r0, node, marshal_bundle b)"
proof -
  obtain x s1 where 1: "prepareNode env dep nid now s = (x, s1)" by fastforce
  from 1 show ?thesis
  proof (cases rule: prepareNode_cases)
    case (bad r0) note p = this
    show ?thesis using assms 1 p that(1) by (auto simp: publishNodeCached_def dest: tree_onlyD(3))
  next
    case (good r0 node b) note p = this
    have f: "nr_IdentityPublicKey r0 = nd_IdentityPublicKey node" "nr_Bundle r0 = Some b" "nr_Err r0 = None"
      using p(2) by (auto simp: prepared_def dest: arg_cong [of _ _ nr_IdentityPublicKey] arg_cong [of _ _ nr_Bundle] arg_cong [of _ _ nr_Err])
    let ?v = "cached_value cache (dp_Namespace dep, nid) r0"
    show ?thesis
    proof (cases ?v)
      case (Some sealed)
      then obtain e where e: "cache (dp_Namespace dep, nid) = Some e" "ce_identityPub e = nd_IdentityPublicKey node"
        "Equal b (ce_bundle e) = Inr True" "sealed = ce_sealed e"
        using f by (auto simp: cached_value_def split: option.splits if_splits)
      obtain r1 s2 where 2: "put_report env c r0 (ce_sealed e) s1 = (r1, s2)" by fastforce
      show ?thesis
        by (rule that(2) [OF p(2) p(3) p(4) p(5) e(1-3)])
          (use assms 1 2 p(1) Some e(4) in \<open>simp_all add: publishNodeCached_def Let_def\<close>)
    next
      case None
      have n: "\<forall>e. cache (dp_Namespace dep, nid) = Some e \<longrightarrow> ce_identityPub e = nd_IdentityPublicKey node \<longrightarrow> Equal b (ce_bundle e) \<noteq> Inr True"
        using None f by (auto simp: cached_value_def)
      obtain r1 s2 where 2: "sealAndPutNode env c dep node r0 (marshal_bundle b) s1 = (r1, s2)" by fastforce
      have r1: "nr_Bundle r1 = Some b" "nr_IdentityPublicKey r1 = nd_IdentityPublicKey node"
        using sealAndPutNode_result(3) [OF 2 f(3)] f by (auto dest: arg_cong [of _ _ nr_IdentityPublicKey] arg_cong [of _ _ nr_Bundle])
      show ?thesis
        by (rule that(3) [OF p(2) p(3) p(4) p(5) n])
          (use assms 1 2 p(1) None r1 in \<open>auto simp: publishNodeCached_def Let_def\<close>)
    qed
  qed
qed

section \<open>The schedule\<close>

lemma publishNodeCached_going: "publishNodeCached env c dep nid now (cache, s) = (r, cache', s') \<Longrightarrow> going s s'"
proof (erule publishNodeCached_cases)
  assume "tree_only s s'" then show "going s s'" by (rule going_tree_only)
next
  fix r0 e s1 assume "put_report env c r0 (ce_sealed e) s1 = (r, s')" "tree_only s s1"
  then show "going s s'" using put_report_result(2) going_tree_only [of s s1] by (fastforce simp: going_def)
next
  fix r0 node b s1
  assume p: "prepared env (dp_Namespace dep) node now r0 b" "sealAndPutNode env c dep node r0 (marshal_bundle b) s1 = (r, s')" "tree_only s s1"
  have "nr_Err r0 = None" using p(1) by (auto simp: prepared_def dest: arg_cong [of _ _ nr_Err])
  then show "going s s'" using sealAndPutNode_result(1, 5) [OF p(2)] going_tree_only [OF p(3)] by (auto simp: going_def)
qed

definition onward :: "cache \<times> Provd \<Rightarrow> cache \<times> Provd \<Rightarrow> bool" where
  "onward x y = going (snd x) (snd y)"

interpretation cached: run_order onward
  by unfold_locales (auto simp: onward_def intro: going_trans)

lemma publishNamespaceCached_cases:
  assumes "publishNamespaceCached env dep now (cache, s) = (rs, cache', s')"
  obtains (none) "cache' = cache" "tree_only s s'"
  | (nodes) ids s1 c where "on_tree (Nodes (pe_Dir env) (dp_Namespace dep)) s = (Inr ids, s1)" "prov_Backend env (dp_Backend dep) = Inr c"
      "collect (\<lambda>nodeID. publishNodeCached env c dep nodeID now) ids (cache, s1) = (rs, cache', s')" "tree_only s s1"
proof -
  obtain x s1 where 1: "on_tree (Nodes (pe_Dir env) (dp_Namespace dep)) s = (x, s1)" by fastforce
  have t: "tree_only s s1" by (rule on_tree_only [OF reads_tree(3) 1])
  show ?thesis
  proof (cases x)
    case (Inl e)
    then show ?thesis using assms 1 t none by (auto simp: publishNamespaceCached_def split: serr.splits)
  next
    case (Inr ids)
    then show ?thesis using assms 1 t none nodes by (auto simp: publishNamespaceCached_def split: sum.splits)
  qed
qed

lemma goes_publishNodeCached: "cached.goes (\<lambda>nodeID. publishNodeCached env c dep nodeID now)"
proof (rule cached.goesI)
  fix x z r z' assume "publishNodeCached env c dep x now z = (r, z')"
  then show "onward z z'" using publishNodeCached_going by (cases z; cases z') (simp add: onward_def)
qed

lemma publishNamespaceCached_going: "publishNamespaceCached env dep now (cache, s) = (rs, cache', s') \<Longrightarrow> going s s'"
proof (erule publishNamespaceCached_cases)
  assume "tree_only s s'" then show "going s s'" by (rule going_tree_only)
next
  fix ids s1 c assume c: "collect (\<lambda>nodeID. publishNodeCached env c dep nodeID now) ids (cache, s1) = (rs, cache', s')" "tree_only s s1"
  show "going s s'"
    using going_trans [OF going_tree_only [OF c(2)]] cached.goes_collect [OF goes_publishNodeCached c(1)] by (simp add: onward_def)
qed

text \<open>When a namespace is next due, and whether its deployment can be read.\<close>

definition next_due :: "ProvEnv \<Rightarrow> int \<Rightarrow> schedule \<Rightarrow> string \<Rightarrow> serr + Deployment \<Rightarrow> int" where
  "next_due env now due n d =
     (case d of Inl _ \<Rightarrow> now + fallbackPollInterval
      | Inr dep \<Rightarrow> if due_now due now n then now + dp_RepublishInterval dep else the (due n))"

abbreviation deployment_of :: "ProvEnv \<Rightarrow> string \<Rightarrow> tree \<Rightarrow> serr + Deployment" where
  "deployment_of env n t \<equiv> fst (ReadDeployment (pe_yaml env) (pe_Dir env) n t)"

lemma note_nodes_fields [simp]:
  "rd_prov (note_nodes n x rd) = rd_prov rd" "rd_cache (note_nodes n x rd) = rd_cache rd" "rd_wait (note_nodes n x rd) = rd_wait rd"
  "rd_nextDue (note_nodes n x rd) = rd_nextDue rd" "rd_ran (note_nodes n x rd) = rd_ran rd"
  by (simp_all add: note_nodes_def split: sum.split list.split serr.split)

text \<open>The two outcomes of a visit.\<close>

lemma visit_cases:
  obtains (skipped) e s1 where "on_tree (ReadDeployment (pe_yaml env) (pe_Dir env) n) (rd_prov rd) = (Inl e, s1)" "tree_only (rd_prov rd) s1"
      "rd_prov (visit env now due n rd) = put_line (Failed n (PubDeployment e)) s1" "rd_cache (visit env now due n rd) = rd_cache rd"
      "rd_nextDue (visit env now due n rd) = (rd_nextDue rd)(n \<mapsto> now + fallbackPollInterval)"
      "rd_wait (visit env now due n rd) = rd_wait rd" "rd_ran (visit env now due n rd) = rd_ran rd"
  | (kept_until) dep s1 x s2 where "on_tree (ReadDeployment (pe_yaml env) (pe_Dir env) n) (rd_prov rd) = (Inr dep, s1)"
      "\<not> due_now due now n" "tree_only (rd_prov rd) s2" "rd_prov (visit env now due n rd) = s2" "rd_cache (visit env now due n rd) = rd_cache rd"
      "rd_nextDue (visit env now due n rd) = (rd_nextDue rd)(n \<mapsto> the (due n))"
      "rd_wait (visit env now due n rd) = min (the (due n) - now) (rd_wait rd)" "rd_ran (visit env now due n rd) = rd_ran rd"
  | (served) dep s1 x s2 reports cache' s3 where "on_tree (ReadDeployment (pe_yaml env) (pe_Dir env) n) (rd_prov rd) = (Inr dep, s1)"
      "due_now due now n" "tree_only (rd_prov rd) s2" "publishNamespaceCached env dep now (rd_cache rd, s2) = (reports, cache', s3)"
      "rd_prov (visit env now due n rd) = fold printPublishReport reports s3" "rd_cache (visit env now due n rd) = cache'"
      "rd_nextDue (visit env now due n rd) = (rd_nextDue rd)(n \<mapsto> now + dp_RepublishInterval dep)"
      "rd_wait (visit env now due n rd) = min (dp_RepublishInterval dep) (rd_wait rd)" "rd_ran (visit env now due n rd) = rd_ran rd @ [n]"
proof -
  obtain d s1 where 1: "on_tree (ReadDeployment (pe_yaml env) (pe_Dir env) n) (rd_prov rd) = (d, s1)" by fastforce
  have t1: "tree_only (rd_prov rd) s1" by (rule on_tree_only [OF reads_tree(1) 1])
  show ?thesis
  proof (cases d)
    case (Inl e)
    then show ?thesis using skipped [of e s1] 1 t1 by (simp add: visit_def)
  next
    case d: (Inr dep)
    obtain x s2 where 2: "on_tree (Nodes (pe_Dir env) n) s1 = (x, s2)" by fastforce
    have t2: "tree_only (rd_prov rd) s2" by (rule tree_only_trans [OF t1 on_tree_only [OF reads_tree(3) 2]])
    show ?thesis
    proof (cases "due_now due now n")
      case False
      then show ?thesis using kept_until [of dep s1 s2] 1 2 d t2 by (simp add: visit_def run_due_def Let_def min_def)
    next
      case True
      obtain reports cache' s3 where p: "publishNamespaceCached env dep now (rd_cache rd, s2) = (reports, cache', s3)"
        by (metis prod.collapse)
      show ?thesis using served [of dep s1 s2 reports cache' s3] 1 2 d t2 True p by (simp add: visit_def run_due_def Let_def min_def)
    qed
  qed
qed

lemma visit_going: "going (rd_prov rd) (rd_prov (visit env now due n rd))"
proof (rule visit_cases [of env n rd now due])
  fix e s1
  assume "tree_only (rd_prov rd) s1" "rd_prov (visit env now due n rd) = put_line (Failed n (PubDeployment e)) s1"
  then show ?thesis using going_trans [OF going_tree_only] by simp
next
  fix s2 assume "tree_only (rd_prov rd) s2" "rd_prov (visit env now due n rd) = s2"
  then show ?thesis using going_tree_only by simp
next
  fix dep s2 reports cache' s3
  assume p: "tree_only (rd_prov rd) s2" "publishNamespaceCached env dep now (rd_cache rd, s2) = (reports, cache', s3)"
    "rd_prov (visit env now due n rd) = fold printPublishReport reports s3"
  have "going (rd_prov rd) s3" using going_trans [OF going_tree_only [OF p(1)] publishNamespaceCached_going [OF p(2)]] .
  then show ?thesis using p(3) by (simp add: going_def)
qed

text \<open>The sleep stays positive and never runs past a due time.\<close>

definition timely :: "int \<Rightarrow> Round \<Rightarrow> bool" where
  "timely now rd = (0 < rd_wait rd \<and> rd_wait rd \<le> fallbackPollInterval \<and> (\<forall>n d. rd_nextDue rd n = Some d \<longrightarrow> now + rd_wait rd \<le> d))"

lemma ReadDeployment_positive:
  assumes "on_tree (ReadDeployment yaml base ns) s = (Inr dep, s')"
  shows "0 < dp_RepublishInterval dep"
proof -
  have run: "ReadDeployment yaml base ns (pv_tree s) = (Inr dep, pv_tree s')" by (rule on_tree_run [OF assms])
  then obtain d where d: "ResolveName base ns = Inr d" by (auto simp: ReadDeployment_def andThen_Inr of_result_def)
  have "0 < i" if "provd_settings yaml p data = Inr (b, i)" for p data b i
    using that by (auto simp: provd_settings_def split: option.splits sum.splits if_splits)
  then show ?thesis using ReadDeployment_Inr(3) [OF run d] by blast
qed

lemma visit_timely: "timely now rd \<Longrightarrow> timely now (visit env now due n rd)"
proof (rule visit_cases [of env n rd now due])
  fix dep s1 assume "timely now rd" "\<not> due_now due now n"
    "rd_nextDue (visit env now due n rd) = (rd_nextDue rd)(n \<mapsto> the (due n))"
    "rd_wait (visit env now due n rd) = min (the (due n) - now) (rd_wait rd)"
  then show ?thesis by (fastforce simp: timely_def due_now_def split: option.splits)
next
  fix dep s1 assume "timely now rd" "on_tree (ReadDeployment (pe_yaml env) (pe_Dir env) n) (rd_prov rd) = (Inr dep, s1)"
    "rd_nextDue (visit env now due n rd) = (rd_nextDue rd)(n \<mapsto> now + dp_RepublishInterval dep)"
    "rd_wait (visit env now due n rd) = min (dp_RepublishInterval dep) (rd_wait rd)"
  then show ?thesis using ReadDeployment_positive by (fastforce simp: timely_def)
qed (auto simp: timely_def)

lemma fold_visit: "timely now rd \<Longrightarrow> timely now (fold (visit env now due) names rd) \<and> going (rd_prov rd) (rd_prov (fold (visit env now due) names rd))"
  by (induction names arbitrary: rd) (auto intro: visit_timely going_trans [OF visit_going])

lemma start_timely: "timely now (start_round lp s)"
  by (simp add: timely_def start_round_def fallbackPollInterval_def)

text \<open>What a round has done with the namespaces visited, when no call fails.\<close>

lemma fold_visit_schedule:
  assumes "quiet t (pv_tree (rd_prov rd))" and "fs_faults (tr_fs t) = []"
  shows "rd_nextDue (fold (visit env now due) names rd) n
      = (if n \<in> set names then Some (next_due env now due n (deployment_of env n t)) else rd_nextDue rd n)"
    and "set (rd_ran (fold (visit env now due) names rd)) = set (rd_ran rd)
      \<union> {n \<in> set names. due_now due now n \<and> (\<exists>dep. deployment_of env n t = Inr dep)}"
proof -
  have "rd_nextDue (fold (visit env now due) names rd) n
      = (if n \<in> set names then Some (next_due env now due n (deployment_of env n t)) else rd_nextDue rd n)
    \<and> set (rd_ran (fold (visit env now due) names rd)) = set (rd_ran rd)
      \<union> {n \<in> set names. due_now due now n \<and> (\<exists>dep. deployment_of env n t = Inr dep)}"
    using assms(1)
  proof (induction names arbitrary: rd)
    case (Cons m names)
    let ?v = "visit env now due m rd"
    have "quiet t (pv_tree (rd_prov ?v))" using quiet_trans [OF Cons.prems] visit_going by (auto simp: going_def)
    note ih = Cons.IH [OF this]
    obtain d0 t0 where d0: "ReadDeployment (pe_yaml env) (pe_Dir env) m t = (d0, t0)" by fastforce
    have d: "d = d0" if "on_tree (ReadDeployment (pe_yaml env) (pe_Dir env) m) (rd_prov rd) = (d, s1)" for d s1
      by (rule reads_again(1) [OF reads_tree(1) Cons.prems assms(2) d0 on_tree_run [OF that]])
    have "rd_nextDue ?v = (rd_nextDue rd)(m \<mapsto> next_due env now due m d0)
      \<and> set (rd_ran ?v) = set (rd_ran rd) \<union> (if due_now due now m \<and> (\<exists>dep. d0 = Inr dep) then {m} else {})"
    proof (rule visit_cases [of env m rd now due])
      fix e s1 assume "on_tree (ReadDeployment (pe_yaml env) (pe_Dir env) m) (rd_prov rd) = (Inl e, s1)"
        "rd_nextDue ?v = (rd_nextDue rd)(m \<mapsto> now + fallbackPollInterval)" "rd_ran ?v = rd_ran rd"
      then show ?thesis using d by (force simp: next_due_def)
    next
      fix dep s1 assume "on_tree (ReadDeployment (pe_yaml env) (pe_Dir env) m) (rd_prov rd) = (Inr dep, s1)"
        "\<not> due_now due now m" "rd_nextDue ?v = (rd_nextDue rd)(m \<mapsto> the (due m))" "rd_ran ?v = rd_ran rd"
      then show ?thesis using d by (force simp: next_due_def)
    next
      fix dep s1 assume "on_tree (ReadDeployment (pe_yaml env) (pe_Dir env) m) (rd_prov rd) = (Inr dep, s1)"
        "due_now due now m" "rd_nextDue ?v = (rd_nextDue rd)(m \<mapsto> now + dp_RepublishInterval dep)" "rd_ran ?v = rd_ran rd @ [m]"
      then show ?thesis using d by (force simp: next_due_def)
    qed
    then show ?case using ih d0 by auto
  qed simp
  then show "rd_nextDue (fold (visit env now due) names rd) n
      = (if n \<in> set names then Some (next_due env now due n (deployment_of env n t)) else rd_nextDue rd n)"
    "set (rd_ran (fold (visit env now due) names rd)) = set (rd_ran rd)
      \<union> {n \<in> set names. due_now due now n \<and> (\<exists>dep. deployment_of env n t = Inr dep)}" by blast+
qed

text \<open>The sleep is five minutes or the time left to the next turn of one of the namespaces visited.\<close>

lemma fold_visit_wait:
  assumes "quiet t (pv_tree (rd_prov rd))" and "fs_faults (tr_fs t) = []"
  shows "rd_wait (fold (visit env now due) names rd) = rd_wait rd
    \<or> (\<exists>n \<in> set names. rd_wait (fold (visit env now due) names rd) = next_due env now due n (deployment_of env n t) - now)"
  using assms(1)
proof (induction names arbitrary: rd)
  case (Cons m names)
  let ?v = "visit env now due m rd"
  have "quiet t (pv_tree (rd_prov ?v))" using quiet_trans [OF Cons.prems] visit_going by (auto simp: going_def)
  note ih = Cons.IH [OF this]
  obtain d0 t0 where d0: "ReadDeployment (pe_yaml env) (pe_Dir env) m t = (d0, t0)" by fastforce
  have d: "d = d0" if "on_tree (ReadDeployment (pe_yaml env) (pe_Dir env) m) (rd_prov rd) = (d, s1)" for d s1
    by (rule reads_again(1) [OF reads_tree(1) Cons.prems assms(2) d0 on_tree_run [OF that]])
  have "rd_wait ?v = rd_wait rd \<or> rd_wait ?v = next_due env now due m d0 - now"
  proof (rule visit_cases [of env m rd now due])
    fix dep s1 assume "on_tree (ReadDeployment (pe_yaml env) (pe_Dir env) m) (rd_prov rd) = (Inr dep, s1)"
      "\<not> due_now due now m" "rd_wait ?v = min (the (due m) - now) (rd_wait rd)"
    then show ?thesis using d by (force simp: next_due_def min_def)
  next
    fix dep s1 assume "on_tree (ReadDeployment (pe_yaml env) (pe_Dir env) m) (rd_prov rd) = (Inr dep, s1)"
      "due_now due now m" "rd_wait ?v = min (dp_RepublishInterval dep) (rd_wait rd)"
    then show ?thesis using d by (force simp: next_due_def min_def)
  qed simp
  then show ?case using ih d0 by auto
qed simp

lemma loop_round_Inr:
  assumes "loop_round env ns now lp s = (Inr (rd, lp', wait), s')"
  obtains names s1 where "resolveNamespaces env ns s = (Inr names, s1)" "tree_only s s1"
    "rd = fold (visit env now (lp_due lp)) names (start_round lp s1)" "lp' = \<lparr>lp_cache = pruneCache names (rd_cache rd), lp_due = rd_nextDue rd\<rparr>"
    "wait = rd_wait rd" "timely now rd" "going s1 (rd_prov rd)" "pv_tree s' = pv_tree (rd_prov rd)" "pv_sent s' = pv_sent (rd_prov rd)"
proof -
  obtain names s1 where 1: "resolveNamespaces env ns s = (Inr names, s1)"
    and 2: "rd = fold (visit env now (lp_due lp)) names (start_round lp s1)"
      "lp' = \<lparr>lp_cache = pruneCache names (rd_cache rd), lp_due = rd_nextDue rd\<rparr>" "wait = (if rd_wait rd < 0 then 0 else rd_wait rd)"
      "s' = (case nothingToPublishLine (pe_Dir env) names (rd_haveNodes rd) (rd_empty rd) of
                    None \<Rightarrow> rd_prov rd | Some l \<Rightarrow> put_line l (rd_prov rd))"
    using assms by (auto simp: loop_round_def andThen_Inr Let_def)
  have f: "timely now rd \<and> going s1 (rd_prov rd)"
    using fold_visit [OF start_timely [of now lp s1], of env "lp_due lp" names] 2(1) by (simp add: start_round_def)
  then have "wait = rd_wait rd" using 2(3) by (simp add: timely_def)
  then show ?thesis
    using that [OF 1 resolveNamespaces_Inr(1) [OF 1] 2(1, 2)] f 2(4) by (simp split: option.splits)
qed

text \<open>C12: the schedule of a round: it publishes exactly the namespaces that are due (first seen, or their time has come) and
  can be read; each of them is next due one of its intervals later, one that is not due yet keeps its time, one
  that cannot be read is tried again after five minutes and one that is gone is forgotten. The sleep is positive,
  ends no later than any due time, and is either five minutes or exactly the time left to one of them: the least of
  the remaining times and five minutes, whatever the intervals (the comment on runRepublishLoop leaves the five
  minutes out: with intervals above five minutes the loop wakes up before anything is due).\<close>

theorem loop_round_schedule:
  assumes "loop_round env ns now lp s = (Inr (rd, lp', wait), s')" and "fs_faults (tr_fs (pv_tree s)) = []"
  shows "\<exists>names s1. resolveNamespaces env ns s = (Inr names, s1)
    \<and> set (rd_ran rd) = {n \<in> set names. due_now (lp_due lp) now n \<and> (\<exists>dep. deployment_of env n (pv_tree s) = Inr dep)}
    \<and> (\<forall>n. lp_due lp' n = (if n \<in> set names then Some (case deployment_of env n (pv_tree s) of
          Inl _ \<Rightarrow> now + 300000000000
        | Inr dep \<Rightarrow> if due_now (lp_due lp) now n then now + dp_RepublishInterval dep else the (lp_due lp n)) else None))
    \<and> 0 < wait \<and> wait \<le> 300000000000 \<and> (\<forall>n d. lp_due lp' n = Some d \<longrightarrow> now + wait \<le> d)
    \<and> (wait = 300000000000 \<or> (\<exists>n. lp_due lp' n = Some (now + wait)))"
  using assms(1)
proof (rule loop_round_Inr)
  fix names s1
  assume r: "resolveNamespaces env ns s = (Inr names, s1)" "tree_only s s1"
    "rd = fold (visit env now (lp_due lp)) names (start_round lp s1)" "lp' = \<lparr>lp_cache = pruneCache names (rd_cache rd), lp_due = rd_nextDue rd\<rparr>"
    "wait = rd_wait rd" "timely now rd"
  have q: "quiet (pv_tree s) (pv_tree (rd_prov (start_round lp s1)))" using tree_onlyD(1) [OF r(2)] by (simp add: start_round_def)
  note sch = fold_visit_schedule [OF q assms(2), of env now "lp_due lp" names]
  have ran: "set (rd_ran rd) = {n \<in> set names. due_now (lp_due lp) now n \<and> (\<exists>dep. deployment_of env n (pv_tree s) = Inr dep)}"
    unfolding r(3) sch(2) by (simp add: start_round_def)
  have due: "lp_due lp' n = (if n \<in> set names then Some (case deployment_of env n (pv_tree s) of
          Inl _ \<Rightarrow> now + 300000000000
        | Inr dep \<Rightarrow> if due_now (lp_due lp) now n then now + dp_RepublishInterval dep else the (lp_due lp n)) else None)" for n
  proof -
    have "lp_due lp' n = rd_nextDue rd n" "rd_nextDue (start_round lp s1) n = None" using r(4) by (simp_all add: start_round_def)
    then show ?thesis unfolding r(3) sch(1) by (simp add: next_due_def fallbackPollInterval_def split: sum.split)
  qed
  have "0 < wait \<and> wait \<le> 300000000000 \<and> (\<forall>n d. lp_due lp' n = Some d \<longrightarrow> now + wait \<le> d)"
    using r(4-6) by (simp add: timely_def fallbackPollInterval_def)
  moreover have "wait = 300000000000 \<or> (\<exists>n. lp_due lp' n = Some (now + wait))"
  proof (cases "wait = 300000000000")
    case False
    then have "wait \<noteq> rd_wait (start_round lp s1)" by (simp add: start_round_def fallbackPollInterval_def)
    then obtain n where "n \<in> set names" "wait = next_due env now (lp_due lp) n (deployment_of env n (pv_tree s)) - now"
      using fold_visit_wait [OF q assms(2), of env now "lp_due lp" names] r(3, 5) by auto
    then have "rd_nextDue rd n = Some (now + wait)" unfolding r(3) sch(1) by simp
    then show ?thesis using r(4) by auto
  qed simp
  ultimately show ?thesis using r(1) ran due by blast
qed

section \<open>Rounds in time\<close>

text \<open>
  The loop's states when a round reads the clock. \<open>spent\<close> is how much longer it took from the last reading than the
  sleep asked for: the round's own work (a put may take 30 seconds for each node), a sleep that ends late, and the
  listing of the namespaces before the next reading. The operator may leave any tree.
\<close>

inductive on_schedule :: "ProvEnv \<Rightarrow> string \<Rightarrow> int \<Rightarrow> int \<Rightarrow> Loop \<Rightarrow> Provd \<Rightarrow> bool" for env ns where
  started: "on_schedule env ns 0 now first_loop s"
| slept: "on_schedule env ns spent (now + wait + spent) lp' (s'\<lparr>pv_tree := t\<rparr>)"
    if "on_schedule env ns before now lp s" "loop_round env ns now lp s = (Inr (rd, lp', wait), s')" "0 \<le> spent"

lemma on_schedule_due: "on_schedule env ns spent now lp s \<Longrightarrow> lp_due lp n = Some d \<Longrightarrow> now \<le> d + spent"
proof (induction arbitrary: n d rule: on_schedule.induct)
  case (started now s)
  then show ?case by (simp add: first_loop_def)
next
  case (slept before now lp s rd lp' wait s' spent t)
  from slept.hyps(2) show ?case
    by (rule loop_round_Inr) (use slept.prems in \<open>fastforce simp: timely_def\<close>)
qed

lemma visit_ran: "set (rd_ran (visit env now due n rd)) \<subseteq> set (rd_ran rd) \<union> {n. due_now due now n}"
  by (rule visit_cases [of env n rd now due]) auto

lemma fold_ran: "set (rd_ran (fold (visit env now due) names rd)) \<subseteq> set (rd_ran rd) \<union> {n. due_now due now n}"
proof (induction names arbitrary: rd)
  case (Cons m names)
  then show ?case using Cons.IH [of "visit env now due m rd"] visit_ran [of env now due m rd] by auto
qed simp


section \<open>How the loop ends\<close>

text \<open>Whether a round can start with a tree.\<close>

definition resolves :: "ProvEnv \<Rightarrow> string \<Rightarrow> tree \<Rightarrow> bool" where
  "resolves env ns t = (if ns = [] then is_ok (fst (Namespaces (pe_Dir env) t)) else is_ok (deployment_of env ns t))"

lemma loop_round_resolves: "is_ok (fst (loop_round env ns now lp s)) = resolves env ns (pv_tree s)"
proof -
  have "is_ok (fst (loop_round env ns now lp s)) = is_ok (fst (resolveNamespaces env ns s))"
    by (auto simp: loop_round_def andThen_def Let_def split: prod.splits sum.splits)
  also have "\<dots> = resolves env ns (pv_tree s)"
    by (auto simp: resolveNamespaces_def resolves_def wrap_def andThen_def on_tree_def ret_def split: prod.splits sum.splits)
  finally show ?thesis .
qed

lemma runRepublishLoop_ends:
  "case runRepublishLoop env ns wakes now lp s of ((exit, waits), _) \<Rightarrow>
    exit = CmdExit (if list_all (resolves env ns) (pv_tree s # map fst wakes) then 0 else 1)
    \<and> length waits = length (takeWhile (resolves env ns) (pv_tree s # map fst wakes))
    \<and> list_all (\<lambda>w. 0 < w \<and> w \<le> 300000000000) waits"
proof (induction wakes arbitrary: now lp s)
  case Nil
  obtain r s1 where 1: "loop_round env ns now lp s = (r, s1)" by fastforce
  then show ?case using loop_round_resolves [of env ns now lp s]
    by (cases r) (auto simp: runRepublishLoop.simps timely_def fallbackPollInterval_def elim!: loop_round_Inr)
next
  case (Cons w wakes)
  obtain r s1 where 1: "loop_round env ns now lp s = (r, s1)" by fastforce
  obtain t now1 where w: "w = (t, now1)" by fastforce
  show ?case
  proof (cases r)
    case (Inl e)
    then show ?thesis using 1 loop_round_resolves [of env ns now lp s] by (simp add: runRepublishLoop.simps)
  next
    case (Inr x)
    obtain rd lp1 wait where x: "x = (rd, lp1, wait)" by (cases x)
    obtain exit waits s2 where 2: "runRepublishLoop env ns wakes now1 lp1 (s1\<lparr>pv_tree := t\<rparr>) = ((exit, waits), s2)"
      by (metis prod.collapse)
    have "0 < wait \<and> wait \<le> 300000000000"
      using 1 [unfolded Inr x] by (rule loop_round_Inr) (simp add: timely_def fallbackPollInterval_def)
    then show ?thesis
      using 1 2 Inr x w loop_round_resolves [of env ns now lp s] Cons.IH [where now = now1 and lp = lp1 and s = "s1\<lparr>pv_tree := t\<rparr>"]
      by (simp add: runRepublishLoop.simps [of env ns "(t, now1) # wakes" now lp s])
  qed
qed

text \<open>C13: the loop runs until it is cancelled and then exits with 0, one round for each wake-up, unless a round finds a tree it
  cannot start with (no root directory; or, when one namespace is named, a provd.yaml or key of that namespace that
  cannot be read at that moment): then it exits with 1 at once. It never spins: each sleep is longer than zero.\<close>

theorem runPublishLoop_ends:
  "case runPublishLoop env ns wakes now s of ((exit, waits), _) \<Rightarrow>
    exit = CmdExit (if list_all (resolves env ns) (pv_tree s # map fst wakes) then 0 else 1)
    \<and> length waits = length (takeWhile (resolves env ns) (pv_tree s # map fst wakes))
    \<and> list_all (\<lambda>w. 0 < w \<and> w \<le> 300000000000) waits"
  unfolding runPublishLoop_def by (rule runRepublishLoop_ends)

section \<open>The cache\<close>

text \<open>The value \<open>v\<close> was sealed for the node \<open>nid\<close>: its bundle \<open>b\<close> was built from the node's files in the tree \<open>t\<close>, for the
  identity key there, with the controller key \<open>k\<close> there, and the node selects it.\<close>

definition issued :: "ProvEnv \<Rightarrow> string \<Rightarrow> string \<Rightarrow> tree \<Rightarrow> Key \<Rightarrow> Key \<Rightarrow> Bundle \<Rightarrow> string \<Rightarrow> bool" where
  "issued env n nid t k ipub b v = (\<exists>node now. node_files env n t node \<and> nd_NodeID node = nid \<and> nd_IdentityPublicKey node = ipub
     \<and> buildBundle (pe_width env) n node (now div 1000000000) = Inr b \<and> controller_key env n t k \<and> usable env n nid k ipub b v)"

text \<open>Every entry of the cache is such a value, from one of the trees \<open>ts\<close>; so is every request; and the tree is the
  last of them.\<close>

definition sound_cache :: "ProvEnv \<Rightarrow> tree list \<Rightarrow> cache \<Rightarrow> bool" where
  "sound_cache env ts cache = (\<forall>n nid e. cache (n, nid) = Some e \<longrightarrow>
     (\<exists>t \<in> set ts. \<exists>k. issued env n nid t k (ce_identityPub e) (ce_bundle e) (ce_sealed e)))"

definition sound_request :: "ProvEnv \<Rightarrow> tree list \<Rightarrow> Request \<Rightarrow> bool" where
  "sound_request env ts req = (\<exists>n nid base key t k ipub b v. req = put_request base key v \<and> dht_Key n nid = Inr key
     \<and> t \<in> set ts \<and> issued env n nid t k ipub b v)"

definition loop_inv :: "ProvEnv \<Rightarrow> tree list \<Rightarrow> cache \<times> Provd \<Rightarrow> bool" where
  "loop_inv env ts x = (sound_cache env ts (fst x) \<and> (\<forall>req \<in> set (pv_sent (snd x)). sound_request env ts req)
     \<and> (\<exists>t \<in> set ts. files_of (pv_tree (snd x)) = files_of t))"

lemma issued_files:
  assumes "files_of t' = files_of t"
  shows "issued env n nid t' k ipub b v = issued env n nid t k ipub b v"
  unfolding issued_def same_files(1) [OF assms] same_files(2) [OF assms] ..

lemma sound_cacheD:
  "sound_cache env ts cache \<Longrightarrow> cache (n, nid) = Some e \<Longrightarrow>
   \<exists>t \<in> set ts. \<exists>k. issued env n nid t k (ce_identityPub e) (ce_bundle e) (ce_sealed e)"
  unfolding sound_cache_def by blast

lemma requests_sound:
  assumes "issued env n nid t k ipub b v" and "t \<in> set ts" and "dht_Key n nid = Inr key" and "req \<in> set (put_requests c key v)"
  shows "sound_request env ts req"
proof -
  obtain base where "req = put_request base key v" using assms(4) by (auto simp: put_requests_def split: if_splits)
  then show ?thesis unfolding sound_request_def using assms(1-3) by blast
qed

lemma prepared_issued:
  assumes "env_ok env" and "prepared env n node now r b" and "node_files env n t node" and "controller_key env n t k"
    and "Seal (pe_seal env) (pe_bytes env nonceSize m) (marshal_bundle b) (nd_IdentityPublicKey node) k = Some v"
  shows "issued env n (nd_NodeID node) t k (nd_IdentityPublicKey node) b v"
proof -
  have "buildBundle (pe_width env) n node (now div 1000000000) = Inr b" using assms(2) by (simp add: prepared_def)
  then show ?thesis using Seal_usable [OF assms(1) _ assms(5)] assms(3, 4) by (auto simp: issued_def)
qed

lemma preparedD:
  assumes "prepared env n node now r b"
  shows "dht_Key n (nd_NodeID node) = Inr (nr_Key r)" "nr_Err r = None"
  using assms by (auto simp: prepared_def dest: arg_cong [of _ _ nr_Err])

text \<open>A step for the deployment \<open>dep\<close> whose key is the one in the tree keeps the invariant.\<close>

definition keeps_inv :: "ProvEnv \<Rightarrow> tree list \<Rightarrow> Deployment \<Rightarrow> cache \<times> Provd \<Rightarrow> cache \<times> Provd \<Rightarrow> bool" where
  "keeps_inv env ts dep x y = (going (snd x) (snd y)
     \<and> (loop_inv env ts x \<and> controller_key env (dp_Namespace dep) (pv_tree (snd x)) (dp_ControllerPrivateKey dep) \<longrightarrow> loop_inv env ts y))"

lemma going_files: "going s s' \<Longrightarrow> files_of (pv_tree s') = files_of (pv_tree s)"
  by (simp add: going_def quiet_def)

interpretation caching: run_order "keeps_inv env ts dep" for env ts dep
proof unfold_locales
  fix x y z assume xy: "keeps_inv env ts dep x y" and yz: "keeps_inv env ts dep y z"
  then have "going (snd x) (snd z)" by (auto simp: keeps_inv_def intro: going_trans)
  then show "keeps_inv env ts dep x z"
    using xy yz same_files(2) [OF going_files, of "snd x" "snd y"] by (simp add: keeps_inv_def)
qed (simp add: keeps_inv_def)

lemma loop_inv_sent:
  assumes "loop_inv env ts (cache, s)" and "going s s'" and "sound_cache env ts cache'"
    and "\<And>req. req \<in> set (pv_sent s') \<Longrightarrow> req \<in> set (pv_sent s) \<or> sound_request env ts req"
  shows "loop_inv env ts (cache', s')"
  using assms going_files [OF assms(2)] by (auto simp: loop_inv_def)

lemma tree_only_inv: "loop_inv env ts (cache, s) \<Longrightarrow> tree_only s s' \<Longrightarrow> loop_inv env ts (cache, s')"
  by (auto simp: loop_inv_def tree_onlyD going_files [OF going_tree_only])

lemma publishNodeCached_inv:
  assumes run: "publishNodeCached env c dep nid now (cache, s) = (r, cache', s')" and inv: "loop_inv env ts (cache, s)"
    and "env_ok env" and k: "controller_key env (dp_Namespace dep) (pv_tree s) (dp_ControllerPrivateKey dep)"
  shows "loop_inv env ts (cache', s')"
proof -
  have g: "going s s'" by (rule publishNodeCached_going [OF run])
  have sc: "sound_cache env ts cache" using inv by (simp add: loop_inv_def)
  obtain t where t: "t \<in> set ts" "files_of (pv_tree s) = files_of t" using inv by (auto simp: loop_inv_def)
  from run show ?thesis
  proof (cases rule: publishNodeCached_cases)
    case bad
    then show ?thesis using tree_only_inv [OF inv] by simp
  next
    case (again r0 node b e s1)
    obtain t0 k0 where i: "t0 \<in> set ts" "issued env (dp_Namespace dep) nid t0 k0 (ce_identityPub e) (ce_bundle e) (ce_sealed e)"
      using sound_cacheD [OF sc again(5)] by blast
    have "dht_Key (dp_Namespace dep) nid = Inr (nr_Key r0)" using preparedD(1) [OF again(1)] again(2) by simp
    then have "sound_request env ts req" if "req \<in> set (put_requests c (nr_Key r0) (ce_sealed e))" for req
      using requests_sound [OF i(2, 1)] that by blast
    then show ?thesis
      using put_report_result(2) [OF again(8)] tree_onlyD(2) [OF again(4)] sc again(9) by (intro loop_inv_sent [OF inv g]) auto
  next
    case (fresh r0 node b s1)
    have key: "dht_Key (dp_Namespace dep) nid = Inr (nr_Key r0)" and e0: "nr_Err r0 = None"
      using preparedD [OF fresh(1)] fresh(2) by simp_all
    note sp = sealAndPutNode_result [OF fresh(6) e0]
    have i: "issued env (dp_Namespace dep) nid t (dp_ControllerPrivateKey dep) (nd_IdentityPublicKey node) b v"
      if "Seal (pe_seal env) (pe_bytes env nonceSize (pv_rand s1)) (marshal_bundle b) (nd_IdentityPublicKey node) (dp_ControllerPrivateKey dep) = Some v" for v
      using prepared_issued [OF assms(3) fresh(1, 3) k that] fresh(2) issued_files [OF t(2)] by simp
    have "sound_cache env ts cache'"
    proof (cases "nr_Err r")
      case None
      then obtain v where "nr_Sealed r = Some v" "issued env (dp_Namespace dep) nid t (dp_ControllerPrivateKey dep) (nd_IdentityPublicKey node) b v"
        using sp(4) i by blast
      then show ?thesis using sc t(1) None fresh(7) by (auto simp: sound_cache_def)
    qed (use sc fresh(7) in simp)
    moreover have "req \<in> set (pv_sent s) \<or> sound_request env ts req" if req: "req \<in> set (pv_sent s')" for req
    proof (cases "pv_sent s' = pv_sent s1")
      case True
      then show ?thesis using req tree_onlyD(2) [OF fresh(4)] by simp
    next
      case False
      then obtain v where v: "Seal (pe_seal env) (pe_bytes env nonceSize (pv_rand s1)) (marshal_bundle b) (nd_IdentityPublicKey node) (dp_ControllerPrivateKey dep) = Some v"
        "pv_sent s' = pv_sent s1 @ put_requests c (nr_Key r0) v" using sp(5) by blast
      then show ?thesis using req tree_onlyD(2) [OF fresh(4)] requests_sound [OF i [OF v(1)] t(1) key] by auto
    qed
    ultimately show ?thesis by (intro loop_inv_sent [OF inv g])
  qed
qed

lemma caching_publishNodeCached:
  assumes "env_ok env"
  shows "caching.goes env ts dep (\<lambda>nodeID. publishNodeCached env c dep nodeID now)"
proof (rule caching.goesI)
  fix nid x r y assume run: "publishNodeCached env c dep nid now x = (r, y)"
  obtain cache s cache' s' where xy: "x = (cache, s)" "y = (cache', s')" by fastforce
  show "keeps_inv env ts dep x y"
    using publishNodeCached_going publishNodeCached_inv [OF _ _ assms] run unfolding xy keeps_inv_def by auto
qed

lemma publishNamespaceCached_inv:
  assumes "publishNamespaceCached env dep now (cache, s) = (rs, cache', s')" and "loop_inv env ts (cache, s)"
    and "env_ok env" and "controller_key env (dp_Namespace dep) (pv_tree s) (dp_ControllerPrivateKey dep)"
  shows "loop_inv env ts (cache', s')"
  using assms(1)
proof (cases rule: publishNamespaceCached_cases)
  case none
  then show ?thesis using tree_only_inv [OF assms(2)] by simp
next
  case (nodes ids s1 c)
  have "controller_key env (dp_Namespace dep) (pv_tree s1) (dp_ControllerPrivateKey dep)"
    using assms(4) same_files(2) [OF going_files [OF going_tree_only [OF nodes(4)]]] by simp
  then show ?thesis
    using caching.goes_collect [OF caching_publishNodeCached [OF assms(3)] nodes(3)] tree_only_inv [OF assms(2) nodes(4)]
    by (simp add: keeps_inv_def)
qed

lemma printed_inv [simp]: "loop_inv env ts (cache, put_line l s) = loop_inv env ts (cache, s)"
  "loop_inv env ts (cache, fold printPublishReport rs s) = loop_inv env ts (cache, s)"
  by (simp_all add: loop_inv_def)

lemma visit_inv:
  assumes "loop_inv env ts (rd_cache rd, rd_prov rd)" and "env_ok env"
  shows "loop_inv env ts (rd_cache (visit env now due n rd), rd_prov (visit env now due n rd))"
proof (rule visit_cases [of env n rd now due])
  fix dep s1 s2 reports cache' s3
  assume d: "on_tree (ReadDeployment (pe_yaml env) (pe_Dir env) n) (rd_prov rd) = (Inr dep, s1)" and t: "tree_only (rd_prov rd) s2"
    and p: "publishNamespaceCached env dep now (rd_cache rd, s2) = (reports, cache', s3)"
    and f: "rd_prov (visit env now due n rd) = fold printPublishReport reports s3" "rd_cache (visit env now due n rd) = cache'"
  note k = ReadDeployment_key [OF on_tree_run [OF d] refl refl]
  have "controller_key env (dp_Namespace dep) (pv_tree s2) (dp_ControllerPrivateKey dep)"
    using k same_files(2) [OF going_files [OF going_tree_only [OF t]]] by simp
  then show ?thesis using publishNamespaceCached_inv [OF p tree_only_inv [OF assms(1) t] assms(2)] f by simp
qed (use tree_only_inv [OF assms(1)] in simp_all)

lemma fold_visit_inv:
  "loop_inv env ts (rd_cache rd, rd_prov rd) \<Longrightarrow> env_ok env \<Longrightarrow>
   loop_inv env ts (rd_cache (fold (visit env now due) names rd), rd_prov (fold (visit env now due) names rd))"
  by (induction names arbitrary: rd) (simp_all add: visit_inv)

text \<open>The states of the loop at the start of a round, with the trees it has been given, the latest first.\<close>

inductive republishing :: "ProvEnv \<Rightarrow> string \<Rightarrow> tree list \<Rightarrow> Loop \<Rightarrow> Provd \<Rightarrow> bool" for env ns where
  begun: "republishing env ns [pv_tree s] first_loop s" if "pv_sent s = []"
| again: "republishing env ns (t # ts) lp' (s'\<lparr>pv_tree := t\<rparr>)"
    if "republishing env ns ts lp s" "loop_round env ns now lp s = (Inr (rd, lp', wait), s')"

lemma sound_more: "sound_request env ts req \<Longrightarrow> sound_request env (t # ts) req" "sound_cache env ts cache \<Longrightarrow> sound_cache env (t # ts) cache"
  by (auto simp: sound_request_def sound_cache_def) blast

lemma republishing_inv: "republishing env ns ts lp s \<Longrightarrow> env_ok env \<Longrightarrow> loop_inv env ts (lp_cache lp, s)"
proof (induction rule: republishing.induct)
  case (begun s)
  then show ?case by (simp add: loop_inv_def first_loop_def sound_cache_def)
next
  case (again ts lp s now rd lp' wait s' t)
  from again.hyps(2) have "sound_cache env ts (lp_cache lp') \<and> (\<forall>req \<in> set (pv_sent s'). sound_request env ts req)"
  proof (rule loop_round_Inr)
    fix names s1
    assume r: "tree_only s s1" "rd = fold (visit env now (lp_due lp)) names (start_round lp s1)"
      "lp' = \<lparr>lp_cache = pruneCache names (rd_cache rd), lp_due = rd_nextDue rd\<rparr>" "pv_sent s' = pv_sent (rd_prov rd)"
    have "loop_inv env ts (rd_cache (start_round lp s1), rd_prov (start_round lp s1))"
      using tree_only_inv [OF again.IH [OF again.prems] r(1)] by (simp add: start_round_def)
    from fold_visit_inv [OF this again.prems, of now "lp_due lp" names] have "loop_inv env ts (rd_cache rd, rd_prov rd)"
      unfolding r(2) .
    then show ?thesis using r(3, 4) by (auto simp: loop_inv_def sound_cache_def pruneCache_def split: if_splits)
  qed
  then show ?case using sound_more by (fastforce simp: loop_inv_def)
qed

text \<open>C4: whatever the loop has ever sent, fresh or from its cache, through any number of rounds and edits of the tree, is a
  value that the node whose DHT key addresses the request selects: a bundle built from that node's files, sealed for
  its identity key by its namespace's controller key, as one and the same tree the loop was given had them.\<close>

theorem republish_sends_usable:
  assumes "republishing env ns ts lp s" and "env_ok env" and "req \<in> set (pv_sent s)"
  shows "\<exists>n node base key t k b v now. req = put_request base key v \<and> dht_Key n (nd_NodeID node) = Inr key \<and> t \<in> set ts
    \<and> node_files env n t node \<and> controller_key env n t k \<and> buildBundle (pe_width env) n node (now div 1000000000) = Inr b
    \<and> usable env n (nd_NodeID node) k (nd_IdentityPublicKey node) b v"
proof -
  have "sound_request env ts req" using republishing_inv [OF assms(1, 2)] assms(3) by (simp add: loop_inv_def)
  then show ?thesis unfolding sound_request_def issued_def by blast
qed

section \<open>What is put again\<close>

lemma built_Equal:
  assumes "env_ok env" and "buildBundle (pe_width env) n node now = Inr b" and "buildBundle (pe_width env) n' node' now' = Inr b'"
  shows "Equal b b' = Inr (same_content b b')"
proof -
  have w: "pe_width env \<in> {32, 64}" using assms(1) by (simp add: env_ok_def)
  note b = buildBundle_wf [OF assms(2) w] and b' = buildBundle_wf [OF assms(3) w]
  show ?thesis using Equal_iff [OF canon_bundle [OF b(2, 1)] canon_bundle [OF b'(2, 1)] b(1) b'(1)] .
qed

text \<open>Whether the entry of a node is still what its files say.\<close>

definition unchanged :: "cache \<Rightarrow> string \<Rightarrow> string \<Rightarrow> Key \<Rightarrow> Bundle \<Rightarrow> bool" where
  "unchanged cache n nid ipub b = (case cache (n, nid) of None \<Rightarrow> False
     | Some e \<Rightarrow> ce_identityPub e = ipub \<and> same_content b (ce_bundle e))"

lemma publishNodeCached_ok:
  assumes run: "publishNodeCached env c dep nid now (cache, s) = (r, cache', s')" and "nr_Err r = None"
    and ok: "env_ok env" and sc: "sound_cache env ts cache"
  obtains node b v where "node_files env (dp_Namespace dep) (pv_tree s) node" "nd_NodeID node = nid"
    "buildBundle (pe_width env) (dp_Namespace dep) node (now div 1000000000) = Inr b"
    "nr_Bundle r = Some b" "nr_IdentityPublicKey r = nd_IdentityPublicKey node" "nr_Sealed r = Some v"
    "put_all env c (nr_Key r) v (pv_sent s)" "pv_sent s' = pv_sent s @ put_requests c (nr_Key r) v"
    "if unchanged cache (dp_Namespace dep) nid (nd_IdentityPublicKey node) b
     then Some v = map_option ce_sealed (cache (dp_Namespace dep, nid)) \<and> cache' = cache \<and> pv_rand s' = pv_rand s
     else Seal (pe_seal env) (pe_bytes env nonceSize (pv_rand s)) (marshal_bundle b) (nd_IdentityPublicKey node)
            (dp_ControllerPrivateKey dep) = Some v
       \<and> cache' = cache((dp_Namespace dep, nid) \<mapsto> \<lparr>ce_bundle = b, ce_identityPub = nd_IdentityPublicKey node, ce_sealed = v\<rparr>)"
proof -
  have eq: "Equal b (ce_bundle e) = Inr (same_content b (ce_bundle e))"
    if e: "cache (dp_Namespace dep, nid) = Some e" and p: "prepared env (dp_Namespace dep) node now r0 b" for e node r0 b
  proof -
    obtain node' now' where "buildBundle (pe_width env) (dp_Namespace dep) node' (now' div 1000000000) = Inr (ce_bundle e)"
      using sound_cacheD [OF sc e] by (auto simp: issued_def)
    then show ?thesis using built_Equal [OF ok] p by (auto simp: prepared_def)
  qed
  have flds: "nr_Bundle r' = Some b" "nr_IdentityPublicKey r' = nd_IdentityPublicKey node" "nr_Key r' = nr_Key r0"
    if p: "prepared env (dp_Namespace dep) node now r0 b" and r': "r' = r0\<lparr>nr_Sealed := x, nr_Err := y\<rparr>" for node r0 b r' x y
    using p r' by (auto simp: prepared_def dest: arg_cong [of _ _ nr_IdentityPublicKey] arg_cong [of _ _ nr_Bundle])
  from run show ?thesis
  proof (cases rule: publishNodeCached_cases)
    case bad
    then show ?thesis using assms(2) by simp
  next
    case (again r0 node b e s1)
    note pr = put_report_result [OF again(8)]
    note f = flds [OF again(1) pr(1)]
    have "unchanged cache (dp_Namespace dep) nid (nd_IdentityPublicKey node) b"
      using again(5-7) eq [OF again(5, 1)] by (simp add: unchanged_def)
    moreover have "nr_Sealed r = Some (ce_sealed e)" using arg_cong [OF pr(1), of nr_Sealed] by simp
    moreover have "put_all env c (nr_Key r) (ce_sealed e) (pv_sent s)"
      using pr(3) [OF preparedD(2) [OF again(1)]] assms(2) f(3) tree_onlyD(2) [OF again(4)] by simp
    moreover have "pv_rand s' = pv_rand s" using pr(2) tree_onlyD(3) [OF again(4)] by simp
    ultimately show ?thesis
      using that [OF again(3, 2) _ f(1, 2)] again(1, 5, 9) pr(2) f(3) tree_onlyD(2) [OF again(4)] by (auto simp: prepared_def)
  next
    case (fresh r0 node b s1)
    note sp = sealAndPutNode_result [OF fresh(6) preparedD(2) [OF fresh(1)]]
    note f = flds [OF fresh(1) sp(3)]
    obtain v where v: "nr_Sealed r = Some v" "put_all env c (nr_Key r0) v (pv_sent s1)" "pv_sent s' = pv_sent s1 @ put_requests c (nr_Key r0) v"
      "Seal (pe_seal env) (pe_bytes env nonceSize (pv_rand s1)) (marshal_bundle b) (nd_IdentityPublicKey node) (dp_ControllerPrivateKey dep) = Some v"
      using sp(4) [OF assms(2)] by blast
    have "\<not> unchanged cache (dp_Namespace dep) nid (nd_IdentityPublicKey node) b"
      using fresh(5) eq [OF _ fresh(1)] by (auto simp: unchanged_def split: option.splits)
    then show ?thesis
      using that [OF fresh(3, 2) _ f(1, 2) v(1)] fresh(1, 7) v assms(2) f(3) tree_onlyD(2, 3) [OF fresh(4)] by (auto simp: prepared_def)
  qed
qed

lemma publishNodeCached_failed: "publishNodeCached env c dep nid now (cache, s) = (r, cache', s') \<Longrightarrow> nr_Err r \<noteq> None \<Longrightarrow> cache' = cache"
  by (erule publishNodeCached_cases) auto

text \<open>C15: what a round of the loop puts for a node, when the report has no error (its files can be read and every proxy took
  the value), is what its files now say: the value of the last seal, byte for byte and without a new nonce, exactly
  when the identity key and the content (all but the timestamp) are those it was sealed for; and otherwise a value
  sealed anew, which the node selects and which is then the one remembered. A report with an error leaves what is
  remembered as it was, so that a new value which only some of the proxies took is not remembered.\<close>

theorem publishNodeCached_current:
  assumes "publishNodeCached env c dep nid now (cache, s) = (r, cache', s')"
    and "env_ok env" and "sound_cache env ts cache"
  shows "if nr_Err r \<noteq> None then cache' = cache else
    (\<exists>node b v. node_files env (dp_Namespace dep) (pv_tree s) node \<and> nd_NodeID node = nid
    \<and> buildBundle (pe_width env) (dp_Namespace dep) node (now div 1000000000) = Inr b
    \<and> put_all env c (nr_Key r) v (pv_sent s) \<and> pv_sent s' = pv_sent s @ put_requests c (nr_Key r) v
    \<and> (if unchanged cache (dp_Namespace dep) nid (nd_IdentityPublicKey node) b
       then (\<exists>e. cache (dp_Namespace dep, nid) = Some e \<and> v = ce_sealed e) \<and> cache' = cache \<and> pv_rand s' = pv_rand s
       else usable env (dp_Namespace dep) nid (dp_ControllerPrivateKey dep) (nd_IdentityPublicKey node) b v
         \<and> cache' = cache((dp_Namespace dep, nid) \<mapsto> \<lparr>ce_bundle = b, ce_identityPub = nd_IdentityPublicKey node, ce_sealed = v\<rparr>)))"
proof (cases "nr_Err r = None")
  case True
  from assms(1) True assms(2, 3) show ?thesis
  proof (rule publishNodeCached_ok)
  fix node b v
  assume n: "node_files env (dp_Namespace dep) (pv_tree s) node" "nd_NodeID node = nid"
    "buildBundle (pe_width env) (dp_Namespace dep) node (now div 1000000000) = Inr b"
    and p: "put_all env c (nr_Key r) v (pv_sent s)" "pv_sent s' = pv_sent s @ put_requests c (nr_Key r) v"
    and v: "if unchanged cache (dp_Namespace dep) nid (nd_IdentityPublicKey node) b
     then Some v = map_option ce_sealed (cache (dp_Namespace dep, nid)) \<and> cache' = cache \<and> pv_rand s' = pv_rand s
     else Seal (pe_seal env) (pe_bytes env nonceSize (pv_rand s)) (marshal_bundle b) (nd_IdentityPublicKey node)
            (dp_ControllerPrivateKey dep) = Some v
       \<and> cache' = cache((dp_Namespace dep, nid) \<mapsto> \<lparr>ce_bundle = b, ce_identityPub = nd_IdentityPublicKey node, ce_sealed = v\<rparr>)"
  have m: "Some v = map_option ce_sealed x \<longleftrightarrow> (\<exists>e. x = Some e \<and> v = ce_sealed e)" for x by (cases x) auto
  have u: "usable env (dp_Namespace dep) nid k ipub b v"
    if "Seal (pe_seal env) (pe_bytes env nonceSize (pv_rand s)) (marshal_bundle b) ipub k = Some v" for ipub k
    using Seal_usable [OF assms(2) n(3) that] n(2) by simp
  have "\<exists>node b v. node_files env (dp_Namespace dep) (pv_tree s) node \<and> nd_NodeID node = nid
    \<and> buildBundle (pe_width env) (dp_Namespace dep) node (now div 1000000000) = Inr b
    \<and> put_all env c (nr_Key r) v (pv_sent s) \<and> pv_sent s' = pv_sent s @ put_requests c (nr_Key r) v
    \<and> (if unchanged cache (dp_Namespace dep) nid (nd_IdentityPublicKey node) b
       then (\<exists>e. cache (dp_Namespace dep, nid) = Some e \<and> v = ce_sealed e) \<and> cache' = cache \<and> pv_rand s' = pv_rand s
       else usable env (dp_Namespace dep) nid (dp_ControllerPrivateKey dep) (nd_IdentityPublicKey node) b v
         \<and> cache' = cache((dp_Namespace dep, nid) \<mapsto> \<lparr>ce_bundle = b, ce_identityPub = nd_IdentityPublicKey node, ce_sealed = v\<rparr>))"
    by (rule exI [of _ node], rule exI [of _ b], rule exI [of _ v])
      (use n p v [unfolded m] u in \<open>simp split: if_splits\<close>)
  then show ?thesis using True by simp
  qed
qed (use publishNodeCached_failed [OF assms(1)] in simp)


text \<open>C37: the loop does not notice that controller.key was replaced: as long as a node's identity key and content stay the
  same it puts the value of the last seal again, without a new seal, whatever the controller key now is. That value
  was sealed with the old key: a node that has the old public key selects it, and one that was given any other public
  key newpub selects nothing from it unless the very box that the old key sealed opens under newpub.\<close>

theorem republish_old_key:
  assumes "publishNodeCached env c dep nid now (cache, s) = (r, cache1, s1)" and "nr_Err r = None" and "env_ok env"
    and "sound_cache env ts cache" and "cache (dp_Namespace dep, nid) = None"
    and "publishNodeCached env c' dep' nid now' (cache1, s2) = (r', cache2, s3)" and "nr_Err r' = None"
    and "sound_cache env ts' cache1" and "dp_Namespace dep' = dp_Namespace dep"
    and "nr_IdentityPublicKey r' = nr_IdentityPublicKey r" and "same_content (the (nr_Bundle r')) (the (nr_Bundle r))"
  shows "\<exists>v b nonce. nr_Sealed r' = Some v \<and> pv_sent s3 = pv_sent s2 @ put_requests c' (nr_Key r') v
    \<and> nr_Sealed r = Some v \<and> pv_rand s3 = pv_rand s2 \<and> cache2 = cache1
    \<and> nr_Bundle r = Some b \<and> usable env (dp_Namespace dep) nid (dp_ControllerPrivateKey dep) (nr_IdentityPublicKey r) b v
    \<and> (\<forall>w box_open newpub rpriv. fst (decryptAndSelect w box_open [v] newpub rpriv (dp_Namespace dep) nid) = None
        \<or> box_open (pe_seal env nonce (marshal_bundle b) (nr_IdentityPublicKey r) (dp_ControllerPrivateKey dep)) nonce newpub rpriv \<noteq> None)"
  using assms(1-4)
proof (rule publishNodeCached_ok)
  fix node b v
  assume n: "nd_NodeID node = nid" "buildBundle (pe_width env) (dp_Namespace dep) node (now div 1000000000) = Inr b"
    and b: "nr_Bundle r = Some b" "nr_IdentityPublicKey r = nd_IdentityPublicKey node" "nr_Sealed r = Some v"
    and v: "if unchanged cache (dp_Namespace dep) nid (nd_IdentityPublicKey node) b
     then Some v = map_option ce_sealed (cache (dp_Namespace dep, nid)) \<and> cache1 = cache \<and> pv_rand s1 = pv_rand s
     else Seal (pe_seal env) (pe_bytes env nonceSize (pv_rand s)) (marshal_bundle b) (nd_IdentityPublicKey node)
            (dp_ControllerPrivateKey dep) = Some v
       \<and> cache1 = cache((dp_Namespace dep, nid) \<mapsto> \<lparr>ce_bundle = b, ce_identityPub = nd_IdentityPublicKey node, ce_sealed = v\<rparr>)"
  have "\<not> unchanged cache (dp_Namespace dep) nid (nd_IdentityPublicKey node) b" using assms(5) by (simp add: unchanged_def)
  then have seal: "Seal (pe_seal env) (pe_bytes env nonceSize (pv_rand s)) (marshal_bundle b) (nd_IdentityPublicKey node) (dp_ControllerPrivateKey dep) = Some v"
    and c1: "cache1 (dp_Namespace dep, nid) = Some \<lparr>ce_bundle = b, ce_identityPub = nd_IdentityPublicKey node, ce_sealed = v\<rparr>"
    using v by simp_all
  from assms(6, 7, 3, 8) have again: "nr_Sealed r' = Some v \<and> cache2 = cache1 \<and> pv_rand s3 = pv_rand s2
      \<and> pv_sent s3 = pv_sent s2 @ put_requests c' (nr_Key r') v"
  proof (rule publishNodeCached_ok)
    fix node' b' v'
    assume b': "nr_Bundle r' = Some b'" "nr_IdentityPublicKey r' = nd_IdentityPublicKey node'" "nr_Sealed r' = Some v'"
        "pv_sent s3 = pv_sent s2 @ put_requests c' (nr_Key r') v'"
      and w: "if unchanged cache1 (dp_Namespace dep') nid (nd_IdentityPublicKey node') b'
         then Some v' = map_option ce_sealed (cache1 (dp_Namespace dep', nid)) \<and> cache2 = cache1 \<and> pv_rand s3 = pv_rand s2
         else Seal (pe_seal env) (pe_bytes env nonceSize (pv_rand s2)) (marshal_bundle b') (nd_IdentityPublicKey node')
            (dp_ControllerPrivateKey dep') = Some v'
         \<and> cache2 = cache1((dp_Namespace dep', nid) \<mapsto> \<lparr>ce_bundle = b', ce_identityPub = nd_IdentityPublicKey node', ce_sealed = v'\<rparr>)"
    have "unchanged cache1 (dp_Namespace dep') nid (nd_IdentityPublicKey node') b'"
      using c1 assms(9-11) b b' by (simp add: unchanged_def)
    then show ?thesis using w c1 assms(9) b'(3, 4) by simp
  qed
  have u: "usable env (dp_Namespace dep) nid (dp_ControllerPrivateKey dep) (nr_IdentityPublicKey r) b v"
    using Seal_usable [OF assms(3) n(2) seal] n(1) b(2) by simp
  obtain nonce where nonce: "pe_bytes env nonceSize (pv_rand s) = Some nonce" "length nonce = nonceSize"
    using seal assms(3) by (auto simp: Seal_def env_ok_def split: option.splits)
  have "fst (decryptAndSelect w box_open [v] newpub rpriv (dp_Namespace dep) nid) = None
      \<or> box_open (pe_seal env nonce (marshal_bundle b) (nr_IdentityPublicKey r) (dp_ControllerPrivateKey dep)) nonce newpub rpriv \<noteq> None"
    for w box_open newpub rpriv
  proof (cases "Open box_open v newpub rpriv")
    case None
    then show ?thesis by (simp add: decryptAndSelect_def)
  next
    case (Some plain)
    then show ?thesis using seal nonce b(2) by (auto simp: Seal_def sealWithNonce_def Open_def split: if_splits)
  qed
  then show ?thesis using again b(1, 3) u by blast
qed

section \<open>The loop over the example tree\<close>

definition bind_seal :: "string \<Rightarrow> string \<Rightarrow> Key \<Rightarrow> Key \<Rightarrow> string" where
  "bind_seal n m r s = s @ m"

definition bind_open :: "string \<Rightarrow> string \<Rightarrow> Key \<Rightarrow> Key \<Rightarrow> string option" where
  "bind_open c n s r = (if take (length s) c = s then Some (drop (length s) c) else None)"

lemma bind_law: "box_law bind_seal bind_open id"
  by (auto simp: box_law_def bind_seal_def bind_open_def)

text \<open>The example environment with any box.\<close>

definition ex_boxed :: "(string \<Rightarrow> string \<Rightarrow> Key \<Rightarrow> Key \<Rightarrow> string) \<Rightarrow> ProvEnv" where
  "ex_boxed f = ex_penv\<lparr>pe_seal := f\<rparr>"

lemma ex_boxed_fields [simp]:
  "pe_width (ex_boxed f) = 64" "pe_Dir (ex_boxed f) = ''/p''" "pe_yaml (ex_boxed f) = pe_yaml ex_penv" "pe_seal (ex_boxed f) = f"
  "pe_bytes (ex_boxed f) n k = Some (replicate n (CHR ''r''))" "env_ok (ex_boxed f)"
  "accepts (pe_answer (ex_boxed f) sent req)"
  by (simp_all add: ex_boxed_def ex_penv_def env_ok_def accepts_def)

lemma ex_cached:
  assumes "quiet ex_tree (pv_tree s)" and "dp_Namespace dep = ''ns''"
  shows "\<exists>r cache' s'. publishNodeCached (ex_boxed f) ex_proxies dep ''alpha'' 5000000000 (cache, s) = (r, cache', s')
    \<and> nr_Err r = None \<and> nr_Bundle r = Some ex_empty \<and> nr_IdentityPublicKey r = replicate 32 (CHR ''P'')"
proof -
  obtain t where 0: "ReadNode (pe_yaml ex_penv) ''/p'' ''ns'' ''alpha'' ex_tree = (Inr ex_node, t)" using ex_ReadNode by blast
  obtain x u where 1: "ReadNode (pe_yaml ex_penv) ''/p'' ''ns'' ''alpha'' (pv_tree s) = (x, u)" by fastforce
  have x: "x = Inr ex_node" using reads_again(1) [OF reads_tree(2) assms(1) ex_faults 0 1] .
  obtain key where key: "dht_Key ''ns'' ''alpha'' = Inr key" "isHexKey key" using ex_key by blast
  have seal: "\<exists>v. Seal f (Some nonce) m p k = Some v" for nonce m p k by (simp add: Seal_def)
  have put: "Put pu ex_proxies key (pe_answer (ex_boxed f) sent) v = None" for pu sent v
    by (simp add: Put_def key(2) put_one_None Let_def map_filter_Nil)
  have pn: "prepareNode (ex_boxed f) dep ''alpha'' 5000000000 s = (Inr (\<lparr>nr_Namespace = ''ns'', nr_NodeID = ''alpha'', nr_Key = key,
      nr_Bundle = Some ex_empty, nr_IdentityPublicKey = nd_IdentityPublicKey ex_node, nr_Sealed = None, nr_Err = None\<rparr>, ex_node, marshal_bundle ex_empty),
      s\<lparr>pv_tree := u\<rparr>)"
    by (simp add: prepareNode_def assms(2) on_tree_def 1 x ex_build andThen_def wrap_def key(1) ret_def new_report_def Let_def)
  have id: "nd_IdentityPublicKey ex_node = replicate 32 (CHR ''P'')" by (simp add: ex_node_def)
  obtain v where v: "Seal f (Some (replicate nonceSize (CHR ''r''))) (marshal_bundle ex_empty) (replicate 32 (CHR ''P''))
      (dp_ControllerPrivateKey dep) = Some v" using seal by blast
  show ?thesis
    by (simp add: publishNodeCached_def pn Let_def sealAndPutNode_def draw_def id v put_report_def putSealed_def put split: option.split)
qed

lemma ex_sound: "sound_cache env ts Map.empty"
  by (simp add: sound_cache_def)

lemma ex_dep_key: "controller_key (ex_boxed f) ''ns'' ex_tree (dp_ControllerPrivateKey ex_dep)"
proof -
  obtain t where run: "ReadDeployment (pe_yaml ex_penv) ''/p'' ''ns'' ex_tree = (Inr ex_dep, t)"
    using ex_deployment by (auto simp: ex_dep_def)
  have "pe_yaml ex_penv = pe_yaml (ex_boxed f)" "''/p'' = pe_Dir (ex_boxed f)" by simp_all
  with run show ?thesis by (rule ReadDeployment_key(1))
qed

text \<open>The first publication of alpha, and what is then known of the cache.\<close>

lemma ex_first:
  obtains r cache s where "publishNodeCached (ex_boxed f) ex_proxies ex_dep ''alpha'' 5000000000 (Map.empty, ex_publisher) = (r, cache, s)"
    "nr_Err r = None" "nr_Bundle r = Some ex_empty" "nr_IdentityPublicKey r = replicate 32 (CHR ''P'')"
    "sound_cache (ex_boxed f) [ex_tree] cache" "quiet ex_tree (pv_tree s)"
proof -
  have t: "pv_tree ex_publisher = ex_tree" "pv_sent ex_publisher = []" "dp_Namespace ex_dep = ''ns''"
    by (simp_all add: ex_publisher_def ex_prov_def ex_dep_def)
  obtain r cache s where run: "publishNodeCached (ex_boxed f) ex_proxies ex_dep ''alpha'' 5000000000 (Map.empty, ex_publisher) = (r, cache, s)"
    and r: "nr_Err r = None" "nr_Bundle r = Some ex_empty" "nr_IdentityPublicKey r = replicate 32 (CHR ''P'')"
    using ex_cached [of ex_publisher ex_dep f Map.empty, unfolded t(1), OF quiet_refl t(3)] by blast
  have "loop_inv (ex_boxed f) [ex_tree] (Map.empty, ex_publisher)" by (simp add: loop_inv_def ex_sound t)
  then have "loop_inv (ex_boxed f) [ex_tree] (cache, s)"
    using publishNodeCached_inv [OF run, of "[ex_tree]"] ex_dep_key [of f] t by simp
  moreover have "quiet ex_tree (pv_tree s)" using publishNodeCached_going [OF run] t by (simp add: going_def)
  ultimately show ?thesis using that [OF run r] by (simp add: loop_inv_def)
qed

theorem publishNodeCached_current_witness:
  "\<exists>r cache s (node :: Node) b v. publishNodeCached ex_penv ex_proxies ex_dep ''alpha'' 5000000000 (Map.empty, ex_publisher) = (r, cache, s)
    \<and> pv_sent s = put_requests ex_proxies (nr_Key r) v \<and> nd_NodeID node = ''alpha''
    \<and> usable ex_penv ''ns'' ''alpha'' (replicate 32 (CHR ''s'')) (nd_IdentityPublicKey node) b v"
proof -
  have e: "ex_boxed pad_seal = ex_penv" by (simp add: ex_boxed_def ex_penv_def)
  obtain r cache s where run: "publishNodeCached ex_penv ex_proxies ex_dep ''alpha'' 5000000000 (Map.empty, ex_publisher) = (r, cache, s)"
    and r: "nr_Err r = None" using ex_first [of pad_seal] unfolding e by blast
  have t: "pv_sent ex_publisher = []" "dp_Namespace ex_dep = ''ns''" "dp_ControllerPrivateKey ex_dep = replicate 32 (CHR ''s'')"
    by (simp_all add: ex_publisher_def ex_prov_def ex_dep_def)
  have n: "unchanged Map.empty n nid k b = False" for n nid k b by (simp add: unchanged_def)
  obtain node :: Node and b v where v: "nd_NodeID node = ''alpha''" "pv_sent s = put_requests ex_proxies (nr_Key r) v"
    "usable ex_penv ''ns'' ''alpha'' (replicate 32 (CHR ''s'')) (nd_IdentityPublicKey node) b v"
    using publishNodeCached_current [OF run ex_env_ok ex_sound, unfolded n if_False t append_Nil] r by auto
  show ?thesis
    by (rule exI [of _ r], rule exI [of _ cache], rule exI [of _ s], rule exI [of _ node], rule exI [of _ b], rule exI [of _ v])
      (intro conjI run v)
qed

theorem republish_old_key_witness:
  "\<exists>r' cache cache2 s s3 v. publishNodeCached (ex_boxed bind_seal) ex_proxies (ex_dep\<lparr>dp_ControllerPrivateKey := replicate 32 (CHR ''k'')\<rparr>)
      ''alpha'' 5000000000 (cache, s) = (r', cache2, s3) \<and> nr_Err r' = None \<and> nr_Sealed r' = Some v
    \<and> fst (decryptAndSelect 64 bind_open [v] (replicate 32 (CHR ''k'')) ''R'' ''ns'' ''alpha'') = None"
proof -
  let ?dep = "ex_dep\<lparr>dp_ControllerPrivateKey := replicate 32 (CHR ''k'')\<rparr>"
  obtain r cache s where run: "publishNodeCached (ex_boxed bind_seal) ex_proxies ex_dep ''alpha'' 5000000000 (Map.empty, ex_publisher) = (r, cache, s)"
    and r: "nr_Err r = None" "nr_Bundle r = Some ex_empty" "nr_IdentityPublicKey r = replicate 32 (CHR ''P'')"
    and c: "sound_cache (ex_boxed bind_seal) [ex_tree] cache" "quiet ex_tree (pv_tree s)"
    by (rule ex_first)
  have d: "dp_Namespace ?dep = ''ns''" "dp_Namespace ex_dep = ''ns''" by (simp_all add: ex_dep_def)
  obtain r' cache2 s3 where run2: "publishNodeCached (ex_boxed bind_seal) ex_proxies ?dep ''alpha'' 5000000000 (cache, s) = (r', cache2, s3)"
    and r': "nr_Err r' = None" "nr_Bundle r' = Some ex_empty" "nr_IdentityPublicKey r' = replicate 32 (CHR ''P'')"
    using ex_cached [OF c(2) d(1)] by blast
  obtain v b nonce where v: "nr_Sealed r' = Some v" and old: "\<forall>w box_open newpub rpriv. fst (decryptAndSelect w box_open [v] newpub rpriv ''ns'' ''alpha'') = None
        \<or> box_open (bind_seal nonce (marshal_bundle b) (nr_IdentityPublicKey r) (dp_ControllerPrivateKey ex_dep)) nonce newpub rpriv \<noteq> None"
    using republish_old_key [OF run r(1) ex_boxed_fields(6) ex_sound _ run2 r'(1) c(1)]
    by (auto simp: d r r' same_content_def)
  have "bind_open (bind_seal nonce (marshal_bundle b) (nr_IdentityPublicKey r) (dp_ControllerPrivateKey ex_dep)) nonce (replicate 32 (CHR ''k'')) ''R'' = None"
    by (simp add: bind_open_def bind_seal_def ex_dep_def)
  then have "fst (decryptAndSelect 64 bind_open [v] (replicate 32 (CHR ''k'')) ''R'' ''ns'' ''alpha'') = None" using old by blast
  then show ?thesis using run2 r'(1) v by (intro exI conjI)
qed

text \<open>The first round of the loop.\<close>

lemma ex_publisher_tree: "pv_tree ex_publisher = ex_tree" "pv_sent ex_publisher = []"
  by (simp_all add: ex_publisher_def ex_prov_def)

lemma ex_deployment_of: "deployment_of ex_penv ''ns'' ex_tree = Inr ex_dep"
proof -
  have "pe_Dir ex_penv = ''/p''" by (simp add: ex_penv_def)
  then show ?thesis using ex_deployment by (auto simp: ex_dep_def)
qed

lemma ex_resolves: "resolves ex_penv [] ex_tree" and ex_names: "\<exists>s1. resolveNamespaces ex_penv [] ex_publisher = (Inr [''ns''], s1)"
proof -
  have d: "pe_Dir ex_penv = ''/p''" by (simp add: ex_penv_def)
  obtain t where n: "Namespaces ''/p'' ex_tree = (Inr [''ns''], t)" using ex_namespaces by blast
  show "resolves ex_penv [] ex_tree" by (simp add: resolves_def d n)
  show "\<exists>s1. resolveNamespaces ex_penv [] ex_publisher = (Inr [''ns''], s1)"
    by (simp add: resolveNamespaces_def on_tree_def ex_publisher_tree d n)
qed

lemma ex_round:
  assumes "pv_tree s = ex_tree"
  shows "\<exists>rd lp' wait s'. loop_round ex_penv [] now lp s = (Inr (rd, lp', wait), s')"
proof -
  obtain r s' where 1: "loop_round ex_penv [] now lp s = (r, s')" by fastforce
  then have "is_ok r" using loop_round_resolves [of ex_penv "[]" now lp s] ex_resolves assms by simp
  then show ?thesis using 1 by (cases r) auto
qed

lemma ex_round_due:
  assumes "loop_round ex_penv [] 5000000000 first_loop ex_publisher = (Inr (rd, lp', wait), s')"
  shows "lp_due lp' ''ns'' = Some 305000000000" and "wait \<le> 300000000000"
proof -
  obtain s1 where n: "resolveNamespaces ex_penv [] ex_publisher = (Inr [''ns''], s1)" using ex_names by blast
  have f: "fs_faults (tr_fs (pv_tree ex_publisher)) = []" by (simp add: ex_publisher_tree ex_faults)
  from assms show "lp_due lp' ''ns'' = Some 305000000000"
  proof (rule loop_round_Inr)
    fix names s1
    assume r: "resolveNamespaces ex_penv [] ex_publisher = (Inr names, s1)" "tree_only ex_publisher s1"
      "rd = fold (visit ex_penv 5000000000 (lp_due first_loop)) names (start_round first_loop s1)"
      "lp' = \<lparr>lp_cache = pruneCache names (rd_cache rd), lp_due = rd_nextDue rd\<rparr>"
    have q: "quiet ex_tree (pv_tree (rd_prov (start_round first_loop s1)))"
      using tree_onlyD(1) [OF r(2)] by (simp add: start_round_def ex_publisher_tree)
    have "names = [''ns'']" using n r(1) by simp
    then have "rd_nextDue rd ''ns'' = Some (next_due ex_penv 5000000000 (lp_due first_loop) ''ns'' (Inr ex_dep))"
      using fold_visit_schedule(1) [OF q ex_faults, of ex_penv 5000000000 "lp_due first_loop" "[''ns'']" "''ns''"] r(3) ex_deployment_of by simp
    then show ?thesis using r(4) by (simp add: next_due_def due_now_def first_loop_def ex_dep_def)
  qed
  from assms show "wait \<le> 300000000000"
    by (rule loop_round_Inr) (simp add: timely_def fallbackPollInterval_def)
qed

theorem loop_round_schedule_witness:
  "\<exists>rd lp' wait s'. loop_round ex_penv [] 5000000000 first_loop ex_publisher = (Inr (rd, lp', wait), s')
    \<and> set (rd_ran rd) = {''ns''} \<and> 0 < wait \<and> 5000000000 + wait \<le> 305000000000"
proof -
  obtain rd lp' wait s' where run: "loop_round ex_penv [] 5000000000 first_loop ex_publisher = (Inr (rd, lp', wait), s')"
    using ex_round [OF ex_publisher_tree(1)] by blast
  have f: "fs_faults (tr_fs (pv_tree ex_publisher)) = []" by (simp add: ex_publisher_tree ex_faults)
  have new: "due_now (lp_due first_loop) now n" for now n by (simp add: due_now_def first_loop_def)
  obtain names s1 where r: "resolveNamespaces ex_penv [] ex_publisher = (Inr names, s1)"
    "set (rd_ran rd) = {n \<in> set names. due_now (lp_due first_loop) 5000000000 n \<and> (\<exists>dep. deployment_of ex_penv n (pv_tree ex_publisher) = Inr dep)}"
    "0 < wait" "\<forall>n d. lp_due lp' n = Some d \<longrightarrow> 5000000000 + wait \<le> d"
    using loop_round_schedule [OF run f] by blast
  have "set names = {''ns''}" using r(1) ex_names by auto
  then have ran: "set (rd_ran rd) = {''ns''}"
    unfolding r(2) ex_publisher_tree(1) using new ex_deployment_of by blast
  have "5000000000 + wait \<le> 305000000000" using r(4) ex_round_due(1) [OF run] by blast
  then show ?thesis using run ran r(3) by (intro exI conjI)
qed


lemma ex_round_sends:
  assumes "loop_round ex_penv [] 5000000000 first_loop ex_publisher = (Inr (rd, lp', wait), s')"
  shows "pv_sent s' \<noteq> []"
  using assms
proof (rule loop_round_Inr)
  fix names s1
  assume r: "resolveNamespaces ex_penv [] ex_publisher = (Inr names, s1)" "tree_only ex_publisher s1"
    "rd = fold (visit ex_penv 5000000000 (lp_due first_loop)) names (start_round first_loop s1)" "pv_sent s' = pv_sent (rd_prov rd)"
  let ?st = "start_round first_loop s1"
  have e: "ex_boxed pad_seal = ex_penv" by (simp add: ex_boxed_def ex_penv_def)
  have d: "pe_Dir ex_penv = ''/p''" "rd_prov ?st = s1" "rd_cache ?st = Map.empty" "lp_due first_loop ''ns'' = None"
    by (simp_all add: ex_penv_def start_round_def first_loop_def)
  have q1: "quiet ex_tree (pv_tree s1)" using tree_onlyD(1) [OF r(2)] by (simp add: ex_publisher_tree)
  have rd: "rd = visit ex_penv 5000000000 (lp_due first_loop) ''ns'' ?st" using r(1, 3) ex_names by auto
  obtain t0 where dep0: "ReadDeployment (pe_yaml ex_penv) (pe_Dir ex_penv) ''ns'' ex_tree = (Inr ex_dep, t0)"
    using ex_deployment_of by (metis prod.collapse)
  obtain t1 where n0: "Nodes (pe_Dir ex_penv) ''ns'' ex_tree = (Inr [''alpha''], t1)" using ex_nodes d(1) by auto
  show ?thesis
  proof (rule visit_cases [of ex_penv "''ns''" ?st 5000000000 "lp_due first_loop"])
    fix e u assume "on_tree (ReadDeployment (pe_yaml ex_penv) (pe_Dir ex_penv) ''ns'') (rd_prov ?st) = (Inl e, u)"
    then show ?thesis using reads_again(1) [OF reads_tree(1) q1 ex_faults dep0] on_tree_run d(2) by fastforce
  next
    assume "\<not> due_now (lp_due first_loop) 5000000000 ''ns''"
    then show ?thesis using d(4) by (simp add: due_now_def)
  next
    fix dep u s2 reports cache' s3
    assume dep: "on_tree (ReadDeployment (pe_yaml ex_penv) (pe_Dir ex_penv) ''ns'') (rd_prov ?st) = (Inr dep, u)"
      and t: "tree_only (rd_prov ?st) s2" and p: "publishNamespaceCached ex_penv dep 5000000000 (rd_cache ?st, s2) = (reports, cache', s3)"
      and o: "rd_prov (visit ex_penv 5000000000 (lp_due first_loop) ''ns'' ?st) = fold printPublishReport reports s3"
    have dd: "dep = ex_dep" using reads_again(1) [OF reads_tree(1) q1 ex_faults dep0] on_tree_run [OF dep] d(2) by simp
    have q2: "quiet ex_tree (pv_tree s2)" using quiet_trans [OF q1] tree_onlyD(1) [OF t] d(2) by simp
    have ns: "dp_Namespace ex_dep = ''ns''" by (simp add: ex_dep_def)
    obtain x s4 where x: "on_tree (Nodes (pe_Dir ex_penv) ''ns'') s2 = (x, s4)" by fastforce
    have "x = Inr [''alpha'']" using reads_again(1) [OF reads_tree(3) q2 ex_faults n0 on_tree_run [OF x]] .
    moreover have q4: "quiet ex_tree (pv_tree s4)" by (rule quiet_trans [OF q2 tree_onlyD(1) [OF on_tree_only [OF reads_tree(3) x]]])
    obtain r1 c1 s5 where one: "publishNodeCached ex_penv ex_proxies ex_dep ''alpha'' 5000000000 (Map.empty, s4) = (r1, c1, s5)" "nr_Err r1 = None"
      using ex_cached [OF q4 ns, of pad_seal Map.empty] unfolding e by blast
    ultimately have s3: "s3 = s5" using p x dd d(3) ns by (simp add: publishNamespaceCached_def ex_backend)
    from one ex_env_ok ex_sound have "pv_sent s5 \<noteq> []"
    proof (rule publishNodeCached_ok)
      fix v assume "put_all ex_penv ex_proxies (nr_Key r1) v (pv_sent s4)" "pv_sent s5 = pv_sent s4 @ put_requests ex_proxies (nr_Key r1) v"
      then show ?thesis by (simp add: put_all_def put_requests_def ex_proxies_def default_proxies_def)
    qed
    then show ?thesis using r(4) rd o s3 by simp
  qed
qed

theorem republish_sends_usable_witness:
  "\<exists>lp s req n (node :: Node) key t k. republishing ex_penv [] [ex_tree, ex_tree] lp s \<and> req \<in> set (pv_sent s)
    \<and> dht_Key n (nd_NodeID node) = Inr key \<and> t \<in> {ex_tree} \<and> controller_key ex_penv n t k"
proof -
  obtain rd lp' wait s' where run: "loop_round ex_penv [] 5000000000 first_loop ex_publisher = (Inr (rd, lp', wait), s')"
    using ex_round [OF ex_publisher_tree(1)] by blast
  let ?s = "s'\<lparr>pv_tree := ex_tree\<rparr>"
  have rep: "republishing ex_penv [] [ex_tree, ex_tree] lp' ?s"
    using republishing.again [OF republishing.begun [OF ex_publisher_tree(2)] run, of ex_tree] by (simp add: ex_publisher_tree)
  obtain req where req: "req \<in> set (pv_sent ?s)" using ex_round_sends [OF run] by (cases "pv_sent s'") auto
  have "\<exists>n (node :: Node) key t k. dht_Key n (nd_NodeID node) = Inr key \<and> t \<in> {ex_tree} \<and> controller_key ex_penv n t k"
    using republish_sends_usable [OF rep ex_env_ok req] by auto
  then show ?thesis using rep req by blast
qed

end
