(* ===== verification/Cli.thy ===== *)
theory Cli
  imports Republish_Props Keygen Daemon
begin

text \<open>
  The command lines: package flag, the entry point of the controller (cmd/stunmesh-provd/cli.go,
  with the flags of publish in publish_cmd.go) and that of the agent (cmd/stunmesh-agent/cli.go,
  with the flags of runAgent and runKeygen). The usage texts are not modelled.
\<close>

section \<open>Package flag\<close>

datatype flagerr = ErrHelp | BadFlag
datatype fval = FStr string | FBool bool

type_synonym fvars = "(string \<times> fval) list"

definition ParseBool :: "string \<Rightarrow> bool option" where
  "ParseBool s =
     (if s \<in> {''1'', ''t'', ''T'', ''TRUE'', ''true'', ''True''} then Some True
      else if s \<in> {''0'', ''f'', ''F'', ''FALSE'', ''false'', ''False''} then Some False else None)"

text \<open>The name and, after the first equals sign that is not the first character, the value.\<close>

definition split_flag :: "string \<Rightarrow> string \<times> string option" where
  "split_flag body =
     (let n = takeWhile (\<lambda>c. c \<noteq> CHR ''='') (tl body); r = drop (length n) (tl body) in
      (hd body # n, if r = [] then None else Some (tl r)))"

text \<open>FlagSet.Parse: \<open>names\<close> gives the variable that a flag sets (two flags may share one), \<open>vars\<close> the
  variables with their defaults. The result is the variables and the arguments left.\<close>

fun flag_Parse :: "(string \<times> string) list \<Rightarrow> fvars \<Rightarrow> string list \<Rightarrow> flagerr + fvars \<times> string list" where
  "flag_Parse names vars [] = Inr (vars, [])"
| "flag_Parse names vars (s # args) =
     (if length s < 2 \<or> hd s \<noteq> CHR ''-'' then Inr (vars, s # args)
      else if s = ''--'' then Inr (vars, args)
      else
        (let body = (if s ! 1 = CHR ''-'' then drop 2 s else drop 1 s) in
         if body = [] \<or> hd body = CHR ''-'' \<or> hd body = CHR ''='' then Inl BadFlag
         else (case split_flag body of (name, value) \<Rightarrow>
           (case map_of names name of
              None \<Rightarrow> if name = ''help'' \<or> name = ''h'' then Inl ErrHelp else Inl BadFlag
            | Some var \<Rightarrow>
                (case map_of vars var of
                   None \<Rightarrow> Inl BadFlag
                 | Some (FBool _) \<Rightarrow>
                     (case ParseBool (case value of None \<Rightarrow> ''true'' | Some v \<Rightarrow> v) of
                        None \<Rightarrow> Inl BadFlag
                      | Some b \<Rightarrow> flag_Parse names (AList.update var (FBool b) vars) args)
                 | Some (FStr _) \<Rightarrow>
                     (case value of
                        Some v \<Rightarrow> flag_Parse names (AList.update var (FStr v) vars) args
                      | None \<Rightarrow> (case args of [] \<Rightarrow> Inl BadFlag
                          | v # rest \<Rightarrow> flag_Parse names (AList.update var (FStr v) vars) rest)))))))"

declare flag_Parse.simps(2) [simp del]

definition str_var :: "fvars \<Rightarrow> string \<Rightarrow> string" where
  "str_var vars v = (case map_of vars v of Some (FStr s) \<Rightarrow> s | _ \<Rightarrow> [])"

definition bool_var :: "fvars \<Rightarrow> string \<Rightarrow> bool" where
  "bool_var vars v = (case map_of vars v of Some (FBool b) \<Rightarrow> b | _ \<Rightarrow> False)"

definition same_names :: "fvars \<Rightarrow> (string \<times> string) list" where
  "same_names vars = map (\<lambda>(v, _). (v, v)) vars"

section \<open>The controller\<close>

definition defaultDir :: string where
  "defaultDir = ''/etc/stunmesh/provd''"

text \<open>publish: \<open>now\<close> is the time of its first round, \<open>wakes\<close> what the sleeps of the loop lead to.\<close>

definition publish_vars :: fvars where
  "publish_vars = [(''namespace'', FStr []), (''once'', FBool False)]"

definition runPublish :: "ProvEnv \<Rightarrow> (tree \<times> int) list \<Rightarrow> int \<Rightarrow> string list \<Rightarrow> Provd \<Rightarrow> cmdexit \<times> Provd" where
  "runPublish env wakes now args s =
     (case flag_Parse (same_names publish_vars) publish_vars args of
        Inl ErrHelp \<Rightarrow> (CmdExit 0, s)
      | Inl BadFlag \<Rightarrow> (CmdExit 2, s)
      | Inr (vars, rest) \<Rightarrow>
          if rest \<noteq> [] then (CmdExit 2, s)
          else if \<not> bool_var vars ''once'' then
            (case runPublishLoop env (str_var vars ''namespace'') wakes now s of ((exit, _), s') \<Rightarrow> (exit, s'))
          else publish_once env (str_var vars ''namespace'') now s)"

definition provd_vars :: fvars where
  "provd_vars = [(''dir'', FStr defaultDir), (''version'', FBool False)]"

definition provd_Run :: "ProvEnv \<Rightarrow> (tree \<times> int) list \<Rightarrow> int \<Rightarrow> string list \<Rightarrow> Provd \<Rightarrow> cmdexit \<times> Provd" where
  "provd_Run env wakes now args s =
     (case flag_Parse (same_names provd_vars) provd_vars args of
        Inl ErrHelp \<Rightarrow> (CmdExit 0, s)
      | Inl BadFlag \<Rightarrow> (CmdExit 2, s)
      | Inr (vars, rest) \<Rightarrow>
          if bool_var vars ''version'' then (CmdExit 0, s)
          else (case rest of [] \<Rightarrow> (CmdExit 2, s)
            | name # args' \<Rightarrow>
                (let env' = env\<lparr>pe_Dir := str_var vars ''dir''\<rparr> in
                 if name = ''init'' then runInit env' args' s
                 else if name = ''node'' then runNode env' args' s
                 else if name = ''publish'' then runPublish env' wakes now args' s
                 else (CmdExit 2, s))))"

section \<open>The agent\<close>

definition agent_names :: "(string \<times> string) list" where
  "agent_names = [(''config'', ''config''), (''c'', ''config''), (''config-dir'', ''config-dir''), (''oneshot'', ''oneshot''),
     (''stunmesh-only'', ''stunmesh-only''), (''version'', ''version'')]"

definition agent_vars :: fvars where
  "agent_vars = [(''config'', FStr []), (''config-dir'', FStr defaultConfigDir), (''oneshot'', FBool False),
     (''stunmesh-only'', FBool False), (''version'', FBool False)]"

definition agent_flags :: "string list \<Rightarrow> parsed" where
  "agent_flags args =
     (case flag_Parse agent_names agent_vars args of
        Inl ErrHelp \<Rightarrow> FlagHelp
      | Inl BadFlag \<Rightarrow> FlagError
      | Inr (vars, rest) \<Rightarrow> FlagsOk \<lparr>fl_config = str_var vars ''config'', fl_configDir = str_var vars ''config-dir'',
          fl_oneshot = bool_var vars ''oneshot'', fl_stunmeshOnly = bool_var vars ''stunmesh-only'',
          fl_version = bool_var vars ''version'', fl_rest = rest\<rparr>)"

definition keygen_flags :: "string list \<Rightarrow> kgargs" where
  "keygen_flags args =
     (let vars = [(''config-dir'', FStr defaultConfigDir)] in
      case flag_Parse (same_names vars) vars args of
        Inl ErrHelp \<Rightarrow> KGHelp | Inl BadFlag \<Rightarrow> KGBad | Inr (vars, rest) \<Rightarrow> KGArgs (str_var vars ''config-dir'') rest)"

datatype agent_end = KeygenEnded kgend | AgentCommand command

definition agent_Run :: "(string \<Rightarrow> string option) \<Rightarrow> (Key \<Rightarrow> Key option) \<Rightarrow> ('r \<Rightarrow> (Key \<times> Key) option) \<Rightarrow> 'r \<Rightarrow> string list
    \<Rightarrow> fs \<Rightarrow> agent_end \<times> fs" where
  "agent_Run yaml x25519_base generate rand args f =
     (if args \<noteq> [] \<and> hd args = ''keygen'' then
        (case runKeygen x25519_base generate rand (keygen_flags (tl args)) f of (e, f') \<Rightarrow> (KeygenEnded e, f'))
      else (case runAgent yaml (agent_flags args) f of (c, f') \<Rightarrow> (AgentCommand c, f')))"

section \<open>Flags as they may be spelled\<close>

datatype spelling = Spelling (two_dashes: bool) (joined: bool)

definition dash :: "bool \<Rightarrow> string" where
  "dash two = (if two then ''--'' else ''-'')"

definition spell :: "spelling \<times> string \<times> fval \<Rightarrow> string list" where
  "spell = (\<lambda>(sp, name, v).
     (let flag = dash (two_dashes sp) @ name in
      case v of FStr x \<Rightarrow> if joined sp then [flag @ CHR ''='' # x] else [flag, x]
      | FBool b \<Rightarrow> if joined sp \<or> \<not> b then [flag @ CHR ''='' # (if b then ''true'' else ''false'')] else [flag]))"

definition same_kind :: "fval \<Rightarrow> fval \<Rightarrow> bool" where
  "same_kind a b = (case (a, b) of (FStr _, FStr _) \<Rightarrow> True | (FBool _, FBool _) \<Rightarrow> True | _ \<Rightarrow> False)"

text \<open>A setting of a flag that is defined, to a value of its kind.\<close>

definition settable :: "(string \<times> string) list \<Rightarrow> fvars \<Rightarrow> string \<times> fval \<Rightarrow> bool" where
  "settable names vars = (\<lambda>(name, v). name \<noteq> [] \<and> hd name \<noteq> CHR ''-'' \<and> CHR ''='' \<notin> set name
     \<and> (\<exists>var old. map_of names name = Some var \<and> map_of vars var = Some old \<and> same_kind old v))"

definition assign :: "(string \<times> string) list \<Rightarrow> string \<times> fval \<Rightarrow> fvars \<Rightarrow> fvars" where
  "assign names = (\<lambda>(name, v) vars. AList.update (the (map_of names name)) v vars)"

lemma split_flag_name: "name \<noteq> [] \<Longrightarrow> CHR ''='' \<notin> set name \<Longrightarrow> split_flag name = (name, None)"
proof -
  assume n: "name \<noteq> []" "CHR ''='' \<notin> set name"
  then have "\<forall>c \<in> set (tl name). c \<noteq> CHR ''=''" by (cases name) auto
  then have eq: "takeWhile (\<lambda>c. c \<noteq> CHR ''='') (tl name) = tl name" by (rule takeWhile_eq_all_conv [THEN iffD2])
  show ?thesis unfolding split_flag_def eq using n(1) by (simp add: Let_def)
qed

lemma split_flag_value: "name \<noteq> [] \<Longrightarrow> CHR ''='' \<notin> set name \<Longrightarrow> split_flag (name @ CHR ''='' # v) = (name, Some v)"
proof -
  assume n: "name \<noteq> []" "CHR ''='' \<notin> set name"
  then obtain c cs where c: "name = c # cs" "CHR ''='' \<notin> set cs" by (cases name) auto
  have "takeWhile (\<lambda>c. c \<noteq> CHR ''='') (cs @ CHR ''='' # v) = cs"
    using c(2) by (subst takeWhile_append2) auto
  then show ?thesis using c(1) by (simp add: split_flag_def Let_def)
qed

lemma flag_Parse_flag:
  assumes "body \<noteq> []" and "hd body \<noteq> CHR ''-''" and "hd body \<noteq> CHR ''=''"
  shows "flag_Parse names vars ((dash d @ body) # args) =
    (case split_flag body of (name, value) \<Rightarrow>
           (case map_of names name of
              None \<Rightarrow> if name = ''help'' \<or> name = ''h'' then Inl ErrHelp else Inl BadFlag
            | Some var \<Rightarrow>
                (case map_of vars var of
                   None \<Rightarrow> Inl BadFlag
                 | Some (FBool _) \<Rightarrow>
                     (case ParseBool (case value of None \<Rightarrow> ''true'' | Some v \<Rightarrow> v) of
                        None \<Rightarrow> Inl BadFlag
                      | Some b \<Rightarrow> flag_Parse names (AList.update var (FBool b) vars) args)
                 | Some (FStr _) \<Rightarrow>
                     (case value of
                        Some v \<Rightarrow> flag_Parse names (AList.update var (FStr v) vars) args
                      | None \<Rightarrow> (case args of [] \<Rightarrow> Inl BadFlag
                          | v # rest \<Rightarrow> flag_Parse names (AList.update var (FStr v) vars) rest)))))"
proof -
  obtain c cs where "body = c # cs" "c \<noteq> CHR ''-''" "c \<noteq> CHR ''=''" using assms by (cases body) auto
  then show ?thesis by (cases d) (simp_all add: flag_Parse.simps(2) dash_def)
qed

lemma flag_Parse_spell:
  assumes "settable names vars (name, v)"
  shows "flag_Parse names vars (spell (sp, name, v) @ args) = flag_Parse names (assign names (name, v) vars) args"
proof -
  obtain var old where n: "name \<noteq> []" "hd name \<noteq> CHR ''-''" "CHR ''='' \<notin> set name"
    and m: "map_of names name = Some var" "map_of vars var = Some old" "same_kind old v"
    using assms by (auto simp: settable_def)
  have h: "hd name \<noteq> CHR ''=''" using n(1, 3) by (cases name) auto
  have b: "ParseBool ''true'' = Some True" "ParseBool ''false'' = Some False" by (simp_all add: ParseBool_def)
  note pn = flag_Parse_flag [OF n(1, 2) h, of names vars "two_dashes sp"]
  have pv: "flag_Parse names vars ((dash (two_dashes sp) @ (name @ CHR ''='' # x)) # args) =
    (case old of FBool _ \<Rightarrow> (case ParseBool x of None \<Rightarrow> Inl BadFlag
       | Some b \<Rightarrow> flag_Parse names (AList.update var (FBool b) vars) args)
     | FStr _ \<Rightarrow> flag_Parse names (AList.update var (FStr x) vars) args)" for x
    using n h m(1, 2) by (subst flag_Parse_flag) (simp_all add: split_flag_value split: fval.split)
  show ?thesis
  proof (cases v)
    case (FStr x)
    then obtain y where "old = FStr y" using m(3) by (auto simp: same_kind_def split: fval.splits)
    then show ?thesis using pn [of "x # args"] pv [of x] m FStr n by (simp add: spell_def assign_def split_flag_name Let_def)
  next
    case (FBool x)
    then obtain y where "old = FBool y" using m(3) by (auto simp: same_kind_def split: fval.splits)
    then show ?thesis using pn [of args] pv [of "''true''"] pv [of "''false''"] m FBool n b
      by (simp add: spell_def assign_def split_flag_name Let_def)
  qed
qed

lemma settable_assign:
  assumes "settable names vars x" and "settable names vars y"
  shows "settable names (assign names x vars) y"
proof -
  obtain n v m w where xy: "x = (n, v)" "y = (m, w)" by fastforce
  obtain var old where "map_of names n = Some var" "map_of vars var = Some old" "same_kind old v"
    using assms(1) xy by (auto simp: settable_def)
  moreover obtain var' old' where "map_of names m = Some var'" "map_of vars var' = Some old'" "same_kind old' w"
    "m \<noteq> []" "hd m \<noteq> CHR ''-''" "CHR ''='' \<notin> set m"
    using assms(2) xy by (auto simp: settable_def)
  moreover have "same_kind v w" if "same_kind u v" "same_kind u w" for u
    using that by (cases u; cases v; cases w) (auto simp: same_kind_def)
  ultimately show ?thesis by (auto simp: settable_def assign_def xy update_conv')
qed

lemma flag_Parse_spells:
  assumes "\<forall>x \<in> set settings. settable names vars (snd x)" and "rest = [] \<or> length (hd rest) < 2 \<or> hd (hd rest) \<noteq> CHR ''-''"
  shows "flag_Parse names vars (concat (map spell settings) @ rest) = Inr (fold (assign names) (map snd settings) vars, rest)"
  using assms(1)
proof (induction settings arbitrary: vars)
  case Nil
  then show ?case using assms(2) by (cases rest) (auto simp: flag_Parse.simps(2))
next
  case (Cons x xs)
  obtain sp n v where x: "x = (sp, n, v)" by (cases x)
  have s: "settable names vars (n, v)" using Cons.prems x by simp
  have "\<forall>y \<in> set xs. settable names (assign names (n, v) vars) (snd y)" using Cons.prems settable_assign [OF s] by simp
  then show ?case using Cons.IH flag_Parse_spell [OF s, of sp] x by simp
qed

text \<open>Package flag understands every spelling of a flag: for any sequence of settings, each with one dash or two, its
  value joined by an equals sign or (a text) as the next argument or (a true one) left out, parsing gives exactly
  these settings, the last one of a flag winning, and leaves the arguments from the first that is no flag.\<close>

theorem flags_read_back:
  assumes "\<forall>x \<in> set settings. settable names vars (snd x)" and "rest = [] \<or> length (hd rest) < 2 \<or> hd (hd rest) \<noteq> CHR ''-''"
  shows "flag_Parse names vars (concat (map spell settings) @ rest) = Inr (fold (assign names) (map snd settings) vars, rest)"
  by (rule flag_Parse_spells [OF assms])

theorem flags_read_back_witness:
  "flag_Parse agent_names agent_vars [''-c'', ''a'', ''--oneshot'', ''--config=b'', ''x'']
     = Inr ([(''config'', FStr ''b''), (''config-dir'', FStr defaultConfigDir), (''oneshot'', FBool True),
         (''stunmesh-only'', FBool False), (''version'', FBool False)], [''x''])"
proof -
  let ?s = "[(Spelling False False, ''c'', FStr ''a''), (Spelling True False, ''oneshot'', FBool True), (Spelling True True, ''config'', FStr ''b'')]"
  have st: "\<forall>x \<in> set ?s. settable agent_names agent_vars (snd x)"
    by (simp add: settable_def agent_names_def agent_vars_def same_kind_def)
  have "concat (map spell ?s) @ [''x''] = [''-c'', ''a'', ''--oneshot'', ''--config=b'', ''x'']"
    by (simp add: spell_def dash_def Let_def)
  moreover have "fold (assign agent_names) (map snd ?s) agent_vars = [(''config'', FStr ''b''), (''config-dir'', FStr defaultConfigDir),
      (''oneshot'', FBool True), (''stunmesh-only'', FBool False), (''version'', FBool False)]"
    by (simp add: assign_def agent_names_def agent_vars_def)
  moreover have "flag_Parse agent_names agent_vars (concat (map spell ?s) @ [''x'']) = Inr (fold (assign agent_names) (map snd ?s) agent_vars, [''x''])"
    by (rule flags_read_back [OF st]) simp
  ultimately show ?thesis by simp
qed

section \<open>Usage errors\<close>

lemma usage_init: "runInit env args s = (CmdExit 2, s') \<Longrightarrow> s' = s"
  by (auto simp: runInit_def exit_of_def split: if_splits prod.splits sum.splits cmderr.splits)

lemma usage_node: "runNode env args s = (CmdExit 2, s') \<Longrightarrow> s' = s"
  by (auto simp: runNode_def runNodeAdd_def exit_of_def split: if_splits prod.splits sum.splits cmderr.splits list.splits)

lemma usage_publish: "runPublish env wakes now args s = (CmdExit 2, s') \<Longrightarrow> s' = s"
proof -
  assume run: "runPublish env wakes now args s = (CmdExit 2, s')"
  have l: "runPublishLoop env ns wakes now s \<noteq> ((CmdExit 2, ws), s')" for ns ws
    using runRepublishLoop_ends [where env = env and ns = ns and wakes = wakes and now = now and lp = first_loop and s = s]
    by (auto simp: runPublishLoop_def split: if_splits)
  have o: "publish_once env ns now s \<noteq> (CmdExit 2, s')" for ns
    by (auto simp: publish_once_def Let_def split: prod.splits sum.splits)
  show ?thesis using run
    by (auto simp: runPublish_def l o split: sum.splits flagerr.splits prod.splits if_splits)
qed

text \<open>Exit code 2 means that the command line was wrong and nothing was done: not a file, a directory, a request, a
  read of the random source or a line of output differs from before.\<close>

theorem provd_usage_error:
  assumes "provd_Run env wakes now args s = (CmdExit 2, s')"
  shows "s' = s"
  using assms usage_init usage_node usage_publish
  by (auto simp: provd_Run_def Let_def split: sum.splits flagerr.splits prod.splits if_splits list.splits)

theorem provd_usage_error_witness:
  "\<exists>s'. provd_Run ex_penv [] 0 [''--dir'', ''/p'', ''node'', ''remove''] ex_prov = (CmdExit 2, s') \<and> s' = ex_prov"
proof -
  have "flag_Parse (same_names provd_vars) provd_vars [''--dir'', ''/p'', ''node'', ''remove'']
      = Inr ([(''dir'', FStr ''/p''), (''version'', FBool False)], [''node'', ''remove''])"
    by (simp add: flag_Parse.simps(2) same_names_def provd_vars_def split_flag_def Let_def)
  then obtain s' where "provd_Run ex_penv [] 0 [''--dir'', ''/p'', ''node'', ''remove''] ex_prov = (CmdExit 2, s')"
    by (simp add: provd_Run_def bool_var_def runNode_def)
  then show ?thesis using provd_usage_error by blast
qed

end
