(* ===== verification/Yamlx.thy ===== *)
theory Yamlx
  imports Json_Lemmas
begin

text \<open>
  internal/yamlx: from YAML to JSON. The parser (go.yaml.in/yaml/v3) is not part of the
  repository: \<open>yaml_lib\<close> collects the four functions of it the package calls. What it parses
  is a graph of nodes that point to each other by address, because an alias points back to
  the node its anchor names; \<open>convert\<close> walks that graph without a bound, so the model has
  fuel and None stands for a walk that has not come back.

  \<open>denotes\<close> says declaratively which value a node stands for, \<open>visits\<close> which node a walk calls
  itself on. The walk returns exactly on the nodes where \<open>visits\<close> is well-founded.
\<close>

section \<open>Nodes\<close>

datatype Kind = DocumentNode | SequenceNode | MappingNode | ScalarNode | AliasNode | OtherKind nat

record ynode =
  yn_Kind :: Kind
  yn_Tag :: string
  yn_Value :: string
  yn_Line :: nat
  yn_Content :: "nat list"
  yn_Alias :: nat

type_synonym ygraph = "nat \<Rightarrow> ynode"

text \<open>What Decode into an interface makes of a scalar: the number is the text json.Marshal
  writes for it, and \<open>SNonFinite\<close> is a float that JSON cannot write (.nan, .inf, -.inf).\<close>

datatype nonfinite = NaN | PosInf | NegInf

datatype scalar = SNil | SBool bool | SNum string | SNonFinite nonfinite | SString string

datatype gv = GScalar scalar | GMap "gv gomap" | GSlice "gv list"

text \<open>One call of Decoder.Decode: end of input, an error, or a document and its root.\<close>

datatype decoded = DEOF | DErr | DNode ygraph nat

record yaml_lib =
  yl_Decode :: "string \<Rightarrow> decoded \<times> decoded"
  yl_ShortTag :: "ynode \<Rightarrow> string"
  yl_String :: "ynode \<Rightarrow> string option"
  yl_Any :: "ynode \<Rightarrow> scalar option"

datatype yerr = YParse | ErrMultipleDocuments | YKind nat | YKeyType string | YKeyDecode nat
  | ErrDuplicateKey nat | YScalar nat string | YMarshal nonfinite

section \<open>Conversion\<close>

definition convertScalar :: "yaml_lib \<Rightarrow> ynode \<Rightarrow> yerr + gv" where
  "convertScalar y node =
     (if yl_ShortTag y node = ''!!timestamp'' then Inr (GScalar (SString (yn_Value node)))
      else (case yl_Any y node of None \<Rightarrow> Inl (YScalar (yn_Line node) (yl_ShortTag y node))
            | Some v \<Rightarrow> Inr (GScalar v)))"

definition keyNode :: "ygraph \<Rightarrow> nat \<Rightarrow> ynode" where
  "keyNode g k = (if yn_Kind (g k) = AliasNode then g (yn_Alias (g k)) else g k)"

definition convertKey :: "yaml_lib \<Rightarrow> 'v gomap \<Rightarrow> ynode \<Rightarrow> yerr + string" where
  "convertKey y m node =
     (if yn_Kind node \<noteq> ScalarNode \<or> yl_ShortTag y node \<noteq> ''!!str'' then Inl (YKeyType (yl_ShortTag y node))
      else (case yl_String y node of None \<Rightarrow> Inl (YKeyDecode (yn_Line node))
            | Some key \<Rightarrow> if key \<in> set (keys m) then Inl (ErrDuplicateKey (yn_Line node)) else Inr key))"

fun convert :: "yaml_lib \<Rightarrow> ygraph \<Rightarrow> nat \<Rightarrow> nat \<Rightarrow> (yerr + gv) option"
and convertMapping :: "yaml_lib \<Rightarrow> ygraph \<Rightarrow> nat \<Rightarrow> gv gomap \<Rightarrow> nat list \<Rightarrow> (yerr + gv) option"
and convertSequence :: "yaml_lib \<Rightarrow> ygraph \<Rightarrow> nat \<Rightarrow> gv list \<Rightarrow> nat list \<Rightarrow> (yerr + gv) option" where
  "convert y g 0 a = None"
| "convert y g (Suc n) a =
     (let node = g a in
      case yn_Kind node of
        DocumentNode \<Rightarrow> (case yn_Content node of [] \<Rightarrow> Some (Inr (GScalar SNil)) | c # _ \<Rightarrow> convert y g n c)
      | AliasNode \<Rightarrow> convert y g n (yn_Alias node)
      | MappingNode \<Rightarrow> convertMapping y g n [] (yn_Content node)
      | SequenceNode \<Rightarrow> convertSequence y g n [] (yn_Content node)
      | ScalarNode \<Rightarrow> Some (convertScalar y node)
      | OtherKind k \<Rightarrow> Some (Inl (YKind k)))"
| "convertMapping y g n m (k # c # cs) =
     (case convertKey y m (keyNode g k) of
        Inl e \<Rightarrow> Some (Inl e)
      | Inr key \<Rightarrow>
          (case convert y g n c of
             None \<Rightarrow> None
           | Some (Inl e) \<Rightarrow> Some (Inl e)
           | Some (Inr v) \<Rightarrow> convertMapping y g n (m @ [(key, v)]) cs))"
| "convertMapping y g n m _ = Some (Inr (GMap m))"
| "convertSequence y g n s [] = Some (Inr (GSlice s))"
| "convertSequence y g n s (c # cs) =
     (case convert y g n c of
        None \<Rightarrow> None
      | Some (Inl e) \<Rightarrow> Some (Inl e)
      | Some (Inr v) \<Rightarrow> convertSequence y g n (s @ [v]) cs)"

text \<open>json.Marshal of the value: maps by increasing key, and an error that names the float for the first one
  in this order that is not finite (``unsupported value: NaN'', ``+Inf'' or ``-Inf'').\<close>

fun json_of :: "gv \<Rightarrow> json option" where
  "json_of (GScalar SNil) = Some JNull"
| "json_of (GScalar (SBool b)) = Some (JBool b)"
| "json_of (GScalar (SNum l)) = Some (JNum l)"
| "json_of (GScalar (SNonFinite f)) = None"
| "json_of (GScalar (SString s)) = Some (JStr s)"
| "json_of (GMap m) =
     map_option (\<lambda>vs. JObj (zip (map fst m) vs)) (those (map (\<lambda>kv. json_of (snd kv)) m))"
| "json_of (GSlice vs) = map_option JArr (those (map json_of vs))"

fun non_finite :: "gv \<Rightarrow> nonfinite list" where
  "non_finite (GScalar (SNonFinite f)) = [f]"
| "non_finite (GScalar _) = []"
| "non_finite (GMap m) = concat (map snd (sort_map (map (\<lambda>kv. (fst kv, non_finite (snd kv))) m)))"
| "non_finite (GSlice vs) = concat (map non_finite vs)"

definition marshal_any :: "gv \<Rightarrow> yerr + string" where
  "marshal_any v = (case json_of v of None \<Rightarrow> Inl (YMarshal (hd (non_finite v)))
     | Some j \<Rightarrow> Inr (print_json (go_quote True) (sort_json j)))"

definition ToJSON :: "yaml_lib \<Rightarrow> nat \<Rightarrow> string \<Rightarrow> (yerr + string) option" where
  "ToJSON y n data =
     (case yl_Decode y data of
        (DEOF, _) \<Rightarrow> Some (Inr ''null'')
      | (DErr, _) \<Rightarrow> Some (Inl YParse)
      | (DNode g root, extra) \<Rightarrow>
          (case extra of
             DNode _ _ \<Rightarrow> Some (Inl ErrMultipleDocuments)
           | DErr \<Rightarrow> Some (Inl YParse)
           | DEOF \<Rightarrow> map_option (\<lambda>r. bindE r marshal_any) (convert y g n root)))"

text \<open>What internal/store and the agent's configuration loader take: the JSON, or any error.\<close>

definition yaml_seam :: "yaml_lib \<Rightarrow> nat \<Rightarrow> string \<Rightarrow> string option" where
  "yaml_seam y n data = (case ToJSON y n data of Some (Inr out) \<Rightarrow> Some out | _ \<Rightarrow> None)"

section \<open>What a node stands for\<close>

fun pairs :: "nat list \<Rightarrow> (nat \<times> nat) list" where
  "pairs (k # c # cs) = (k, c) # pairs cs"
| "pairs _ = []"

definition key_of :: "yaml_lib \<Rightarrow> ygraph \<Rightarrow> nat \<Rightarrow> string option" where
  "key_of y g k = (let node = keyNode g k in
     if yn_Kind node = ScalarNode \<and> yl_ShortTag y node = ''!!str'' then yl_String y node else None)"

text \<open>One entry of a mapping: its key is a string scalar, and its value stands for the entry's.\<close>

abbreviation yentry :: "yaml_lib \<Rightarrow> ygraph \<Rightarrow> (nat \<Rightarrow> gv \<Rightarrow> bool) \<Rightarrow> nat \<times> nat \<Rightarrow> string \<times> gv \<Rightarrow> bool" where
  "yentry y g P kc kv \<equiv> key_of y g (fst kc) = Some (fst kv) \<and> P (snd kc) (snd kv)"

inductive denotes :: "yaml_lib \<Rightarrow> ygraph \<Rightarrow> nat \<Rightarrow> gv \<Rightarrow> bool" for y g where
  d_empty: "yn_Kind (g a) = DocumentNode \<Longrightarrow> yn_Content (g a) = [] \<Longrightarrow> denotes y g a (GScalar SNil)"
| d_doc: "yn_Kind (g a) = DocumentNode \<Longrightarrow> yn_Content (g a) = c # cs \<Longrightarrow> denotes y g c v \<Longrightarrow> denotes y g a v"
| d_alias: "yn_Kind (g a) = AliasNode \<Longrightarrow> denotes y g (yn_Alias (g a)) v \<Longrightarrow> denotes y g a v"
| d_scalar: "yn_Kind (g a) = ScalarNode \<Longrightarrow> convertScalar y (g a) = Inr v \<Longrightarrow> denotes y g a v"
| d_seq: "yn_Kind (g a) = SequenceNode \<Longrightarrow> list_all2 (denotes y g) (yn_Content (g a)) vs \<Longrightarrow>
    denotes y g a (GSlice vs)"
| d_map: "yn_Kind (g a) = MappingNode \<Longrightarrow>
    list_all2 (yentry y g (denotes y g))
      (pairs (yn_Content (g a))) m \<Longrightarrow> gm_ok m \<Longrightarrow> denotes y g a (GMap m)"

text \<open>Which nodes the walk of a node calls itself on: in a sequence or a mapping, a child
  whose elder siblings have all been converted.\<close>

inductive visits :: "yaml_lib \<Rightarrow> ygraph \<Rightarrow> nat \<Rightarrow> nat \<Rightarrow> bool" for y g where
  v_doc: "yn_Kind (g a) = DocumentNode \<Longrightarrow> yn_Content (g a) = c # cs \<Longrightarrow> visits y g a c"
| v_alias: "yn_Kind (g a) = AliasNode \<Longrightarrow> visits y g a (yn_Alias (g a))"
| v_seq: "yn_Kind (g a) = SequenceNode \<Longrightarrow> yn_Content (g a) = cs @ c # cs' \<Longrightarrow>
    list_all2 (denotes y g) cs vs \<Longrightarrow> visits y g a c"
| v_map: "yn_Kind (g a) = MappingNode \<Longrightarrow> pairs (yn_Content (g a)) = ps @ (k, c) # ps' \<Longrightarrow>
    list_all2 (yentry y g (denotes y g)) ps m \<Longrightarrow>
    key_of y g k = Some key \<Longrightarrow> distinct (map fst m @ [key]) \<Longrightarrow> visits y g a c"

inductive_cases visits_E: "visits y g a b"
inductive_simps denotes_simps: "denotes y g a v"

section \<open>The walk computes what the node stands for\<close>

lemma denotes_kind:
  "yn_Kind (g a) = DocumentNode \<Longrightarrow> denotes y g a v \<longleftrightarrow>
     (case yn_Content (g a) of [] \<Rightarrow> v = GScalar SNil | c # _ \<Rightarrow> denotes y g c v)"
  "yn_Kind (g a) = AliasNode \<Longrightarrow> denotes y g a v \<longleftrightarrow> denotes y g (yn_Alias (g a)) v"
  "yn_Kind (g a) = ScalarNode \<Longrightarrow> denotes y g a v \<longleftrightarrow> convertScalar y (g a) = Inr v"
  "yn_Kind (g a) = SequenceNode \<Longrightarrow> denotes y g a v \<longleftrightarrow>
     (\<exists>vs. v = GSlice vs \<and> list_all2 (denotes y g) (yn_Content (g a)) vs)"
  "yn_Kind (g a) = MappingNode \<Longrightarrow> denotes y g a v \<longleftrightarrow>
     (\<exists>m. v = GMap m \<and> list_all2 (yentry y g (denotes y g)) (pairs (yn_Content (g a))) m \<and> gm_ok m)"
  "yn_Kind (g a) = OtherKind k \<Longrightarrow> \<not> denotes y g a v"
  by (subst denotes.simps; auto split: list.split)+

lemma convertKey_eq_Inr:
  "convertKey y m (keyNode g k) = Inr key \<longleftrightarrow> key_of y g k = Some key \<and> key \<notin> set (keys m)"
  by (auto simp: convertKey_def key_of_def split: option.split)

lemma convertKey_Inl: "convertKey y m (keyNode g k) = Inl e \<Longrightarrow> key_of y g k = Some key \<Longrightarrow> key \<in> set (keys m)"
  using convertKey_eq_Inr [of y m g k key] by auto

lemma gm_ok_snoc: "gm_ok (m @ [(key, v)]) \<longleftrightarrow> gm_ok m \<and> key \<notin> set (keys m)"
  by (auto simp: gm_ok_def keys_def)

lemma gm_ok_appendD: "gm_ok (m @ (key, v) # m') \<Longrightarrow> key \<notin> set (keys m)"
  by (auto simp: gm_ok_def keys_def)

lemma convert_denotes:
  "convert y g n a = Some r \<Longrightarrow> r = Inr v \<longleftrightarrow> denotes y g a v"
  "convertMapping y g n m cs = Some r \<Longrightarrow> gm_ok m \<Longrightarrow>
     r = Inr v \<longleftrightarrow> (\<exists>m'. v = GMap (m @ m') \<and> list_all2 (yentry y g (denotes y g)) (pairs cs) m' \<and> gm_ok (m @ m'))"
  "convertSequence y g n s cs = Some r \<Longrightarrow>
     r = Inr v \<longleftrightarrow> (\<exists>vs. v = GSlice (s @ vs) \<and> list_all2 (denotes y g) cs vs)"
proof (induction y g n a and y g n m cs and y g n s cs arbitrary: r v and r v and r v
    rule: convert_convertMapping_convertSequence.induct)
  case (2 y g n a)
  then show ?case
    by (cases "yn_Kind (g a)") (auto simp: denotes_kind Let_def gm_ok_def split: list.splits)
next
  case (3 y g n m k c cs)
  show ?case
  proof (cases "convertKey y m (keyNode g k)")
    case (Inl e)
    then have "\<not> (\<exists>m'. list_all2 (yentry y g (denotes y g)) (pairs (k # c # cs)) m' \<and> gm_ok (m @ m'))"
      by (auto simp: list_all2_Cons1 dest!: convertKey_Inl gm_ok_appendD)
    then show ?thesis using 3 Inl by auto
  next
    case (Inr key)
    then have key: "key_of y g k = Some key" "key \<notin> set (keys m)" by (simp_all add: convertKey_eq_Inr)
    consider e where "convert y g n c = Some (Inl e)" "r = Inl e"
      | x where "convert y g n c = Some (Inr x)" "convertMapping y g n (m @ [(key, x)]) cs = Some r"
      using "3.prems" Inr by (auto split: option.splits sum.splits)
    then show ?thesis
    proof cases
      case 1
      then have "\<not> denotes y g c x" for x using "3.IH"(1) [OF Inr] by blast
      then show ?thesis using 1 by (auto simp: list_all2_Cons1)
    next
      case 2
      have "denotes y g c z \<longleftrightarrow> z = x" for z using "3.IH"(1) [OF Inr 2(1), where v = z] by auto
      moreover have "gm_ok (m @ [(key, x)])" using "3.prems" key by (simp add: gm_ok_snoc)
      ultimately show ?thesis
        using "3.IH"(2) [OF Inr 2(1) refl 2(2)] key by (auto simp: list_all2_Cons1)
    qed
  qed
next
  case (6 y g n s c cs)
  consider e where "convert y g n c = Some (Inl e)" "r = Inl e"
    | x where "convert y g n c = Some (Inr x)" "convertSequence y g n (s @ [x]) cs = Some r"
    using "6.prems" by (auto split: option.splits sum.splits)
  then show ?case
  proof cases
    case 1
    then have "\<not> denotes y g c x" for x using "6.IH"(1) by blast
    then show ?thesis using 1 by (auto simp: list_all2_Cons1)
  next
    case 2
    have "denotes y g c z \<longleftrightarrow> z = x" for z using "6.IH"(1) [OF 2(1), where v = z] by auto
    then show ?thesis using "6.IH"(2) [OF 2(1) refl 2(2)] by (auto simp: list_all2_Cons1)
  qed
qed auto

section \<open>The walk returns exactly where it is well-founded\<close>

lemma convert_more_fuel:
  "convert y g n a = Some r \<Longrightarrow> n \<le> n' \<Longrightarrow> convert y g n' a = Some r"
  "convertMapping y g n m cs = Some r \<Longrightarrow> n \<le> n' \<Longrightarrow> convertMapping y g n' m cs = Some r"
  "convertSequence y g n s cs = Some r \<Longrightarrow> n \<le> n' \<Longrightarrow> convertSequence y g n' s cs = Some r"
proof (induction y g n a and y g n m cs and y g n s cs arbitrary: r n' and r n' and r n'
    rule: convert_convertMapping_convertSequence.induct)
  case (2 y g n a)
  then obtain k where "n' = Suc k" "n \<le> k" by (cases n') auto
  then show ?case
    using "2.prems"(1) by (cases "yn_Kind (g a)") (auto simp: Let_def intro: "2.IH" [OF refl] split: list.splits)
next
  case (3 y g n m k c cs)
  show ?case
  proof (cases "convertKey y m (keyNode g k)")
    case (Inr key)
    then obtain r' where r': "convert y g n c = Some r'" using "3.prems"(1) by (cases "convert y g n c") auto
    have c: "convert y g n' c = Some r'" by (rule "3.IH"(1) [OF Inr r' "3.prems"(2)])
    show ?thesis
    proof (cases r')
      case v: (Inr v)
      then have "convertMapping y g n (m @ [(key, v)]) cs = Some r" using "3.prems"(1) Inr r' by simp
      from "3.IH"(2) [OF Inr r' v this "3.prems"(2)] show ?thesis using Inr c v by simp
    qed (use "3.prems"(1) Inr r' c in auto)
  qed (use "3.prems" in auto)
next
  case (6 y g n s c cs)
  then obtain r' where r': "convert y g n c = Some r'" by (cases "convert y g n c") auto
  have c: "convert y g n' c = Some r'" by (rule "6.IH"(1) [OF r' "6.prems"(2)])
  show ?case
  proof (cases r')
    case v: (Inr v)
    then have "convertSequence y g n (s @ [v]) cs = Some r" using "6.prems"(1) r' by simp
    from "6.IH"(2) [OF r' v this "6.prems"(2)] show ?thesis using c v by simp
  qed (use "6.prems"(1) r' c in auto)
qed auto

lemma sequence_reaches:
  assumes "convertSequence y g n s (cs @ c # cs') = Some r" and "list_all2 (denotes y g) cs vs"
  shows "\<exists>r'. convert y g n c = Some r'"
  using assms
proof (induction cs arbitrary: s vs)
  case Nil
  then show ?case by (auto split: option.splits)
next
  case (Cons d cs)
  then obtain v vs' where v: "vs = v # vs'" "denotes y g d v" "list_all2 (denotes y g) cs vs'"
    by (auto simp: list_all2_Cons1)
  moreover have "convert y g n d \<noteq> None" using Cons.prems by (cases "convert y g n d") auto
  ultimately have "convert y g n d = Some (Inr v)" using convert_denotes(1) by (metis not_None_eq)
  then show ?case using Cons v(3) by auto
qed

lemma mapping_reaches:
  assumes "convertMapping y g n m cs = Some r" and "pairs cs = ps @ (k, c) # ps'"
    and "list_all2 (yentry y g (denotes y g)) ps m'" and "key_of y g k = Some key"
    and "distinct (map fst (m @ m') @ [key])"
  shows "\<exists>r'. convert y g n c = Some r'"
  using assms
proof (induction cs arbitrary: m ps m' rule: pairs.induct)
  case (1 k0 c0 cs)
  show ?case
  proof (cases ps)
    case Nil
    with 1 have "convertKey y m (keyNode g k0) = Inr key" by (auto simp: convertKey_eq_Inr keys_def)
    then show ?thesis using 1 Nil by (auto split: option.splits)
  next
    case (Cons p ps1)
    then obtain key0 v0 m1 where m': "m' = (key0, v0) # m1" "key_of y g k0 = Some key0" "denotes y g c0 v0"
        "list_all2 (yentry y g (denotes y g)) ps1 m1" "p = (k0, c0)"
      using 1 by (auto simp: list_all2_Cons1)
    have ck: "convertKey y m (keyNode g k0) = Inr key0" using 1 m' by (auto simp: convertKey_eq_Inr keys_def)
    then have "convert y g n c0 \<noteq> None" using 1 by auto
    then have "convert y g n c0 = Some (Inr v0)" using m'(3) convert_denotes(1) by (metis not_None_eq)
    then have "convertMapping y g n (m @ [(key0, v0)]) cs = Some r" using 1 ck by auto
    then show ?thesis
      using 1 Cons m' by (intro "1.IH" [of "m @ [(key0, v0)]" ps1 m1]) auto
  qed
qed auto

lemma visited_converts:
  assumes "convert y g (Suc n) a = Some r" and "visits y g a b"
  shows "\<exists>r'. convert y g n b = Some r'"
  using assms(2)
proof cases
  case (v_seq cs cs' vs)
  then show ?thesis using assms(1) by (auto intro: sequence_reaches)
next
  case (v_map ps k ps' m key)
  then show ?thesis using assms(1) by (auto intro: mapping_reaches [where m = "[]"])
qed (use assms(1) in auto)

lemma convert_accp: "convert y g n a = Some r \<Longrightarrow> Wellfounded.accp (\<lambda>b a. visits y g a b) a"
proof (induction n arbitrary: a r)
  case (Suc n)
  then show ?case by (metis visited_converts accp.accI)
qed simp

lemma sequence_returns:
  assumes "yn_Kind (g a) = SequenceNode" and "yn_Content (g a) = ds @ cs" and "list_all2 (denotes y g) ds vs"
    and "\<And>b. visits y g a b \<Longrightarrow> \<exists>n. convert y g n b \<noteq> None"
  shows "\<exists>n r. convertSequence y g n s cs = Some r"
  using assms(2,3)
proof (induction cs arbitrary: ds vs s)
  case (Cons c cs)
  then obtain n r where c: "convert y g n c = Some r" using assms(1,4) v_seq by fastforce
  show ?case
  proof (cases r)
    case (Inl e)
    then have "convertSequence y g n s (c # cs) = Some (Inl e)" using c by simp
    then show ?thesis by blast
  next
    case (Inr v)
    then have "denotes y g c v" using c convert_denotes(1) by blast
    then have "list_all2 (denotes y g) (ds @ [c]) (vs @ [v])" using Cons.prems by (simp add: list_all2_appendI)
    then obtain n1 r1 where "convertSequence y g n1 (s @ [v]) cs = Some r1"
      using Cons.IH [of "ds @ [c]" "vs @ [v]" "s @ [v]"] Cons.prems by auto
    then have "convertSequence y g (max n n1) s (c # cs) = Some r1"
      using convert_more_fuel(1) [OF c, of "max n n1"] convert_more_fuel(3) [of y g n1 _ cs r1 "max n n1"] Inr by simp
    then show ?thesis by blast
  qed
qed auto

lemma mapping_returns:
  assumes "yn_Kind (g a) = MappingNode" and "pairs (yn_Content (g a)) = ds @ pairs cs"
    and "list_all2 (yentry y g (denotes y g)) ds m" and "gm_ok m"
    and "\<And>b. visits y g a b \<Longrightarrow> \<exists>n. convert y g n b \<noteq> None"
  shows "\<exists>n r. convertMapping y g n m cs = Some r"
  using assms(2-4)
proof (induction cs arbitrary: ds m rule: pairs.induct)
  case (1 k c cs)
  show ?case
  proof (cases "convertKey y m (keyNode g k)")
    case (Inr key)
    then have key: "key_of y g k = Some key" "gm_ok (m @ [(key, v)])" for v
      using "1.prems"(3) by (simp_all add: convertKey_eq_Inr gm_ok_snoc)
    have "visits y g a c"
      using "1.prems" key(2) [unfolded gm_ok_def] by (intro v_map [OF assms(1) _ _ key(1), of ds c "pairs cs" m]) auto
    then obtain n r where c: "convert y g n c = Some r" using assms(5) by fastforce
    show ?thesis
    proof (cases r)
      case (Inl e)
      then have "convertMapping y g n m (k # c # cs) = Some (Inl e)" using c Inr by simp
      then show ?thesis by blast
    next
      case v: (Inr v)
      then have "denotes y g c v" using c convert_denotes(1) by blast
      then have "list_all2 (yentry y g (denotes y g)) (ds @ [(k, c)]) (m @ [(key, v)])"
        using "1.prems"(2) key(1) by (simp add: list_all2_appendI)
      then obtain n1 r1 where "convertMapping y g n1 (m @ [(key, v)]) cs = Some r1"
        using "1.IH" [of "ds @ [(k, c)]" "m @ [(key, v)]"] "1.prems"(1) key(2) by auto
      then have "convertMapping y g (max n n1) m (k # c # cs) = Some r1"
        using convert_more_fuel(1) [OF c, of "max n n1"] convert_more_fuel(2) [of y g n1 _ cs r1 "max n n1"] v Inr by simp
      then show ?thesis by blast
    qed
  qed auto
qed auto

lemma accp_converts: "Wellfounded.accp (\<lambda>b a. visits y g a b) a \<Longrightarrow> \<exists>n. convert y g n a \<noteq> None"
proof (induction rule: accp.induct)
  case (accI a)
  have "\<exists>n r. convert y g (Suc n) a = Some r"
  proof (cases "yn_Kind (g a)")
    case DocumentNode
    show ?thesis
    proof (cases "yn_Content (g a)")
      case (Cons c cs)
      then show ?thesis using accI.IH [OF v_doc [of g a, OF DocumentNode Cons]] DocumentNode by auto
    qed (simp add: DocumentNode)
  next
    case AliasNode
    then show ?thesis using accI.IH [OF v_alias [of g a, OF AliasNode]] by auto
  next
    case SequenceNode
    then show ?thesis using sequence_returns [of g a "[]" "yn_Content (g a)" y "[]" "[]"] accI by auto
  next
    case MappingNode
    then show ?thesis using mapping_returns [of g a "[]" "yn_Content (g a)" y "[]"] accI by (auto simp: gm_ok_def)
  qed auto
  then show ?case by (metis option.distinct(1))
qed

lemma convert_returns_iff:
  "(\<exists>n. convert y g n a \<noteq> None) \<longleftrightarrow> Wellfounded.accp (\<lambda>b a. visits y g a b) a"
  using convert_accp accp_converts by (metis not_None_eq)

section \<open>Graphs without a cycle\<close>

text \<open>A rank that falls along every pointer: what a document without aliases into their own
  anchors has. One unit of fuel for each rank is enough.\<close>

definition children :: "ygraph \<Rightarrow> nat \<Rightarrow> nat set" where
  "children g a = set (yn_Content (g a)) \<union> (if yn_Kind (g a) = AliasNode then {yn_Alias (g a)} else {})"

definition ranked :: "ygraph \<Rightarrow> (nat \<Rightarrow> nat) \<Rightarrow> bool" where
  "ranked g rank = (\<forall>a. \<forall>b \<in> children g a. rank b < rank a)"

lemma rankedD: "ranked g rank \<Longrightarrow> b \<in> children g a \<Longrightarrow> rank b < rank a"
  by (simp add: ranked_def)

lemma convertSequence_total:
  "\<forall>c \<in> set cs. \<exists>r. convert y g n c = Some r \<Longrightarrow> \<exists>r. convertSequence y g n s cs = Some r"
  by (induction cs arbitrary: s) (auto split: sum.split)

lemma convertMapping_total:
  "\<forall>c \<in> set cs. \<exists>r. convert y g n c = Some r \<Longrightarrow> \<exists>r. convertMapping y g n m cs = Some r"
  by (induction cs arbitrary: m rule: pairs.induct) (auto split: sum.split)

lemma convert_ranked: "ranked g rank \<Longrightarrow> rank a < n \<Longrightarrow> \<exists>r. convert y g n a = Some r"
proof (induction n arbitrary: a)
  case (Suc n)
  then have IH: "\<exists>r. convert y g n b = Some r" if "b \<in> children g a" for b
    using rankedD [OF Suc.prems(1) that] by auto
  show ?case
  proof (cases "yn_Kind (g a)")
    case DocumentNode
    then show ?thesis using IH by (auto simp: children_def split: list.split)
  next
    case SequenceNode
    then show ?thesis using IH by (auto simp: children_def intro!: convertSequence_total)
  next
    case MappingNode
    then show ?thesis using IH by (auto simp: children_def intro!: convertMapping_total)
  next
    case AliasNode
    then show ?thesis using IH by (auto simp: children_def)
  qed auto
qed simp

section \<open>The JSON it writes\<close>

text \<open>Valid UTF-8 throughout, and no number but 64-bit integers.\<close>

definition clean_node :: "yaml_lib \<Rightarrow> ynode \<Rightarrow> bool" where
  "clean_node y node = (valid_utf8 (yn_Value node) \<and>
     (case yl_String y node of Some s \<Rightarrow> valid_utf8 s | None \<Rightarrow> True) \<and>
     (case yl_Any y node of Some (SNum l) \<Rightarrow> is_int_lit l | Some (SString s) \<Rightarrow> valid_utf8 s | _ \<Rightarrow> True))"

definition clean_graph :: "yaml_lib \<Rightarrow> ygraph \<Rightarrow> bool" where
  "clean_graph y g = (\<forall>a. clean_node y (g a))"

lemma those_eq_Some: "those xs = Some ys \<longleftrightarrow> xs = map Some ys"
  by (induction xs arbitrary: ys) (auto split: option.splits simp: Cons_eq_map_conv)

lemma json_wf_scalar:
  assumes "clean_graph y g" and "convertScalar y (g a) = Inr v" and "json_of v = Some j"
  shows "json_wf j"
proof -
  have "clean_node y (g a)" using assms(1) by (simp add: clean_graph_def)
  then show ?thesis
    using assms(2,3)
    by (auto simp: clean_node_def convertScalar_def split: if_splits option.splits scalar.splits elim!: json_of.elims)
qed

lemma clean_String: "clean_graph y g \<Longrightarrow> yl_String y (g a) = Some s \<Longrightarrow> valid_utf8 s"
  unfolding clean_graph_def clean_node_def by (drule spec [of _ a]) simp

lemma valid_key: "clean_graph y g \<Longrightarrow> key_of y g k = Some key \<Longrightarrow> valid_utf8 key"
  by (auto simp: key_of_def keyNode_def Let_def split: if_splits elim: clean_String)

lemma json_wf_denotes:
  assumes "denotes y g a v" and "clean_graph y g" and "json_of v = Some j"
  shows "json_wf j"
  using assms(1,3)
proof (induction arbitrary: j)
  case (d_scalar a v)
  then show ?case using json_wf_scalar assms(2) by blast
next
  case (d_seq a vs)
  then obtain js where "j = JArr js" "map json_of vs = map Some js" by (auto simp: those_eq_Some)
  moreover have "list_all json_wf js" if "list_all2 P cs vs" "map json_of vs = map Some js"
      "\<And>c v j. P c v \<Longrightarrow> json_of v = Some j \<Longrightarrow> json_wf j" for P cs
    using that by (induction arbitrary: js rule: list_all2_induct) (auto simp: Cons_eq_map_conv map_eq_Cons_conv)
  ultimately show ?case using d_seq by auto
next
  case (d_map a m)
  then obtain js where "j = JObj (zip (map fst m) js)" "map (\<lambda>kv. json_of (snd kv)) m = map Some js"
    by (auto simp: those_eq_Some)
  moreover have "list_all (\<lambda>kv. valid_utf8 (fst kv) \<and> json_wf (snd kv)) (zip (map fst m) js)"
    if "list_all2 P ps m" "map (\<lambda>kv. json_of (snd kv)) m = map Some js"
      "\<And>p kv j. P p kv \<Longrightarrow> json_of (snd kv) = Some j \<Longrightarrow> valid_utf8 (fst kv) \<and> json_wf j" for P ps
    using that by (induction arbitrary: js rule: list_all2_induct) (auto simp: map_eq_Cons_conv)
  ultimately show ?case using d_map.IH valid_key [OF assms(2)] by fastforce
qed auto

lemma json_wf_sort_json: "json_wf v \<Longrightarrow> json_wf (sort_json v)"
  by (induction v rule: sort_json.induct) (auto simp: list_all_iff sort_map_def)

section \<open>What an error tells\<close>

text \<open>Two parses that differ in the text of their scalars only, keys apart.\<close>

definition key_addr :: "ygraph \<Rightarrow> nat \<Rightarrow> nat" where
  "key_addr g k = (if yn_Kind (g k) = AliasNode then yn_Alias (g k) else k)"

definition same_but_values :: "yaml_lib \<Rightarrow> ygraph \<Rightarrow> ygraph \<Rightarrow> bool" where
  "same_but_values y g g' = (\<forall>a.
     yn_Kind (g' a) = yn_Kind (g a) \<and> yl_ShortTag y (g' a) = yl_ShortTag y (g a) \<and>
     yn_Line (g' a) = yn_Line (g a) \<and> yn_Content (g' a) = yn_Content (g a) \<and>
     yn_Alias (g' a) = yn_Alias (g a) \<and> (yl_Any y (g' a) = None \<longleftrightarrow> yl_Any y (g a) = None) \<and>
     (\<forall>kc \<in> set (pairs (yn_Content (g a))).
        yl_String y (g' (key_addr g (fst kc))) = yl_String y (g (key_addr g (fst kc)))))"

fun like :: "(yerr + 'a) option \<Rightarrow> (yerr + 'b) option \<Rightarrow> bool" where
  "like None r = (r = None)"
| "like (Some (Inl e)) r = (r = Some (Inl e))"
| "like (Some (Inr x)) r = (\<exists>z. r = Some (Inr z))"

lemma like_convertScalar:
  "yl_ShortTag y node' = yl_ShortTag y node \<Longrightarrow> yn_Line node' = yn_Line node \<Longrightarrow>
   (yl_Any y node' = None \<longleftrightarrow> yl_Any y node = None) \<Longrightarrow>
   like (Some (convertScalar y node)) (Some (convertScalar y node'))"
  by (auto simp: convertScalar_def split: option.split)

lemma convertKey_same:
  assumes "same_but_values y g g'" and "yl_String y (g' (key_addr g k)) = yl_String y (g (key_addr g k))"
    and "keys m' = keys m"
  shows "convertKey y m' (keyNode g' k) = convertKey y m (keyNode g k)"
proof -
  have "keyNode g' k = g' (key_addr g k)" "keyNode g k = g (key_addr g k)"
    using assms(1) by (auto simp: keyNode_def key_addr_def same_but_values_def)
  then show ?thesis
    using assms by (auto simp: convertKey_def same_but_values_def split: option.split)
qed

lemma convert_like:
  assumes "same_but_values y g g'"
  shows "like (convert y g n a) (convert y g' n a)"
    and "\<forall>kc \<in> set (pairs cs). yl_String y (g' (key_addr g (fst kc))) = yl_String y (g (key_addr g (fst kc)))
      \<Longrightarrow> keys m' = keys m \<Longrightarrow> like (convertMapping y g n m cs) (convertMapping y g' n m' cs)"
    and "like (convertSequence y g n s cs) (convertSequence y g' n s' cs)"
  using assms
proof (induction y g n a and y g n m cs and y g n s cs arbitrary: and m' and s'
    rule: convert_convertMapping_convertSequence.induct)
  case (2 y g n a)
  have a: "yn_Kind (g' a) = yn_Kind (g a)" "yl_ShortTag y (g' a) = yl_ShortTag y (g a)"
     "yn_Line (g' a) = yn_Line (g a)" "yn_Content (g' a) = yn_Content (g a)"
     "yn_Alias (g' a) = yn_Alias (g a)" "yl_Any y (g' a) = None \<longleftrightarrow> yl_Any y (g a) = None"
     "\<forall>kc \<in> set (pairs (yn_Content (g a))).
        yl_String y (g' (key_addr g (fst kc))) = yl_String y (g (key_addr g (fst kc)))"
    using "2.prems" by (auto simp: same_but_values_def)
  show ?case
    using 2 a like_convertScalar [of y "g' a" "g a"]
    by (cases "yn_Kind (g a)") (auto simp: Let_def split: list.split)
next
  case (3 y g n m k c cs)
  have same: "convertKey y m' (keyNode g' k) = convertKey y m (keyNode g k)"
    using 3 by (intro convertKey_same) auto
  show ?case
  proof (cases "convertKey y m (keyNode g k)")
    case (Inr key)
    have IH: "like (convert y g n c) (convert y g' n c)" using "3.IH"(1) [OF Inr "3.prems"(3)] .
    show ?thesis
    proof (cases "\<exists>v. convert y g n c = Some (Inr v)")
      case True
      then obtain v v' where v: "convert y g n c = Some (Inr v)" "convert y g' n c = Some (Inr v')"
        using IH by auto
      have "like (convertMapping y g n (m @ [(key, v)]) cs) (convertMapping y g' n (m' @ [(key, v')]) cs)"
        using "3.prems" by (intro "3.IH"(2) [OF Inr v(1) refl]) (auto simp: keys_def)
      then show ?thesis using v Inr same by simp
    next
      case False
      then consider "convert y g n c = None" | e where "convert y g n c = Some (Inl e)"
        by (metis not_None_eq sum.exhaust)
      then show ?thesis using IH Inr same by cases auto
    qed
  qed (simp add: same)
next
  case (6 y g n s c cs)
  have IH: "like (convert y g n c) (convert y g' n c)" using "6.IH"(1) [OF "6.prems"] .
  show ?case
  proof (cases "\<exists>v. convert y g n c = Some (Inr v)")
    case True
    then obtain v v' where v: "convert y g n c = Some (Inr v)" "convert y g' n c = Some (Inr v')"
      using IH by auto
    show ?thesis using "6.IH"(2) [OF v(1) refl "6.prems", of "s' @ [v']"] v by simp
  next
    case False
    then consider "convert y g n c = None" | e where "convert y g n c = Some (Inl e)"
      by (metis not_None_eq sum.exhaust)
    then show ?thesis using IH by cases auto
  qed
qed auto

text \<open>The walk itself never gives json.Marshal's error.\<close>

lemma convert_not_marshal:
  "convert y g n a \<noteq> Some (Inl (YMarshal f))"
  "convertMapping y g n m cs \<noteq> Some (Inl (YMarshal f))"
  "convertSequence y g n s cs \<noteq> Some (Inl (YMarshal f))"
proof (induction y g n a and y g n m cs and y g n s cs rule: convert_convertMapping_convertSequence.induct)
  case (2 y g n a)
  then show ?case by (auto simp: Let_def convertScalar_def split: Kind.split list.split option.split)
next
  case (3 y g n m k c cs)
  have "convertKey y m (keyNode g k) \<noteq> Inl (YMarshal f)" by (auto simp: convertKey_def split: option.split)
  then show ?case using 3 by (auto split: sum.split option.split)
next
  case (6 y g n s c cs)
  then show ?case by (auto split: sum.split option.split)
qed auto

section \<open>ToJSON\<close>

lemma ToJSON_single:
  "yl_Decode y data = (DNode g root, DEOF) \<Longrightarrow>
     ToJSON y n data = map_option (\<lambda>r. bindE r marshal_any) (convert y g n root)"
  by (simp add: ToJSON_def)

lemma those_None: "those xs = None \<longleftrightarrow> None \<in> set xs"
  by (induction xs) (auto split: option.splits)

text \<open>An error of json.Marshal always has a float to name.\<close>

lemma json_of_None: "json_of v = None \<longleftrightarrow> non_finite v \<noteq> []"
proof (induction v rule: json_of.induct)
  case (6 m)
  have "concat (map snd (sort_map (map (\<lambda>kv. (fst kv, non_finite (snd kv))) m))) \<noteq> [] \<longleftrightarrow> (\<exists>kv \<in> set m. non_finite (snd kv) \<noteq> [])"
    by (auto simp: sort_map_def)
  moreover have "json_of (GMap m) = None \<longleftrightarrow> (\<exists>kv \<in> set m. json_of (snd kv) = None)"
    by (simp add: those_None image_iff) metis
  ultimately show ?case using 6 by auto
next
  case (7 vs)
  then show ?case by (auto simp: those_None image_iff) metis+
qed simp_all

lemma marshal_any_eq_Inr:
  "marshal_any v = Inr out \<longleftrightarrow> (\<exists>j. json_of v = Some j \<and> out = print_json (go_quote True) (sort_json j))"
  by (auto simp: marshal_any_def split: option.split)

lemma ToJSON_writes:
  assumes "yl_Decode y data = (DNode g root, DEOF)" and "ToJSON y n data = Some r"
  shows "r = Inr out \<longleftrightarrow> (\<exists>v j. denotes y g root v \<and> json_of v = Some j \<and>
           out = print_json (go_quote True) (sort_json j))"
proof -
  obtain r' where "convert y g n root = Some r'" "r = bindE r' marshal_any"
    using assms(2) by (auto simp: ToJSON_single [OF assms(1)])
  then show ?thesis using convert_denotes(1) by (auto simp: bindE_eq_Inr marshal_any_eq_Inr)
qed

lemma accp_no_loop: "Wellfounded.accp R a \<Longrightarrow> R b a \<Longrightarrow> R a b \<Longrightarrow> False"
  by (induction arbitrary: b rule: accp.induct) blast

text \<open>Examples: the node lists of three small documents, and a library that reads them.\<close>

definition ex_graph :: "ynode list \<Rightarrow> ygraph" where
  "ex_graph ns a = (if a < length ns then ns ! a
     else \<lparr>yn_Kind = ScalarNode, yn_Tag = ''!!null'', yn_Value = [], yn_Line = 0, yn_Content = [], yn_Alias = 0\<rparr>)"

lemma ex_graph_all:
  "P \<lparr>yn_Kind = ScalarNode, yn_Tag = ''!!null'', yn_Value = [], yn_Line = 0, yn_Content = [], yn_Alias = 0\<rparr> \<Longrightarrow>
   list_all P ns \<Longrightarrow> P (ex_graph ns a)"
  by (simp add: ex_graph_def list_all_length)

definition ex_inner :: "Kind \<Rightarrow> nat list \<Rightarrow> ynode" where
  "ex_inner k cs = \<lparr>yn_Kind = k, yn_Tag = [], yn_Value = [], yn_Line = 1, yn_Content = cs, yn_Alias = 0\<rparr>"

definition ex_leaf :: "string \<Rightarrow> string \<Rightarrow> ynode" where
  "ex_leaf t v = \<lparr>yn_Kind = ScalarNode, yn_Tag = t, yn_Value = v, yn_Line = 1, yn_Content = [], yn_Alias = 0\<rparr>"

definition ex_alias :: "nat \<Rightarrow> ynode" where
  "ex_alias a = \<lparr>yn_Kind = AliasNode, yn_Tag = [], yn_Value = [], yn_Line = 1, yn_Content = [], yn_Alias = a\<rparr>"

text \<open>\<open>{b: &x 1, a: *x}\<close>\<close>

definition ex_shared :: ygraph where
  "ex_shared = ex_graph [ex_inner DocumentNode [1], ex_inner MappingNode [2, 3, 4, 5],
     ex_leaf ''!!str'' ''b'', ex_leaf ''!!int'' ''1'', ex_leaf ''!!str'' ''a'', ex_alias 3]"

text \<open>\<open>{a: &x [*x]}\<close>\<close>

definition ex_cyclic :: ygraph where
  "ex_cyclic = ex_graph [ex_inner DocumentNode [1], ex_inner MappingNode [2, 3],
     ex_leaf ''!!str'' ''a'', ex_inner SequenceNode [4], ex_alias 3]"

text \<open>\<open>{a: !!int KEY}\<close>\<close>

definition ex_secret :: "string \<Rightarrow> ygraph" where
  "ex_secret key = ex_graph [ex_inner DocumentNode [1], ex_inner MappingNode [2, 3],
     ex_leaf ''!!str'' ''a'', ex_leaf ''!!int'' key]"

definition ex_lib :: yaml_lib where
  "ex_lib =
     \<lparr>yl_Decode = (\<lambda>data. if data = ''shared'' then (DNode ex_shared 0, DEOF)
         else if data = ''cyclic'' then (DNode ex_cyclic 0, DEOF) else (DNode (ex_secret data) 0, DEOF)),
      yl_ShortTag = yn_Tag,
      yl_String = (\<lambda>node. if yn_Tag node = ''!!str'' then Some (yn_Value node) else None),
      yl_Any = (\<lambda>node. if yn_Tag node = ''!!str'' then Some (SString (yn_Value node))
         else if yn_Tag node = ''!!int'' \<and> yn_Value node = ''1'' then Some (SNum ''1'') else None)\<rparr>"

lemmas ex_yaml_defs = ex_graph_def ex_inner_def ex_leaf_def ex_alias_def ex_shared_def ex_cyclic_def
  ex_secret_def ex_lib_def

text \<open>C19: on a document whose pointers have no cycle, ToJSON returns with one unit of fuel
  for each rank, and what it returns is the JSON of the value the document stands for,
  keys sorted, exactly when there is such a value and JSON can write it.\<close>

theorem ToJSON_correct:
  assumes "yl_Decode y data = (DNode g root, DEOF)" and "ranked g rank" and "rank root < n"
  shows "\<exists>r. ToJSON y n data = Some r \<and>
     (\<forall>out. r = Inr out \<longleftrightarrow> (\<exists>v j. denotes y g root v \<and> json_of v = Some j \<and>
        out = print_json (go_quote True) (sort_json j)))"
proof -
  have "\<exists>r. ToJSON y n data = Some r"
    using convert_ranked [OF assms(2,3)] by (auto simp: ToJSON_single [OF assms(1)])
  then show ?thesis using ToJSON_writes [OF assms(1)] by blast
qed

definition ex_rank :: "nat \<Rightarrow> nat" where
  "ex_rank a = (if a = 0 then 3 else if a = 1 then 2 else if a = 5 then 1 else 0)"

lemma ex_shared_ranked: "ranked ex_shared ex_rank"
  by (auto simp: ranked_def children_def ex_yaml_defs ex_rank_def nth_Cons' split: if_splits)

lemma ToJSON_correct_witness:
  "\<exists>v j. denotes ex_lib ex_shared 0 v \<and> json_of v = Some j \<and>
     CHR ''{'' # dquote # ''a'' @ dquote # '':1,'' @ dquote # ''b'' @ dquote # '':1}''
       = print_json (go_quote True) (sort_json j)"
proof -
  let ?out = "CHR ''{'' # dquote # ''a'' @ dquote # '':1,'' @ dquote # ''b'' @ dquote # '':1}''"
  have "yl_Decode ex_lib ''shared'' = (DNode ex_shared 0, DEOF)" by (simp add: ex_lib_def)
  moreover have "ex_rank 0 < 4" by (simp add: ex_rank_def)
  moreover have "ToJSON ex_lib 4 ''shared'' = Some (Inr ?out)" by code_simp
  ultimately show ?thesis using ToJSON_correct [OF _ ex_shared_ranked] by fastforce
qed

text \<open>C28: ToJSON returns on a document exactly when its walk is well-founded. So it
  never returns on a sequence that holds an alias of itself, whatever the fuel: the code has
  no guard against a cycle.\<close>

theorem ToJSON_returns_iff:
  assumes "yl_Decode y data = (DNode g root, DEOF)"
  shows "(\<exists>n. ToJSON y n data \<noteq> None) \<longleftrightarrow> Wellfounded.accp (\<lambda>b a. visits y g a b) root"
  by (simp add: ToJSON_single [OF assms] convert_returns_iff [symmetric] del: not_None_eq)

lemma ex_cyclic_walk:
  "visits ex_lib ex_cyclic 0 1" "visits ex_lib ex_cyclic 1 3" "visits ex_lib ex_cyclic 3 4" "visits ex_lib ex_cyclic 4 3"
proof -
  show "visits ex_lib ex_cyclic 0 1" by (rule v_doc) (simp_all add: ex_yaml_defs)
  show "visits ex_lib ex_cyclic 1 3"
    by (rule v_map [where ps = "[]" and m = "[]" and k = 2 and key = "''a''" and ps' = "[]"])
      (simp_all add: ex_yaml_defs key_of_def keyNode_def)
  show "visits ex_lib ex_cyclic 3 4"
    by (rule v_seq [where cs = "[]" and vs = "[]" and cs' = "[]"]) (simp_all add: ex_yaml_defs)
  show "visits ex_lib ex_cyclic 4 3"
    using v_alias [of ex_cyclic 4 ex_lib] by (simp add: ex_yaml_defs)
qed

lemma ToJSON_returns_iff_witness: "\<forall>n. ToJSON ex_lib n ''cyclic'' = None"
proof -
  let ?R = "\<lambda>b a. visits ex_lib ex_cyclic a b"
  have "\<not> Wellfounded.accp ?R 3" using accp_no_loop [of ?R 3 4] ex_cyclic_walk by auto
  then have "\<not> Wellfounded.accp ?R 0" using ex_cyclic_walk accp_downward [of ?R] by metis
  moreover have "yl_Decode ex_lib ''cyclic'' = (DNode ex_cyclic 0, DEOF)" by (simp add: ex_lib_def)
  ultimately show ?thesis using ToJSON_returns_iff by blast
qed

text \<open>What ToJSON writes is read back by encoding/json as the value the document
  stands for, so the package's callers decode the document itself.\<close>

theorem ToJSON_reads_back:
  assumes "yl_Decode y data = (DNode g root, DEOF)" and "clean_graph y g" and "ToJSON y n data = Some (Inr out)"
  shows "\<exists>v j. denotes y g root v \<and> json_of v = Some j \<and>
     (depth (sort_json j) \<le> max_depth \<longrightarrow> unmarshal out = Some (sort_json j))"
proof -
  obtain v j where v: "denotes y g root v" "json_of v = Some j" "out = print_json (go_quote True) (sort_json j)"
    using ToJSON_writes [OF assms(1,3)] by blast
  then have "json_wf (sort_json j)" using assms(2) by (auto intro: json_wf_denotes json_wf_sort_json)
  then show ?thesis using v by (auto intro: html.unmarshal_print)
qed

lemma ex_shared_value:
  "denotes ex_lib ex_shared 0 v \<longleftrightarrow> v = GMap [(''b'', GScalar (SNum ''1'')), (''a'', GScalar (SNum ''1''))]"
proof -
  have "convert ex_lib ex_shared 4 0 = Some (Inr (GMap [(''b'', GScalar (SNum ''1'')), (''a'', GScalar (SNum ''1''))]))"
    by code_simp
  from convert_denotes(1) [OF this, of v] show ?thesis by auto
qed

lemma clean_node_ex_lib: "clean_node ex_lib node \<longleftrightarrow> valid_utf8 (yn_Value node)"
proof -
  have "show_int 1 = ''1''" by code_simp
  then have "is_int_lit ''1''" using is_int_lit_show [of 1] by simp
  then show ?thesis by (simp add: clean_node_def ex_lib_def)
qed

lemma ToJSON_reads_back_witness:
  "unmarshal (CHR ''{'' # dquote # ''a'' @ dquote # '':1,'' @ dquote # ''b'' @ dquote # '':1}'')
     = Some (JObj [(''a'', JNum ''1''), (''b'', JNum ''1'')])"
proof -
  let ?out = "CHR ''{'' # dquote # ''a'' @ dquote # '':1,'' @ dquote # ''b'' @ dquote # '':1}''"
  let ?j = "JObj [(''b'', JNum ''1''), (''a'', JNum ''1'')]"
  have "valid_utf8 (yn_Value (ex_shared a))" for a
    unfolding ex_shared_def by (rule ex_graph_all [where P = "\<lambda>node. valid_utf8 (yn_Value node)"]) code_simp+
  then have "clean_node ex_lib (ex_shared a)" for a by (simp add: clean_node_ex_lib)
  then have "clean_graph ex_lib ex_shared" by (simp add: clean_graph_def)
  moreover have "yl_Decode ex_lib ''shared'' = (DNode ex_shared 0, DEOF)" by (simp add: ex_lib_def)
  moreover have "ToJSON ex_lib 4 ''shared'' = Some (Inr ?out)" by code_simp
  ultimately have "depth (sort_json ?j) \<le> max_depth \<longrightarrow> unmarshal ?out = Some (sort_json ?j)"
    using ToJSON_reads_back [of ex_lib "''shared''" ex_shared 0 4 ?out] by (auto simp: ex_shared_value)
  moreover have "sort_json ?j = JObj [(''a'', JNum ''1''), (''b'', JNum ''1'')]" by code_simp
  moreover have "depth (sort_json ?j) \<le> max_depth" by code_simp
  ultimately show ?thesis by simp
qed

text \<open>C20: an error of ToJSON does not depend on the text of a scalar: a document that differs in the text of its
  values only, and where the same scalars decode, has the same error; the one exception is json.Marshal's error
  on a .nan or .inf, and all that tells of the values is which of NaN, +Inf and -Inf is among them. So once
  wg.yaml parses, a private key in it is in no message.\<close>

theorem ToJSON_errors_hide_values:
  assumes "yl_Decode y data = (DNode g root, DEOF)" and "yl_Decode y data' = (DNode g' root, DEOF)"
    and "same_but_values y g g'" and "ToJSON y n data = Some (Inl e)"
  shows "case e of YMarshal f \<Rightarrow> (\<exists>v. convert y g n root = Some (Inr v) \<and> f \<in> set (non_finite v))
    | _ \<Rightarrow> ToJSON y n data' = Some (Inl e)"
proof -
  obtain r where r: "convert y g n root = Some r" "bindE r marshal_any = Inl e"
    using assms(4) by (auto simp: ToJSON_single [OF assms(1)])
  show ?thesis
  proof (cases r)
    case (Inl e')
    then have "convert y g' n root = Some (Inl e)" using convert_like(1) [OF assms(3), of n root] r by simp
    then have same: "ToJSON y n data' = Some (Inl e)" by (simp add: ToJSON_single [OF assms(2)])
    have "e \<noteq> YMarshal f" for f using convert_not_marshal(1) [of y g n root f] r Inl by auto
    then show ?thesis using same by (auto split: yerr.split)
  next
    case (Inr v)
    then have "json_of v = None" "e = YMarshal (hd (non_finite v))"
      using r(2) by (auto simp: marshal_any_def split: option.splits)
    then show ?thesis using r(1) Inr json_of_None hd_in_set by auto
  qed
qed

lemma ToJSON_errors_hide_values_witness:
  "ToJSON ex_lib 4 ''key two'' = Some (Inl (YScalar 1 ''!!int''))"
proof -
  have d: "yl_Decode ex_lib ''key one'' = (DNode (ex_secret ''key one'') 0, DEOF)"
    "yl_Decode ex_lib ''key two'' = (DNode (ex_secret ''key two'') 0, DEOF)" by (simp_all add: ex_lib_def)
  have e: "ToJSON ex_lib 4 ''key one'' = Some (Inl (YScalar 1 ''!!int''))" by code_simp
  have "same_but_values ex_lib (ex_secret ''key one'') (ex_secret ''key two'')"
    by (auto simp: same_but_values_def ex_yaml_defs key_addr_def nth_Cons')
  then show ?thesis using ToJSON_errors_hide_values [OF d _ e] by simp
qed

end
