(* ===== verification/Fakeproxy.thy ===== *)
theory Fakeproxy
  imports Dhtproxy_Props
begin

text \<open>
  test/e2e/openwrt/fakeproxy: the HTTP server that stands in for a dhtproxy instance in the
  end-to-end tests, one value per key. Its handler is a step on the table of values; the mutex
  makes each request one step. \<open>serve\<close> joins it to the client of internal/dhtproxy: a request
  whose URL begins with the server's base reaches the handler with the rest as its path.
\<close>

section \<open>The server\<close>

datatype http_method = MethodGet | MethodPost | OtherMethod string

text \<open>A request: the body with whether it can be read to its end. getDelay only takes time.\<close>

record HttpRequest =
  hr_Method :: http_method
  hr_Path :: string
  hr_Body :: "string \<times> bool"

record proxyStore =
  ps_values :: "string \<Rightarrow> string option"
  ps_getDelay :: int

definition newStore :: "int \<Rightarrow> proxyStore" where
  "newStore delay = \<lparr>ps_values = Map.empty, ps_getDelay = delay\<rparr>"

text \<open>A response without a body.\<close>

definition status_only :: "int \<Rightarrow> Response" where
  "status_only st = \<lparr>rsp_Status = st, rsp_Body = ([], True)\<rparr>"

definition proxy_get :: "string \<Rightarrow> proxyStore \<Rightarrow> Response \<times> proxyStore" where
  "proxy_get key s =
     (case ps_values s key of None \<Rightarrow> (status_only 404, s)
      | Some v \<Rightarrow> (\<lparr>rsp_Status = 200, rsp_Body = (v @ [newline], True)\<rparr>, s))"

definition proxy_put :: "string \<times> bool \<Rightarrow> string \<Rightarrow> proxyStore \<Rightarrow> Response \<times> proxyStore" where
  "proxy_put body key s =
     (if key = [] then (status_only 400, s)
      else (case body of (b, ok) \<Rightarrow>
        if \<not> ok then (status_only 400, s)
        else (status_only 200, s\<lparr>ps_values := (ps_values s)(key \<mapsto> b)\<rparr>)))"

definition ServeHTTP :: "HttpRequest \<Rightarrow> proxyStore \<Rightarrow> Response \<times> proxyStore" where
  "ServeHTTP r s =
     (let key = (if has_prefix (hr_Path r) ''/'' then drop 1 (hr_Path r) else hr_Path r) in
      case hr_Method r of
        MethodGet \<Rightarrow> proxy_get key s
      | MethodPost \<Rightarrow> proxy_put (hr_Body r) key s
      | OtherMethod _ \<Rightarrow> (status_only 405, s))"

section \<open>The server behind the client\<close>

text \<open>The request that arrives: the path is what follows the base of the URL, which is taken to have no path of
  its own (a prefix there would stand before every key, for GET and POST alike); a URL of another host does not
  arrive.\<close>

definition path_of :: "string \<Rightarrow> string \<Rightarrow> string option" where
  "path_of base url = (if has_prefix url (base @ ''/'') then Some (drop (length base) url) else None)"

fun arrives :: "string \<Rightarrow> Request \<Rightarrow> HttpRequest option" where
  "arrives base (GetReq url) =
     map_option (\<lambda>p. \<lparr>hr_Method = MethodGet, hr_Path = p, hr_Body = ([], True)\<rparr>) (path_of base url)"
| "arrives base (PostReq url body) =
     map_option (\<lambda>p. \<lparr>hr_Method = MethodPost, hr_Path = p, hr_Body = (body, True)\<rparr>) (path_of base url)"

definition serve :: "string \<Rightarrow> proxyStore transport" where
  "serve base req s =
     (case arrives base req of None \<Rightarrow> (None, s)
      | Some r \<Rightarrow> (case ServeHTTP r s of (resp, s') \<Rightarrow> (Some resp, s')))"

definition serve_all :: "string \<Rightarrow> Request list \<Rightarrow> proxyStore \<Rightarrow> proxyStore" where
  "serve_all base reqs s = fold (\<lambda>req s. snd (serve base req s)) reqs s"

section \<open>What it holds\<close>

text \<open>The bodies posted under a key.\<close>

fun posted :: "string \<Rightarrow> string \<Rightarrow> Request \<Rightarrow> string option" where
  "posted base key (PostReq url body) = (if url = base @ ''/'' @ key then Some body else None)"
| "posted base key (GetReq url) = None"

definition posts :: "string \<Rightarrow> string \<Rightarrow> Request list \<Rightarrow> string list" where
  "posts base key reqs = List.map_filter (posted base key) reqs"

lemma path_of_iff: "path_of base url = Some p \<longleftrightarrow> (\<exists>q. p = CHR ''/'' # q \<and> url = base @ CHR ''/'' # q)"
  by (auto simp: path_of_def has_prefix_iff)

lemma posted_path: "posted base key (PostReq url body) = (if path_of base url = Some (CHR ''/'' # key) then Some body else None)"
  by (simp add: path_of_iff)

declare posted.simps(1) [simp del]

lemma serve_values:
  assumes "key \<noteq> []"
  shows "ps_values (snd (serve base req s)) key =
    (case posted base key req of None \<Rightarrow> ps_values s key | Some b \<Rightarrow> Some b)"
proof (cases req)
  case (PostReq url body)
  show ?thesis
  proof (cases "path_of base url")
    case None
    then show ?thesis by (simp add: PostReq serve_def posted_path)
  next
    case (Some p)
    then obtain q where "p = CHR ''/'' # q" by (auto simp: path_of_iff)
    then show ?thesis
      using assms Some by (auto simp: PostReq serve_def posted_path ServeHTTP_def proxy_put_def has_prefix_def)
  qed
next
  case (GetReq url)
  then show ?thesis
    by (cases "path_of base url") (auto simp: serve_def ServeHTTP_def proxy_get_def Let_def split: option.split)
qed

lemma serve_all_values:
  assumes "key \<noteq> []"
  shows "ps_values (serve_all base reqs s) key =
    (case rev (posts base key reqs) of [] \<Rightarrow> ps_values s key | b # _ \<Rightarrow> Some b)"
proof (induction reqs arbitrary: s rule: rev_induct)
  case Nil
  then show ?case by (simp add: serve_all_def posts_def map_filter_simps)
next
  case (snoc req reqs)
  have "posts base key (reqs @ [req]) = posts base key reqs @ (case posted base key req of None \<Rightarrow> [] | Some b \<Rightarrow> [b])"
    by (simp add: posts_def List.map_filter_def split: option.split)
  then show ?case
    using snoc [of s] by (simp add: serve_all_def serve_values [OF assms] split: option.split)
qed

lemma serve_get:
  "serve base (GetReq (base @ CHR ''/'' # key)) s = (let (resp, s') = proxy_get key s in (Some resp, s'))"
proof -
  have "path_of base (base @ CHR ''/'' # key) = Some (CHR ''/'' # key)" by (simp add: path_of_iff)
  then show ?thesis by (simp add: serve_def ServeHTTP_def has_prefix_def Let_def split: prod.split)
qed

lemma proxy_get_same: "snd (proxy_get key s) = s"
  by (simp add: proxy_get_def split: option.split)

section \<open>Put, then Get\<close>

lemma hex_key_nonempty: "isHexKey key \<Longrightarrow> key \<noteq> []"
  by (auto simp: isHexKey_def)

text \<open>The client that asks this one proxy gets the value of the last request that posted under the
  key, whole and alone, whatever was posted before and under other keys.\<close>

lemma fakeproxy_keeps_last:
  assumes "c_baseURLs c = [base]" and "isHexKey key" and "1 \<le> c_maxValues c"
    and "rev (posts base key reqs) = put_payload v # earlier" and "length (put_payload v) \<le> c_maxLineSize c"
  shows "Get pu (serve base) c key (serve_all base reqs s)
    = ((\<lparr>br_Values = [v], br_Skipped = 0, br_Dropped = 0, br_URL = base\<rparr>, None), serve_all base reqs s)"
proof -
  let ?s = "serve_all base reqs s"
  have "ps_values ?s key = Some (put_payload v)"
    using serve_all_values [OF hex_key_nonempty [OF assms(2)]] assms(4) by simp
  then have got: "serve base (GetReq (base @ CHR ''/'' # key)) ?s
      = (Some \<lparr>rsp_Status = 200, rsp_Body = (stored_body [v], True)\<rparr>, ?s)"
    by (simp add: serve_get proxy_get_def stored_body_def)
  have "parseValues c (stored_body [v], True) base
      = Some \<lparr>br_Values = [v], br_Skipped = 0, br_Dropped = 0, br_URL = base\<rparr>"
    using parse_stored [of c "[v]" base] assms(3, 5) by simp
  then show ?thesis using assms(1, 2) got by (simp add: Get_def)
qed

text \<open>A key under which nothing was posted has no value yet, which is no error.\<close>

lemma fakeproxy_unknown:
  assumes "c_baseURLs c = [base]" and "isHexKey key" and "posts base key reqs = []" and "ps_values s key = None"
  shows "Get pu (serve base) c key (serve_all base reqs s) = ((empty_result base, None), serve_all base reqs s)"
proof -
  let ?s = "serve_all base reqs s"
  have "ps_values ?s key = None" using serve_all_values [OF hex_key_nonempty [OF assms(2)]] assms(3, 4) by simp
  then have "serve base (GetReq (base @ CHR ''/'' # key)) ?s = (Some (status_only 404), ?s)"
    by (simp add: serve_get proxy_get_def)
  then show ?thesis using assms(1, 2) by (simp add: Get_def status_only_def)
qed

text \<open>Every post under a key that is not empty is answered with 200.\<close>

lemma serve_put:
  "isHexKey key \<Longrightarrow> fst (serve base (put_request base key v) s) = Some (status_only 200)"
proof -
  assume "isHexKey key"
  then have "key \<noteq> []" by (rule hex_key_nonempty)
  moreover have "path_of base (base @ CHR ''/'' # key) = Some (CHR ''/'' # key)" by (simp add: path_of_iff)
  ultimately show ?thesis by (simp add: serve_def put_request_def ServeHTTP_def proxy_put_def has_prefix_def)
qed

end
