(* ===== verification/Rendezvous.thy ===== *)
theory Rendezvous
  imports Fakeproxy Publish_Props Fetch_Props
begin

text \<open>
  The two programs joined by a proxy: what publish --once posts to the server of the end-to-end
  tests is what the agent's cycle then fetches. Every request of a round is traced back to the
  files of one node; the last one under the node's DHT key decides what the agent gets.
\<close>

section \<open>The requests of a round\<close>

text \<open>The nodes a round is about, and a request that carries the bundle of one of them.\<close>

definition round_scope :: "ProvEnv \<Rightarrow> string \<Rightarrow> tree \<Rightarrow> (string \<times> string) set" where
  "round_scope env ns t = {(n, nid).
     (if ns = [] then \<exists>names t'. Namespaces (pe_Dir env) t = (Inr names, t') \<and> n \<in> set names else n = ns)
     \<and> (\<exists>ids t'. Nodes (pe_Dir env) n t = (Inr ids, t') \<and> nid \<in> set ids)}"

definition round_request :: "ProvEnv \<Rightarrow> int \<Rightarrow> tree \<Rightarrow> (string \<times> string) set \<Rightarrow> Request \<Rightarrow> bool" where
  "round_request env now t scope req = (\<exists>n node key k b nonce v base. req = put_request base key v
     \<and> (n, nd_NodeID node) \<in> scope \<and> dht_Key n (nd_NodeID node) = Inr key
     \<and> node_files env n t node \<and> controller_key env n t k
     \<and> buildBundle (pe_width env) n node (now div 1000000000) = Inr b \<and> length nonce = nonceSize
     \<and> Seal (pe_seal env) (Some nonce) (marshal_bundle b) (nd_IdentityPublicKey node) k = Some v)"

lemma round_requestE:
  assumes "round_request env now t scope req"
  obtains n node key k b nonce v base where "req = put_request base key v" "(n, nd_NodeID node) \<in> scope"
    "dht_Key n (nd_NodeID node) = Inr key" "node_files env n t node" "controller_key env n t k"
    "buildBundle (pe_width env) n node (now div 1000000000) = Inr b" "length nonce = nonceSize"
    "Seal (pe_seal env) (Some nonce) (marshal_bundle b) (nd_IdentityPublicKey node) k = Some v"
  using assms unfolding round_request_def by (elim exE conjE) (rule that)

text \<open>A step of a round over the files of \<open>t\<close> only adds such requests.\<close>

definition posting :: "ProvEnv \<Rightarrow> int \<Rightarrow> tree \<Rightarrow> (string \<times> string) set \<Rightarrow> Provd \<Rightarrow> Provd \<Rightarrow> bool" where
  "posting env now t scope s s' = (going s s' \<and> (quiet t (pv_tree s) \<and> list_all (round_request env now t scope) (pv_sent s)
     \<longrightarrow> list_all (round_request env now t scope) (pv_sent s')))"

interpretation round: run_order "posting env now t scope" for env now t scope
proof unfold_locales
  fix s u v assume 1: "posting env now t scope s u" and 2: "posting env now t scope u v"
  then have "going s v" using going_trans by (auto simp: posting_def)
  moreover have "quiet t (pv_tree u)" if "quiet t (pv_tree s)"
    using 1 that quiet_trans by (auto simp: posting_def going_def)
  ultimately show "posting env now t scope s v" using 1 2 by (auto simp: posting_def)
qed (simp add: posting_def)

context run_order
begin

lemma collect_each:
  "(\<And>x s r s'. x \<in> set xs \<Longrightarrow> f x s = (r, s') \<Longrightarrow> P s s') \<Longrightarrow> collect f xs s = (rs, s') \<Longrightarrow> P s s'"
proof (induction xs arbitrary: s rs)
  case (Cons x xs)
  obtain r s1 rs1 where 1: "f x s = (r, s1)" "collect f xs s1 = (rs1, s')"
    using Cons.prems(2) by (auto split: prod.splits)
  then show ?case using Cons.IH [OF _ 1(2)] Cons.prems(1) trans by (metis list.set_intros)
qed (auto intro: refl)

end

lemma posting_tree_only: "tree_only s s' \<Longrightarrow> posting env now t scope s s'"
  by (simp add: posting_def going_tree_only tree_onlyD)

lemma publishNode_posting:
  assumes "publishNode env c dep nid now s = (r, s')" and "env_ok env" and "(dp_Namespace dep, nid) \<in> scope"
    and "controller_key env (dp_Namespace dep) t (dp_ControllerPrivateKey dep)"
  shows "posting env now t scope s s'"
proof -
  obtain x s1 where 1: "prepareNode env dep nid now s = (x, s1)" by fastforce
  then show ?thesis
  proof (cases rule: prepareNode_cases)
    case (bad r0)
    then show ?thesis using assms(1) 1 by (auto simp: publishNode_def intro: posting_tree_only)
  next
    case (good r0 node b)
    have p: "buildBundle (pe_width env) (dp_Namespace dep) node (now div 1000000000) = Inr b"
      "dht_Key (dp_Namespace dep) (nd_NodeID node) = Inr (nr_Key r0)" using good(2) by (simp_all add: prepared_def)
    have e: "nr_Err r0 = None" using good(2) by (auto simp: prepared_def dest: arg_cong [of _ _ nr_Err])
    have sp: "sealAndPutNode env c dep node r0 (marshal_bundle b) s1 = (r, s')"
      using assms(1) 1 good(1) by (simp add: publishNode_def)
    have g: "going s s'" by (rule publishNode_result(1) [OF assms(1)])
    have sent: "pv_sent s1 = pv_sent s" using tree_onlyD(2) [OF good(5)] .
    consider "pv_sent s' = pv_sent s" | v where
        "Seal (pe_seal env) (pe_bytes env nonceSize (pv_rand s1)) (marshal_bundle b) (nd_IdentityPublicKey node)
          (dp_ControllerPrivateKey dep) = Some v" "pv_sent s' = pv_sent s @ put_requests c (nr_Key r0) v"
      using sealAndPutNode_result(5) [OF sp e] sent by auto
    then show ?thesis
    proof cases
      case 1
      then show ?thesis using g by (simp add: posting_def)
    next
      case (2 v)
      obtain nonce where n: "pe_bytes env nonceSize (pv_rand s1) = Some nonce" "length nonce = nonceSize"
        using 2(1) assms(2) by (auto simp: Seal_def env_ok_def split: option.splits)
      have "round_request env now t scope req" if "req \<in> set (put_requests c (nr_Key r0) v)" and q: "quiet t (pv_tree s)" for req
      proof -
        obtain base where r: "req = put_request base (nr_Key r0) v" using \<open>req \<in> _\<close> by (auto simp: put_requests_def split: if_splits)
        have "node_files env (dp_Namespace dep) t node"
          using good(4) same_files(1) [of "pv_tree s" t] q by (simp add: quiet_def)
        then show ?thesis
          unfolding round_request_def using r p n 2(1) assms(3, 4) good(3)
          by (intro exI [of _ "dp_Namespace dep"] exI [of _ node] exI [of _ "nr_Key r0"] exI [of _ "dp_ControllerPrivateKey dep"]
              exI [of _ b] exI [of _ nonce] exI [of _ v] exI [of _ base]) simp
      qed
      then show ?thesis using g 2(2) by (auto simp: posting_def list_all_iff)
    qed
  qed
qed

lemma publishNamespace_posting:
  assumes "publishNamespace env n now s = (rs, s')" and "env_ok env" and "fs_faults (tr_fs t) = []" and "quiet t (pv_tree s)"
    and "\<And>ids t' nid. Nodes (pe_Dir env) n t = (Inr ids, t') \<Longrightarrow> nid \<in> set ids \<Longrightarrow> (n, nid) \<in> scope"
  shows "posting env now t scope s s'"
proof -
  obtain d s1 where 1: "on_tree (ReadDeployment (pe_yaml env) (pe_Dir env) n) s = (d, s1)" by fastforce
  obtain ids s2 where 2: "on_tree (Nodes (pe_Dir env) n) s1 = (ids, s2)" by fastforce
  have o: "tree_only s s1" "tree_only s1 s2" by (rule on_tree_only [OF reads_tree(1) 1] on_tree_only [OF reads_tree(3) 2])+
  have p: "posting env now t scope s s1" "posting env now t scope s1 s2" using o by (simp_all add: posting_tree_only)
  have q: "quiet t (pv_tree s1)" by (rule quiet_trans [OF assms(4) tree_onlyD(1) [OF o(1)]])
  consider "s' = s1" | "s' = s2"
    | dep nids c where "d = Inr dep" "ids = Inr nids" "collect (\<lambda>nodeID. publishNode env c dep nodeID now) nids s2 = (rs, s')"
    using assms(1) 1 2 by (auto simp: publishNamespace_def split: sum.splits serr.splits)
  then show ?thesis
  proof cases
    case 3
    obtain u where rd: "ReadDeployment (pe_yaml env) (pe_Dir env) n (pv_tree s) = (Inr dep, u)"
      using on_tree_run [OF 1] 3(1) by simp
    have k: "controller_key env n t (dp_ControllerPrivateKey dep)" and dn: "dp_Namespace dep = n"
      using ReadDeployment_key [OF rd refl refl] assms(4) same_files(2) [of "pv_tree s" t] by (simp_all add: quiet_def)
    obtain y u' where y: "Nodes (pe_Dir env) n t = (y, u')" by fastforce
    have "y = Inr nids" using reads_again(1) [OF reads_tree(3) q assms(3) y on_tree_run [OF 2]] 3(2) by simp
    then have "posting env now t scope s2 s'"
      using assms(2, 5) y k dn by (intro round.collect_each [OF _ 3(3)]) (auto intro: publishNode_posting)
    then show ?thesis using p round.trans by blast
  qed (use p round.trans in blast)+
qed

lemma publish_once_posts:
  assumes "publish_once env ns now s = (CmdExit 0, s')" and "env_ok env" and "fs_faults (tr_fs (pv_tree s)) = []"
    and "pv_sent s = []"
  shows "list_all (round_request env now (pv_tree s) (round_scope env ns (pv_tree s))) (pv_sent s')"
proof -
  let ?t = "pv_tree s" and ?scope = "round_scope env ns (pv_tree s)"
  obtain reports s1 where 1: "publishRound env ns now s = (Inr reports, s1)" "pv_sent s' = pv_sent s1"
    using assms(1) by (rule publish_once_0)
  obtain names s0 rss where 2: "resolveNamespaces env ns s = (Inr names, s0)"
    "collect (\<lambda>namespace. publishNamespace env namespace now) names s0 = (rss, s1)"
    using 1(1) by (rule publishRound_Inr)
  note r = resolveNamespaces_Inr [OF 2(1)]
  have "posting env now ?t ?scope u v" if "n \<in> set names" "publishNamespace env n now u = (rs, v)" "quiet ?t (pv_tree u)" for n u rs v
    using that r(2) by (intro publishNamespace_posting [OF that(2) assms(2, 3) that(3)]) (auto simp: round_scope_def split: if_splits)
  then have each: "posting env now ?t ?scope u v" if "n \<in> set names" "publishNamespace env n now u = (rs, v)" for n u rs v
    using that once.goesD [OF goes_publishNamespace that(2)] by (auto simp: posting_def)
  have "posting env now ?t ?scope s0 s1" by (rule round.collect_each [OF each 2(2)])
  moreover have "posting env now ?t ?scope s s0" by (rule posting_tree_only [OF r(1)])
  moreover have "quiet ?t (pv_tree s0)" by (rule tree_onlyD(1) [OF r(1)])
  ultimately show ?thesis using 1(2) assms(4) tree_onlyD(2) [OF r(1)] by (simp add: posting_def)
qed

section \<open>The last value under a key\<close>

lemma dht_Key_hex: "dht_Key n nid = Inr key \<Longrightarrow> isHexKey key"
  by (auto simp: Key_Inr hex_isHex [OF sha1_length])

lemma same_url: "isHexKey key \<Longrightarrow> isHexKey key' \<Longrightarrow> base' @ ''/'' @ key' = base @ ''/'' @ key \<Longrightarrow> key' = key"
  by (auto simp: isHexKey_def append_eq_append_conv)

lemma controller_key_unique: "controller_key env n t k \<Longrightarrow> controller_key env n t k' \<Longrightarrow> k' = k"
  by (auto simp: controller_key_def)

lemma last_post:
  assumes "list_all (round_request env now t scope) reqs" and "put_request base key v0 \<in> set reqs" and "dht_Key ns nid = Inr key"
    and "\<And>n nid'. (n, nid') \<in> scope \<Longrightarrow> dht_Key n nid' = dht_Key ns nid \<Longrightarrow> n = ns \<and> nid' = nid"
  obtains node k b nonce v earlier where "rev (posts base key reqs) = put_payload v # earlier" "nd_NodeID node = nid"
    "node_files env ns t node" "controller_key env ns t k" "buildBundle (pe_width env) ns node (now div 1000000000) = Inr b"
    "length nonce = nonceSize" "Seal (pe_seal env) (Some nonce) (marshal_bundle b) (nd_IdentityPublicKey node) k = Some v"
proof -
  have set: "set (posts base key reqs) = {b. \<exists>req \<in> set reqs. posted base key req = Some b}"
    by (force simp: posts_def List.map_filter_def)
  have "posted base key (put_request base key v0) = Some (put_payload v0)" by (simp add: put_request_def posted.simps)
  then have "posts base key reqs \<noteq> []" using set assms(2) by (metis (mono_tags, lifting) empty_iff empty_set mem_Collect_eq)
  then obtain body earlier where last: "rev (posts base key reqs) = body # earlier" by (cases "rev (posts base key reqs)") auto
  then have "body \<in> set (posts base key reqs)" by (metis list.set_intros(1) set_rev)
  then obtain req where req: "req \<in> set reqs" "posted base key req = Some body" using set by blast
  have "round_request env now t scope req" using assms(1) req(1) by (simp add: list_all_iff)
  then show ?thesis
  proof (rule round_requestE)
    fix n node key' k b nonce v base'
    assume r: "req = put_request base' key' v" "(n, nd_NodeID node) \<in> scope"
      "dht_Key n (nd_NodeID node) = Inr key'" "node_files env n t node" "controller_key env n t k"
      "buildBundle (pe_width env) n node (now div 1000000000) = Inr b" "length nonce = nonceSize"
      "Seal (pe_seal env) (Some nonce) (marshal_bundle b) (nd_IdentityPublicKey node) k = Some v"
    have "base' @ ''/'' @ key' = base @ ''/'' @ key" and body: "body = put_payload v"
      using req(2) r(1) by (auto simp: put_request_def posted.simps split: if_splits)
    then have "key' = key" using same_url dht_Key_hex r(3) assms(3) by blast
    then have "n = ns" "nd_NodeID node = nid" using assms(3, 4) r(2, 3) by auto
    then show ?thesis using that last body r(4-8) by simp
  qed
qed

section \<open>The agent's half\<close>

text \<open>An agent that reaches the proxy at \<open>base\<close>, with the box that the controller uses.\<close>

definition joined :: "ProvEnv \<Rightarrow> ('r, proxyStore) AEnv \<Rightarrow> (Key \<Rightarrow> Key) \<Rightarrow> string \<Rightarrow> bool" where
  "joined env aenv pub base = (e_http aenv = serve base \<and> e_w aenv \<in> {32, 64}
     \<and> box_law (pe_seal env) (e_open aenv) pub \<and> box_overhead (pe_seal env))"

text \<open>The agent's files, its configuration and the controller's tree \<open>t\<close> know each other's keys.\<close>

definition enrolled :: "ProvEnv \<Rightarrow> tree \<Rightarrow> Deployment \<Rightarrow> Config \<Rightarrow> fs \<Rightarrow> (Key \<Rightarrow> Key) \<Rightarrow> bool" where
  "enrolled env t dep cfg f pub = (\<exists>d rpriv. fs_files f (cfg_IdentityKeyPath cfg) = Some d \<and> fs_faults f = []
     \<and> ParseKey (f_data d) = Inr rpriv \<and> ParseKey (cfg_ControllerPubkey cfg) = Inr (pub (dp_ControllerPrivateKey dep))
     \<and> (\<forall>node. node_files env (cfg_Namespace cfg) t node \<and> nd_NodeID node = cfg_NodeID cfg
          \<longrightarrow> nd_IdentityPublicKey node = pub rpriv))"

lemma dial_New_caps: "dial_New pu typ bases = Inr c \<Longrightarrow> c_maxLineSize c = maxLineSize \<and> 1 \<le> c_maxValues c"
  by (auto simp: dial_New_def NewClient_def defaultMaxValues_def Let_def split: if_splits sum.splits)

lemma fetch_found:
  assumes "loadIdentityKey (cfg_IdentityKeyPath cfg) (w_fs (ag_sys a)) = (Inr rpriv, f)"
    and "ParseKey (cfg_ControllerPubkey cfg) = Inr cpub" and "dht_Key (cfg_Namespace cfg) (cfg_NodeID cfg) = Inr key"
    and "newBackend aenv cfg = Inr c"
    and "Get (e_url aenv) (e_http aenv) c key (ag_net a)
      = ((\<lparr>br_Values = [v], br_Skipped = 0, br_Dropped = 0, br_URL = base\<rparr>, None), ag_net a)"
    and "decryptAndSelect (e_w aenv) (e_open aenv) [v] cpub rpriv (cfg_Namespace cfg) (cfg_NodeID cfg) = (Some b, stats)"
  shows "fetch_bundle aenv cfg a = (Inr (Some b), a\<lparr>ag_sys := (ag_sys a)\<lparr>w_fs := f\<rparr>\<rparr>)"
  using assms by (simp add: fetch_bundle_def andThen_def wrap_def on_fs_def of_sum_def ret_def get_values_def proxy_Get_def
      only_if_def select_value_def)

text \<open>C1: what a node's operator wrote is what its router gets. After publish --once has exited with 0, an agent
  that holds the node's identity key and the controller's public key, and asks a proxy that has received the
  round's requests, fetches the bundle built from the node's files in this round (its maps in key order), and its
  cycle goes on to compare and apply exactly this bundle; whatever the proxy held before, and whatever other nodes
  were published, as long as no other node of the round has the same DHT key.\<close>

theorem published_reaches_agent:
  assumes "publish_once env ns now s = (CmdExit 0, s')" and "env_ok env" and "fs_faults (tr_fs (pv_tree s)) = []"
    and "pv_sent s = []" and "(cfg_Namespace cfg, cfg_NodeID cfg) \<in> round_scope env ns (pv_tree s)"
    and "ReadDeployment (pe_yaml env) (pe_Dir env) (cfg_Namespace cfg) (pv_tree s) = (Inr dep, t)"
    and "prov_Backend env (dp_Backend dep) = Inr c" and "base \<in> set (c_baseURLs c)"
    and "\<And>n nid. (n, nid) \<in> round_scope env ns (pv_tree s) \<Longrightarrow>
      dht_Key n nid = dht_Key (cfg_Namespace cfg) (cfg_NodeID cfg) \<Longrightarrow> n = cfg_Namespace cfg \<and> nid = cfg_NodeID cfg"
    and "joined env aenv pub base" and "enrolled env (pv_tree s) dep cfg (w_fs (ag_sys a)) pub"
    and "newBackend aenv cfg = Inr c'" and "c_baseURLs c' = [base]" and "ag_net a = serve_all base (pv_sent s') store"
  shows "\<exists>node b a'. node_files env (cfg_Namespace cfg) (pv_tree s) node \<and> nd_NodeID node = cfg_NodeID cfg
    \<and> buildBundle (pe_width env) (cfg_Namespace cfg) node (now div 1000000000) = Inr b
    \<and> fetch_bundle aenv cfg a = (Inr (Some (norm_bundle b)), a') \<and> same_sys (ag_sys a) (ag_sys a')
    \<and> (\<forall>forceAll. runFetchApply aenv cfg forceAll a = checkAndApply aenv cfg (norm_bundle b) forceAll a')"
proof -
  let ?n = "cfg_Namespace cfg" and ?nid = "cfg_NodeID cfg" and ?t = "pv_tree s"
  obtain d rpriv where ag: "fs_files (w_fs (ag_sys a)) (cfg_IdentityKeyPath cfg) = Some d" "fs_faults (w_fs (ag_sys a)) = []"
     "ParseKey (f_data d) = Inr rpriv" "ParseKey (cfg_ControllerPubkey cfg) = Inr (pub (dp_ControllerPrivateKey dep))"
     "\<And>node. node_files env ?n ?t node \<Longrightarrow> nd_NodeID node = ?nid \<Longrightarrow> nd_IdentityPublicKey node = pub rpriv"
    using assms(11) by (auto simp: enrolled_def)
  have j: "e_http aenv = serve base" "e_w aenv \<in> {32, 64}" "box_law (pe_seal env) (e_open aenv) pub" "box_overhead (pe_seal env)"
    using assms(10) by (simp_all add: joined_def)
  obtain ids u where ids: "Nodes (pe_Dir env) ?n ?t = (Inr ids, u)" "?nid \<in> set ids"
    and n: "if ns = [] then \<exists>names t. Namespaces (pe_Dir env) ?t = (Inr names, t) \<and> ?n \<in> set names else ?n = ns"
    using assms(5) by (auto simp: round_scope_def)
  have "delivery env c ?n ?nid ?t now (dp_ControllerPrivateKey dep) (pv_sent s')"
    using publish_once_delivers [OF assms(1-3) n] assms(6, 7) ids by auto
  then obtain key v0 sent where key: "dht_Key ?n ?nid = Inr key"
    and sent: "prefix (sent @ put_requests c key v0) (pv_sent s')"
    by (rule deliveryE)
  have hex: "isHexKey key" by (rule dht_Key_hex [OF key])
  then have "put_request base key v0 \<in> set (put_requests c key v0)" using assms(8) by (simp add: put_requests_def)
  then have there: "put_request base key v0 \<in> set (pv_sent s')" using sent by (auto simp: prefix_def)
  obtain node k b nonce v earlier where p: "rev (posts base key (pv_sent s')) = put_payload v # earlier" "nd_NodeID node = ?nid"
    "node_files env ?n ?t node" "controller_key env ?n ?t k" "buildBundle (pe_width env) ?n node (now div 1000000000) = Inr b"
    "length nonce = nonceSize" "Seal (pe_seal env) (Some nonce) (marshal_bundle b) (nd_IdentityPublicKey node) k = Some v"
    using publish_once_posts [OF assms(1-4)] there key assms(9) by (rule last_post)
  have "controller_key env ?n ?t (dp_ControllerPrivateKey dep)" using ReadDeployment_key(1) [OF assms(6)] by simp
  then have k: "k = dp_ControllerPrivateKey dep" using p(4) by (rule controller_key_unique)
  have i: "nd_IdentityPublicKey node = pub rpriv" using ag(5) p(2, 3) by blast
  have "dial_New (e_url aenv) (cfg_Backend cfg) (cfg_Proxies cfg) = Inr c'" using assms(12) by (simp add: newBackend_def)
  then have caps: "c_maxLineSize c' = maxLineSize" "1 \<le> c_maxValues c'" using dial_New_caps by blast+
  have "length v \<le> 43008" by (rule sealed_size(1) [OF j(4) p(7, 6) buildBundle_Inr(3) [OF p(5)]])
  then have short: "length (put_payload v) \<le> c_maxLineSize c'" using sealed_payload caps(1) by simp
  have got: "Get (e_url aenv) (e_http aenv) c' key (ag_net a)
      = ((\<lparr>br_Values = [v], br_Skipped = 0, br_Dropped = 0, br_URL = base\<rparr>, None), ag_net a)"
    using fakeproxy_keeps_last [OF assms(13) hex caps(2) p(1) short] j(1) assms(14) by simp
  have w: "pe_width env \<in> {32, 64}" using assms(2) by (simp add: env_ok_def)
  have sel: "decryptAndSelect (e_w aenv) (e_open aenv) [v] (pub (dp_ControllerPrivateKey dep)) rpriv ?n ?nid
      = (Some (norm_bundle b), no_stats)"
    using select_single [OF built_acceptable [OF p(5) w j(2, 3) p(6)]] p(2, 7) i k by simp
  obtain f where f: "loadIdentityKey (cfg_IdentityKeyPath cfg) (w_fs (ag_sys a)) = (Inr rpriv, f)"
    using ag(1-3) by (auto simp: loadIdentityKey_def os_ReadFile_def syscall_def Let_def)
  let ?a = "a\<lparr>ag_sys := (ag_sys a)\<lparr>w_fs := f\<rparr>\<rparr>"
  have fetch: "fetch_bundle aenv cfg a = (Inr (Some (norm_bundle b)), ?a)" by (rule fetch_found [OF f ag(4) key assms(12) got sel])
  moreover have "same_sys (ag_sys a) (ag_sys ?a)" using fetch_bundle_sys [OF fetch] by blast
  moreover have "runFetchApply aenv cfg forceAll a = checkAndApply aenv cfg (norm_bundle b) forceAll ?a" for forceAll
    using fetch by (simp add: runFetchApply_def andThen_def)
  ultimately show ?thesis using p(2, 3, 5) by blast
qed

section \<open>The example tree and a router\<close>

definition ex_base_url :: string where
  "ex_base_url = ''https://dhtproxy2.jami.net''"

definition ex_pub :: "Key \<Rightarrow> Key" where
  "ex_pub _ = replicate 32 (CHR ''P'')"

definition ex_router_env :: "(unit, proxyStore) AEnv" where
  "ex_router_env = \<lparr>e_w = 32, e_url = pe_url ex_penv, e_http = serve ex_base_url, e_open = pad_open, e_runner = ex_run\<rparr>"

definition ex_router_cfg :: Config where
  "ex_router_cfg = ex_cfg\<lparr>cfg_ControllerPubkey := Key_String (replicate 32 (CHR ''P'')), cfg_Proxies := [ex_base_url]\<rparr>"

definition ex_router :: "Request list \<Rightarrow> (unit, proxyStore) Agent" where
  "ex_router reqs = \<lparr>ag_sys = ag_sys ex_agent, ag_net = serve_all ex_base_url reqs (newStore 0), ag_log = []\<rparr>"

lemma ex_round_scope: "round_scope ex_penv [] ex_tree = {(''ns'', ''alpha'')}"
proof -
  have "pe_Dir ex_penv = ''/p''" by (simp add: ex_penv_def)
  moreover obtain t u where "Namespaces ''/p'' ex_tree = (Inr [''ns''], t)" "Nodes ''/p'' ''ns'' ex_tree = (Inr [''alpha''], u)"
    using ex_namespaces ex_nodes by blast
  ultimately show ?thesis by (auto simp: round_scope_def)
qed

lemma ex_identity:
  assumes "node_files ex_penv ''ns'' ex_tree node" and "nd_NodeID node = ''alpha''"
  shows "nd_IdentityPublicKey node = replicate 32 (CHR ''P'')"
proof -
  have "pe_Dir ex_penv = ''/p''" by (simp add: ex_penv_def)
  moreover have "files_of ex_tree ''/p/ns/nodes/alpha/identity.pub'' = Some (ex_file (Key_String (replicate 32 (CHR ''P'')) @ [newline]))"
    by (simp add: ex_tree_def)
  ultimately show ?thesis
    using assms by (auto simp: node_files_def ex_paths(21) ex_node_paths ex_file_def ex_key_texts)
qed

lemma ex_joined: "joined ex_penv ex_router_env ex_pub ex_base_url"
  using pad_laws by (simp add: joined_def ex_router_env_def ex_penv_def)

lemma ex_enrolled: "enrolled ex_penv ex_tree ex_dep ex_router_cfg (w_fs (ag_sys (ex_router reqs))) ex_pub"
proof -
  have "ParseKey (Key_String (replicate 32 (CHR ''P''))) = Inr (replicate 32 (CHR ''P''))"
    using ParseKey_encoded [of "replicate 32 (CHR ''P'')" "[]" "[]"] by simp
  then show ?thesis
    unfolding enrolled_def
    by (intro exI [of _ "\<lparr>f_data = Key_String ex_key, f_mode = 384\<rparr>"] exI [of _ ex_key])
      (auto simp: ex_router_def ex_agent_def ex_router_cfg_def ex_cfg_sel ex_cfg_def ex_key_parses ex_pub_def intro: ex_identity)
qed

lemma ex_router_client:
  "newBackend ex_router_env ex_router_cfg = Inr \<lparr>c_baseURLs = [ex_base_url], c_maxValues = 64, c_maxLineSize = maxLineSize\<rparr>"
proof -
  have "trim_slash ex_base_url = ex_base_url" "ex_base_url \<noteq> []" by code_simp+
  then show ?thesis
    by (simp add: newBackend_def ex_router_env_def ex_router_cfg_def ex_cfg_def ex_penv_def dial_New_def NewClient_def defaultMaxValues_def)
qed

theorem published_reaches_agent_witness:
  "\<exists>s' b a'. publish_once ex_penv [] 5000000000 ex_publisher = (CmdExit 0, s')
    \<and> fetch_bundle ex_router_env ex_router_cfg (ex_router (pv_sent s')) = (Inr (Some (norm_bundle b)), a')
    \<and> same_sys (ag_sys ex_agent) (ag_sys a')"
proof -
  obtain s' where run: "publish_once ex_penv [] 5000000000 ex_publisher = (CmdExit 0, s')" using ex_publish_once by blast
  have d: "pe_Dir ex_penv = ''/p''" "pv_tree ex_publisher = ex_tree" "pv_sent ex_publisher = []"
    by (simp_all add: ex_penv_def ex_publisher_def ex_prov_def)
  have cfg: "cfg_Namespace ex_router_cfg = ''ns''" "cfg_NodeID ex_router_cfg = ''alpha''"
    by (simp_all add: ex_router_cfg_def ex_cfg_sel)
  obtain t where dep: "ReadDeployment (pe_yaml ex_penv) ''/p'' ''ns'' ex_tree = (Inr ex_dep, t)"
    using ex_deployment by (auto simp: ex_dep_def)
  have "ex_base_url \<in> set (c_baseURLs ex_proxies)"
    by (simp add: ex_base_url_def ex_proxies_def default_proxies_def)
  from published_reaches_agent [OF run ex_env_ok _ _ _ _ ex_backend this _ ex_joined _ ex_router_client,
      where a = "ex_router (pv_sent s')" and store = "newStore 0", unfolded d cfg]
  show ?thesis using run dep ex_enrolled ex_faults ex_round_scope by (fastforce simp: ex_router_def)
qed

end
